(* ===== verification/Prelude.thy ===== *)
theory Prelude
  imports Main "HOL-Library.Word" "HOL-Library.Monad_Syntax"
begin

text \<open>
  Shared vocabulary of the development: the C integer types as machine words, the fact
  collections the component theories add to, and the generic lemmas on searches in arrays,
  byte lists and words that several components use.

  A C array is a list of fixed length; the loops of the form
  \<^verbatim>\<open>for (i = 0; i < N; ++i) if (P(a[i])) return i;\<close> are \<open>find_index\<close>.
\<close>

unbundle bit_operations_syntax

type_synonym u8 = "8 word"
type_synonym u16 = "16 word"
type_synonym u32 = "32 word"
type_synonym u64 = "64 word"

named_theorems reg_simps \<open>register-level definitions and their evaluation rules\<close>
named_theorems inv_simps \<open>unfolding of component invariants\<close>
named_theorems inv_intros \<open>preservation of component invariants, one fact per operation\<close>

subsection \<open>First-match search in an array\<close>

fun find_index :: "('a \<Rightarrow> bool) \<Rightarrow> 'a list \<Rightarrow> nat option" where
  "find_index P [] = None"
| "find_index P (x # xs) = (if P x then Some 0 else map_option Suc (find_index P xs))"

lemma find_index_None_iff: "find_index P xs = None \<longleftrightarrow> (\<forall>x\<in>set xs. \<not> P x)"
  by (induction xs) auto

lemma find_index_SomeD:
  "find_index P xs = Some i \<Longrightarrow> i < length xs \<and> P (xs ! i) \<and> (\<forall>j<i. \<not> P (xs ! j))"
proof (induction xs arbitrary: i)
  case Nil
  then show ?case by simp
next
  case (Cons x xs)
  then show ?case
    by (cases i) (fastforce split: if_splits simp: less_Suc_eq_0_disj)+
qed

lemma find_index_less: "find_index P xs = Some i \<Longrightarrow> i < length xs"
  by (simp add: find_index_SomeD)

lemma find_index_hit: "find_index P xs = Some i \<Longrightarrow> P (xs ! i)"
  by (simp add: find_index_SomeD)

lemma find_index_first:
  assumes "i < length xs" "P (xs ! i)" "\<And>j. j < i \<Longrightarrow> \<not> P (xs ! j)"
  shows "find_index P xs = Some i"
  using assms
proof (induction xs arbitrary: i)
  case Nil
  then show ?case by simp
next
  case (Cons x xs)
  show ?case
  proof (cases i)
    case 0
    with Cons.prems show ?thesis by simp
  next
    case (Suc k)
    have "\<not> P x" using Cons.prems(3)[of 0] Suc by simp
    moreover have "find_index P xs = Some k"
      using Cons.prems(1,2) Cons.prems(3)[of "Suc _"] Suc by (intro Cons.IH) auto
    ultimately show ?thesis using Suc by simp
  qed
qed

lemma find_index_unique:
  assumes i: "i < length xs" "P (xs ! i)"
    and uniq: "\<And>j. j < length xs \<Longrightarrow> P (xs ! j) \<Longrightarrow> j = i"
  shows "find_index P xs = Some i"
proof (rule find_index_first[where P = P and i = i, OF i(1)], fact i(2))
  fix j
  assume "j < i"
  with uniq[of j] i(1) show "\<not> P (xs ! j)" by auto
qed

subsection \<open>Lists\<close>

lemma nth_list_update_if: "i < length xs \<Longrightarrow> xs[i := v] ! j = (if i = j then v else xs ! j)"
  by simp

lemma take_Suc_update: "i < length xs \<Longrightarrow> take (Suc i) (xs[i := v]) = take i xs @ [v]"
  by (simp add: take_Suc_conv_app_nth)

lemma drop_Cons_nth_conv: "drop n xs = x # ys \<Longrightarrow> n < length xs \<and> xs ! n = x \<and> drop (Suc n) xs = ys"
  by (metis drop_eq_Nil2 leI list.distinct(1) drop_Suc tl_drop list.sel(1,3) hd_drop_conv_nth)

subsection \<open>Loads and stores of a C buffer\<close>

text \<open>An access beyond the end of the object is \<open>None\<close>.\<close>

definition store_at :: "nat \<Rightarrow> 'a \<Rightarrow> 'a list \<Rightarrow> 'a list option" where
  "store_at i v buf = (if i < length buf then Some (buf[i := v]) else None)"

definition fetch :: "nat \<Rightarrow> 'a list \<Rightarrow> 'a option" where
  "fetch i buf = (if i < length buf then Some (buf ! i) else None)"

lemma fetch_Some [simp]: "i < length buf \<Longrightarrow> fetch i buf = Some (buf ! i)"
  by (simp add: fetch_def)

text \<open>The loop \<^verbatim>\<open>for (i = 0; i < n; ++i) buf[off + i] = src[i]\<close>.\<close>

primrec store_all :: "nat \<Rightarrow> 'a list \<Rightarrow> 'a list \<Rightarrow> 'a list option" where
  "store_all off [] buf = Some buf"
| "store_all off (v # vs) buf = Option.bind (store_at off v buf) (store_all (Suc off) vs)"

lemma store_at_append: "store_at (length pre) v (pre @ old # post) = Some (pre @ v # post)"
  by (simp add: store_at_def)

lemma store_all_append:
  "length old = length vs \<Longrightarrow> store_all (length pre) vs (pre @ old @ post) = Some (pre @ vs @ post)"
proof (induction vs arbitrary: pre old)
  case (Cons v vs)
  then obtain x old' where old: "old = x # old'" and len: "length old' = length vs"
    by (cases old) auto
  show ?case
    using Cons.IH[OF len, of "pre @ [v]"] by (simp add: old store_at_append)
qed simp

lemma store_all_None: "length buf < off + length vs \<Longrightarrow> vs \<noteq> [] \<Longrightarrow> store_all off vs buf = None"
proof (induction vs arbitrary: off buf)
  case (Cons v vs)
  then show ?case by (cases "vs = []") (auto simp: store_at_def)
qed simp

subsection \<open>Words\<close>

lemma unat_u8_less [simp]: "unat (b :: u8) < 256"
  using unsigned_less[of b, where 'a = nat] by simp

lemma unat_u16_less [simp]: "unat (b :: u16) < 65536"
  using unsigned_less[of b, where 'a = nat] by simp

lemma unat_ucast_u8_u16 [simp]: "unat (ucast (b :: u8) :: u16) = unat b"
  by (simp add: unsigned_ucast_eq take_bit_nat_eq_self_iff less_trans[OF unat_u8_less])

lemma unat_ucast_u8_u32 [simp]: "unat (ucast (b :: u8) :: u32) = unat b"
  by (simp add: unsigned_ucast_eq take_bit_nat_eq_self_iff less_trans[OF unat_u8_less])

lemma unat_word_of_nat_small:
  "i < 2 ^ LENGTH('a) \<Longrightarrow> unat (word_of_nat i :: 'a::len word) = i"
  by (simp add: unsigned_of_nat take_bit_nat_eq_self)

lemma word_of_nat_inj_less:
  assumes "i < 2 ^ LENGTH('a)" "j < 2 ^ LENGTH('a)"
  shows "(word_of_nat i :: 'a::len word) = word_of_nat j \<longleftrightarrow> i = j"
proof
  assume "(word_of_nat i :: 'a word) = word_of_nat j"
  then have "unat (word_of_nat i :: 'a word) = unat (word_of_nat j :: 'a word)"
    by (rule arg_cong)
  then show "i = j"
    by (simp only: unat_word_of_nat_small[OF assms(1)] unat_word_of_nat_small[OF assms(2)])
qed simp

lemma word_one_le_iff: "1 \<le> x \<longleftrightarrow> x \<noteq> (0 :: 'a::len word)"
  by (simp add: word_le_nat_alt Suc_le_eq unat_gt_0)

lemma bit_u8D: "bit (b :: u8) n \<Longrightarrow> n < 8"
  using bit_imp_le_length[of b n] by simp

lemma word_xor_eq_0_iff: "x XOR y = 0 \<longleftrightarrow> x = (y :: 'a::len word)"
proof
  assume "x XOR y = 0"
  then have "(x XOR y) XOR y = y" by simp
  then show "x = y" by (simp add: xor.assoc)
qed simp

lemma word_xor_left_cancel: "z XOR x = z XOR y \<longleftrightarrow> x = (y :: 'a::len word)"
proof
  assume "z XOR x = z XOR y"
  then have "z XOR (z XOR x) = z XOR (z XOR y)" by simp
  then show "x = y" by (simp flip: xor.assoc)
qed simp

end
