(* ===== verification/Shared.thy ===== *)
theory Shared
  imports Prelude
begin

text \<open>
  The headers every firmware module includes: the status codes of
  \<^verbatim>\<open>shared/inc/err_codes.h\<close>, the byte-order helpers of \<^verbatim>\<open>shared/inc/helpers.h\<close>, and the
  wire constants of \<^verbatim>\<open>protocol/inc/protocol.h\<close>.

  A pointer argument to a byte buffer is the list of the bytes from that address to the end
  of the object it points into, so that a read beyond the object is \<open>None\<close>.
\<close>

subsection \<open>Status codes (err\_codes.h)\<close>

datatype err_code =
    ERR_SUCCESS | ERR_UNKNOWN_CMD | ERR_MALFORMED_PAYLOAD | ERR_BAD_CRC | ERR_UNSUPPORTED
  | ERR_OUT_OF_RESOURCES | ERR_INVALID_SENSOR_ID | ERR_INVALID_PARAMETER
  | ERR_PERIPHERAL_BUSY | ERR_PIN_CONFLICT | ERR_NOT_IMPLEMENTED | ERR_INTERNAL
  | ERR_TIMEOUT | ERR_EMPTY
  | ERR_I2C_NO_FREE_PERIPHERAL | ERR_I2C_CLOCK_UNSUPPORTED | ERR_I2C_ADDR_CONFLICT
  | ERR_I2C_ADDR_RESERVED | ERR_I2C_REGMAP_TOO_LARGE | ERR_I2C_BAD_ADDR_MODE
  | ERR_I2C_REGISTER_OOB | ERR_I2C_STRETCH_EXCEEDS_BUS | ERR_I2C_SMBUS_REQUIRED
  | ERR_I2C_UNSUPPORTED
  | ERR_PWM_FREQ_CONFLICT | ERR_PWM_CHANNEL_IN_USE
  | ERR_DAC_PIN_MISMATCH | ERR_DAC_CLOCK_MISMATCH | ERR_DAC_CHANNEL_IN_USE

text \<open>The enumerator values, which are the bytes sent in RSP\_ACK.\<close>

fun err_byte :: "err_code \<Rightarrow> u8" where
  "err_byte ERR_SUCCESS = 0x00"
| "err_byte ERR_UNKNOWN_CMD = 0x01"
| "err_byte ERR_MALFORMED_PAYLOAD = 0x02"
| "err_byte ERR_BAD_CRC = 0x03"
| "err_byte ERR_UNSUPPORTED = 0x04"
| "err_byte ERR_OUT_OF_RESOURCES = 0x05"
| "err_byte ERR_INVALID_SENSOR_ID = 0x06"
| "err_byte ERR_INVALID_PARAMETER = 0x07"
| "err_byte ERR_PERIPHERAL_BUSY = 0x08"
| "err_byte ERR_PIN_CONFLICT = 0x09"
| "err_byte ERR_NOT_IMPLEMENTED = 0x0A"
| "err_byte ERR_INTERNAL = 0x0B"
| "err_byte ERR_TIMEOUT = 0x0C"
| "err_byte ERR_EMPTY = 0x0D"
| "err_byte ERR_I2C_NO_FREE_PERIPHERAL = 0x40"
| "err_byte ERR_I2C_CLOCK_UNSUPPORTED = 0x41"
| "err_byte ERR_I2C_ADDR_CONFLICT = 0x42"
| "err_byte ERR_I2C_ADDR_RESERVED = 0x43"
| "err_byte ERR_I2C_REGMAP_TOO_LARGE = 0x44"
| "err_byte ERR_I2C_BAD_ADDR_MODE = 0x45"
| "err_byte ERR_I2C_REGISTER_OOB = 0x46"
| "err_byte ERR_I2C_STRETCH_EXCEEDS_BUS = 0x47"
| "err_byte ERR_I2C_SMBUS_REQUIRED = 0x48"
| "err_byte ERR_I2C_UNSUPPORTED = 0x49"
| "err_byte ERR_PWM_FREQ_CONFLICT = 0x60"
| "err_byte ERR_PWM_CHANNEL_IN_USE = 0x61"
| "err_byte ERR_DAC_PIN_MISMATCH = 0x80"
| "err_byte ERR_DAC_CLOCK_MISMATCH = 0x81"
| "err_byte ERR_DAC_CHANNEL_IN_USE = 0x82"

text \<open>
  The inverse table: which code a response byte stands for. Distinct codes have distinct
  bytes, so the peer can recover the code.
\<close>

definition all_err_codes :: "err_code list" where
  "all_err_codes =
     [ERR_SUCCESS, ERR_UNKNOWN_CMD, ERR_MALFORMED_PAYLOAD, ERR_BAD_CRC, ERR_UNSUPPORTED,
      ERR_OUT_OF_RESOURCES, ERR_INVALID_SENSOR_ID, ERR_INVALID_PARAMETER,
      ERR_PERIPHERAL_BUSY, ERR_PIN_CONFLICT, ERR_NOT_IMPLEMENTED, ERR_INTERNAL,
      ERR_TIMEOUT, ERR_EMPTY, ERR_I2C_NO_FREE_PERIPHERAL, ERR_I2C_CLOCK_UNSUPPORTED,
      ERR_I2C_ADDR_CONFLICT, ERR_I2C_ADDR_RESERVED, ERR_I2C_REGMAP_TOO_LARGE,
      ERR_I2C_BAD_ADDR_MODE, ERR_I2C_REGISTER_OOB, ERR_I2C_STRETCH_EXCEEDS_BUS,
      ERR_I2C_SMBUS_REQUIRED, ERR_I2C_UNSUPPORTED, ERR_PWM_FREQ_CONFLICT,
      ERR_PWM_CHANNEL_IN_USE, ERR_DAC_PIN_MISMATCH, ERR_DAC_CLOCK_MISMATCH,
      ERR_DAC_CHANNEL_IN_USE]"

definition err_of_byte :: "u8 \<Rightarrow> err_code option" where
  "err_of_byte b = List.find (\<lambda>e. err_byte e = b) all_err_codes"

lemma err_of_byte_err_byte [simp]: "err_of_byte (err_byte e) = Some e"
  by (cases e) (simp_all add: err_of_byte_def all_err_codes_def)

lemma err_byte_inj: "err_byte e = err_byte e' \<longleftrightarrow> e = e'"
  by (metis err_of_byte_err_byte option.inject)

lemma err_byte_zero_iff [simp]: "err_byte e = 0 \<longleftrightarrow> e = ERR_SUCCESS"
  using err_byte_inj[of e ERR_SUCCESS] by simp

subsection \<open>Byte-order helpers (helpers.h)\<close>

fun read_u16_le :: "u8 list \<Rightarrow> u16 option" where
  "read_u16_le (d0 # d1 # _) = Some (ucast d0 OR push_bit 8 (ucast d1))"
| "read_u16_le _ = None"

fun read_u32_le :: "u8 list \<Rightarrow> u32 option" where
  "read_u32_le (d0 # d1 # d2 # d3 # _) =
     Some (ucast d0 OR push_bit 8 (ucast d1) OR push_bit 16 (ucast d2) OR push_bit 24 (ucast d3))"
| "read_u32_le _ = None"

text \<open>The four bytes \<open>write_u32_be\<close> stores at \<open>out[0..3]\<close>.\<close>

definition write_u32_be :: "u32 \<Rightarrow> u8 list" where
  "write_u32_be v = [ucast (drop_bit 24 v), ucast (drop_bit 16 v), ucast (drop_bit 8 v), ucast v]"

text \<open>The little-endian encodings the peer sends.\<close>

definition u16_le :: "u16 \<Rightarrow> u8 list" where
  "u16_le v = [ucast v, ucast (drop_bit 8 v)]"

definition u32_le :: "u32 \<Rightarrow> u8 list" where
  "u32_le v = [ucast v, ucast (drop_bit 8 v), ucast (drop_bit 16 v), ucast (drop_bit 24 v)]"

lemma ucast_byte_u32 [simp]: "ucast (ucast (b :: u8) :: u32) = b"
  by (rule bit_word_eqI) (simp add: bit_simps)

lemma u16_halves: "ucast (ucast v :: u8) OR push_bit 8 (ucast (ucast (drop_bit 8 v) :: u8)) = (v :: u16)"
  by (rule bit_word_eqI) (auto simp: bit_simps)

lemma read_u16_le_u16_le: "read_u16_le (u16_le v @ rest) = Some v"
  by (simp add: u16_le_def u16_halves)

lemma read_u32_le_u32_le: "read_u32_le (u32_le v @ rest) = Some v"
proof -
  have "ucast (ucast v :: u8) OR push_bit 8 (ucast (ucast (drop_bit 8 v) :: u8))
          OR push_bit 16 (ucast (ucast (drop_bit 16 v) :: u8))
          OR push_bit 24 (ucast (ucast (drop_bit 24 v) :: u8)) = v" (is "?w = v")
  proof (rule bit_word_eqI)
    fix n
    assume "n < LENGTH(32)"
    then show "bit ?w n = bit v n"
      by (cases "24 \<le> n"; cases "16 \<le> n") (auto simp: bit_simps)
  qed
  then show ?thesis by (simp add: u32_le_def)
qed

lemma read_u16_le_Some: "2 \<le> length bs \<Longrightarrow> \<exists>v. read_u16_le bs = Some v"
  by (cases bs rule: read_u16_le.cases) auto

lemma read_u32_le_Some: "4 \<le> length bs \<Longrightarrow> \<exists>v. read_u32_le bs = Some v"
  by (cases bs rule: read_u32_le.cases) auto

lemma read_u16_le_app: "read_u16_le xs = Some v \<Longrightarrow> read_u16_le (xs @ ys) = Some v"
  by (cases xs rule: read_u16_le.cases) auto

subsection \<open>Wire constants (protocol.h)\<close>

abbreviation (input) PROTO_START_BYTE :: u8 where "PROTO_START_BYTE \<equiv> 0xAA"
abbreviation (input) PROTO_HEADER_SIZE :: nat where "PROTO_HEADER_SIZE \<equiv> 5"
abbreviation (input) PROTO_OFFSET_START :: nat where "PROTO_OFFSET_START \<equiv> 0"
abbreviation (input) PROTO_OFFSET_TYPE :: nat where "PROTO_OFFSET_TYPE \<equiv> 1"
abbreviation (input) PROTO_OFFSET_LEN_LO :: nat where "PROTO_OFFSET_LEN_LO \<equiv> 2"
abbreviation (input) PROTO_OFFSET_LEN_HI :: nat where "PROTO_OFFSET_LEN_HI \<equiv> 3"
abbreviation (input) PROTO_OFFSET_SEQ :: nat where "PROTO_OFFSET_SEQ \<equiv> 4"
abbreviation (input) PROTO_OFFSET_PAYLOAD :: nat where "PROTO_OFFSET_PAYLOAD \<equiv> 5"
abbreviation (input) PROTO_CRC_SIZE :: nat where "PROTO_CRC_SIZE \<equiv> 2"
abbreviation (input) PROTO_FRAME_OVERHEAD :: nat where "PROTO_FRAME_OVERHEAD \<equiv> 7"
abbreviation (input) PROTO_MAX_PAYLOAD :: nat where "PROTO_MAX_PAYLOAD \<equiv> 256"

abbreviation (input) PROTO_TYPE_CMD_SETUP_SENSOR :: u8 where "PROTO_TYPE_CMD_SETUP_SENSOR \<equiv> 0x01"
abbreviation (input) PROTO_TYPE_CMD_SET_OUTPUT :: u8 where "PROTO_TYPE_CMD_SET_OUTPUT \<equiv> 0x02"
abbreviation (input) PROTO_TYPE_CMD_STOP_SENSOR :: u8 where "PROTO_TYPE_CMD_STOP_SENSOR \<equiv> 0x03"
abbreviation (input) PROTO_TYPE_CMD_SCENARIO :: u8 where "PROTO_TYPE_CMD_SCENARIO \<equiv> 0x04"
abbreviation (input) PROTO_TYPE_CMD_SYNC :: u8 where "PROTO_TYPE_CMD_SYNC \<equiv> 0x05"
abbreviation (input) PROTO_TYPE_RSP_ACK :: u8 where "PROTO_TYPE_RSP_ACK \<equiv> 0x10"
abbreviation (input) PROTO_TYPE_RSP_ERROR :: u8 where "PROTO_TYPE_RSP_ERROR \<equiv> 0x11"

abbreviation (input) PROTO_ID_NONE :: u8 where "PROTO_ID_NONE \<equiv> 0x00"
abbreviation (input) PROTO_ID_I2C :: u8 where "PROTO_ID_I2C \<equiv> 0x01"
abbreviation (input) PROTO_ID_SPI :: u8 where "PROTO_ID_SPI \<equiv> 0x02"
abbreviation (input) PROTO_ID_DIGITAL_OUT :: u8 where "PROTO_ID_DIGITAL_OUT \<equiv> 0x03"
abbreviation (input) PROTO_ID_DAC :: u8 where "PROTO_ID_DAC \<equiv> 0x05"
abbreviation (input) PROTO_ID_PWM :: u8 where "PROTO_ID_PWM \<equiv> 0x06"

abbreviation (input) PROTO_SENSOR_ID_NONE :: u8 where "PROTO_SENSOR_ID_NONE \<equiv> 0x00"
abbreviation (input) PROTO_SENSOR_ID_MIN :: u8 where "PROTO_SENSOR_ID_MIN \<equiv> 0x01"
abbreviation (input) PROTO_SENSOR_ID_MAX :: u8 where "PROTO_SENSOR_ID_MAX \<equiv> 0xFF"

abbreviation (input) RSP_ACK_PAYLOAD_SIZE :: nat where "RSP_ACK_PAYLOAD_SIZE \<equiv> 3"
abbreviation (input) RSP_ERROR_PAYLOAD_SIZE :: nat where "RSP_ERROR_PAYLOAD_SIZE \<equiv> 2"

text \<open>A 16-bit length check against header plus payload, when the sum does not wrap.\<close>

lemma u16_header_fits:
  assumes "\<not> cfg_len < hdr + n" "unat hdr + unat n < 65536"
  shows "unat hdr + unat n \<le> unat (cfg_len :: u16)"
proof -
  have "unat (hdr + n) = unat hdr + unat n" using assms(2) by (simp add: unat_word_ariths)
  with assms(1) show ?thesis by (simp add: word_less_nat_alt)
qed

end
