(* ===== verification/Mcu.thy ===== *)
theory Mcu
  imports Shared
begin

text \<open>
  The memory-mapped registers the firmware writes. The device header of CMSIS is not part of
  the repository, so the values of its bit masks are a parameter: every register-level
  definition takes a record \<open>M :: cmsis\<close> of them, and what a theorem needs of it is a
  named hypothesis.

  A store to a volatile register is \<open>wr\<close>: it sets the register and appends an event to the
  trace, which is the sequence of accesses and calls in program order that hardware and kernel
  see. A configuration register read back (as in \<^verbatim>\<open>reg |= mask\<close>) has the value last stored.
  Status registers and received data are inputs of the interrupt handlers, not state; a read
  that matters for its side effect only is the event \<open>Rd\<close>. Calls into CMSIS (NVIC) and FreeRTOS whose result the firmware ignores are events too.
\<close>

subsection \<open>Names\<close>

datatype gpio_handle = GPIOA | GPIOB | GPIOC | GPIOD | GPIOE | GPIOH
datatype gpio_reg = MODER | OSPEEDR | PUPDR | OTYPER | AFR0 | AFR1 | ODR | BSRR

datatype tim_handle = TIM2 | TIM3 | TIM4 | TIM5 | TIM9 | TIM10 | TIM11
datatype tim_reg = TIM_CR1 | TIM_DIER | TIM_SR | TIM_EGR | TIM_CNT | TIM_PSC | TIM_ARR
  | TIM_CCMR1 | TIM_CCMR2 | TIM_CCER | TIM_CCR1 | TIM_CCR2 | TIM_CCR3 | TIM_CCR4

datatype usart_reg = USART_BRR | USART_CR1 | USART_DR

datatype spi_handle = SPI1 | SPI2
datatype spi_reg = SPI_CR1 | SPI_CR2 | SPI_DR | SPI_SR

datatype i2c_handle = I2C1 | I2C2 | I2C3
datatype i2c_reg = I2C_CR1 | I2C_CR2 | I2C_CCR | I2C_TRISE | I2C_OAR1 | I2C_OAR2 | I2C_DR | I2C_SR1
  | I2C_SR2

datatype reg =
    RCC_AHB1ENR | RCC_APB1ENR | RCC_APB2ENR
  | RCC_CR | RCC_CFGR | RCC_PLLCFGR | PWR_CR | FLASH_ACR
  | GPIO gpio_handle gpio_reg
  | TIM tim_handle tim_reg
  | USART1 usart_reg
  | SPI spi_handle spi_reg
  | I2C i2c_handle i2c_reg

datatype irq = TIM2_IRQn | TIM3_IRQn | TIM4_IRQn | TIM5_IRQn | TIM1_BRK_TIM9_IRQn
  | TIM1_UP_TIM10_IRQn | TIM1_TRG_COM_TIM11_IRQn | USART1_IRQn | SPI1_IRQn | SPI2_IRQn
  | I2C1_EV_IRQn | I2C1_ER_IRQn | I2C2_EV_IRQn | I2C2_ER_IRQn | I2C3_EV_IRQn | I2C3_ER_IRQn

text \<open>The CMSIS bit masks the sources name, per peripheral, and the parameter that gives them.\<close>

datatype rcc_mask =
    RCC_AHB1ENR_GPIOAEN | RCC_AHB1ENR_GPIOBEN | RCC_AHB1ENR_GPIOCEN | RCC_AHB1ENR_GPIODEN
  | RCC_AHB1ENR_GPIOEEN | RCC_AHB1ENR_GPIOHEN
  | RCC_APB1ENR_TIM2EN | RCC_APB1ENR_TIM3EN | RCC_APB1ENR_TIM4EN | RCC_APB1ENR_TIM5EN
  | RCC_APB1ENR_SPI2EN | RCC_APB1ENR_I2C1EN | RCC_APB1ENR_I2C2EN | RCC_APB1ENR_I2C3EN
  | RCC_APB2ENR_TIM9EN | RCC_APB2ENR_TIM10EN | RCC_APB2ENR_TIM11EN | RCC_APB2ENR_SPI1EN
  | RCC_APB2ENR_USART1EN

datatype tim_mask =
    TIM_CR1_CEN | TIM_CR1_OPM | TIM_CR1_URS | TIM_CR1_ARPE | TIM_EGR_UG | TIM_DIER_UIE
  | TIM_SR_UIF
  | TIM_CCMR1_OC1M | TIM_CCMR1_OC1M_1 | TIM_CCMR1_OC1M_2 | TIM_CCMR1_OC1PE
  | TIM_CCMR1_OC2M | TIM_CCMR1_OC2M_1 | TIM_CCMR1_OC2M_2 | TIM_CCMR1_OC2PE
  | TIM_CCMR2_OC3M | TIM_CCMR2_OC3M_1 | TIM_CCMR2_OC3M_2 | TIM_CCMR2_OC3PE
  | TIM_CCMR2_OC4M | TIM_CCMR2_OC4M_1 | TIM_CCMR2_OC4M_2 | TIM_CCMR2_OC4PE
  | TIM_CCER_CC1E | TIM_CCER_CC2E | TIM_CCER_CC3E | TIM_CCER_CC4E

datatype usart_mask =
    USART_CR1_TE | USART_CR1_RE | USART_CR1_RXNEIE | USART_CR1_UE | USART_CR1_TXEIE
  | USART_SR_RXNE | USART_SR_ORE | USART_SR_TXE

datatype spi_mask =
    SPI_CR1_CPOL | SPI_CR1_CPHA | SPI_CR1_MSTR | SPI_CR1_SSM | SPI_CR1_SSI | SPI_CR1_SPE
  | SPI_CR2_TXEIE | SPI_CR2_RXNEIE | SPI_SR_RXNE | SPI_SR_TXE

datatype i2c_mask =
    I2C_CR1_PE | I2C_CR1_SWRST | I2C_CR1_ACK | I2C_CR1_NOSTRETCH | I2C_CR1_ENGC
  | I2C_CR2_ITEVTEN | I2C_CR2_ITERREN | I2C_CR2_ITBUFEN | I2C_CCR_FS
  | I2C_OAR1_ADDMODE | I2C_OAR2_ENDUAL
  | I2C_SR1_ADDR | I2C_SR1_RXNE | I2C_SR1_TXE | I2C_SR1_BTF | I2C_SR1_STOPF | I2C_SR2_TRA

datatype clk_mask =
    RCC_APB1ENR_PWREN | PWR_CR_VOS_1 | RCC_CR_HSEON | RCC_CR_HSERDY | RCC_CR_PLLON | RCC_CR_PLLRDY
  | FLASH_ACR_LATENCY_2WS | FLASH_ACR_ICEN | FLASH_ACR_DCEN | FLASH_ACR_PRFTEN
  | RCC_PLLCFGR_PLLSRC_HSE | RCC_PLLCFGR_PLLSRC_HSI
  | RCC_CFGR_PPRE1_DIV2 | RCC_CFGR_SW_PLL | RCC_CFGR_SWS | RCC_CFGR_SWS_PLL

record cmsis =
  rccm :: "rcc_mask \<Rightarrow> u32"
  timm :: "tim_mask \<Rightarrow> u32"
  usartm :: "usart_mask \<Rightarrow> u32"
  spim :: "spi_mask \<Rightarrow> u32"
  i2cm :: "i2c_mask \<Rightarrow> u32"
  SPI_CR1_BR_Pos :: nat
  clkm :: "clk_mask \<Rightarrow> u32"
  PLLM_Pos :: nat
  PLLN_Pos :: nat
  PLLP_Pos :: nat
  PLLQ_Pos :: nat

subsection \<open>The machine\<close>

text \<open>The FreeRTOS timer callbacks the firmware registers.\<close>

datatype timer_cb = CB_sw_timer_callback

text \<open>\<open>XTimerCreate\<close> has the arguments of the call: name, period, auto-reload flag, timer id and callback.\<close>

datatype hw_event =
    Wr reg u32
  | Rd reg
  | NVIC_SetPriority irq u32
  | NVIC_EnableIRQ irq
  | NVIC_DisableIRQ irq
  | TaskNotifyGiveFromISR nat
  | XTimerCreate string u32 bool u8 timer_cb
  | XTimerStop nat
  | XTimerDelete nat
  | XTimerChangePeriod nat u32
  | XTimerStart nat
  | XSemaphoreCreateBinary
  | VSemaphoreDelete nat
  | XSemaphoreGiveFromISR nat
  | XSemaphoreTake nat u32
  | XTaskCreate string u32 u32
  | VTaskDelay u32
  | UlTaskNotifyTake
  | SystemCoreClockUpdate
  | VTaskStartScheduler
  | Disable_irq

record mcu =
  regs :: "reg \<Rightarrow> u32"
  trace :: "hw_event list"

definition wr :: "reg \<Rightarrow> u32 \<Rightarrow> mcu \<Rightarrow> mcu" where
  "wr r v m = m\<lparr>regs := (regs m)(r := v), trace := trace m @ [Wr r v]\<rparr>"

definition emit :: "hw_event \<Rightarrow> mcu \<Rightarrow> mcu" where
  "emit e m = m\<lparr>trace := trace m @ [e]\<rparr>"

text \<open>\<^verbatim>\<open>reg |= v\<close> and \<^verbatim>\<open>reg &= ~v\<close>.\<close>

definition reg_or :: "reg \<Rightarrow> u32 \<Rightarrow> mcu \<Rightarrow> mcu" where
  "reg_or r v m = wr r (regs m r OR v) m"

definition reg_clear :: "reg \<Rightarrow> u32 \<Rightarrow> mcu \<Rightarrow> mcu" where
  "reg_clear r v m = wr r (regs m r AND NOT v) m"

lemma regs_wr [simp]: "regs (wr r v m) = (regs m)(r := v)"
  and trace_wr [simp]: "trace (wr r v m) = trace m @ [Wr r v]"
  by (simp_all add: wr_def)

lemma regs_emit [simp]: "regs (emit e m) = regs m"
  and trace_emit [simp]: "trace (emit e m) = trace m @ [e]"
  by (simp_all add: emit_def)

lemma regs_reg_or [simp]: "regs (reg_or r v m) = (regs m)(r := regs m r OR v)"
  and trace_reg_or [simp]: "trace (reg_or r v m) = trace m @ [Wr r (regs m r OR v)]"
  by (simp_all add: reg_or_def)

lemma regs_reg_clear [simp]: "regs (reg_clear r v m) = (regs m)(r := regs m r AND NOT v)"
  and trace_reg_clear [simp]: "trace (reg_clear r v m) = trace m @ [Wr r (regs m r AND NOT v)]"
  by (simp_all add: reg_clear_def)

lemma or_and_absorb: "(x OR a) AND a = (a :: u32)"
  by (rule bit_word_eqI) (auto simp: bit_simps)

text \<open>The values stored to one register, in order.\<close>

fun event_write :: "reg \<Rightarrow> hw_event \<Rightarrow> u32 option" where
  "event_write r (Wr r' v) = (if r = r' then Some v else None)"
| "event_write r _ = None"

definition writes_to :: "reg \<Rightarrow> hw_event list \<Rightarrow> u32 list" where
  "writes_to r es = List.map_filter (event_write r) es"

lemma writes_to_Nil [simp]: "writes_to r [] = []"
  by (simp add: writes_to_def)

lemma writes_to_Cons [simp]:
  "writes_to r (e # es) = (case event_write r e of None \<Rightarrow> [] | Some v \<Rightarrow> [v]) @ writes_to r es"
  by (simp add: writes_to_def split: option.splits)

lemma writes_to_append [simp]: "writes_to r (xs @ ys) = writes_to r xs @ writes_to r ys"
  by (induction xs) simp_all

subsection \<open>The kernel\<close>

text \<open>
  FreeRTOS is not part of the repository. What a handler learns from it is a parameter: the
  conversion macro \<open>pdMS_TO_TICKS\<close>, and the answers to the timer and semaphore calls whose result
  the code looks at; a new timer or semaphore depends on those that are live (\<open>None\<close> for a free handle). The calls themselves are events. A handle is a number; \<open>None\<close> is NULL.
\<close>

record rtos =
  pdMS_TO_TICKS :: "u32 \<Rightarrow> u32"
  xTimerCreate_ret :: "(nat \<rightharpoonup> u8) \<Rightarrow> nat option"
  xTimerStart_pass :: bool
  xSemaphoreCreateBinary_ret :: "(nat \<rightharpoonup> bool) \<Rightarrow> nat option"

subsection \<open>Example masks\<close>

text \<open>
  Bit positions of one device of the family, used only to show that the hypotheses on the mask
  parameter can hold; no definition of the model refers to them.
\<close>

fun example_usart :: "usart_mask \<Rightarrow> u32" where
  "example_usart USART_CR1_TE = 0x8"
| "example_usart USART_CR1_RE = 0x4"
| "example_usart USART_CR1_RXNEIE = 0x20"
| "example_usart USART_CR1_UE = 0x2000"
| "example_usart USART_CR1_TXEIE = 0x80"
| "example_usart USART_SR_RXNE = 0x20"
| "example_usart USART_SR_ORE = 0x8"
| "example_usart USART_SR_TXE = 0x80"

fun example_i2c :: "i2c_mask \<Rightarrow> u32" where
  "example_i2c I2C_SR1_ADDR = 0x2"
| "example_i2c I2C_SR1_BTF = 0x4"
| "example_i2c I2C_SR1_STOPF = 0x10"
| "example_i2c I2C_SR1_RXNE = 0x40"
| "example_i2c I2C_SR1_TXE = 0x80"
| "example_i2c I2C_SR2_TRA = 0x4"
| "example_i2c _ = 1"

fun example_spi :: "spi_mask \<Rightarrow> u32" where
  "example_spi SPI_SR_RXNE = 0x1"
| "example_spi SPI_SR_TXE = 0x2"
| "example_spi SPI_CR2_RXNEIE = 0x40"
| "example_spi SPI_CR2_TXEIE = 0x80"
| "example_spi SPI_CR1_CPHA = 0x1"
| "example_spi SPI_CR1_CPOL = 0x2"
| "example_spi SPI_CR1_MSTR = 0x4"
| "example_spi SPI_CR1_SPE = 0x40"
| "example_spi SPI_CR1_SSI = 0x100"
| "example_spi SPI_CR1_SSM = 0x200"

fun example_clk :: "clk_mask \<Rightarrow> u32" where
  "example_clk RCC_CR_HSEON = 0x10000"
| "example_clk RCC_CR_HSERDY = 0x20000"
| "example_clk RCC_CR_PLLON = 0x1000000"
| "example_clk RCC_CR_PLLRDY = 0x2000000"
| "example_clk RCC_PLLCFGR_PLLSRC_HSE = 0x400000"
| "example_clk RCC_PLLCFGR_PLLSRC_HSI = 0"
| "example_clk FLASH_ACR_LATENCY_2WS = 2"
| "example_clk FLASH_ACR_PRFTEN = 0x100"
| "example_clk FLASH_ACR_ICEN = 0x200"
| "example_clk FLASH_ACR_DCEN = 0x400"
| "example_clk RCC_CFGR_SW_PLL = 2"
| "example_clk RCC_CFGR_SWS = 0xC"
| "example_clk RCC_CFGR_SWS_PLL = 8"
| "example_clk RCC_CFGR_PPRE1_DIV2 = 0x1000"
| "example_clk RCC_APB1ENR_PWREN = 0x10000000"
| "example_clk PWR_CR_VOS_1 = 0x8000"

definition example_masks :: cmsis where
  "example_masks = \<lparr>rccm = (\<lambda>_. 1), timm = (\<lambda>_. 1), usartm = example_usart,
     spim = example_spi, i2cm = example_i2c, SPI_CR1_BR_Pos = 3, clkm = example_clk,
     PLLM_Pos = 0, PLLN_Pos = 6, PLLP_Pos = 16, PLLQ_Pos = 24\<rparr>"

definition mcu_reset :: mcu where
  "mcu_reset = \<lparr>regs = (\<lambda>_. 0), trace = []\<rparr>"

end
