(* ===== verification/Gpio.thy ===== *)
theory Gpio
  imports Mcu
begin

text \<open>
  \<^verbatim>\<open>drivers/gpio\<close>: the register macros of \<^verbatim>\<open>gpio_regs.h\<close> and the functions of \<^verbatim>\<open>gpio.c\<close>.
  A failed \<^verbatim>\<open>assert\<close> is \<open>None\<close>. The values of \<open>gpio_port_t\<close> are kept as the byte they are cast
  from, so that the range checks of the code are visible. A pin number above 15, for which a
  shift in the macros would be undefined in C, cannot come out of \<open>gpio_make_pin\<close>.

  What the lemmas show: each macro writes the field of its own pin and leaves the fields of
  the other fifteen pins of the port alone, so the configuration calls of different sensors
  do not interfere.
\<close>

subsection \<open>Fields of a register\<close>

text \<open>
  \<open>set_field w i v r\<close> is the value a macro \<^verbatim>\<open>reg &= ~(mask << pos); reg |= v << pos\<close> leaves in a
  register that held \<open>r\<close>, for the \<open>i\<close>-th field of \<open>w\<close> bits; \<open>get_field\<close> reads it back.
\<close>

definition set_field :: "nat \<Rightarrow> nat \<Rightarrow> u32 \<Rightarrow> u32 \<Rightarrow> u32" where
  "set_field w i v r = (r AND NOT (push_bit (i * w) (mask w))) OR push_bit (i * w) v"

definition get_field :: "nat \<Rightarrow> nat \<Rightarrow> u32 \<Rightarrow> u32" where
  "get_field w i r = take_bit w (drop_bit (i * w) r)"

lemma bit_get_field: "bit (get_field w i r) n \<longleftrightarrow> n < w \<and> bit r (i * w + n)"
  by (auto simp: get_field_def bit_take_bit_iff bit_drop_bit_eq)

lemma bit_set_field:
  "bit (set_field w i v r) n \<longleftrightarrow> n < 32 \<and>
     ((bit r n \<and> (n < i * w \<or> i * w + w \<le> n)) \<or> (i * w \<le> n \<and> bit v (n - i * w)))"
  by (auto simp: set_field_def bit_or_iff bit_and_iff bit_not_iff bit_push_bit_iff bit_mask_iff
      dest: bit_imp_le_length)

lemma get_set_field_same:
  assumes "take_bit w v = v" "(i + 1) * w \<le> 32"
  shows "get_field w i (set_field w i v r) = v"
proof (rule bit_word_eqI)
  fix n
  assume "n < LENGTH(32)"
  have "n < w" if "bit v n"
    using that by (subst (asm) assms(1)[symmetric]) (simp add: bit_take_bit_iff)
  then show "bit (get_field w i (set_field w i v r)) n = bit v n"
    using assms(2) by (auto simp: bit_get_field bit_set_field)
qed

lemma get_set_field_other:
  assumes "take_bit w v = v" "i \<noteq> j" "(i + 1) * w \<le> 32" "(j + 1) * w \<le> 32"
  shows "get_field w j (set_field w i v r) = get_field w j r"
proof (rule bit_word_eqI)
  fix n
  assume "n < LENGTH(32)"
  have v: "k < w" if "bit v k" for k
    using that by (subst (asm) assms(1)[symmetric]) (simp add: bit_take_bit_iff)
  have sep: "j * w + n < i * w \<or> i * w + w \<le> j * w + n" if "n < w"
  proof (cases "i < j")
    case True
    then have "(i + 1) * w \<le> j * w" by (intro mult_right_mono) auto
    then show ?thesis by simp
  next
    case False
    with assms(2) have "(j + 1) * w \<le> i * w" by (intro mult_right_mono) auto
    with that show ?thesis by simp
  qed
  show "bit (get_field w j (set_field w i v r)) n = bit (get_field w j r) n"
    using sep v assms(4) by (fastforce simp: bit_get_field bit_set_field)
qed

subsection \<open>The register macros (gpio\_regs.h)\<close>

abbreviation (input) GPIO_MODER_INPUT :: u32 where "GPIO_MODER_INPUT \<equiv> 0"
abbreviation (input) GPIO_MODER_OUTPUT :: u32 where "GPIO_MODER_OUTPUT \<equiv> 1"
abbreviation (input) GPIO_MODER_AF :: u32 where "GPIO_MODER_AF \<equiv> 2"
abbreviation (input) GPIO_PUPDR_NONE :: u32 where "GPIO_PUPDR_NONE \<equiv> 0"

definition GPIO_SET_MODER :: "gpio_handle \<Rightarrow> u8 \<Rightarrow> u32 \<Rightarrow> mcu \<Rightarrow> mcu" where
  "GPIO_SET_MODER gpio pin mode m =
     reg_or (GPIO gpio MODER) (push_bit (unat pin * 2) mode)
       (reg_clear (GPIO gpio MODER) (push_bit (unat pin * 2) 3) m)"

definition GPIO_SET_SPEED :: "gpio_handle \<Rightarrow> u8 \<Rightarrow> u32 \<Rightarrow> mcu \<Rightarrow> mcu" where
  "GPIO_SET_SPEED gpio pin spd m =
     reg_or (GPIO gpio OSPEEDR) (push_bit (unat pin * 2) spd)
       (reg_clear (GPIO gpio OSPEEDR) (push_bit (unat pin * 2) 3) m)"

definition GPIO_SET_PULL :: "gpio_handle \<Rightarrow> u8 \<Rightarrow> u32 \<Rightarrow> mcu \<Rightarrow> mcu" where
  "GPIO_SET_PULL gpio pin pu m =
     reg_or (GPIO gpio PUPDR) (push_bit (unat pin * 2) pu)
       (reg_clear (GPIO gpio PUPDR) (push_bit (unat pin * 2) 3) m)"

definition GPIO_SET_OTYPE_PP :: "gpio_handle \<Rightarrow> u8 \<Rightarrow> mcu \<Rightarrow> mcu" where
  "GPIO_SET_OTYPE_PP gpio pin m = reg_clear (GPIO gpio OTYPER) (push_bit (unat pin) 1) m"

definition GPIO_SET_OTYPE_OD :: "gpio_handle \<Rightarrow> u8 \<Rightarrow> mcu \<Rightarrow> mcu" where
  "GPIO_SET_OTYPE_OD gpio pin m = reg_or (GPIO gpio OTYPER) (push_bit (unat pin) 1) m"

text \<open>\<^verbatim>\<open>AFR[0]\<close> holds pins 0 to 7 and \<^verbatim>\<open>AFR[1]\<close> pins 8 to 15.\<close>

definition GPIO_AFR_IDX :: "u8 \<Rightarrow> gpio_reg" where
  "GPIO_AFR_IDX pin = (if drop_bit 3 pin = 0 then AFR0 else AFR1)"

definition GPIO_AFR_POS :: "u8 \<Rightarrow> nat" where
  "GPIO_AFR_POS pin = unat (pin AND 7) * 4"

definition GPIO_SET_AF :: "gpio_handle \<Rightarrow> u8 \<Rightarrow> u32 \<Rightarrow> mcu \<Rightarrow> mcu" where
  "GPIO_SET_AF gpio pin af m =
     reg_or (GPIO gpio (GPIO_AFR_IDX pin)) (push_bit (GPIO_AFR_POS pin) af)
       (reg_clear (GPIO gpio (GPIO_AFR_IDX pin)) (push_bit (GPIO_AFR_POS pin) 15) m)"

definition GPIO_SET_PIN :: "gpio_handle \<Rightarrow> u8 \<Rightarrow> mcu \<Rightarrow> mcu" where
  "GPIO_SET_PIN gpio pin m = wr (GPIO gpio BSRR) (push_bit (unat pin) 1) m"

definition GPIO_RESET_PIN :: "gpio_handle \<Rightarrow> u8 \<Rightarrow> mcu \<Rightarrow> mcu" where
  "GPIO_RESET_PIN gpio pin m = wr (GPIO gpio BSRR) (push_bit (unat pin + 16) 1) m"

text \<open>\<open>odr\<close> is the value the read of ODR returns, which the BSRR writes have changed.\<close>

definition GPIO_TOGGLE_PIN :: "u32 \<Rightarrow> gpio_handle \<Rightarrow> u8 \<Rightarrow> mcu \<Rightarrow> mcu" where
  "GPIO_TOGGLE_PIN odr gpio pin m = wr (GPIO gpio ODR) (odr XOR push_bit (unat pin) 1) m"

subsection \<open>The driver (gpio.c)\<close>

record gpio_pin =
  gp_port :: "gpio_handle option"
  gp_pin :: u8

datatype gpio_output_type = GPIO_OUTPUT_PUSH_PULL | GPIO_OUTPUT_OPEN_DRAIN
datatype gpio_speed = GPIO_SPEED_LOW | GPIO_SPEED_MEDIUM | GPIO_SPEED_HIGH | GPIO_SPEED_VERY_HIGH
datatype gpio_pull = GPIO_PULL_NONE | GPIO_PULL_UP | GPIO_PULL_DOWN

fun speed_val :: "gpio_speed \<Rightarrow> u32" where
  "speed_val GPIO_SPEED_LOW = 0"
| "speed_val GPIO_SPEED_MEDIUM = 1"
| "speed_val GPIO_SPEED_HIGH = 2"
| "speed_val GPIO_SPEED_VERY_HIGH = 3"

fun pull_val :: "gpio_pull \<Rightarrow> u32" where
  "pull_val GPIO_PULL_NONE = 0"
| "pull_val GPIO_PULL_UP = 1"
| "pull_val GPIO_PULL_DOWN = 2"

abbreviation (input) GPIO_PORT_MAX :: u8 where "GPIO_PORT_MAX \<equiv> 5"
abbreviation (input) GPIO_PIN_MAX :: u8 where "GPIO_PIN_MAX \<equiv> 15"
abbreviation (input) GPIO_AF_MAX :: u8 where "GPIO_AF_MAX \<equiv> 15"

record gpio_output_config =
  oc_pin :: gpio_pin
  oc_output_type :: gpio_output_type
  oc_speed :: gpio_speed
  oc_pull :: gpio_pull

record gpio_input_config =
  ic_pin :: gpio_pin
  ic_pull :: gpio_pull

record gpio_af_config =
  ac_pin :: gpio_pin
  ac_af :: u8
  ac_speed :: gpio_speed
  ac_pull :: gpio_pull
  ac_output_type :: gpio_output_type

definition gpio_port_handle :: "u8 \<Rightarrow> gpio_handle option" where
  "gpio_port_handle port =
     (if port = 0 then Some GPIOA else if port = 1 then Some GPIOB
      else if port = 2 then Some GPIOC else if port = 3 then Some GPIOD
      else if port = 4 then Some GPIOE else if port = 5 then Some GPIOH else None)"

definition gpio_enable_clock :: "cmsis \<Rightarrow> u8 \<Rightarrow> mcu \<Rightarrow> mcu" where
  "gpio_enable_clock M port m =
     (if port = 0 then reg_or RCC_AHB1ENR (rccm M RCC_AHB1ENR_GPIOAEN) m
      else if port = 1 then reg_or RCC_AHB1ENR (rccm M RCC_AHB1ENR_GPIOBEN) m
      else if port = 2 then reg_or RCC_AHB1ENR (rccm M RCC_AHB1ENR_GPIOCEN) m
      else if port = 3 then reg_or RCC_AHB1ENR (rccm M RCC_AHB1ENR_GPIODEN) m
      else if port = 4 then reg_or RCC_AHB1ENR (rccm M RCC_AHB1ENR_GPIOEEN) m
      else if port = 5 then reg_or RCC_AHB1ENR (rccm M RCC_AHB1ENR_GPIOHEN) m
      else m)"

definition gpio_make_pin :: "u8 \<Rightarrow> u8 \<Rightarrow> gpio_pin option" where
  "gpio_make_pin port pin =
     (if port \<le> GPIO_PORT_MAX \<and> pin \<le> GPIO_PIN_MAX
      then Some \<lparr>gp_port = gpio_port_handle port, gp_pin = pin\<rparr> else None)"

definition gpio_configure_output :: "gpio_output_config \<Rightarrow> u8 \<Rightarrow> mcu \<Rightarrow> mcu option" where
  "gpio_configure_output cfg initial_level m =
     do {
       gpio \<leftarrow> gp_port (oc_pin cfg);
       let pin = gp_pin (oc_pin cfg);
       let m = (if initial_level \<noteq> 0 then GPIO_SET_PIN gpio pin m else GPIO_RESET_PIN gpio pin m);
       let m = (if oc_output_type cfg = GPIO_OUTPUT_OPEN_DRAIN
                then GPIO_SET_OTYPE_OD gpio pin m else GPIO_SET_OTYPE_PP gpio pin m);
       let m = GPIO_SET_SPEED gpio pin (speed_val (oc_speed cfg)) m;
       let m = GPIO_SET_PULL gpio pin (pull_val (oc_pull cfg)) m;
       Some (GPIO_SET_MODER gpio pin GPIO_MODER_OUTPUT m)
     }"

definition gpio_configure_input :: "gpio_input_config \<Rightarrow> mcu \<Rightarrow> mcu option" where
  "gpio_configure_input cfg m =
     do {
       gpio \<leftarrow> gp_port (ic_pin cfg);
       let m = GPIO_SET_MODER gpio (gp_pin (ic_pin cfg)) GPIO_MODER_INPUT m;
       Some (GPIO_SET_PULL gpio (gp_pin (ic_pin cfg)) (pull_val (ic_pull cfg)) m)
     }"

definition gpio_configure_af :: "gpio_af_config \<Rightarrow> mcu \<Rightarrow> mcu option" where
  "gpio_configure_af cfg m =
     do {
       gpio \<leftarrow> gp_port (ac_pin cfg);
       if ac_af cfg \<le> GPIO_AF_MAX then do {
         let pin = gp_pin (ac_pin cfg);
         let m = GPIO_SET_AF gpio pin (ucast (ac_af cfg)) m;
         let m = GPIO_SET_SPEED gpio pin (speed_val (ac_speed cfg)) m;
         let m = GPIO_SET_PULL gpio pin (pull_val (ac_pull cfg)) m;
         let m = (if ac_output_type cfg = GPIO_OUTPUT_OPEN_DRAIN
                  then GPIO_SET_OTYPE_OD gpio pin m else GPIO_SET_OTYPE_PP gpio pin m);
         Some (GPIO_SET_MODER gpio pin GPIO_MODER_AF m)
       } else None
     }"

definition gpio_reset_to_defaults :: "gpio_pin \<Rightarrow> mcu \<Rightarrow> mcu option" where
  "gpio_reset_to_defaults pin m =
     do {
       gpio \<leftarrow> gp_port pin;
       let m = GPIO_SET_MODER gpio (gp_pin pin) GPIO_MODER_INPUT m;
       let m = GPIO_SET_PULL gpio (gp_pin pin) GPIO_PUPDR_NONE m;
       Some (GPIO_SET_OTYPE_PP gpio (gp_pin pin) m)
     }"

definition gpio_set :: "gpio_pin \<Rightarrow> mcu \<Rightarrow> mcu option" where
  "gpio_set pin m = do { gpio \<leftarrow> gp_port pin; Some (GPIO_SET_PIN gpio (gp_pin pin) m) }"

definition gpio_reset :: "gpio_pin \<Rightarrow> mcu \<Rightarrow> mcu option" where
  "gpio_reset pin m = do { gpio \<leftarrow> gp_port pin; Some (GPIO_RESET_PIN gpio (gp_pin pin) m) }"

definition gpio_toggle :: "u32 \<Rightarrow> gpio_pin \<Rightarrow> mcu \<Rightarrow> mcu option" where
  "gpio_toggle odr pin m = do { gpio \<leftarrow> gp_port pin; Some (GPIO_TOGGLE_PIN odr gpio (gp_pin pin) m) }"

subsection \<open>What the macros do to the registers\<close>

lemma regs_GPIO_SET_MODER [reg_simps]:
  "regs (GPIO_SET_MODER g p v m) =
     (regs m)(GPIO g MODER := set_field 2 (unat p) v (regs m (GPIO g MODER)))"
  by (simp add: GPIO_SET_MODER_def set_field_def mask_numeral)

lemma regs_GPIO_SET_SPEED [reg_simps]:
  "regs (GPIO_SET_SPEED g p v m) =
     (regs m)(GPIO g OSPEEDR := set_field 2 (unat p) v (regs m (GPIO g OSPEEDR)))"
  by (simp add: GPIO_SET_SPEED_def set_field_def mask_numeral)

lemma regs_GPIO_SET_PULL [reg_simps]:
  "regs (GPIO_SET_PULL g p v m) =
     (regs m)(GPIO g PUPDR := set_field 2 (unat p) v (regs m (GPIO g PUPDR)))"
  by (simp add: GPIO_SET_PULL_def set_field_def mask_numeral)

lemma regs_GPIO_SET_OTYPE [reg_simps]:
  "regs (GPIO_SET_OTYPE_PP g p m) =
     (regs m)(GPIO g OTYPER := set_field 1 (unat p) 0 (regs m (GPIO g OTYPER)))"
  "regs (GPIO_SET_OTYPE_OD g p m) =
     (regs m)(GPIO g OTYPER := set_field 1 (unat p) 1 (regs m (GPIO g OTYPER)))"
proof -
  show "regs (GPIO_SET_OTYPE_PP g p m) =
     (regs m)(GPIO g OTYPER := set_field 1 (unat p) 0 (regs m (GPIO g OTYPER)))"
    by (simp add: GPIO_SET_OTYPE_PP_def set_field_def)
  have "regs m (GPIO g OTYPER) OR push_bit (unat p) 1 =
        set_field 1 (unat p) 1 (regs m (GPIO g OTYPER))"
    by (rule bit_word_eqI) (auto simp: bit_set_field bit_or_iff bit_push_bit_iff bit_1_iff bit_exp_iff)
  then show "regs (GPIO_SET_OTYPE_OD g p m) =
     (regs m)(GPIO g OTYPER := set_field 1 (unat p) 1 (regs m (GPIO g OTYPER)))"
    by (simp add: GPIO_SET_OTYPE_OD_def)
qed

lemma regs_GPIO_SET_AF [reg_simps]:
  "regs (GPIO_SET_AF g p v m) =
     (regs m)(GPIO g (GPIO_AFR_IDX p) :=
        set_field 4 (unat (p AND 7)) v (regs m (GPIO g (GPIO_AFR_IDX p))))"
  by (simp add: GPIO_SET_AF_def GPIO_AFR_POS_def set_field_def mask_numeral)

lemma regs_GPIO_SET_PIN [reg_simps]:
  "regs (GPIO_SET_PIN g p m) = (regs m)(GPIO g BSRR := push_bit (unat p) 1)"
  "regs (GPIO_RESET_PIN g p m) = (regs m)(GPIO g BSRR := push_bit (unat p + 16) 1)"
  by (simp_all add: GPIO_SET_PIN_def GPIO_RESET_PIN_def)

subsection \<open>The configuration of a pin\<close>

text \<open>
  The configuration of pin \<open>p\<close> of a port, read from the registers: mode, speed, pull, output
  type and alternate function.
\<close>

record pin_view =
  pv_mode :: u32
  pv_speed :: u32
  pv_pull :: u32
  pv_otype :: u32
  pv_af :: u32

definition pin_view :: "mcu \<Rightarrow> gpio_handle \<Rightarrow> u8 \<Rightarrow> pin_view" where
  "pin_view m g p =
     \<lparr>pv_mode = get_field 2 (unat p) (regs m (GPIO g MODER)),
      pv_speed = get_field 2 (unat p) (regs m (GPIO g OSPEEDR)),
      pv_pull = get_field 2 (unat p) (regs m (GPIO g PUPDR)),
      pv_otype = get_field 1 (unat p) (regs m (GPIO g OTYPER)),
      pv_af = get_field 4 (unat (p AND 7)) (regs m (GPIO g (GPIO_AFR_IDX p)))\<rparr>"

fun otype_val :: "gpio_output_type \<Rightarrow> u32" where
  "otype_val GPIO_OUTPUT_PUSH_PULL = 0"
| "otype_val GPIO_OUTPUT_OPEN_DRAIN = 1"

lemma take_bit_vals [simp]:
  "take_bit 2 (speed_val s) = speed_val s"
  "take_bit 2 (pull_val u) = pull_val u"
  "take_bit (Suc 0) (otype_val t) = otype_val t"
proof -
  show "take_bit 2 (speed_val s) = speed_val s"
    by (cases s) (simp_all add: take_bit_eq_mask mask_numeral)
  show "take_bit 2 (pull_val u) = pull_val u"
    by (cases u) (simp_all add: take_bit_eq_mask mask_numeral)
  show "take_bit (Suc 0) (otype_val t) = otype_val t"
    by (cases t) simp_all
qed

lemma pin_le_15: "p \<le> 15 \<Longrightarrow> unat (p :: u8) < 16"
  by (simp add: word_le_nat_alt)

lemma pin_low3: "unat ((p :: u8) AND 7) = unat p mod 8"
proof -
  have "p AND 7 = take_bit 3 p" by (simp add: take_bit_eq_mask mask_numeral)
  then have "unat (p AND 7) = take_bit 3 (unat p)" by (simp only: unsigned_take_bit_eq)
  then show ?thesis by (simp add: take_bit_eq_mod)
qed

lemma GPIO_AFR_IDX_alt: "GPIO_AFR_IDX p = (if unat p < 8 then AFR0 else AFR1)"
proof -
  have "drop_bit 3 p = 0 \<longleftrightarrow> unat (drop_bit 3 p) = 0"
    by (metis unsigned_0 word_unat_eq_iff)
  also have "\<dots> \<longleftrightarrow> unat p < 8"
    by (simp add: drop_bit_eq_div unat_div_distrib div_eq_0_iff)
  finally show ?thesis by (simp add: GPIO_AFR_IDX_def)
qed

lemma pin_number_eq_iff: "unat (p :: u8) = unat q \<longleftrightarrow> p = q"
  by (rule word_unat_eq_iff[symmetric])

text \<open>Two fields of the same width, for two pins of one port.\<close>

lemma get_set_pin2:
  assumes "take_bit 2 v = v" "p \<le> 15" "q \<le> (15 :: u8)"
  shows "get_field 2 (unat q) (set_field 2 (unat p) v r) =
    (if p = q then v else get_field 2 (unat q) r)"
  using assms get_set_field_same[of 2 v "unat p" r] get_set_field_other[of 2 v "unat p" "unat q" r]
  by (auto simp: pin_number_eq_iff dest!: pin_le_15)

lemma get_set_pin1:
  assumes "take_bit (Suc 0) v = v" "p \<le> 15" "q \<le> (15 :: u8)"
  shows "get_field (Suc 0) (unat q) (set_field (Suc 0) (unat p) v r) =
    (if p = q then v else get_field (Suc 0) (unat q) r)"
  using assms get_set_field_same[of 1 v "unat p" r] get_set_field_other[of 1 v "unat p" "unat q" r]
  by (auto simp: pin_number_eq_iff dest!: pin_le_15)

lemma get_set_pin4:
  assumes "take_bit 4 v = v" "p \<le> 15" "q \<le> (15 :: u8)" "GPIO_AFR_IDX p = GPIO_AFR_IDX q"
  shows "get_field 4 (unat (q AND 7)) (set_field 4 (unat (p AND 7)) v r) =
    (if p = q then v else get_field 4 (unat (q AND 7)) r)"
proof -
  have "unat (p AND 7) = unat (q AND 7) \<longleftrightarrow> p = q"
  proof -
    have "unat p mod 8 = unat q mod 8 \<longleftrightarrow> unat p = unat q"
    proof (cases "unat p < 8")
      case True
      with assms(4) have "unat q < 8" by (simp add: GPIO_AFR_IDX_alt split: if_splits)
      with True show ?thesis by simp
    next
      case False
      with assms(4) have "\<not> unat q < 8" by (simp add: GPIO_AFR_IDX_alt split: if_splits)
      with False assms(2,3)[THEN pin_le_15] show ?thesis by (auto simp: le_mod_geq)
    qed
    then show ?thesis by (simp add: pin_low3 pin_number_eq_iff)
  qed
  moreover have "(unat (p AND 7) + 1) * 4 \<le> 32" "(unat (q AND 7) + 1) * 4 \<le> 32"
    unfolding pin_low3 by (simp_all add: Suc_leI)
  ultimately show ?thesis
    using assms get_set_field_same[of 4 v "unat (p AND 7)" r]
      get_set_field_other[of 4 v "unat (p AND 7)" "unat (q AND 7)" r]
    by auto
qed

lemma pin_view_SET_MODER [reg_simps]:
  assumes "take_bit 2 v = v" "p \<le> 15" "q \<le> 15"
  shows "pin_view (GPIO_SET_MODER g p v m) h q =
    (if h = g \<and> q = p then (pin_view m h q)\<lparr>pv_mode := v\<rparr> else pin_view m h q)"
  using assms by (auto simp: pin_view_def regs_GPIO_SET_MODER get_set_pin2 GPIO_AFR_IDX_def)

lemma pin_view_SET_SPEED [reg_simps]:
  assumes "take_bit 2 v = v" "p \<le> 15" "q \<le> 15"
  shows "pin_view (GPIO_SET_SPEED g p v m) h q =
    (if h = g \<and> q = p then (pin_view m h q)\<lparr>pv_speed := v\<rparr> else pin_view m h q)"
  using assms by (auto simp: pin_view_def regs_GPIO_SET_SPEED get_set_pin2 GPIO_AFR_IDX_def)

lemma pin_view_SET_PULL [reg_simps]:
  assumes "take_bit 2 v = v" "p \<le> 15" "q \<le> 15"
  shows "pin_view (GPIO_SET_PULL g p v m) h q =
    (if h = g \<and> q = p then (pin_view m h q)\<lparr>pv_pull := v\<rparr> else pin_view m h q)"
  using assms by (auto simp: pin_view_def regs_GPIO_SET_PULL get_set_pin2 GPIO_AFR_IDX_def)

lemma pin_view_SET_OTYPE [reg_simps]:
  assumes "p \<le> 15" "q \<le> 15"
  shows "pin_view (GPIO_SET_OTYPE_PP g p m) h q =
      (if h = g \<and> q = p then (pin_view m h q)\<lparr>pv_otype := 0\<rparr> else pin_view m h q)"
    and "pin_view (GPIO_SET_OTYPE_OD g p m) h q =
      (if h = g \<and> q = p then (pin_view m h q)\<lparr>pv_otype := 1\<rparr> else pin_view m h q)"
  using assms by (auto simp: pin_view_def regs_GPIO_SET_OTYPE get_set_pin1 GPIO_AFR_IDX_def)

lemma afr_idx_cases:
  "GPIO_AFR_IDX p \<noteq> MODER" "GPIO_AFR_IDX p \<noteq> OSPEEDR" "GPIO_AFR_IDX p \<noteq> PUPDR"
  "GPIO_AFR_IDX p \<noteq> OTYPER" "MODER \<noteq> GPIO_AFR_IDX p" "OSPEEDR \<noteq> GPIO_AFR_IDX p"
  "PUPDR \<noteq> GPIO_AFR_IDX p" "OTYPER \<noteq> GPIO_AFR_IDX p"
  by (simp_all add: GPIO_AFR_IDX_def)

lemma pin_view_SET_AF [reg_simps]:
  assumes "take_bit 4 v = v" "p \<le> 15" "q \<le> 15"
  shows "pin_view (GPIO_SET_AF g p v m) h q =
    (if h = g \<and> q = p then (pin_view m h q)\<lparr>pv_af := v\<rparr> else pin_view m h q)"
proof (cases "GPIO_AFR_IDX p = GPIO_AFR_IDX q")
  case True
  then obtain r where p: "GPIO_AFR_IDX p = r" and q: "GPIO_AFR_IDX q = r" by simp
  have r: "r \<noteq> MODER" "r \<noteq> OSPEEDR" "r \<noteq> PUPDR" "r \<noteq> OTYPER"
    using afr_idx_cases[of p] p by simp_all
  show ?thesis
    unfolding pin_view_def regs_GPIO_SET_AF p q fun_upd_apply
    using r get_set_pin4[OF assms True, of "regs m (GPIO g r)"]
    by (cases "p = q"; cases "h = g"; simp)
next
  case False
  then show ?thesis
    by (auto simp: pin_view_def regs_GPIO_SET_AF afr_idx_cases)
qed

lemma pin_view_SET_PIN [reg_simps]:
  "pin_view (GPIO_SET_PIN g p m) h q = pin_view m h q"
  "pin_view (GPIO_RESET_PIN g p m) h q = pin_view m h q"
  by (simp_all add: pin_view_def regs_GPIO_SET_PIN GPIO_AFR_IDX_def)

subsection \<open>The driver functions update one pin\<close>

text \<open>A pin that \<open>gpio_make_pin\<close> can have built.\<close>

definition gpio_pin_ok :: "gpio_pin \<Rightarrow> bool" where
  "gpio_pin_ok pin \<longleftrightarrow> gp_port pin \<noteq> None \<and> gp_pin pin \<le> GPIO_PIN_MAX"

lemma gpio_port_handle_Some: "port \<le> GPIO_PORT_MAX \<longleftrightarrow> gpio_port_handle port \<noteq> None"
proof -
  have "port \<le> 5 \<longleftrightarrow> unat port \<in> {0, 1, 2, 3, 4, 5}"
    by (auto simp: word_le_nat_alt)
  then show ?thesis
    by (auto simp: gpio_port_handle_def word_unat_eq_iff)
qed

lemma gpio_make_pin_ok: "gpio_make_pin port pin = Some p \<Longrightarrow> gpio_pin_ok p"
  using gpio_port_handle_Some[of port]
  by (auto simp: gpio_make_pin_def gpio_pin_ok_def split: if_splits)

lemma gpio_make_pin_Some_iff:
  "(\<exists>p. gpio_make_pin port pin = Some p) \<longleftrightarrow> port \<le> GPIO_PORT_MAX \<and> pin \<le> GPIO_PIN_MAX"
  by (simp add: gpio_make_pin_def)

text \<open>
  Distinct wire ports resolve to distinct peripherals, so distinct (port, pin) pairs are
  distinct pins.
\<close>

lemma gpio_make_pin_inj:
  assumes "gpio_make_pin port pin = Some p" "gpio_make_pin port' pin' = Some p"
  shows "port = port' \<and> pin = pin'"
  using assms gpio_port_handle_Some[of port]
  by (auto simp: gpio_make_pin_def gpio_port_handle_def split: if_splits)

lemma gpio_configure_output_view:
  assumes "gpio_pin_ok (oc_pin cfg)" "q \<le> GPIO_PIN_MAX"
    and "gpio_configure_output cfg lvl m = Some m'"
  shows "pin_view m' h q =
    (if gp_port (oc_pin cfg) = Some h \<and> q = gp_pin (oc_pin cfg)
     then (pin_view m h q)\<lparr>pv_mode := 1, pv_speed := speed_val (oc_speed cfg),
            pv_pull := pull_val (oc_pull cfg), pv_otype := otype_val (oc_output_type cfg)\<rparr>
     else pin_view m h q)"
proof -
  obtain g where g: "gp_port (oc_pin cfg) = Some g" and p: "gp_pin (oc_pin cfg) \<le> 15"
    using assms(1) by (auto simp: gpio_pin_ok_def)
  have one: "take_bit 2 (1 :: u32) = 1" by (simp add: take_bit_eq_mask mask_numeral)
  show ?thesis
    using assms(2,3) g p
    by (cases "oc_output_type cfg")
       (auto simp: gpio_configure_output_def Let_def pin_view_SET_MODER[OF one] reg_simps
         split: if_splits)
qed

lemma gpio_configure_af_view:
  assumes "gpio_pin_ok (ac_pin cfg)" "q \<le> GPIO_PIN_MAX"
    and "gpio_configure_af cfg m = Some m'"
  shows "pin_view m' h q =
    (if gp_port (ac_pin cfg) = Some h \<and> q = gp_pin (ac_pin cfg)
     then \<lparr>pv_mode = 2, pv_speed = speed_val (ac_speed cfg), pv_pull = pull_val (ac_pull cfg),
            pv_otype = otype_val (ac_output_type cfg), pv_af = ucast (ac_af cfg)\<rparr>
     else pin_view m h q)"
proof -
  obtain g where g: "gp_port (ac_pin cfg) = Some g" and p: "gp_pin (ac_pin cfg) \<le> 15"
    using assms(1) by (auto simp: gpio_pin_ok_def)
  have two: "take_bit 2 (2 :: u32) = 2" by (simp add: take_bit_eq_mask mask_numeral)
  have af: "ac_af cfg \<le> 15" using assms(3) g by (auto simp: gpio_configure_af_def split: if_splits)
  then have "unat (ac_af cfg) < 16" by (rule pin_le_15)
  then have af4: "take_bit 4 (ucast (ac_af cfg) :: u32) = ucast (ac_af cfg)"
    by (simp only: word_unat_eq_iff unsigned_take_bit_eq unat_ucast_u8_u32)
       (simp add: take_bit_nat_eq_self_iff)
  show ?thesis
    using assms(2,3) g p af
    by (cases "ac_output_type cfg")
       (auto simp: gpio_configure_af_def Let_def pin_view_SET_MODER[OF two]
         pin_view_SET_AF[OF af4] reg_simps split: if_splits)
qed

lemma gpio_configure_input_view:
  assumes "gpio_pin_ok (ic_pin cfg)" "q \<le> GPIO_PIN_MAX"
    and "gpio_configure_input cfg m = Some m'"
  shows "pin_view m' h q =
    (if gp_port (ic_pin cfg) = Some h \<and> q = gp_pin (ic_pin cfg)
     then (pin_view m h q)\<lparr>pv_mode := 0, pv_pull := pull_val (ic_pull cfg)\<rparr>
     else pin_view m h q)"
  using assms by (auto simp: gpio_configure_input_def gpio_pin_ok_def Let_def reg_simps)

lemma gpio_reset_to_defaults_view:
  assumes "gpio_pin_ok pin" "q \<le> GPIO_PIN_MAX" "gpio_reset_to_defaults pin m = Some m'"
  shows "pin_view m' h q =
    (if gp_port pin = Some h \<and> q = gp_pin pin
     then (pin_view m h q)\<lparr>pv_mode := 0, pv_pull := 0, pv_otype := 0\<rparr>
     else pin_view m h q)"
  using assms by (auto simp: gpio_reset_to_defaults_def gpio_pin_ok_def Let_def reg_simps)

text \<open>No assertion of the driver fails on such a pin.\<close>

lemma gpio_total:
  assumes "gpio_pin_ok pin"
  shows "\<exists>m'. gpio_reset_to_defaults pin m = Some m'"
    and "\<exists>m'. gpio_set pin m = Some m'" and "\<exists>m'. gpio_reset pin m = Some m'"
  using assms by (auto simp: gpio_pin_ok_def gpio_reset_to_defaults_def gpio_set_def gpio_reset_def)

lemma gpio_configure_total:
  "gpio_pin_ok (oc_pin cfg) \<Longrightarrow> \<exists>m'. gpio_configure_output cfg lvl m = Some m'"
  "gpio_pin_ok (ac_pin acfg) \<Longrightarrow> ac_af acfg \<le> GPIO_AF_MAX \<Longrightarrow> \<exists>m'. gpio_configure_af acfg m = Some m'"
  "gpio_pin_ok (ic_pin icfg) \<Longrightarrow> \<exists>m'. gpio_configure_input icfg m = Some m'"
  by (auto simp: gpio_pin_ok_def gpio_configure_output_def gpio_configure_af_def
      gpio_configure_input_def Let_def)

text \<open>
  The level is driven before the mode changes: the first store of \<open>gpio_configure_output\<close> is
  the BSRR store, and the port's BSRR is not stored to again.
\<close>

lemma gpio_configure_output_trace:
  assumes "gp_port (oc_pin cfg) = Some g" "gpio_configure_output cfg lvl m = Some m'"
  shows "\<exists>es. trace m' = trace m @
      Wr (GPIO g BSRR) (push_bit (unat (gp_pin (oc_pin cfg)) + (if lvl \<noteq> 0 then 0 else 16)) 1) # es
    \<and> writes_to (GPIO g BSRR) es = [] \<and> length (writes_to (GPIO g MODER) es) = 2"
  using assms
  by (cases "oc_output_type cfg")
     (auto simp: gpio_configure_output_def Let_def GPIO_SET_PIN_def GPIO_RESET_PIN_def
       GPIO_SET_OTYPE_OD_def GPIO_SET_OTYPE_PP_def GPIO_SET_SPEED_def GPIO_SET_PULL_def
       GPIO_SET_MODER_def)

subsection \<open>Properties\<close>

text \<open>C22: configuring an output, for a pin that \<open>gpio_make_pin\<close> built, never traps, sets mode,
  speed, pull and output type of that pin as requested, and leaves the configuration of every
  other pin of every port unchanged.\<close>

theorem gpio_output_configures_one_pin:
  assumes "gpio_make_pin port pin = Some p" "oc_pin cfg = p" "q \<le> GPIO_PIN_MAX"
  shows "\<exists>m'. gpio_configure_output cfg lvl m = Some m' \<and>
    pin_view m' h q =
      (if gpio_port_handle port = Some h \<and> q = pin
       then (pin_view m h q)\<lparr>pv_mode := GPIO_MODER_OUTPUT, pv_speed := speed_val (oc_speed cfg),
              pv_pull := pull_val (oc_pull cfg), pv_otype := otype_val (oc_output_type cfg)\<rparr>
       else pin_view m h q)"
proof -
  have ok: "gpio_pin_ok (oc_pin cfg)" using gpio_make_pin_ok[OF assms(1)] assms(2) by simp
  have p: "gp_port p = gpio_port_handle port" "gp_pin p = pin"
    using assms(1) by (auto simp: gpio_make_pin_def split: if_splits)
  obtain m' where m': "gpio_configure_output cfg lvl m = Some m'"
    using gpio_configure_total(1)[OF ok] by blast
  with gpio_configure_output_view[OF ok assms(3) m', of h] assms(2) p show ?thesis by simp
qed

abbreviation (input) example_output :: gpio_output_config where
  "example_output \<equiv> \<lparr>oc_pin = \<lparr>gp_port = Some GPIOB, gp_pin = 3\<rparr>,
     oc_output_type = GPIO_OUTPUT_OPEN_DRAIN, oc_speed = GPIO_SPEED_LOW, oc_pull = GPIO_PULL_UP\<rparr>"

theorem gpio_output_configures_one_pin_witness:
  "\<exists>m'. gpio_configure_output example_output 1 mcu_reset = Some m' \<and>
     pv_mode (pin_view m' GPIOB 3) = 1 \<and> pv_otype (pin_view m' GPIOB 3) = 1"
proof -
  have "gpio_make_pin 1 3 = Some \<lparr>gp_port = Some GPIOB, gp_pin = 3\<rparr>"
    by (simp add: gpio_make_pin_def gpio_port_handle_def word_le_nat_alt)
  from gpio_output_configures_one_pin[OF this, of example_output 3 1 mcu_reset GPIOB] show ?thesis
    by (auto simp: gpio_port_handle_def word_le_nat_alt)
qed

text \<open>The same for alternate-function mode, whose field is split over two registers of eight
  pins each.\<close>

theorem gpio_af_configures_one_pin:
  assumes "gpio_make_pin port pin = Some p" "ac_pin cfg = p" "ac_af cfg \<le> GPIO_AF_MAX" "q \<le> GPIO_PIN_MAX"
  shows "\<exists>m'. gpio_configure_af cfg m = Some m' \<and>
    pin_view m' h q =
      (if gpio_port_handle port = Some h \<and> q = pin
       then \<lparr>pv_mode = GPIO_MODER_AF, pv_speed = speed_val (ac_speed cfg), pv_pull = pull_val (ac_pull cfg),
              pv_otype = otype_val (ac_output_type cfg), pv_af = ucast (ac_af cfg)\<rparr>
       else pin_view m h q)"
proof -
  have ok: "gpio_pin_ok (ac_pin cfg)" using gpio_make_pin_ok[OF assms(1)] assms(2) by simp
  have p: "gp_port p = gpio_port_handle port" "gp_pin p = pin"
    using assms(1) by (auto simp: gpio_make_pin_def split: if_splits)
  obtain m' where m': "gpio_configure_af cfg m = Some m'"
    using gpio_configure_total(2)[OF ok assms(3)] by blast
  with gpio_configure_af_view[OF ok assms(4) m', of h] assms(2) p show ?thesis by simp
qed

abbreviation (input) example_af :: gpio_af_config where
  "example_af \<equiv> \<lparr>ac_pin = \<lparr>gp_port = Some GPIOA, gp_pin = 10\<rparr>, ac_af = 7, ac_speed = GPIO_SPEED_HIGH,
     ac_pull = GPIO_PULL_NONE, ac_output_type = GPIO_OUTPUT_PUSH_PULL\<rparr>"

theorem gpio_af_configures_one_pin_witness:
  "\<exists>m'. gpio_configure_af example_af mcu_reset = Some m' \<and>
     pv_af (pin_view m' GPIOA 10) = 7 \<and> pv_mode (pin_view m' GPIOA 10) = 2"
proof -
  have "gpio_make_pin 0 10 = Some \<lparr>gp_port = Some GPIOA, gp_pin = 10\<rparr>"
    by (simp add: gpio_make_pin_def gpio_port_handle_def word_le_nat_alt)
  from gpio_af_configures_one_pin[OF this, of example_af 10 mcu_reset GPIOA] show ?thesis
    by (auto simp: gpio_port_handle_def word_le_nat_alt)
qed

text \<open>C23: no glitch: the first store of \<open>gpio_configure_output\<close> drives the requested level through
  BSRR, before the two stores that switch the pin to output; BSRR is not written again.\<close>

theorem gpio_output_level_before_mode:
  assumes "gp_port (oc_pin cfg) = Some g" "gpio_configure_output cfg lvl m = Some m'"
  shows "\<exists>es. trace m' = trace m @
      Wr (GPIO g BSRR) (push_bit (unat (gp_pin (oc_pin cfg)) + (if lvl \<noteq> 0 then 0 else 16)) 1) # es
    \<and> writes_to (GPIO g BSRR) es = [] \<and> length (writes_to (GPIO g MODER) es) = 2"
  by (rule gpio_configure_output_trace[OF assms])

theorem gpio_output_level_before_mode_witness:
  "\<exists>m' es. gpio_configure_output example_output 1 mcu_reset = Some m' \<and>
     trace m' = Wr (GPIO GPIOB BSRR) 8 # es \<and> length (writes_to (GPIO GPIOB MODER) es) = 2"
proof -
  obtain m' where m': "gpio_configure_output example_output 1 mcu_reset = Some m'"
    by (auto simp: gpio_configure_output_def Let_def)
  from gpio_output_level_before_mode[OF _ m', of GPIOB] m' show ?thesis
    by (auto simp: mcu_reset_def)
qed

end
