(* ===== verification/Hw_Timer.thy ===== *)
theory Hw_Timer
  imports Mcu
begin

text \<open>
  \<^verbatim>\<open>drivers/timer/src/hw_timer.c\<close>: the pool of seven hardware timers, each free, owned by one
  pulse user, or shared by the PWM channels that agree on its frequency. The static array
  \<open>timers\<close> is a list of seven entries. Timer ids come from the wire as bytes. A pulse callback
  is the function it points to; calling it is left to the caller of \<open>handle_pulse_isr\<close>, which
  returns the call to make.
\<close>

subsection \<open>State\<close>

datatype hw_timer_state = STATE_FREE | STATE_PULSE | STATE_PWM
datatype hw_timer_width = HW_TIMER_WIDTH_16 | HW_TIMER_WIDTH_32

text \<open>The functions the firmware passes as \<open>hw_timer_pulse_cb_t\<close>.\<close>

datatype pulse_cb = CB_hw_timer_callback

record hw_timer_entry =
  tim :: tim_handle
  te_irq :: irq
  rcc_apb1_mask :: u32
  rcc_apb2_mask :: u32
  te_width :: hw_timer_width
  max_ch :: u8
  te_state :: hw_timer_state
  pulse_token :: u8
  te_pulse_cb :: "pulse_cb option"
  te_psc :: u32
  te_arr :: u32
  pwm_ref_count :: u8

type_synonym hw_timers = "hw_timer_entry list"

abbreviation (input) HW_TIMER_COUNT :: u8 where "HW_TIMER_COUNT \<equiv> 7"
abbreviation (input) HW_TIMER_CLOCK_HZ :: u32 where "HW_TIMER_CLOCK_HZ \<equiv> 84000000"
abbreviation (input) HW_TIMER_FREQ_MAX_HZ :: u32 where "HW_TIMER_FREQ_MAX_HZ \<equiv> 42000000"
abbreviation (input) HW_TIMER_PSC_MAX :: u64 where "HW_TIMER_PSC_MAX \<equiv> 0xFFFF"
abbreviation (input) HW_TIMER_ARR_MAX_16 :: u64 where "HW_TIMER_ARR_MAX_16 \<equiv> 0xFFFF"
abbreviation (input) HW_TIMER_ARR_MAX_32 :: u64 where "HW_TIMER_ARR_MAX_32 \<equiv> 0xFFFFFFFF"
abbreviation (input) HW_TIMER_MAX_PULSE_US_16 :: u32 where "HW_TIMER_MAX_PULSE_US_16 \<equiv> 0xFFFF"
abbreviation (input) HW_TIMER_MAX_PULSE_US_32 :: u32 where "HW_TIMER_MAX_PULSE_US_32 \<equiv> 0xFFFFFFFF"
abbreviation (input) PULSE_PSC :: u32 where "PULSE_PSC \<equiv> HW_TIMER_CLOCK_HZ div 1000000 - 1"
abbreviation (input) HW_TIMER_IRQ_PRIO :: u32 where "HW_TIMER_IRQ_PRIO \<equiv> 6"

definition timer_entry :: "tim_handle \<Rightarrow> irq \<Rightarrow> u32 \<Rightarrow> u32 \<Rightarrow> hw_timer_width \<Rightarrow> u8 \<Rightarrow> hw_timer_entry" where
  "timer_entry t i apb1 apb2 w ch =
     \<lparr>tim = t, te_irq = i, rcc_apb1_mask = apb1, rcc_apb2_mask = apb2, te_width = w, max_ch = ch,
      te_state = STATE_FREE, pulse_token = 0, te_pulse_cb = None, te_psc = 0, te_arr = 0,
      pwm_ref_count = 0\<rparr>"

definition hw_timer_init :: "cmsis \<Rightarrow> hw_timers" where
  "hw_timer_init M =
     [timer_entry TIM2 TIM2_IRQn (rccm M RCC_APB1ENR_TIM2EN) 0 HW_TIMER_WIDTH_32 4,
      timer_entry TIM3 TIM3_IRQn (rccm M RCC_APB1ENR_TIM3EN) 0 HW_TIMER_WIDTH_16 4,
      timer_entry TIM4 TIM4_IRQn (rccm M RCC_APB1ENR_TIM4EN) 0 HW_TIMER_WIDTH_16 4,
      timer_entry TIM5 TIM5_IRQn (rccm M RCC_APB1ENR_TIM5EN) 0 HW_TIMER_WIDTH_32 4,
      timer_entry TIM9 TIM1_BRK_TIM9_IRQn 0 (rccm M RCC_APB2ENR_TIM9EN) HW_TIMER_WIDTH_16 2,
      timer_entry TIM10 TIM1_UP_TIM10_IRQn 0 (rccm M RCC_APB2ENR_TIM10EN) HW_TIMER_WIDTH_16 1,
      timer_entry TIM11 TIM1_TRG_COM_TIM11_IRQn 0 (rccm M RCC_APB2ENR_TIM11EN) HW_TIMER_WIDTH_16 1]"

subsection \<open>Operations\<close>

definition clock_enable :: "hw_timer_entry \<Rightarrow> mcu \<Rightarrow> mcu" where
  "clock_enable e m =
     (if rcc_apb1_mask e \<noteq> 0
      then emit (Rd RCC_APB1ENR) (reg_or RCC_APB1ENR (rcc_apb1_mask e) m)
      else emit (Rd RCC_APB2ENR) (reg_or RCC_APB2ENR (rcc_apb2_mask e) m))"

definition clock_disable :: "hw_timer_entry \<Rightarrow> mcu \<Rightarrow> mcu" where
  "clock_disable e m =
     (if rcc_apb1_mask e \<noteq> 0 then reg_clear RCC_APB1ENR (rcc_apb1_mask e) m
      else reg_clear RCC_APB2ENR (rcc_apb2_mask e) m)"

text \<open>\<open>Inr (psc, arr)\<close> on success; the arithmetic is in 64 bits as in the code.\<close>

definition compute_psc_arr :: "u32 \<Rightarrow> hw_timer_width \<Rightarrow> err_code + u32 \<times> u32" where
  "compute_psc_arr freq_hz width =
     (if freq_hz = 0 \<or> freq_hz > HW_TIMER_FREQ_MAX_HZ then Inl ERR_INVALID_PARAMETER
      else let max_arr = (if width = HW_TIMER_WIDTH_32 then HW_TIMER_ARR_MAX_32 else HW_TIMER_ARR_MAX_16);
               period = ucast HW_TIMER_CLOCK_HZ div (ucast freq_hz :: u64);
               psc_p1 = (period + max_arr) div (max_arr + 1);
               psc_p1 = (if psc_p1 = 0 then 1 else psc_p1)
           in if psc_p1 > HW_TIMER_PSC_MAX + 1 then Inl ERR_INVALID_PARAMETER
              else let arr = period div psc_p1 - 1
                   in if arr > max_arr then Inl ERR_INVALID_PARAMETER
                      else Inr (ucast (psc_p1 - 1), ucast arr))"

definition find_pulse_entry :: "u8 \<Rightarrow> hw_timers \<Rightarrow> nat option" where
  "find_pulse_entry user_token timers =
     find_index (\<lambda>e. te_state e = STATE_PULSE \<and> pulse_token e = user_token) timers"

definition pulse_configure_idle :: "cmsis \<Rightarrow> hw_timer_entry \<Rightarrow> mcu \<Rightarrow> mcu" where
  "pulse_configure_idle M e m =
     (let t = TIM (tim e);
          m = wr (t TIM_CR1) 0 m;
          m = wr (t TIM_DIER) 0 m;
          m = wr (t TIM_SR) 0 m;
          m = wr (t TIM_CNT) 0 m;
          m = wr (t TIM_PSC) PULSE_PSC m;
          m = wr (t TIM_ARR) 0 m;
          m = wr (t TIM_CR1) (timm M TIM_CR1_OPM OR timm M TIM_CR1_URS) m;
          m = wr (t TIM_EGR) (timm M TIM_EGR_UG) m
      in wr (t TIM_SR) 0 m)"

definition hw_timer_max_channel :: "u8 \<Rightarrow> hw_timers \<Rightarrow> u8" where
  "hw_timer_max_channel tid timers = (if tid \<ge> HW_TIMER_COUNT then 0 else max_ch (timers ! unat tid))"

definition hw_timer_pulse_acquire ::
    "cmsis \<Rightarrow> u8 \<Rightarrow> u8 \<Rightarrow> pulse_cb \<Rightarrow> mcu \<Rightarrow> hw_timers \<Rightarrow> err_code \<times> mcu \<times> hw_timers" where
  "hw_timer_pulse_acquire M tid user_token cb m timers =
     (if tid \<ge> HW_TIMER_COUNT then (ERR_INVALID_PARAMETER, m, timers)
      else let e = timers ! unat tid
           in if te_state e \<noteq> STATE_FREE then (ERR_PERIPHERAL_BUSY, m, timers)
              else let m = clock_enable e m;
                       m = pulse_configure_idle M e m;
                       e = e\<lparr>pulse_token := user_token, te_pulse_cb := Some cb, te_state := STATE_PULSE\<rparr>;
                       m = emit (NVIC_SetPriority (te_irq e) HW_TIMER_IRQ_PRIO) m;
                       m = emit (NVIC_EnableIRQ (te_irq e)) m
                   in (ERR_SUCCESS, m, timers[unat tid := e]))"

definition hw_timer_pulse_release :: "u8 \<Rightarrow> mcu \<Rightarrow> hw_timers \<Rightarrow> mcu \<times> hw_timers" where
  "hw_timer_pulse_release user_token m timers =
     (case find_pulse_entry user_token timers of
        None \<Rightarrow> (m, timers)
      | Some i \<Rightarrow>
          let e = timers ! i;
              m = emit (NVIC_DisableIRQ (te_irq e)) m;
              m = wr (TIM (tim e) TIM_CR1) 0 m;
              m = wr (TIM (tim e) TIM_DIER) 0 m;
              m = wr (TIM (tim e) TIM_SR) 0 m;
              m = clock_disable e m
          in (m, timers[i := e\<lparr>pulse_token := 0, te_pulse_cb := None, te_state := STATE_FREE\<rparr>]))"

definition hw_timer_pulse_max_us :: "u8 \<Rightarrow> hw_timers \<Rightarrow> u32" where
  "hw_timer_pulse_max_us user_token timers =
     (case find_pulse_entry user_token timers of
        None \<Rightarrow> 0
      | Some i \<Rightarrow> if te_width (timers ! i) = HW_TIMER_WIDTH_32 then HW_TIMER_MAX_PULSE_US_32
                  else HW_TIMER_MAX_PULSE_US_16)"

definition hw_timer_pulse_start :: "cmsis \<Rightarrow> u8 \<Rightarrow> u32 \<Rightarrow> mcu \<Rightarrow> hw_timers \<Rightarrow> err_code \<times> mcu" where
  "hw_timer_pulse_start M user_token pulse_us m timers =
     (case find_pulse_entry user_token timers of
        None \<Rightarrow> (ERR_INVALID_PARAMETER, m)
      | Some i \<Rightarrow>
          if pulse_us = 0 \<or> pulse_us > hw_timer_pulse_max_us user_token timers
          then (ERR_INVALID_PARAMETER, m)
          else let t = TIM (tim (timers ! i));
                   m = reg_clear (t TIM_CR1) (timm M TIM_CR1_CEN) m;
                   m = wr (t TIM_CNT) 0 m;
                   m = wr (t TIM_ARR) (pulse_us - 1) m;
                   m = wr (t TIM_EGR) (timm M TIM_EGR_UG) m;
                   m = wr (t TIM_SR) 0 m;
                   m = wr (t TIM_DIER) (timm M TIM_DIER_UIE) m
               in (ERR_SUCCESS, reg_or (t TIM_CR1) (timm M TIM_CR1_CEN) m))"

text \<open>\<open>out_arr\<close> is written on success only.\<close>

definition hw_timer_pwm_acquire ::
    "cmsis \<Rightarrow> u8 \<Rightarrow> u32 \<Rightarrow> mcu \<Rightarrow> hw_timers \<Rightarrow> (err_code + u32) \<times> mcu \<times> hw_timers" where
  "hw_timer_pwm_acquire M tid freq_hz m timers =
     (if tid \<ge> HW_TIMER_COUNT then (Inl ERR_INVALID_PARAMETER, m, timers)
      else let e = timers ! unat tid
           in if te_state e = STATE_PULSE then (Inl ERR_PERIPHERAL_BUSY, m, timers)
              else case compute_psc_arr freq_hz (te_width e) of
                Inl _ \<Rightarrow> (Inl ERR_INVALID_PARAMETER, m, timers)
              | Inr (psc, arr) \<Rightarrow>
                  if te_state e = STATE_PWM
                  then if te_psc e \<noteq> psc \<or> te_arr e \<noteq> arr then (Inl ERR_PWM_FREQ_CONFLICT, m, timers)
                       else (Inr (te_arr e), m,
                             timers[unat tid := e\<lparr>pwm_ref_count := pwm_ref_count e + 1\<rparr>])
                  else let m = clock_enable e m;
                           t = TIM (tim e);
                           m = wr (t TIM_CR1) 0 m;
                           m = wr (t TIM_PSC) psc m;
                           m = wr (t TIM_ARR) arr m;
                           m = wr (t TIM_CR1) (timm M TIM_CR1_ARPE) m;
                           m = wr (t TIM_EGR) (timm M TIM_EGR_UG) m;
                           m = wr (t TIM_SR) 0 m;
                           m = reg_or (t TIM_CR1) (timm M TIM_CR1_CEN) m
                       in (Inr arr, m,
                           timers[unat tid := e\<lparr>te_psc := psc, te_arr := arr, pwm_ref_count := 1,
                                               te_state := STATE_PWM\<rparr>]))"

definition hw_timer_pwm_release :: "u8 \<Rightarrow> mcu \<Rightarrow> hw_timers \<Rightarrow> mcu \<times> hw_timers" where
  "hw_timer_pwm_release tid m timers =
     (if tid \<ge> HW_TIMER_COUNT then (m, timers)
      else let e = timers ! unat tid
           in if te_state e \<noteq> STATE_PWM then (m, timers)
              else let e = (if pwm_ref_count e > 0 then e\<lparr>pwm_ref_count := pwm_ref_count e - 1\<rparr> else e)
                   in if pwm_ref_count e = 0
                      then let m = wr (TIM (tim e) TIM_CR1) 0 m; m = clock_disable e m
                           in (m, timers[unat tid := e\<lparr>te_psc := 0, te_arr := 0, te_state := STATE_FREE\<rparr>])
                      else (m, timers[unat tid := e]))"

definition hw_timer_handle :: "u8 \<Rightarrow> hw_timers \<Rightarrow> tim_handle option" where
  "hw_timer_handle tid timers = (if tid \<ge> HW_TIMER_COUNT then None else Some (tim (timers ! unat tid)))"

definition hw_timer_pwm_arr :: "u8 \<Rightarrow> hw_timers \<Rightarrow> u32" where
  "hw_timer_pwm_arr tid timers = (if tid \<ge> HW_TIMER_COUNT then 0 else te_arr (timers ! unat tid))"

text \<open>
  \<open>sr\<close> is the value the read of SR returns. The result is the callback to run, with its token.
\<close>

definition handle_pulse_isr ::
    "cmsis \<Rightarrow> u32 \<Rightarrow> u8 \<Rightarrow> mcu \<Rightarrow> hw_timers \<Rightarrow> (pulse_cb \<times> u8) option \<times> mcu" where
  "handle_pulse_isr M sr tid m timers =
     (let e = timers ! unat tid
      in if sr AND timm M TIM_SR_UIF = 0 then (None, m)
         else let m = wr (TIM (tim e) TIM_SR) (NOT (timm M TIM_SR_UIF)) m
              in (if te_state e = STATE_PULSE
                  then map_option (\<lambda>cb. (cb, pulse_token e)) (te_pulse_cb e) else None, m))"

text \<open>The vector table: which timer the handler of each interrupt line serves.\<close>

fun irq_timer :: "irq \<Rightarrow> u8 option" where
  "irq_timer TIM2_IRQn = Some 0"
| "irq_timer TIM3_IRQn = Some 1"
| "irq_timer TIM4_IRQn = Some 2"
| "irq_timer TIM5_IRQn = Some 3"
| "irq_timer TIM1_BRK_TIM9_IRQn = Some 4"
| "irq_timer TIM1_UP_TIM10_IRQn = Some 5"
| "irq_timer TIM1_TRG_COM_TIM11_IRQn = Some 6"
| "irq_timer _ = None"

subsection \<open>Prescaler and reload value\<close>

definition arr_limit :: "hw_timer_width \<Rightarrow> nat" where
  "arr_limit w = (if w = HW_TIMER_WIDTH_32 then 0xFFFFFFFF else 0xFFFF)"

text \<open>The period in timer clocks, and the smallest prescaler for which it fits the counter.\<close>

definition pwm_period :: "u32 \<Rightarrow> nat" where
  "pwm_period freq = 84000000 div unat freq"

definition pwm_prescale :: "hw_timer_width \<Rightarrow> u32 \<Rightarrow> nat" where
  "pwm_prescale w freq = (pwm_period freq + arr_limit w) div (arr_limit w + 1)"

lemma unat_ucast_u32_u64 [simp]: "unat (ucast (x :: u32) :: u64) = unat x"
proof -
  have "unat x < 2 ^ 64" using unsigned_less[of x, where 'a = nat] by simp
  then show ?thesis by (simp add: unsigned_ucast_eq take_bit_nat_eq_self_iff)
qed

lemma unat_ucast_u64_u32: "unat (x :: u64) < 2 ^ 32 \<Longrightarrow> unat (ucast x :: u32) = unat x"
  by (simp add: unsigned_ucast_eq take_bit_nat_eq_self_iff)

lemma unat_u64_add: "unat x + unat y < 2 ^ 64 \<Longrightarrow> unat ((x :: u64) + y) = unat x + unat y"
  by (simp add: unat_word_ariths)

lemma unat_u64_minus1: "x \<noteq> 0 \<Longrightarrow> unat ((x :: u64) - 1) = unat x - 1"
  by (simp add: unat_minus_one)

lemma pwm_period_bounds:
  assumes "freq \<noteq> 0" "freq \<le> 42000000"
  shows "2 \<le> pwm_period freq" "pwm_period freq \<le> 84000000"
proof -
  have "0 < unat freq" "unat freq \<le> 42000000"
    using assms by (auto simp: word_le_nat_alt unat_gt_0)
  then show "2 \<le> pwm_period freq" "pwm_period freq \<le> 84000000"
    by (auto simp: pwm_period_def less_eq_div_iff_mult_less_eq div_le_dividend)
qed

lemma pwm_prescale_bounds:
  assumes "freq \<noteq> 0" "freq \<le> 42000000"
  shows "1 \<le> pwm_prescale w freq" "pwm_prescale w freq \<le> 1282"
    "pwm_period freq \<le> pwm_prescale w freq * (arr_limit w + 1)"
    "(pwm_prescale w freq - 1) * (arr_limit w + 1) < pwm_period freq"
proof -
  let ?P = "pwm_period freq" and ?A = "arr_limit w"
  note P = pwm_period_bounds[OF assms]
  have A: "0 < ?A + 1" by simp
  show one: "1 \<le> pwm_prescale w freq"
    using P by (simp add: pwm_prescale_def less_eq_div_iff_mult_less_eq)
  have "(?P + ?A) div (?A + 1) \<le> (84000000 + ?A) div (?A + 1)"
    using P by (intro div_le_mono) simp
  also have "\<dots> \<le> 1282" by (simp add: arr_limit_def)
  finally show "pwm_prescale w freq \<le> 1282" by (simp add: pwm_prescale_def)
  have dm: "(?P + ?A) div (?A + 1) * (?A + 1) + (?P + ?A) mod (?A + 1) = ?P + ?A"
    by (rule div_mult_mod_eq)
  moreover have "(?P + ?A) mod (?A + 1) < ?A + 1" by (rule mod_less_divisor[OF A])
  ultimately show "?P \<le> pwm_prescale w freq * (?A + 1)"
    unfolding pwm_prescale_def by linarith
  have "(pwm_prescale w freq - 1) * (?A + 1) + (?A + 1) = pwm_prescale w freq * (?A + 1)"
    using one by (metis Suc_diff_1 add.commute less_le_trans mult_Suc zero_less_one)
  then show "(pwm_prescale w freq - 1) * (?A + 1) < ?P"
    using dm unfolding pwm_prescale_def by linarith
qed

lemma compute_psc_arr_error:
  "freq = 0 \<or> 42000000 < freq \<Longrightarrow> compute_psc_arr freq w = Inl ERR_INVALID_PARAMETER"
  by (auto simp: compute_psc_arr_def)

lemma compute_psc_arr_value:
  assumes "freq \<noteq> 0" "freq \<le> 42000000"
  obtains psc arr where "compute_psc_arr freq w = Inr (psc, arr)"
    "unat psc = pwm_prescale w freq - 1" "unat arr = pwm_period freq div pwm_prescale w freq - 1"
    "2 \<le> pwm_period freq div pwm_prescale w freq" "unat arr \<le> arr_limit w"
proof -
  let ?max = "if w = HW_TIMER_WIDTH_32 then HW_TIMER_ARR_MAX_32 else HW_TIMER_ARR_MAX_16"
  let ?period = "ucast HW_TIMER_CLOCK_HZ div (ucast freq :: u64)"
  let ?p = "(?period + ?max) div (?max + 1)"
  note B = pwm_prescale_bounds[OF assms, of w] and P = pwm_period_bounds[OF assms]
  have max: "unat ?max = arr_limit w" "unat (?max + 1) = arr_limit w + 1"
    by (auto simp: arr_limit_def)
  have period: "unat ?period = pwm_period freq"
    by (simp add: unat_div_distrib pwm_period_def)
  have "unat (?period + ?max) = pwm_period freq + arr_limit w"
    using P by (subst unat_u64_add) (simp_all only: period max, simp add: arr_limit_def)
  then have p: "unat ?p = pwm_prescale w freq"
    by (simp only: unat_div_distrib max pwm_prescale_def)
  then have p0: "?p \<noteq> 0" using B(1) by (metis not_one_le_zero unsigned_0)
  have le: "pwm_period freq div pwm_prescale w freq \<le> arr_limit w + 1"
    using B(1,3) by (metis div_le_mono div_mult_self1_is_m mult.commute less_le_trans zero_less_one)
  have two: "2 \<le> pwm_period freq div pwm_prescale w freq"
  proof (cases "pwm_prescale w freq = 1")
    case False
    have "pwm_prescale w freq - 1 \<le> (pwm_prescale w freq - 1) * (arr_limit w + 1) div 4"
      by (simp add: arr_limit_def)
    with B(1,4) False have "2 * pwm_prescale w freq \<le> pwm_period freq" by linarith
    with B(1) show ?thesis by (simp add: less_eq_div_iff_mult_less_eq)
  qed (use P in simp)
  let ?q = "?period div ?p"
  have q: "unat ?q = pwm_period freq div pwm_prescale w freq"
    using unat_div_distrib[of ?period ?p] unfolding period p .
  then have q0: "?q \<noteq> 0" using two by (metis not_numeral_le_zero unsigned_0)
  have arr: "unat (?q - 1) = pwm_period freq div pwm_prescale w freq - 1"
    using unat_u64_minus1[OF q0] q by simp
  have psc: "unat (?p - 1) = pwm_prescale w freq - 1"
    using unat_u64_minus1[OF p0] p by simp
  have no_psc_err: "\<not> ?p > HW_TIMER_PSC_MAX + 1" using p B(2) by (simp add: word_less_nat_alt)
  have no_arr_err: "\<not> ?q - 1 > ?max" using arr le max(1) by (simp add: word_less_nat_alt)
  have ok: "\<not> (freq = 0 \<or> freq > HW_TIMER_FREQ_MAX_HZ)" using assms by auto
  show ?thesis
  proof (rule that)
    show "compute_psc_arr freq w = Inr (ucast (?p - 1), ucast (?q - 1))"
      unfolding compute_psc_arr_def Let_def
      by (simp only: ok p0 no_psc_err no_arr_err if_False)
    show "unat (ucast (?p - 1) :: u32) = pwm_prescale w freq - 1"
      using psc B(2) by (subst unat_ucast_u64_u32) simp_all
    show "unat (ucast (?q - 1) :: u32) = pwm_period freq div pwm_prescale w freq - 1"
      using arr le by (subst unat_ucast_u64_u32) (simp_all add: arr_limit_def split: if_splits)
    then show "unat (ucast (?q - 1) :: u32) \<le> arr_limit w" using le by simp
  qed (rule two)
qed

subsection \<open>The pool as a resource manager\<close>

text \<open>
  The abstract state of a timer. A pulse owner excludes everyone else; PWM users share the
  timer, all with the same prescaler and reload value.
\<close>

datatype timer_use = Free | Pulse u8 | Pwm u32 u32 nat

definition timer_use :: "hw_timer_entry \<Rightarrow> timer_use" where
  "timer_use e = (case te_state e of STATE_FREE \<Rightarrow> Free | STATE_PULSE \<Rightarrow> Pulse (pulse_token e)
     | STATE_PWM \<Rightarrow> Pwm (te_psc e) (te_arr e) (unat (pwm_ref_count e)))"

definition pool_use :: "hw_timers \<Rightarrow> timer_use list" where
  "pool_use = map timer_use"

text \<open>What the fields of an entry satisfy in each state, and what never changes.\<close>

definition entry_inv :: "hw_timer_entry \<Rightarrow> bool" where
  "entry_inv e \<longleftrightarrow> (case te_state e of
     STATE_FREE \<Rightarrow> te_pulse_cb e = None \<and> pulse_token e = 0 \<and> te_psc e = 0 \<and> te_arr e = 0 \<and> pwm_ref_count e = 0
   | STATE_PULSE \<Rightarrow> te_pulse_cb e \<noteq> None \<and> te_psc e = 0 \<and> te_arr e = 0 \<and> pwm_ref_count e = 0
   | STATE_PWM \<Rightarrow> te_pulse_cb e = None \<and> pulse_token e = 0 \<and> pwm_ref_count e > 0 \<and>
       unat (te_arr e) \<le> arr_limit (te_width e) \<and> 1 \<le> te_arr e)"

definition timers_inv :: "hw_timers \<Rightarrow> bool" where
  "timers_inv ts \<longleftrightarrow> length ts = 7 \<and> list_all entry_inv ts"

lemma timers_inv_init [inv_intros]: "timers_inv (hw_timer_init M)"
  by (simp add: timers_inv_def hw_timer_init_def entry_inv_def timer_entry_def)

lemma timers_inv_nth: "timers_inv ts \<Longrightarrow> i < 7 \<Longrightarrow> entry_inv (ts ! i)"
  by (simp add: timers_inv_def list_all_length)

lemma timers_inv_update: "timers_inv ts \<Longrightarrow> entry_inv e \<Longrightarrow> timers_inv (ts[i := e])"
  by (cases "i < length ts") (auto simp: timers_inv_def list_all_length nth_list_update)

lemma unat_timer_id: "\<not> (tid \<ge> HW_TIMER_COUNT) \<Longrightarrow> unat tid < 7"
  by (simp add: not_le word_less_nat_alt)

lemma find_pulse_entry_inv:
  "timers_inv ts \<Longrightarrow> find_pulse_entry tok ts = Some i \<Longrightarrow>
     i < 7 \<and> te_state (ts ! i) = STATE_PULSE \<and> pulse_token (ts ! i) = tok"
  by (auto simp: find_pulse_entry_def timers_inv_def dest!: find_index_SomeD)

lemma pulse_acquire_inv [inv_intros]:
  assumes "timers_inv ts" "hw_timer_pulse_acquire M tid tok cb m ts = (e, m', ts')"
  shows "timers_inv ts'"
proof (cases "e = ERR_SUCCESS")
  case True
  then have tid: "\<not> tid \<ge> 7" and st: "te_state (ts ! unat tid) = STATE_FREE"
    and ts': "ts' = ts[unat tid := (ts ! unat tid)\<lparr>pulse_token := tok, te_pulse_cb := Some cb, te_state := STATE_PULSE\<rparr>]"
    using assms(2) by (auto simp: hw_timer_pulse_acquire_def Let_def split: if_splits)
  from timers_inv_nth[OF assms(1) unat_timer_id[OF tid]] st show ?thesis
    unfolding ts' by (intro timers_inv_update[OF assms(1)]) (simp add: entry_inv_def)
next
  case False
  then have "ts' = ts" using assms(2) by (auto simp: hw_timer_pulse_acquire_def Let_def split: if_splits)
  with assms(1) show ?thesis by simp
qed

lemma pulse_release_inv [inv_intros]:
  assumes "timers_inv ts" "hw_timer_pulse_release tok m ts = (m', ts')"
  shows "timers_inv ts'"
proof (cases "find_pulse_entry tok ts")
  case None
  with assms show ?thesis by (simp add: hw_timer_pulse_release_def)
next
  case (Some i)
  have i: "i < 7" "te_state (ts ! i) = STATE_PULSE"
    using find_pulse_entry_inv[OF assms(1) Some] by auto
  have ts': "ts' = ts[i := (ts ! i)\<lparr>pulse_token := 0, te_pulse_cb := None, te_state := STATE_FREE\<rparr>]"
    using assms(2) Some by (simp add: hw_timer_pulse_release_def Let_def)
  from timers_inv_nth[OF assms(1) i(1)] i(2) show ?thesis
    unfolding ts' by (intro timers_inv_update[OF assms(1)]) (simp add: entry_inv_def)
qed

lemma compute_psc_arr_bounds:
  assumes "compute_psc_arr freq w = Inr (psc, arr)"
  shows "unat arr \<le> arr_limit w" "1 \<le> arr" "unat psc \<le> 0xFFFF"
proof -
  have f: "freq \<noteq> 0" "freq \<le> 42000000"
    using assms compute_psc_arr_error[of freq w] not_le_imp_less[of freq 42000000] by fastforce+
  obtain psc' arr' where c: "compute_psc_arr freq w = Inr (psc', arr')"
    "unat psc' = pwm_prescale w freq - 1" "unat arr' = pwm_period freq div pwm_prescale w freq - 1"
    "2 \<le> pwm_period freq div pwm_prescale w freq" "unat arr' \<le> arr_limit w"
    using compute_psc_arr_value[OF f, of w] by metis
  then show "unat arr \<le> arr_limit w" "1 \<le> arr" "unat psc \<le> 0xFFFF"
    using assms pwm_prescale_bounds(2)[OF f, of w] by (auto simp: word_le_nat_alt)
qed

text \<open>
  The PWM reference count is a byte, so the invariant needs that a 256th user never comes; the
  PWM sensors have at most four channels per timer.
\<close>

lemma pwm_acquire_inv [inv_intros]:
  assumes "timers_inv ts" "hw_timer_pwm_acquire M tid freq m ts = (r, m', ts')"
    and "pwm_ref_count (ts ! unat tid) \<noteq> 255"
  shows "timers_inv ts'"
proof (cases r)
  case (Inl e)
  then have "ts' = ts"
    using assms(2) by (auto simp: hw_timer_pwm_acquire_def Let_def split: if_splits sum.splits)
  with assms(1) show ?thesis by simp
next
  case (Inr arr)
  let ?e = "ts ! unat tid"
  have tid: "\<not> tid \<ge> 7" using assms(2) Inr by (auto simp: hw_timer_pwm_acquire_def)
  note e = timers_inv_nth[OF assms(1) unat_timer_id[OF tid]]
  have nz: "pwm_ref_count ?e + 1 \<noteq> 0"
  proof
    assume "pwm_ref_count ?e + 1 = 0"
    then have "pwm_ref_count ?e = - 1" by (simp add: eq_neg_iff_add_eq_0)
    with assms(3) show False by simp
  qed
  obtain psc arr' where c: "compute_psc_arr freq (te_width ?e) = Inr (psc, arr')"
    using assms(2) Inr by (auto simp: hw_timer_pwm_acquire_def Let_def split: if_splits sum.splits)
  consider "te_state ?e = STATE_PWM" "ts' = ts[unat tid := ?e\<lparr>pwm_ref_count := pwm_ref_count ?e + 1\<rparr>]"
    | "te_state ?e = STATE_FREE" "ts' = ts[unat tid := ?e\<lparr>te_psc := psc, te_arr := arr', pwm_ref_count := 1, te_state := STATE_PWM\<rparr>]"
    using assms(2) Inr c tid
    by (cases "te_state ?e") (auto simp: hw_timer_pwm_acquire_def Let_def split: if_splits)
  then show ?thesis
  proof cases
    case 1
    then show ?thesis
      using e nz by (auto intro!: timers_inv_update[OF assms(1)] simp: entry_inv_def word_neq_0_conv)
  next
    case 2
    then show ?thesis
      using e compute_psc_arr_bounds[OF c]
      by (auto intro!: timers_inv_update[OF assms(1)] simp: entry_inv_def)
  qed
qed

lemma u8_pred_pos: "x \<noteq> 1 \<Longrightarrow> 0 < (x :: u8) - 1"
  by (simp flip: word_neq_0_conv)

lemma pwm_release_inv [inv_intros]:
  assumes "timers_inv ts" "hw_timer_pwm_release tid m ts = (m', ts')"
  shows "timers_inv ts'"
proof (cases "\<not> tid \<ge> 7 \<and> te_state (ts ! unat tid) = STATE_PWM")
  case True
  let ?e = "ts ! unat tid"
  have e: "entry_inv ?e" using timers_inv_nth[OF assms(1) unat_timer_id] True by simp
  then show ?thesis
    using assms(2) True
    by (auto simp: hw_timer_pwm_release_def Let_def entry_inv_def word_neq_0_conv u8_pred_pos
        intro!: timers_inv_update[OF assms(1)] split: if_splits)
next
  case False
  with assms show ?thesis by (auto simp: hw_timer_pwm_release_def split: if_splits)
qed

subsection \<open>Refinement of the resource manager\<close>

definition spec_pulse_acquire :: "u8 \<Rightarrow> u8 \<Rightarrow> timer_use list \<Rightarrow> err_code \<times> timer_use list" where
  "spec_pulse_acquire tid tok ps =
     (if tid \<ge> HW_TIMER_COUNT then (ERR_INVALID_PARAMETER, ps)
      else if ps ! unat tid = Free then (ERR_SUCCESS, ps[unat tid := Pulse tok])
      else (ERR_PERIPHERAL_BUSY, ps))"

definition spec_pulse_release :: "u8 \<Rightarrow> timer_use list \<Rightarrow> timer_use list" where
  "spec_pulse_release tok ps =
     (case find_index (\<lambda>p. p = Pulse tok) ps of None \<Rightarrow> ps | Some i \<Rightarrow> ps[i := Free])"

definition spec_pwm_acquire ::
    "u8 \<Rightarrow> (err_code + u32 \<times> u32) \<Rightarrow> timer_use list \<Rightarrow> (err_code + u32) \<times> timer_use list" where
  "spec_pwm_acquire tid cfg ps =
     (if tid \<ge> HW_TIMER_COUNT then (Inl ERR_INVALID_PARAMETER, ps)
      else case ps ! unat tid of
        Pulse _ \<Rightarrow> (Inl ERR_PERIPHERAL_BUSY, ps)
      | Free \<Rightarrow> (case cfg of Inl _ \<Rightarrow> (Inl ERR_INVALID_PARAMETER, ps)
                | Inr (psc, arr) \<Rightarrow> (Inr arr, ps[unat tid := Pwm psc arr 1]))
      | Pwm psc arr n \<Rightarrow> (case cfg of Inl _ \<Rightarrow> (Inl ERR_INVALID_PARAMETER, ps)
                | Inr c \<Rightarrow> if c = (psc, arr) then (Inr arr, ps[unat tid := Pwm psc arr (n + 1)])
                          else (Inl ERR_PWM_FREQ_CONFLICT, ps)))"

definition spec_pwm_release :: "u8 \<Rightarrow> timer_use list \<Rightarrow> timer_use list" where
  "spec_pwm_release tid ps =
     (if tid \<ge> HW_TIMER_COUNT then ps
      else case ps ! unat tid of
        Pwm psc arr n \<Rightarrow> ps[unat tid := (if n \<le> 1 then Free else Pwm psc arr (n - 1))]
      | _ \<Rightarrow> ps)"

lemma pool_use_update: "pool_use (ts[i := e]) = (pool_use ts)[i := timer_use e]"
  by (simp add: pool_use_def map_update)

lemma pool_use_nth: "timers_inv ts \<Longrightarrow> i < 7 \<Longrightarrow> pool_use ts ! i = timer_use (ts ! i)"
  by (simp add: pool_use_def timers_inv_def)

lemma pulse_acquire_refines:
  assumes "timers_inv ts" "hw_timer_pulse_acquire M tid tok cb m ts = (e, m', ts')"
  shows "spec_pulse_acquire tid tok (pool_use ts) = (e, pool_use ts')"
    and "e \<noteq> ERR_SUCCESS \<Longrightarrow> m' = m \<and> ts' = ts"
  using assms pool_use_nth[OF assms(1) unat_timer_id, of tid]
  by (auto simp: hw_timer_pulse_acquire_def spec_pulse_acquire_def Let_def pool_use_update
      timer_use_def split: if_splits hw_timer_state.splits)

lemma find_index_map: "find_index P (map f xs) = find_index (\<lambda>x. P (f x)) xs"
  by (induction xs) auto

lemma pulse_release_refines:
  assumes "hw_timer_pulse_release tok m ts = (m', ts')"
  shows "pool_use ts' = spec_pulse_release tok (pool_use ts)"
proof -
  have "find_index (\<lambda>p. p = Pulse tok) (pool_use ts) = find_pulse_entry tok ts"
    unfolding pool_use_def find_index_map find_pulse_entry_def
    by (rule arg_cong[of _ _ "\<lambda>P. find_index P ts"], rule ext)
       (auto simp: timer_use_def split: hw_timer_state.splits)
  then show ?thesis
    using assms
    by (auto simp: hw_timer_pulse_release_def spec_pulse_release_def Let_def pool_use_update
        timer_use_def split: option.splits)
qed

lemma pwm_acquire_refines:
  assumes "timers_inv ts" "hw_timer_pwm_acquire M tid freq m ts = (r, m', ts')"
    and "pwm_ref_count (ts ! unat tid) \<noteq> 255"
  shows "spec_pwm_acquire tid (compute_psc_arr freq (te_width (ts ! unat tid))) (pool_use ts)
      = (r, pool_use ts')"
proof -
  let ?c = "pwm_ref_count (ts ! unat tid)"
  have "unat ?c \<noteq> 255" using assms(3) by (auto simp: word_unat_eq_iff)
  then have "unat ?c < 255" using unat_u8_less[of ?c] by linarith
  then have "unat (?c + 1) = Suc (unat ?c)" by (simp add: unat_word_ariths)
  then show ?thesis
    using assms(2) pool_use_nth[OF assms(1) unat_timer_id, of tid]
    by (auto simp: hw_timer_pwm_acquire_def spec_pwm_acquire_def Let_def pool_use_update
        timer_use_def split: if_splits hw_timer_state.splits sum.splits)
qed

lemma pwm_release_refines:
  assumes "timers_inv ts" "hw_timer_pwm_release tid m ts = (m', ts')"
  shows "pool_use ts' = spec_pwm_release tid (pool_use ts)"
proof (cases "tid \<ge> 7")
  case True
  with assms(2) show ?thesis by (simp add: hw_timer_pwm_release_def spec_pwm_release_def)
next
  case False
  let ?e = "ts ! unat tid"
  have e: "entry_inv ?e" "pool_use ts ! unat tid = timer_use ?e"
    using timers_inv_nth[OF assms(1)] pool_use_nth[OF assms(1)] unat_timer_id[OF False] by auto
  have dec: "unat (pwm_ref_count ?e - 1) = unat (pwm_ref_count ?e) - 1" if "pwm_ref_count ?e > 0"
    using that by (intro unat_minus_one) auto
  have one: "pwm_ref_count ?e - 1 = 0 \<longleftrightarrow> unat (pwm_ref_count ?e) \<le> 1" if "pwm_ref_count ?e > 0"
  proof -
    have "pwm_ref_count ?e - 1 = 0 \<longleftrightarrow> unat (pwm_ref_count ?e - 1) = 0"
      by (simp only: word_unat_eq_iff unsigned_0)
    then show ?thesis using dec[OF that] by simp
  qed
  show ?thesis
    using assms(2) False e dec one
    by (auto simp: hw_timer_pwm_release_def spec_pwm_release_def Let_def pool_use_update
        timer_use_def entry_inv_def split: if_splits hw_timer_state.splits)
qed

text \<open>Arming a pulse: what is programmed, and that the count is the requested microseconds.\<close>

lemma pulse_start_spec:
  assumes "find_pulse_entry tok ts = Some i" "pulse_us \<noteq> 0"
    "unat pulse_us \<le> arr_limit (te_width (ts ! i))"
  shows "fst (hw_timer_pulse_start M tok pulse_us m ts) = ERR_SUCCESS"
    and "regs (snd (hw_timer_pulse_start M tok pulse_us m ts)) (TIM (tim (ts ! i)) TIM_ARR) = pulse_us - 1"
    and "unat (pulse_us - 1) + 1 = unat pulse_us"
    and "\<And>t r. t \<noteq> tim (ts ! i) \<Longrightarrow>
      regs (snd (hw_timer_pulse_start M tok pulse_us m ts)) (TIM t r) = regs m (TIM t r)"
proof -
  have "\<not> pulse_us > hw_timer_pulse_max_us tok ts"
    using assms by (auto simp: hw_timer_pulse_max_us_def word_less_nat_alt arr_limit_def split: if_splits)
  then show "fst (hw_timer_pulse_start M tok pulse_us m ts) = ERR_SUCCESS"
    "regs (snd (hw_timer_pulse_start M tok pulse_us m ts)) (TIM (tim (ts ! i)) TIM_ARR) = pulse_us - 1"
    "\<And>t r. t \<noteq> tim (ts ! i) \<Longrightarrow>
      regs (snd (hw_timer_pulse_start M tok pulse_us m ts)) (TIM t r) = regs m (TIM t r)"
    using assms by (simp_all add: hw_timer_pulse_start_def Let_def)
  have "0 < unat pulse_us" using assms(2) by (simp add: unat_gt_0)
  with assms(2) show "unat (pulse_us - 1) + 1 = unat pulse_us" by (simp add: unat_minus_one)
qed

subsection \<open>Acquire and release cancel\<close>

text \<open>Releasing right after a successful acquisition restores the pool entry by entry.\<close>

lemma pwm_release_acquire:
  assumes "timers_inv ts" "hw_timer_pwm_acquire M tid freq m ts = (Inr arr, m', ts')"
    and "pwm_ref_count (ts ! unat tid) \<noteq> 255"
  shows "snd (hw_timer_pwm_release tid m'' ts') = ts"
proof -
  let ?e = "ts ! unat tid"
  have tid: "\<not> tid \<ge> 7" using assms(2) by (auto simp: hw_timer_pwm_acquire_def)
  then have i: "unat tid < length ts" using assms(1) unat_timer_id by (simp add: timers_inv_def)
  note e = timers_inv_nth[OF assms(1) unat_timer_id[OF tid]]
  have same: "ts[unat tid := f] = ts" if "f = ?e" for f using that by simp
  have nz: "pwm_ref_count ?e + 1 \<noteq> 0"
  proof
    assume "pwm_ref_count ?e + 1 = 0"
    then have "pwm_ref_count ?e = - 1" by (simp add: eq_neg_iff_add_eq_0)
    with assms(3) show False by simp
  qed
  consider "te_state ?e = STATE_PWM" "pwm_ref_count ?e > 0"
      "ts' = ts[unat tid := ?e\<lparr>pwm_ref_count := pwm_ref_count ?e + 1\<rparr>]"
    | psc arr' where "te_state ?e = STATE_FREE" "te_psc ?e = 0" "te_arr ?e = 0" "pwm_ref_count ?e = 0"
      "ts' = ts[unat tid := ?e\<lparr>te_psc := psc, te_arr := arr', pwm_ref_count := 1, te_state := STATE_PWM\<rparr>]"
    using assms(2) tid e
    by (cases "te_state ?e") (auto simp: hw_timer_pwm_acquire_def Let_def entry_inv_def split: if_splits sum.splits)
  then show ?thesis
  proof cases
    case 1
    then show ?thesis
      using tid i nz by (auto simp: hw_timer_pwm_release_def Let_def word_neq_0_conv intro!: same)
  next
    case 2
    then show ?thesis
      using tid i by (auto simp: hw_timer_pwm_release_def Let_def intro!: same)
  qed
qed

text \<open>A successful acquisition leaves the timer in PWM mode with the reload value it returns.\<close>

lemma pwm_acquire_arr:
  assumes "length ts = 7" "hw_timer_pwm_acquire M tid freq m ts = (Inr arr, m', ts')"
  shows "te_arr (ts' ! unat tid) = arr" "te_state (ts' ! unat tid) = STATE_PWM"
    "\<And>j. j \<noteq> unat tid \<Longrightarrow> ts' ! j = ts ! j" "length ts' = 7" "\<not> tid \<ge> HW_TIMER_COUNT"
    "tim (ts' ! unat tid) = tim (ts ! unat tid)" "te_width (ts' ! unat tid) = te_width (ts ! unat tid)"
    "\<exists>psc. compute_psc_arr freq (te_width (ts ! unat tid)) = Inr (psc, arr)"
proof -
  have tid: "\<not> tid \<ge> 7" using assms(2) by (auto simp: hw_timer_pwm_acquire_def)
  then show "\<not> tid \<ge> 7" .
  from tid have "unat tid < length ts" using assms(1) unat_timer_id by simp
  then show "te_arr (ts' ! unat tid) = arr" "te_state (ts' ! unat tid) = STATE_PWM"
    "\<And>j. j \<noteq> unat tid \<Longrightarrow> ts' ! j = ts ! j" "length ts' = 7"
    "tim (ts' ! unat tid) = tim (ts ! unat tid)" "te_width (ts' ! unat tid) = te_width (ts ! unat tid)"
    "\<exists>psc. compute_psc_arr freq (te_width (ts ! unat tid)) = Inr (psc, arr)"
    using assms tid by (auto simp: hw_timer_pwm_acquire_def Let_def split: if_splits sum.splits)
qed

lemma pwm_acquire_error:
  assumes "hw_timer_pwm_acquire M tid freq m ts = (Inl e, m', ts')"
  shows "e \<noteq> ERR_SUCCESS \<and> m' = m \<and> ts' = ts"
  using assms by (auto simp: hw_timer_pwm_acquire_def Let_def split: if_splits sum.splits)

lemma pwm_acquire_use:
  assumes "timers_inv ts" "hw_timer_pwm_acquire M tid freq m ts = (Inr arr, m', ts')"
    and "pwm_ref_count (ts ! unat tid) \<noteq> 255"
  shows "case timer_use (ts ! unat tid) of
      Free \<Rightarrow> \<exists>psc. timer_use (ts' ! unat tid) = Pwm psc arr 1
    | Pulse _ \<Rightarrow> False
    | Pwm psc a n \<Rightarrow> a = arr \<and> timer_use (ts' ! unat tid) = Pwm psc arr (n + 1)"
proof -
  have l: "length ts = 7" using assms(1) by (simp add: timers_inv_def)
  note A = pwm_acquire_arr[OF l assms(2)]
  have i: "unat tid < 7" using unat_timer_id[OF A(5)] .
  have inv': "timers_inv ts'" by (rule pwm_acquire_inv[OF assms])
  have "pool_use ts' = snd (spec_pwm_acquire tid (compute_psc_arr freq (te_width (ts ! unat tid))) (pool_use ts))"
    "fst (spec_pwm_acquire tid (compute_psc_arr freq (te_width (ts ! unat tid))) (pool_use ts)) = Inr arr"
    using pwm_acquire_refines[OF assms] by simp_all
  moreover have "timer_use (ts' ! unat tid) = pool_use ts' ! unat tid" "timer_use (ts ! unat tid) = pool_use ts ! unat tid"
    using pool_use_nth[OF inv' i] pool_use_nth[OF assms(1) i] by simp_all
  moreover have "length (pool_use ts) = 7" using l by (simp add: pool_use_def)
  ultimately show ?thesis
    using A(5,8) i
    by (auto simp: spec_pwm_acquire_def split: timer_use.splits if_splits sum.splits)
qed

lemma pwm_release_use:
  assumes "timers_inv ts" "hw_timer_pwm_release tid m ts = (m', ts')" "unat tid < 7"
    and "timer_use (ts ! unat tid) = Pwm psc arr n"
  shows "timer_use (ts' ! unat tid) = (if n \<le> 1 then Free else Pwm psc arr (n - 1))"
    and "\<And>j. j < 7 \<Longrightarrow> j \<noteq> unat tid \<Longrightarrow> timer_use (ts' ! j) = timer_use (ts ! j)"
proof -
  have inv': "timers_inv ts'" by (rule pwm_release_inv[OF assms(1,2)])
  have "pool_use ts' = spec_pwm_release tid (pool_use ts)" by (rule pwm_release_refines[OF assms(1,2)])
  then have eq: "pool_use ts' = (pool_use ts)[unat tid := (if n \<le> 1 then Free else Pwm psc arr (n - 1))]"
    using assms(3,4) pool_use_nth[OF assms(1,3)]
    by (simp add: spec_pwm_release_def word_le_nat_alt)
  have l: "length (pool_use ts) = 7" using assms(1) by (simp add: pool_use_def timers_inv_def)
  show "timer_use (ts' ! unat tid) = (if n \<le> 1 then Free else Pwm psc arr (n - 1))"
    using eq l assms(3) pool_use_nth[OF inv' assms(3)] by simp
  show "\<And>j. j < 7 \<Longrightarrow> j \<noteq> unat tid \<Longrightarrow> timer_use (ts' ! j) = timer_use (ts ! j)"
    using eq pool_use_nth[OF inv'] pool_use_nth[OF assms(1)] by (metis nth_list_update_neq)
qed

subsection \<open>Pulse users do not disturb PWM users\<close>

definition pwm_use :: "hw_timer_entry \<Rightarrow> (u32 \<times> u32 \<times> nat) option" where
  "pwm_use e = (case timer_use e of Pwm psc arr n \<Rightarrow> Some (psc, arr, n) | _ \<Rightarrow> None)"

lemma pulse_acquire_pwm_use:
  assumes "hw_timer_pulse_acquire M tid tok cb m ts = (e, m', ts')"
  shows "map pwm_use ts' = map pwm_use ts"
  using assms
  by (cases "unat tid < length ts")
     (auto simp: hw_timer_pulse_acquire_def Let_def map_update pwm_use_def timer_use_def
       list_update_same_conv list_update_beyond not_less split: if_splits hw_timer_state.splits)

lemma pulse_release_pwm_use:
  assumes "hw_timer_pulse_release tok m ts = (m', ts')"
  shows "map pwm_use ts' = map pwm_use ts"
proof (cases "find_pulse_entry tok ts")
  case (Some i)
  then have i: "i < length ts" "te_state (ts ! i) = STATE_PULSE"
    by (auto simp: find_pulse_entry_def dest: find_index_less find_index_hit)
  then show ?thesis
    using assms Some
    by (auto simp: hw_timer_pulse_release_def Let_def map_update pwm_use_def timer_use_def list_update_same_conv)
qed (use assms in \<open>simp add: hw_timer_pulse_release_def\<close>)

subsection \<open>Properties\<close>

text \<open>C24: for every frequency from 1 Hz to 42 MHz and both counter widths the prescaler and reload
  value exist and fit their registers; their product divides down to the requested period with
  an error below one prescaled tick; the prescaler is the smallest possible, so the duty
  resolution is the best the counter allows. Outside that range the result is an error.\<close>

theorem compute_psc_arr_correct:
  "case compute_psc_arr freq w of
     Inl e \<Rightarrow> e = ERR_INVALID_PARAMETER \<and> (freq = 0 \<or> freq > HW_TIMER_FREQ_MAX_HZ)
   | Inr (psc, arr) \<Rightarrow>
       freq \<noteq> 0 \<and> freq \<le> HW_TIMER_FREQ_MAX_HZ \<and> unat psc \<le> 0xFFFF \<and> 1 \<le> unat arr \<and> unat arr \<le> arr_limit w \<and>
       (unat psc + 1) * (unat arr + 1) \<le> pwm_period freq \<and>
       pwm_period freq < (unat psc + 1) * (unat arr + 1) + (unat psc + 1) \<and>
       unat psc * (arr_limit w + 1) < pwm_period freq"
proof (cases "freq = 0 \<or> freq > HW_TIMER_FREQ_MAX_HZ")
  case True
  then show ?thesis by (simp add: compute_psc_arr_error)
next
  case False
  then have f: "freq \<noteq> 0" "freq \<le> 42000000" by auto
  let ?P = "pwm_period freq" and ?k = "pwm_prescale w freq"
  obtain psc arr where c: "compute_psc_arr freq w = Inr (psc, arr)"
    "unat psc = ?k - 1" "unat arr = ?P div ?k - 1" "2 \<le> ?P div ?k" "unat arr \<le> arr_limit w"
    using compute_psc_arr_value[OF f, of w] by metis
  note B = pwm_prescale_bounds[OF f, of w]
  have k: "unat psc + 1 = ?k" "unat arr + 1 = ?P div ?k" using c B(1) by auto
  have "?k * (?P div ?k) \<le> ?P" by simp
  moreover have "?P < ?k * (?P div ?k) + ?k"
    using B(1) by (metis add.commute dividend_less_times_div less_le_trans mult.commute zero_less_one)
  ultimately have prod: "(unat psc + 1) * (unat arr + 1) \<le> ?P"
      "?P < (unat psc + 1) * (unat arr + 1) + (unat psc + 1)" by (simp_all only: k)
  have "unat psc * (arr_limit w + 1) < ?P" using B(4) by (simp only: c(2))
  moreover have "1 \<le> unat arr" "unat psc \<le> 0xFFFF" using c(2,3,4) B(2) by auto
  ultimately show ?thesis
    using prod c(5) f by (simp only: c(1) sum.case prod.case) blast
qed

text \<open>C25: pulse acquisition and release implement the abstract pool: a timer goes to the caller only
  if it is free, a timer in use by a pulse or by PWM is refused with \<open>ERR_PERIPHERAL_BUSY\<close>, and a
  refusal touches neither the pool nor any register.\<close>

theorem pulse_pool_refinement:
  assumes "timers_inv ts" "hw_timer_pulse_acquire M tid tok cb m ts = (e, m', ts')"
    and "hw_timer_pulse_release tok' m ts = (m'', ts'')"
  shows "timers_inv ts' \<and> timers_inv ts'' \<and>
    spec_pulse_acquire tid tok (pool_use ts) = (e, pool_use ts') \<and>
    (e \<noteq> ERR_SUCCESS \<longrightarrow> m' = m \<and> ts' = ts) \<and>
    spec_pulse_release tok' (pool_use ts) = pool_use ts''"
  using pulse_acquire_inv[OF assms(1,2)] pulse_release_inv[OF assms(1,3)]
    pulse_acquire_refines[OF assms(1,2)] pulse_release_refines[OF assms(3)] by auto

theorem pulse_pool_refinement_witness:
  "\<exists>m' ts'. hw_timer_pulse_acquire example_masks 2 9 CB_hw_timer_callback mcu_reset (hw_timer_init example_masks)
     = (ERR_SUCCESS, m', ts') \<and> pool_use ts' ! 2 = Pulse 9"
proof -
  obtain e m' ts' where a: "hw_timer_pulse_acquire example_masks 2 9 CB_hw_timer_callback mcu_reset
      (hw_timer_init example_masks) = (e, m', ts')" by (meson prod_cases3)
  obtain m'' ts'' where r: "hw_timer_pulse_release 9 mcu_reset (hw_timer_init example_masks) = (m'', ts'')"
    by fastforce
  from pulse_pool_refinement[OF timers_inv_init a r] a show ?thesis
    by (auto simp: spec_pulse_acquire_def hw_timer_init_def pool_use_def timer_use_def timer_entry_def
        word_le_nat_alt)
qed

text \<open>
  What a PWM call does to the hardware, in terms of the abstract pool: the clock gate of a timer, a
  running timer, and the call that takes the last user away.
\<close>

definition timer_gate :: "hw_timer_entry \<Rightarrow> reg \<times> u32" where
  "timer_gate e = (if rcc_apb1_mask e \<noteq> 0 then (RCC_APB1ENR, rcc_apb1_mask e) else (RCC_APB2ENR, rcc_apb2_mask e))"

definition timer_runs :: "cmsis \<Rightarrow> hw_timer_entry \<Rightarrow> u32 \<Rightarrow> u32 \<Rightarrow> mcu \<Rightarrow> bool" where
  "timer_runs M e psc arr m \<longleftrightarrow> regs m (TIM (tim e) TIM_PSC) = psc \<and> regs m (TIM (tim e) TIM_ARR) = arr \<and>
     regs m (TIM (tim e) TIM_CR1) = timm M TIM_CR1_ARPE OR timm M TIM_CR1_CEN \<and>
     regs m (fst (timer_gate e)) AND snd (timer_gate e) = snd (timer_gate e)"

definition last_user :: "u8 \<Rightarrow> timer_use list \<Rightarrow> bool" where
  "last_user tid ps \<longleftrightarrow> tid < HW_TIMER_COUNT \<and> (case ps ! unat tid of Pwm psc arr n \<Rightarrow> n \<le> 1 | _ \<Rightarrow> False)"

lemma pwm_acquire_hardware:
  assumes "timers_inv ts" "hw_timer_pwm_acquire M tid freq m ts = (r, m', ts')"
  shows "case r of Inl _ \<Rightarrow> m' = m
    | Inr arr \<Rightarrow> if pool_use ts ! unat tid = Free
        then \<exists>psc. compute_psc_arr freq (te_width (ts ! unat tid)) = Inr (psc, arr) \<and> timer_runs M (ts ! unat tid) psc arr m'
        else m' = m"
proof (cases "tid \<ge> 7")
  case True
  then show ?thesis using assms(2) by (auto simp: hw_timer_pwm_acquire_def)
next
  case False
  then have use: "pool_use ts ! unat tid = timer_use (ts ! unat tid)" using pool_use_nth[OF assms(1) unat_timer_id] by blast
  show ?thesis using assms(2) False unfolding use
    by (auto simp: hw_timer_pwm_acquire_def Let_def timer_use_def timer_runs_def timer_gate_def clock_enable_def or_and_absorb
        split: if_splits hw_timer_state.splits sum.splits)
qed

lemma pwm_release_hardware:
  assumes "timers_inv ts" "hw_timer_pwm_release tid m ts = (m', ts')" "(gate, en) = timer_gate (ts ! unat tid)"
  shows "if last_user tid (pool_use ts)
    then trace m' = trace m @ [Wr (TIM (tim (ts ! unat tid)) TIM_CR1) 0, Wr gate (regs m gate AND NOT en)] \<and>
      regs m' = (regs m)(TIM (tim (ts ! unat tid)) TIM_CR1 := 0, gate := regs m gate AND NOT en)
    else m' = m"
proof (cases "tid \<ge> 7")
  case True
  then show ?thesis using assms(2) by (auto simp: hw_timer_pwm_release_def last_user_def)
next
  case False
  let ?e = "ts ! unat tid"
  have e: "entry_inv ?e" "pool_use ts ! unat tid = timer_use ?e"
    using timers_inv_nth[OF assms(1)] pool_use_nth[OF assms(1)] unat_timer_id[OF False] by auto
  have one: "pwm_ref_count ?e - 1 = 0 \<longleftrightarrow> unat (pwm_ref_count ?e) \<le> 1" if "pwm_ref_count ?e > 0"
    using that unat_minus_one[of "pwm_ref_count ?e"] by (simp add: word_unat_eq_iff word_less_nat_alt)
  show ?thesis
    using assms(2,3) False e(1) one unfolding last_user_def e(2)
    by (auto simp: hw_timer_pwm_release_def Let_def timer_use_def entry_inv_def timer_gate_def clock_disable_def
        split: if_splits hw_timer_state.splits)
qed

text \<open>C26: PWM acquisition and release implement the abstract pool, on the table and on the hardware.
  Users of one timer must agree on prescaler and reload value, a pulse timer is refused, and the
  timer is freed exactly when its last user releases it (for fewer than 255 users before the
  acquisition, the range of the reference count). The first acquisition leaves the timer clocked
  and running with the computed prescaler and reload value; a refused acquisition and one by a
  further user store to no register. The release by the last user stores 0 to CR1 and then turns
  off the timer's clock, and changes no other register; every other release stores nothing.\<close>

theorem pwm_pool_refinement:
  assumes "timers_inv ts" "hw_timer_pwm_acquire M tid freq m ts = (r, m', ts')"
    and "pwm_ref_count (ts ! unat tid) \<noteq> 255"
    and "hw_timer_pwm_release tid' m ts = (m'', ts'')" "(gate, en) = timer_gate (ts ! unat tid')"
  shows "timers_inv ts' \<and> timers_inv ts'' \<and>
    spec_pwm_acquire tid (compute_psc_arr freq (te_width (ts ! unat tid))) (pool_use ts) = (r, pool_use ts') \<and>
    spec_pwm_release tid' (pool_use ts) = pool_use ts'' \<and>
    (case r of Inl _ \<Rightarrow> m' = m
     | Inr arr \<Rightarrow> if pool_use ts ! unat tid = Free
         then \<exists>psc. compute_psc_arr freq (te_width (ts ! unat tid)) = Inr (psc, arr) \<and> timer_runs M (ts ! unat tid) psc arr m'
         else m' = m) \<and>
    (if last_user tid' (pool_use ts)
     then trace m'' = trace m @ [Wr (TIM (tim (ts ! unat tid')) TIM_CR1) 0, Wr gate (regs m gate AND NOT en)] \<and>
       regs m'' = (regs m)(TIM (tim (ts ! unat tid')) TIM_CR1 := 0, gate := regs m gate AND NOT en)
     else m'' = m)"
  using pwm_acquire_inv[OF assms(1-3)] pwm_release_inv[OF assms(1,4)]
    pwm_acquire_refines[OF assms(1-3)] pwm_release_refines[OF assms(1,4)]
    pwm_acquire_hardware[OF assms(1,2)] pwm_release_hardware[OF assms(1,4,5)] by simp

theorem pwm_pool_refinement_witness:
  "\<exists>r m' ts'. hw_timer_pwm_acquire example_masks 1 1000 mcu_reset (hw_timer_init example_masks) = (r, m', ts') \<and>
     (r, pool_use ts') = spec_pwm_acquire 1 (compute_psc_arr 1000 HW_TIMER_WIDTH_16)
       (pool_use (hw_timer_init example_masks))"
proof -
  obtain r m' ts' where a: "hw_timer_pwm_acquire example_masks 1 1000 mcu_reset
      (hw_timer_init example_masks) = (r, m', ts')" by (meson prod_cases3)
  obtain m'' ts'' where b: "hw_timer_pwm_release 1 mcu_reset (hw_timer_init example_masks) = (m'', ts'')"
    by fastforce
  have "pwm_ref_count (hw_timer_init example_masks ! unat (1 :: u8)) \<noteq> 255"
    by (simp add: hw_timer_init_def timer_entry_def)
  from pwm_pool_refinement[OF timers_inv_init a this b prod.collapse] a show ?thesis
    by (auto simp: hw_timer_init_def timer_entry_def)
qed

text \<open>Arming a pulse of a length the timer supports succeeds, programs the reload value so that
  the counter runs for exactly that many one-microsecond ticks, and touches no other timer.\<close>

theorem pulse_start_programs_length:
  assumes "find_pulse_entry tok ts = Some i" "pulse_us \<noteq> 0" "unat pulse_us \<le> arr_limit (te_width (ts ! i))"
  shows "\<exists>m'. hw_timer_pulse_start M tok pulse_us m ts = (ERR_SUCCESS, m') \<and>
    unat (regs m' (TIM (tim (ts ! i)) TIM_ARR)) + 1 = unat pulse_us \<and>
    (\<forall>t r. t \<noteq> tim (ts ! i) \<longrightarrow> regs m' (TIM t r) = regs m (TIM t r))"
  using pulse_start_spec(1,2)[OF assms, of M m] pulse_start_spec(3)[OF assms]
    pulse_start_spec(4)[OF assms, where M = M and m = m]
  by (cases "hw_timer_pulse_start M tok pulse_us m ts") auto

theorem pulse_start_programs_length_witness:
  "\<exists>m'. hw_timer_pulse_start example_masks 9 250 mcu_reset
      [(timer_entry TIM3 TIM3_IRQn 1 0 HW_TIMER_WIDTH_16 4)\<lparr>te_state := STATE_PULSE, pulse_token := 9\<rparr>]
      = (ERR_SUCCESS, m') \<and> unat (regs m' (TIM TIM3 TIM_ARR)) + 1 = 250"
  using pulse_start_programs_length[where tok = 9 and ts = "[(timer_entry TIM3 TIM3_IRQn 1 0 HW_TIMER_WIDTH_16 4)
      \<lparr>te_state := STATE_PULSE, pulse_token := 9\<rparr>]" and i = 0 and pulse_us = 250
      and M = example_masks and m = mcu_reset]
  by (auto simp: find_pulse_entry_def timer_entry_def arr_limit_def)

end
