(* ===== verification/Sensor_Manager.thy ===== *)
theory Sensor_Manager
  imports Shared
begin

text \<open>
  \<^verbatim>\<open>command/src/sensor_manager.c\<close>: the table of live sensors and the allocation of their wire
  ids. The two static variables are the record \<open>sensor_manager\<close>. Its contract is a finite map
  from ids to (protocol, internal id): the locale \<open>id_table\<close> states it for the dispatcher, and
  the interpretation at the end discharges it for the code.
\<close>

subsection \<open>The interface\<close>

locale id_table =
  fixes invar :: "'t \<Rightarrow> bool"
    and table :: "'t \<Rightarrow> 'id \<Rightarrow> 'v option"
    and none :: 'id
    and room :: "'t \<Rightarrow> bool"
    and register :: "'v \<Rightarrow> 't \<Rightarrow> 'id \<times> 't"
    and release :: "'id \<Rightarrow> 't \<Rightarrow> 't"
    and admissible :: "'v \<Rightarrow> bool"
  assumes invar_register: "invar t \<Longrightarrow> admissible v \<Longrightarrow> invar (snd (register v t))"
    and invar_release: "invar t \<Longrightarrow> invar (release i t)"
    and none_unused: "invar t \<Longrightarrow> table t none = None"
    and register_full: "invar t \<Longrightarrow> admissible v \<Longrightarrow> \<not> room t \<Longrightarrow> register v t = (none, t)"
    and register_room: "invar t \<Longrightarrow> admissible v \<Longrightarrow> room t \<Longrightarrow> register v t = (i, t') \<Longrightarrow>
          i \<noteq> none \<and> table t i = None \<and> table t' = (table t)(i \<mapsto> v)"
    and release_table: "invar t \<Longrightarrow> table (release i t) = (table t)(i := None)"
    and room_release: "invar t \<Longrightarrow> table t i \<noteq> None \<Longrightarrow> room (release i t)"
begin

lemma lookup_after_register:
  assumes "invar t" "admissible v" "register v t = (i, t')" "i \<noteq> none"
  shows "table t' i = Some v" "\<And>j. j \<noteq> i \<Longrightarrow> table t' j = table t j"
proof -
  have "room t" using assms register_full[of t v] by auto
  with register_room[OF assms(1,2) _ assms(3)]
  show "table t' i = Some v" "\<And>j. j \<noteq> i \<Longrightarrow> table t' j = table t j" by auto
qed

text \<open>Undoing a registration, as a failed set-up would, gives back the same table.\<close>

lemma release_after_register:
  assumes "invar t" "admissible v" "register v t = (i, t')" "i \<noteq> none"
  shows "table (release i t') = table t"
proof -
  have "room t" using assms register_full[of t v] by auto
  then have "table t i = None" "table t' = (table t)(i \<mapsto> v)"
    using register_room[OF assms(1,2) _ assms(3)] by auto
  moreover have "invar t'" using invar_register[OF assms(1,2)] assms(3) by simp
  ultimately show ?thesis by (auto simp: release_table)
qed

text \<open>After a release there is always room again.\<close>

lemma register_after_release:
  assumes "invar t" "table t i \<noteq> None" "admissible v"
  shows "fst (register v (release i t)) \<noteq> none"
proof -
  have "room (release i t)" by (rule room_release[OF assms(1,2)])
  then show ?thesis
    using register_room[OF invar_release[OF assms(1)] assms(3)] by (cases "register v (release i t)") auto
qed

end

subsection \<open>State and operations\<close>

record sensor_slot =
  slot_id :: u8
  slot_protocol_id :: u8
  slot_internal_id :: u8

record sensor_manager =
  slots :: "sensor_slot list"
  next_id_hint :: u8

abbreviation (input) SENSOR_MAX_SLOTS :: nat where "SENSOR_MAX_SLOTS \<equiv> 8"
abbreviation (input) SENSOR_MANAGER_MAX_ALLOC_TRIES :: nat where "SENSOR_MANAGER_MAX_ALLOC_TRIES \<equiv> 255"

abbreviation (input) free_slot :: sensor_slot where
  "free_slot \<equiv> \<lparr>slot_id = PROTO_SENSOR_ID_NONE, slot_protocol_id = 0, slot_internal_id = 0\<rparr>"

text \<open>The loop writes each of the eight slots of the static array.\<close>

definition sensor_manager_init :: "sensor_manager \<Rightarrow> sensor_manager" where
  "sensor_manager_init sm =
     sm\<lparr>slots := map (\<lambda>s. s\<lparr>slot_id := PROTO_SENSOR_ID_NONE, slot_protocol_id := 0, slot_internal_id := 0\<rparr>)
                   (slots sm),
        next_id_hint := PROTO_SENSOR_ID_MIN\<rparr>"

definition id_in_use :: "u8 \<Rightarrow> sensor_manager \<Rightarrow> bool" where
  "id_in_use sid sm = list_ex (\<lambda>s. slot_id s = sid) (slots sm)"

text \<open>The successor of a candidate: 0xFF wraps to 0x01.\<close>

definition next_id :: "u8 \<Rightarrow> u8" where
  "next_id candidate =
     (if candidate = PROTO_SENSOR_ID_MAX then PROTO_SENSOR_ID_MIN else candidate + 1)"

fun allocate_id_loop :: "nat \<Rightarrow> sensor_manager \<Rightarrow> u8 \<times> sensor_manager" where
  "allocate_id_loop 0 sm = (PROTO_SENSOR_ID_NONE, sm)"
| "allocate_id_loop (Suc tries) sm =
     (let candidate = next_id_hint sm; sm = sm\<lparr>next_id_hint := next_id candidate\<rparr>
      in if \<not> id_in_use candidate sm then (candidate, sm) else allocate_id_loop tries sm)"

definition allocate_id :: "sensor_manager \<Rightarrow> u8 \<times> sensor_manager" where
  "allocate_id sm = allocate_id_loop SENSOR_MANAGER_MAX_ALLOC_TRIES sm"

text \<open>\<open>None\<close> is the failed assertion on the protocol id.\<close>

definition sensor_manager_register :: "u8 \<Rightarrow> u8 \<Rightarrow> sensor_manager \<Rightarrow> (u8 \<times> sensor_manager) option" where
  "sensor_manager_register protocol_id internal_id sm =
     (if protocol_id = PROTO_ID_NONE then None
      else case find_index (\<lambda>s. slot_id s = PROTO_SENSOR_ID_NONE) (slots sm) of
        None \<Rightarrow> Some (PROTO_SENSOR_ID_NONE, sm)
      | Some slot \<Rightarrow>
          let (sid, sm) = allocate_id sm
          in if sid = PROTO_SENSOR_ID_NONE then Some (PROTO_SENSOR_ID_NONE, sm)
             else Some (sid, sm\<lparr>slots := (slots sm)[slot :=
               \<lparr>slot_id = sid, slot_protocol_id = protocol_id, slot_internal_id = internal_id\<rparr>]\<rparr>))"

text \<open>The pointer to a slot is its index.\<close>

definition sensor_manager_lookup :: "u8 \<Rightarrow> sensor_manager \<Rightarrow> nat option" where
  "sensor_manager_lookup sid sm =
     (if sid = PROTO_SENSOR_ID_NONE then None else find_index (\<lambda>s. slot_id s = sid) (slots sm))"

definition sensor_manager_release :: "u8 \<Rightarrow> sensor_manager \<Rightarrow> sensor_manager" where
  "sensor_manager_release sid sm =
     (case sensor_manager_lookup sid sm of
        None \<Rightarrow> sm
      | Some slot \<Rightarrow> sm\<lparr>slots := (slots sm)[slot := free_slot]\<rparr>)"

subsection \<open>Invariant and abstraction\<close>

definition live_ids :: "sensor_manager \<Rightarrow> u8 list" where
  "live_ids sm = filter (\<lambda>i. i \<noteq> 0) (map slot_id (slots sm))"

definition sm_inv :: "sensor_manager \<Rightarrow> bool" where
  "sm_inv sm \<longleftrightarrow> length (slots sm) = SENSOR_MAX_SLOTS \<and> distinct (live_ids sm) \<and>
     next_id_hint sm \<noteq> 0 \<and>
     list_all (\<lambda>s. if slot_id s = 0 then s = free_slot else slot_protocol_id s \<noteq> PROTO_ID_NONE) (slots sm)"

definition sm_table :: "sensor_manager \<Rightarrow> u8 \<Rightarrow> (u8 \<times> u8) option" where
  "sm_table sm sid = map_option (\<lambda>i. (slot_protocol_id (slots sm ! i), slot_internal_id (slots sm ! i)))
     (sensor_manager_lookup sid sm)"

definition sm_room :: "sensor_manager \<Rightarrow> bool" where
  "sm_room sm = list_ex (\<lambda>s. slot_id s = 0) (slots sm)"

lemma sm_inv_init: "length (slots sm) = SENSOR_MAX_SLOTS \<Longrightarrow> sm_inv (sensor_manager_init sm)"
  by (auto simp: sm_inv_def sensor_manager_init_def live_ids_def list_all_iff filter_empty_conv)

lemma id_in_use_iff: "id_in_use i sm \<longleftrightarrow> i \<in> set (map slot_id (slots sm))"
  by (auto simp: id_in_use_def list_ex_iff)

lemma live_ids_set: "set (live_ids sm) = set (map slot_id (slots sm)) - {0}"
  by (auto simp: live_ids_def)

lemma sm_table_dom: "sm_table sm i \<noteq> None \<longleftrightarrow> i \<in> set (live_ids sm)"
  by (auto simp: sm_table_def sensor_manager_lookup_def live_ids_set find_index_None_iff
      simp del: not_None_eq)

text \<open>Two slots with the same nonzero id are the same slot.\<close>

lemma distinct_filter_nth:
  assumes "distinct (filter P xs)" "i < length xs" "j < length xs" "xs ! i = xs ! j" "P (xs ! i)"
  shows "i = j"
  using assms
proof (induction xs arbitrary: i j)
  case (Cons x xs)
  show ?case
  proof (cases i; cases j)
    fix i' j'
    assume "i = Suc i'" "j = Suc j'"
    with Cons show ?thesis by (auto split: if_splits)
  qed (use Cons.prems in \<open>force simp: nth_Cons' split: if_splits\<close>)+
qed simp

lemma slot_unique:
  assumes "distinct (live_ids sm)" "i < length (slots sm)" "j < length (slots sm)"
    "slot_id (slots sm ! i) = slot_id (slots sm ! j)" "slot_id (slots sm ! i) \<noteq> 0"
  shows "i = j"
  using distinct_filter_nth[of "\<lambda>x. x \<noteq> 0" "map slot_id (slots sm)" i j] assms
  by (simp add: live_ids_def)

lemma sm_table_slot:
  assumes "distinct (live_ids sm)" "k < length (slots sm)" "slot_id (slots sm ! k) = i" "i \<noteq> 0"
  shows "sm_table sm i = Some (slot_protocol_id (slots sm ! k), slot_internal_id (slots sm ! k))"
proof -
  have "find_index (\<lambda>s. slot_id s = i) (slots sm) = Some k"
  proof (rule find_index_unique)
    show "k < length (slots sm)" "slot_id (slots sm ! k) = i" by fact+
  next
    fix j
    assume "j < length (slots sm)" "slot_id (slots sm ! j) = i"
    then show "j = k" using slot_unique[OF assms(1) _ assms(2), of j] assms(3,4) by simp
  qed
  then show ?thesis by (simp add: sm_table_def sensor_manager_lookup_def assms(4))
qed

subsection \<open>Allocation of ids\<close>

lemma unat_next_id: "i \<noteq> 0 \<Longrightarrow> unat (next_id i) = unat i mod 255 + 1"
proof (cases "i = 255")
  case False
  then have "unat i \<noteq> 255" by (auto simp: word_unat_eq_iff)
  with unat_u8_less[of i] have "unat i < 255" by linarith
  with False show ?thesis by (simp add: next_id_def unat_word_ariths)
qed (simp add: next_id_def)

lemma next_id_nonzero: "next_id i \<noteq> 0"
proof (cases "i = 255")
  case False
  have "i + 1 \<noteq> 0"
  proof
    assume "i + 1 = 0"
    then have "i = - 1" by (simp add: eq_neg_iff_add_eq_0)
    with False show False by simp
  qed
  with False show ?thesis by (simp add: next_id_def)
qed (simp add: next_id_def)

lemma next_ids_nonzero: "i \<noteq> 0 \<Longrightarrow> (next_id ^^ k) i \<noteq> 0"
  by (cases k) (simp_all add: next_id_nonzero)

text \<open>The 255 ids form one cycle.\<close>

lemma unat_next_ids: "i \<noteq> 0 \<Longrightarrow> unat ((next_id ^^ k) i) = (unat i - 1 + k) mod 255 + 1"
proof (induction k)
  case 0
  then have "unat i \<noteq> 0" by (simp add: word_unat_eq_iff)
  moreover have "unat i - 1 < 255" using unat_u8_less[of i] by linarith
  ultimately show ?case by simp
next
  case (Suc k)
  have "unat ((next_id ^^ Suc k) i) = ((unat i - 1 + k) mod 255 + 1) mod 255 + 1"
    using Suc unat_next_id[OF next_ids_nonzero[OF Suc.prems, of k]] by simp
  also have "\<dots> = (unat i - 1 + Suc k) mod 255 + 1" by (simp add: mod_simps)
  finally show ?case .
qed

lemma next_ids_inj:
  assumes "i \<noteq> 0" "j < 255" "k < 255" "(next_id ^^ j) i = (next_id ^^ k) i"
  shows "j = k"
proof -
  have "(unat i - 1 + j) mod 255 = (unat i - 1 + k) mod 255"  (is "?l = ?r")
    using assms(4) unat_next_ids[OF assms(1), of j] unat_next_ids[OF assms(1), of k] by simp
  then have "int ?l = int ?r" by (rule arg_cong)
  then have "(int (unat i - 1) + int j) mod 255 = (int (unat i - 1) + int k) mod 255"
    by (simp only: of_nat_mod of_nat_add of_nat_numeral)
  then have "int j mod 255 = int k mod 255"
    using mod_diff_cong[of "int (unat i - 1) + int j" 255 "int (unat i - 1) + int k"
        "int (unat i - 1)" "int (unat i - 1)"] by simp
  with assms(2,3) show ?thesis by simp
qed

text \<open>The loop takes the first id of the cycle, from the hint on, that is not in use.\<close>

lemma id_in_use_hint [simp]: "id_in_use i (sm\<lparr>next_id_hint := h\<rparr>) = id_in_use i sm"
  by (simp add: id_in_use_def)

lemma allocate_id_loop_first:
  assumes "k < n" "\<not> id_in_use ((next_id ^^ k) (next_id_hint sm)) sm"
    and "\<And>j. j < k \<Longrightarrow> id_in_use ((next_id ^^ j) (next_id_hint sm)) sm"
  shows "allocate_id_loop n sm =
    ((next_id ^^ k) (next_id_hint sm), sm\<lparr>next_id_hint := (next_id ^^ Suc k) (next_id_hint sm)\<rparr>)"
  using assms
proof (induction n arbitrary: k sm)
  case (Suc n)
  show ?case
  proof (cases k)
    case 0
    with Suc.prems show ?thesis by (simp add: Let_def)
  next
    case (Suc k')
    let ?sm = "sm\<lparr>next_id_hint := next_id (next_id_hint sm)\<rparr>"
    have used: "id_in_use (next_id_hint sm) sm" using Suc.prems(3)[of 0] Suc by simp
    have "allocate_id_loop n ?sm =
      ((next_id ^^ k') (next_id_hint ?sm), ?sm\<lparr>next_id_hint := (next_id ^^ Suc k') (next_id_hint ?sm)\<rparr>)"
      using Suc.prems(1,2) Suc.prems(3)[of "Suc _"] Suc
      by (intro Suc.IH) (simp_all add: funpow_swap1)
    then show ?thesis using used Suc by (simp add: Let_def funpow_swap1)
  qed
qed simp

text \<open>With a free slot at most seven ids are in use, so one of the first eight is free.\<close>

lemma card_used:
  assumes "sm_inv sm" "sm_room sm"
  shows "card (set (map slot_id (slots sm)) - {0}) \<le> 7"
proof -
  have "0 \<in> set (map slot_id (slots sm))"
    using assms(2) by (auto simp: sm_room_def list_ex_iff image_iff)
  moreover have "card (set (map slot_id (slots sm))) \<le> 8"
    using card_length[of "map slot_id (slots sm)"] assms(1) by (simp add: sm_inv_def)
  ultimately show ?thesis by (simp add: card_Diff_singleton)
qed

lemma free_id_exists:
  assumes "sm_inv sm" "sm_room sm"
  shows "\<exists>k<8. \<not> id_in_use ((next_id ^^ k) (next_id_hint sm)) sm"
proof (rule ccontr)
  let ?h = "next_id_hint sm" and ?U = "set (map slot_id (slots sm)) - {0}"
  assume "\<not> ?thesis"
  then have "\<And>k. k < 8 \<Longrightarrow> id_in_use ((next_id ^^ k) ?h) sm" by auto
  moreover have h: "?h \<noteq> 0" using assms by (simp add: sm_inv_def)
  ultimately have "(\<lambda>k. (next_id ^^ k) ?h) ` {..<8} \<subseteq> ?U"
    using next_ids_nonzero[OF h] unfolding id_in_use_iff by auto
  then have "card ((\<lambda>k. (next_id ^^ k) ?h) ` {..<8}) \<le> card ?U"
    by (intro card_mono) auto
  moreover have "inj_on (\<lambda>k. (next_id ^^ k) ?h) {..<8}"
    by (intro inj_onI next_ids_inj[OF h]) auto
  ultimately show False using card_used[OF assms] by (simp add: card_image)
qed

lemma allocate_id_spec:
  assumes "sm_inv sm" "sm_room sm"
  shows "\<exists>k<8. allocate_id sm = ((next_id ^^ k) (next_id_hint sm),
      sm\<lparr>next_id_hint := (next_id ^^ Suc k) (next_id_hint sm)\<rparr>) \<and>
    \<not> id_in_use ((next_id ^^ k) (next_id_hint sm)) sm"
proof -
  let ?P = "\<lambda>k. k < 8 \<and> \<not> id_in_use ((next_id ^^ k) (next_id_hint sm)) sm"
  obtain k where k: "?P k" and least: "\<And>j. j < k \<Longrightarrow> \<not> ?P j"
    using free_id_exists[OF assms] exists_least_iff[of ?P] by auto
  then have "id_in_use ((next_id ^^ j) (next_id_hint sm)) sm" if "j < k" for j
    using that by (meson less_trans)
  then have "allocate_id_loop 255 sm = ((next_id ^^ k) (next_id_hint sm),
      sm\<lparr>next_id_hint := (next_id ^^ Suc k) (next_id_hint sm)\<rparr>)"
    using k by (intro allocate_id_loop_first) auto
  with k show ?thesis unfolding allocate_id_def by auto
qed

subsection \<open>The operations on the abstract table\<close>

lemma register_full_code:
  assumes "protocol_id \<noteq> 0" "\<not> sm_room sm"
  shows "sensor_manager_register protocol_id internal_id sm = Some (0, sm)"
proof -
  have "find_index (\<lambda>s. slot_id s = 0) (slots sm) = None"
    using assms(2) by (simp add: sm_room_def find_index_None_iff list_ex_iff)
  then show ?thesis using assms(1) by (simp add: sensor_manager_register_def)
qed

lemma register_room_code:
  assumes "sm_inv sm" "sm_room sm" "protocol_id \<noteq> 0"
  obtains k slot sid where "k < 8" "sid = (next_id ^^ k) (next_id_hint sm)"
    "sensor_manager_register protocol_id internal_id sm = Some (sid,
      sm\<lparr>slots := (slots sm)[slot := \<lparr>slot_id = sid, slot_protocol_id = protocol_id,
            slot_internal_id = internal_id\<rparr>],
         next_id_hint := next_id sid\<rparr>)"
    "sid \<noteq> 0" "\<not> id_in_use sid sm" "slot < length (slots sm)" "slot_id (slots sm ! slot) = 0"
proof -
  obtain k where k: "k < 8" "allocate_id sm = ((next_id ^^ k) (next_id_hint sm),
      sm\<lparr>next_id_hint := (next_id ^^ Suc k) (next_id_hint sm)\<rparr>)"
    "\<not> id_in_use ((next_id ^^ k) (next_id_hint sm)) sm"
    using allocate_id_spec[OF assms(1,2)] by blast
  have nz: "(next_id ^^ k) (next_id_hint sm) \<noteq> 0"
    using assms(1) by (intro next_ids_nonzero) (simp add: sm_inv_def)
  obtain slot where "find_index (\<lambda>s. slot_id s = 0) (slots sm) = Some slot"
    using assms(2) find_index_None_iff[of "\<lambda>s. slot_id s = 0" "slots sm"]
    by (cases "find_index (\<lambda>s. slot_id s = 0) (slots sm)") (auto simp: sm_room_def list_ex_iff)
  moreover from this have "slot < length (slots sm)" "slot_id (slots sm ! slot) = 0"
    using find_index_SomeD by fastforce+
  ultimately show ?thesis
    using k nz assms(3) by (intro that[of k _ slot]) (simp_all add: sensor_manager_register_def Let_def)
qed

text \<open>Storing an entry with a fresh id in a free slot, and clearing a slot.\<close>

lemma live_ids_update_distinct:
  assumes "distinct (filter (\<lambda>i. i \<noteq> 0) xs)" "v = 0 \<or> v \<notin> set xs" "k < length xs"
  shows "distinct (filter (\<lambda>i. i \<noteq> (0::u8)) (xs[k := v]))"
proof -
  have split: "xs = take k xs @ xs ! k # drop (Suc k) xs" using assms(3) by (rule id_take_nth_drop)
  have upd: "xs[k := v] = take k xs @ v # drop (Suc k) xs" using assms(3) by (rule upd_conv_take_nth_drop)
  have "distinct (filter (\<lambda>i. i \<noteq> 0) (take k xs @ xs ! k # drop (Suc k) xs))"
    using assms(1) split by simp
  then show ?thesis
    using assms(2) unfolding upd by (auto split: if_splits dest: in_set_takeD in_set_dropD)
qed

lemma sm_inv_update:
  assumes "sm_inv sm" "k < length (slots sm)" "h \<noteq> 0"
    "s = free_slot \<or> (slot_id s \<noteq> 0 \<and> \<not> id_in_use (slot_id s) sm \<and> slot_protocol_id s \<noteq> 0)"
  shows "sm_inv (sm\<lparr>slots := (slots sm)[k := s], next_id_hint := h\<rparr>)"
proof -
  have "distinct (filter (\<lambda>i. i \<noteq> 0) ((map slot_id (slots sm))[k := slot_id s]))"
    using assms by (intro live_ids_update_distinct) (auto simp: sm_inv_def live_ids_def id_in_use_iff)
  moreover have "list_all (\<lambda>s. if slot_id s = 0 then s = free_slot else slot_protocol_id s \<noteq> 0)
      ((slots sm)[k := s])"
    using assms unfolding sm_inv_def list_all_length by (auto simp: nth_list_update)
  ultimately show ?thesis
    using assms by (simp add: sm_inv_def live_ids_def map_update)
qed

lemma sm_table_Some_iff:
  assumes "distinct (live_ids sm)"
  shows "sm_table sm i = Some v \<longleftrightarrow> i \<noteq> 0 \<and> (\<exists>k<length (slots sm). slot_id (slots sm ! k) = i \<and>
    v = (slot_protocol_id (slots sm ! k), slot_internal_id (slots sm ! k)))"
proof
  assume "sm_table sm i = Some v"
  then show "i \<noteq> 0 \<and> (\<exists>k<length (slots sm). slot_id (slots sm ! k) = i \<and>
    v = (slot_protocol_id (slots sm ! k), slot_internal_id (slots sm ! k)))"
    by (auto simp: sm_table_def sensor_manager_lookup_def dest!: find_index_SomeD split: if_splits)
qed (use sm_table_slot[OF assms] in auto)

lemma sm_table_store:
  assumes "sm_inv sm" "k < length (slots sm)" "slot_id (slots sm ! k) = 0"
    "slot_id s \<noteq> 0" "\<not> id_in_use (slot_id s) sm" "slot_protocol_id s \<noteq> 0" "h \<noteq> 0"
  shows "sm_table (sm\<lparr>slots := (slots sm)[k := s], next_id_hint := h\<rparr>) =
    (sm_table sm)(slot_id s \<mapsto> (slot_protocol_id s, slot_internal_id s))"
proof
  let ?sm = "sm\<lparr>slots := (slots sm)[k := s], next_id_hint := h\<rparr>"
  have d: "distinct (live_ids sm)" and d': "distinct (live_ids ?sm)"
    using assms sm_inv_update[OF assms(1,2,7), of s] by (simp_all add: sm_inv_def)
  fix i
  have "sm_table ?sm i = Some v \<longleftrightarrow>
      ((sm_table sm)(slot_id s \<mapsto> (slot_protocol_id s, slot_internal_id s))) i = Some v" for v
  proof (cases "i = slot_id s")
    case True
    then have "sm_table ?sm i = Some (slot_protocol_id s, slot_internal_id s)"
      using assms by (simp add: sm_table_Some_iff[OF d'], intro exI[of _ k]) simp
    then show ?thesis using True by simp
  next
    case False
    then show ?thesis
      using assms by (auto simp: sm_table_Some_iff[OF d] sm_table_Some_iff[OF d'] nth_list_update)
  qed
  then show "sm_table ?sm i = ((sm_table sm)(slot_id s \<mapsto> (slot_protocol_id s, slot_internal_id s))) i"
    by (metis option.exhaust)
qed

lemma sm_table_clear:
  assumes "sm_inv sm" "k < length (slots sm)" "slot_id (slots sm ! k) = i" "i \<noteq> 0"
  shows "sm_table (sm\<lparr>slots := (slots sm)[k := free_slot]\<rparr>) = (sm_table sm)(i := None)"
proof
  let ?sm = "sm\<lparr>slots := (slots sm)[k := free_slot]\<rparr>"
  have d: "distinct (live_ids sm)" using assms by (simp add: sm_inv_def)
  have "sm_inv ?sm"
    using sm_inv_update[OF assms(1,2), of "next_id_hint sm" free_slot] assms(1) by (simp add: sm_inv_def)
  then have d': "distinct (live_ids ?sm)" by (simp add: sm_inv_def)
  fix j
  show "sm_table ?sm j = ((sm_table sm)(i := None)) j"
  proof (cases "j = i")
    case True
    have "sm_table ?sm i \<noteq> Some v" for v
    proof
      assume "sm_table ?sm i = Some v"
      then obtain j where j: "j < length (slots sm)" "slot_id ((slots sm)[k := free_slot] ! j) = i"
        by (auto simp: sm_table_Some_iff[OF d'])
      then have "j \<noteq> k" using assms(2,4) by auto
      with j have "slot_id (slots sm ! j) = i" by simp
      with slot_unique[OF d j(1) assms(2)] assms(3,4) \<open>j \<noteq> k\<close> show False by simp
    qed
    then show ?thesis using True by (cases "sm_table ?sm i") auto
  next
    case False
    have "sm_table ?sm j = Some v \<longleftrightarrow> sm_table sm j = Some v" for v
      using assms False by (auto simp: sm_table_Some_iff[OF d] sm_table_Some_iff[OF d'] nth_list_update)
    then have "sm_table ?sm j = sm_table sm j" by (metis option.exhaust)
    with False show ?thesis by simp
  qed
qed

subsection \<open>The contract\<close>

text \<open>The registration as a total function on admissible arguments.\<close>

definition sm_register :: "u8 \<times> u8 \<Rightarrow> sensor_manager \<Rightarrow> u8 \<times> sensor_manager" where
  "sm_register v sm = the (sensor_manager_register (fst v) (snd v) sm)"

lemma sm_register_Some:
  "protocol_id \<noteq> 0 \<Longrightarrow>
     sensor_manager_register protocol_id internal_id sm = Some (sm_register (protocol_id, internal_id) sm)"
  by (auto simp: sm_register_def sensor_manager_register_def Let_def split: option.splits prod.splits)

lemma sm_register_room:
  assumes "sm_inv sm" "sm_room sm" "protocol_id \<noteq> 0"
    and "sm_register (protocol_id, internal_id) sm = (sid, sm')"
  shows "sid \<noteq> 0" "sm_table sm sid = None" "sm_inv sm'"
    "sm_table sm' = (sm_table sm)(sid \<mapsto> (protocol_id, internal_id))"
    "\<exists>k<8. sid = (next_id ^^ k) (next_id_hint sm)" "next_id_hint sm' = next_id sid"
proof -
  let ?s = "\<lambda>sid. \<lparr>slot_id = sid, slot_protocol_id = protocol_id, slot_internal_id = internal_id\<rparr>"
  have reg: "sensor_manager_register protocol_id internal_id sm = Some (sid, sm')"
    using assms(3,4) sm_register_Some by simp
  obtain k slot where k: "k < 8" "sid = (next_id ^^ k) (next_id_hint sm)"
    and sm': "sm' = sm\<lparr>slots := (slots sm)[slot := ?s sid], next_id_hint := next_id sid\<rparr>"
    and sid: "sid \<noteq> 0" "\<not> id_in_use sid sm"
    and slot: "slot < length (slots sm)" "slot_id (slots sm ! slot) = 0"
  proof (rule register_room_code[OF assms(1-3), of internal_id])
    fix k slot sid0
    assume c: "k < 8" "sid0 = (next_id ^^ k) (next_id_hint sm)"
      "sensor_manager_register protocol_id internal_id sm =
        Some (sid0, sm\<lparr>slots := (slots sm)[slot := ?s sid0], next_id_hint := next_id sid0\<rparr>)"
      "sid0 \<noteq> 0" "\<not> id_in_use sid0 sm" "slot < length (slots sm)" "slot_id (slots sm ! slot) = 0"
    from c(3) reg have "sid0 = sid"
      "sm' = sm\<lparr>slots := (slots sm)[slot := ?s sid], next_id_hint := next_id sid\<rparr>" by auto
    with c show thesis by (intro that[of k slot]) auto
  qed
  show "sid \<noteq> 0" "\<exists>k<8. sid = (next_id ^^ k) (next_id_hint sm)" "next_id_hint sm' = next_id sid"
    using sid k sm' by auto
  show "sm_table sm sid = None"
    using sid sm_table_dom[of sm sid] by (auto simp: live_ids_set id_in_use_iff)
  show "sm_inv sm'"
    unfolding sm' using assms sid slot next_id_nonzero by (intro sm_inv_update) auto
  show "sm_table sm' = (sm_table sm)(sid \<mapsto> (protocol_id, internal_id))"
    unfolding sm' using sm_table_store[OF assms(1) slot, of "?s sid" "next_id sid"] sid assms(3) next_id_nonzero
    by simp
qed

lemma sm_register_full:
  "protocol_id \<noteq> 0 \<Longrightarrow> \<not> sm_room sm \<Longrightarrow> sm_register (protocol_id, internal_id) sm = (0, sm)"
  by (simp add: sm_register_def register_full_code)

lemma release_cases:
  assumes "sm_inv sm"
  shows "sensor_manager_release i sm = sm \<and> sm_table sm i = None \<or>
    (\<exists>k<length (slots sm). slot_id (slots sm ! k) = i \<and> i \<noteq> 0 \<and>
       sensor_manager_release i sm = sm\<lparr>slots := (slots sm)[k := free_slot]\<rparr>)"
  by (cases "sensor_manager_lookup i sm")
     (auto simp: sensor_manager_release_def sm_table_def sensor_manager_lookup_def
        split: if_splits dest!: find_index_SomeD)

lemma release_inv: "sm_inv sm \<Longrightarrow> sm_inv (sensor_manager_release i sm)"
proof -
  assume inv: "sm_inv sm"
  then have "sm_inv (sm\<lparr>slots := (slots sm)[k := free_slot]\<rparr>)" if "k < length (slots sm)" for k
    using sm_inv_update[OF inv that, of "next_id_hint sm" free_slot] by (simp add: sm_inv_def)
  with inv release_cases[OF inv, of i] show ?thesis by auto
qed

lemma release_table: "sm_inv sm \<Longrightarrow> sm_table (sensor_manager_release i sm) = (sm_table sm)(i := None)"
  using release_cases[of sm i] sm_table_clear[of sm] by (auto simp: fun_upd_idem)

lemma release_room:
  assumes "sm_inv sm" "sm_table sm i \<noteq> None"
  shows "sm_room (sensor_manager_release i sm)"
  using release_cases[OF assms(1), of i] assms(2)
  by (force simp: sm_room_def list_ex_length)

interpretation smt: id_table sm_inv sm_table 0 sm_room sm_register sensor_manager_release "\<lambda>v. fst v \<noteq> 0"
proof
  fix sm :: sensor_manager and v :: "u8 \<times> u8"
  assume inv: "sm_inv sm" and adm: "fst v \<noteq> 0"
  show "sm_inv (snd (sm_register v sm))"
    using sm_register_room(3)[OF inv _ adm, of "snd v"] sm_register_full[OF adm, of sm "snd v"] inv
    by (cases "sm_room sm"; cases "sm_register v sm") auto
  show "sm_register v sm = (0, sm)" if "\<not> sm_room sm"
    using sm_register_full[OF adm that, of "snd v"] by simp
  show "i \<noteq> 0 \<and> sm_table sm i = None \<and> sm_table sm' = (sm_table sm)(i \<mapsto> v)"
    if "sm_room sm" "sm_register v sm = (i, sm')" for i sm'
    using sm_register_room[OF inv that(1) adm, of "snd v"] that(2) by simp
next
  fix sm :: sensor_manager and i :: u8
  assume inv: "sm_inv sm"
  show "sm_inv (sensor_manager_release i sm)" using inv by (rule release_inv)
  show "sm_table sm 0 = None" by (simp add: sm_table_def sensor_manager_lookup_def)
  show "sm_table (sensor_manager_release i sm) = (sm_table sm)(i := None)"
    using inv by (rule release_table)
  show "sm_room (sensor_manager_release i sm)" if "sm_table sm i \<noteq> None"
    using inv that by (rule release_room)
qed

subsection \<open>Ids are not recycled early\<close>

text \<open>
  A sequence of calls of the dispatcher, with the ids it hands out. A failed assertion stops
  the run.
\<close>

datatype sm_op = Register u8 u8 | Release u8

fun sm_run :: "sm_op list \<Rightarrow> sensor_manager \<Rightarrow> u8 list" where
  "sm_run [] sm = []"
| "sm_run (Register p i # ops) sm =
     (case sensor_manager_register p i sm of
        None \<Rightarrow> []
      | Some (sid, sm') \<Rightarrow> (if sid = 0 then sm_run ops sm' else sid # sm_run ops sm'))"
| "sm_run (Release i # ops) sm = sm_run ops (sensor_manager_release i sm)"

fun registrations :: "sm_op list \<Rightarrow> nat" where
  "registrations [] = 0"
| "registrations (Register _ _ # ops) = Suc (registrations ops)"
| "registrations (Release _ # ops) = registrations ops"

lemma release_hint [simp]: "next_id_hint (sensor_manager_release i sm) = next_id_hint sm"
  by (simp add: sensor_manager_release_def split: option.splits)

lemma register_None: "sensor_manager_register 0 i sm = None"
  by (simp add: sensor_manager_register_def)

lemma sm_run_window:
  assumes "sm_inv sm" "x \<in> set (sm_run ops sm)"
  shows "\<exists>b < 8 * registrations ops. x = (next_id ^^ b) (next_id_hint sm)"
  using assms
proof (induction ops arbitrary: sm rule: registrations.induct)
  case 1
  then show ?case by simp
next
  case (2 p i ops)
  note IH = 2(1)
  have p: "p \<noteq> 0" using 2(3) by (auto simp: register_None)
  obtain sid sm' where reg: "sm_register (p, i) sm = (sid, sm')" by fastforce
  have code: "sensor_manager_register p i sm = Some (sid, sm')" using sm_register_Some[OF p] reg by simp
  show ?case
  proof (cases "sm_room sm")
    case False
    then have "sid = 0" "sm' = sm" using sm_register_full[OF p False, of i] reg by auto
    then have "x \<in> set (sm_run ops sm)" using 2(3) code by simp
    from 2(1)[OF 2(2) this] obtain b where
      "b < 8 * registrations ops" "x = (next_id ^^ b) (next_id_hint sm)" by blast
    then show ?thesis by (intro exI[of _ b]) simp
  next
    case True
    note r = sm_register_room[OF 2(2) True p reg]
    obtain k where k: "k < 8" "sid = (next_id ^^ k) (next_id_hint sm)" using r(5) by blast
    consider "x = sid" | "x \<in> set (sm_run ops sm')" using 2(3) code r(1) by auto
    then show ?thesis
    proof cases
      case 1
      with k show ?thesis by (intro exI[of _ k]) auto
    next
      case 2
      from IH[OF r(3) 2]
      obtain b where b: "b < 8 * registrations ops" "x = (next_id ^^ b) (next_id_hint sm')" by blast
      have "x = (next_id ^^ (b + Suc k)) (next_id_hint sm)"
        unfolding b(2) r(6) k(2) by (simp only: funpow_add o_apply funpow.simps(2))
      with b k show ?thesis by (intro exI[of _ "b + Suc k"]) simp
    qed
  qed
next
  case (3 i ops)
  then show ?case using release_inv[of sm i] by force
qed

lemma sm_not_recycled:
  assumes "sm_inv sm" "sensor_manager_register p i sm = Some (sid, sm')" "sid \<noteq> 0"
    "registrations ops \<le> 31"
  shows "sid \<notin> set (sm_run ops sm')"
proof
  assume "sid \<in> set (sm_run ops sm')"
  have p: "p \<noteq> 0" using assms(2) by (auto simp: register_None)
  then have reg: "sm_register (p, i) sm = (sid, sm')" using assms(2) sm_register_Some by simp
  have "sm_room sm" using sm_register_full[OF p, of sm i] reg assms(3) by auto
  note r = sm_register_room[OF assms(1) this p reg]
  obtain b where "b < 8 * registrations ops" "sid = (next_id ^^ b) (next_id sid)"
    using sm_run_window[OF r(3) \<open>sid \<in> set (sm_run ops sm')\<close>] r(6) by auto
  then have "Suc b < 255" "(next_id ^^ 0) sid = (next_id ^^ Suc b) sid"
    using assms(4) by (simp_all add: funpow_swap1)
  with next_ids_inj[OF assms(3), of 0 "Suc b"] show False by simp
qed

text \<open>A refused registration changes nothing.\<close>

lemma register_refused:
  assumes "sm_inv sm" "sensor_manager_register p i sm = Some (0, sm')"
  shows "sm' = sm"
proof -
  have p: "p \<noteq> 0" using assms(2) by (auto simp: register_None)
  then have r: "sm_register (p, i) sm = (0, sm')" using assms(2) sm_register_Some by simp
  have "\<not> sm_room sm" using sm_register_room(1)[OF assms(1) _ p r] by blast
  then show ?thesis using sm_register_full[OF p, of sm i] r by simp
qed

lemma register_total: "p \<noteq> 0 \<Longrightarrow> \<exists>sid sm'. sensor_manager_register p i sm = Some (sid, sm')"
  using sm_register_Some[of p i sm] by (metis surj_pair)

lemma register_accepted:
  assumes "sm_inv sm" "sensor_manager_register p i sm = Some (sid, sm')" "sid \<noteq> 0"
  shows "sm_inv sm'" "sm_table sm sid = None" "sm_table sm' = (sm_table sm)(sid \<mapsto> (p, i))"
proof -
  have p: "p \<noteq> 0" using assms(2) by (auto simp: register_None)
  then have r: "sm_register (p, i) sm = (sid, sm')" using assms(2) sm_register_Some by simp
  have "sm_room sm" using sm_register_full[OF p, of sm i] r assms(3) by auto
  from sm_register_room[OF assms(1) this p r]
  show "sm_inv sm'" "sm_table sm sid = None" "sm_table sm' = (sm_table sm)(sid \<mapsto> (p, i))" by auto
qed

subsection \<open>Properties\<close>

text \<open>The table the start-up code leaves: eight zeroed slots, initialised.\<close>

definition sm_start :: sensor_manager where
  "sm_start = sensor_manager_init \<lparr>slots = replicate SENSOR_MAX_SLOTS free_slot, next_id_hint = PROTO_SENSOR_ID_MIN\<rparr>"

lemma sm_inv_start: "sm_inv sm_start"
  unfolding sm_start_def by (rule sm_inv_init) simp

lemma sm_room_start: "sm_room sm_start"
  by (simp add: sm_start_def sensor_manager_init_def sm_room_def list_ex_iff)

text \<open>Registration, on every branch. For a valid protocol id it never traps; without a free
  slot it returns 0 and changes nothing; with one it returns a nonzero id that was not live, and
  the table is the old one with exactly that id added. The search for an id never runs out.\<close>

theorem register_adds_fresh_id:
  assumes "sm_inv sm" "protocol_id \<noteq> PROTO_ID_NONE"
  shows "\<exists>sid sm'. sensor_manager_register protocol_id internal_id sm = Some (sid, sm') \<and> sm_inv sm' \<and>
    (if sm_room sm
     then sid \<noteq> PROTO_SENSOR_ID_NONE \<and> sm_table sm sid = None \<and>
          sm_table sm' = (sm_table sm)(sid \<mapsto> (protocol_id, internal_id))
     else sid = PROTO_SENSOR_ID_NONE \<and> sm' = sm)"
proof -
  obtain sid sm' where r: "sm_register (protocol_id, internal_id) sm = (sid, sm')" by fastforce
  have "sm_inv sm'" using smt.invar_register[OF assms(1), of "(protocol_id, internal_id)"] assms(2) r by simp
  then show ?thesis
    using r sm_register_Some[OF assms(2), of internal_id sm] smt.register_full[OF assms(1)]
      smt.register_room[OF assms(1) _ _ r] assms(2)
    by (cases "sm_room sm") auto
qed

theorem register_adds_fresh_id_witness:
  "\<exists>sid sm'. sensor_manager_register 3 0 sm_start = Some (sid, sm') \<and> sid \<noteq> 0 \<and>
     sm_table sm' sid = Some (3, 0)"
  using register_adds_fresh_id[OF sm_inv_start, of 3 0] sm_room_start by fastforce

text \<open>Release removes exactly the given id (nothing, when it is not live) and keeps the
  invariant; releasing a live id makes the next registration succeed.\<close>

theorem release_removes_id:
  assumes "sm_inv sm"
  shows "sm_inv (sensor_manager_release sid sm) \<and>
    sm_table (sensor_manager_release sid sm) = (sm_table sm)(sid := None) \<and>
    (sm_table sm sid \<noteq> None \<and> protocol_id \<noteq> PROTO_ID_NONE \<longrightarrow>
      (\<exists>i sm'. sensor_manager_register protocol_id internal_id (sensor_manager_release sid sm) = Some (i, sm')
         \<and> i \<noteq> PROTO_SENSOR_ID_NONE))"
proof -
  have "fst (sm_register (protocol_id, internal_id) (sensor_manager_release sid sm)) \<noteq> 0"
    if "sm_table sm sid \<noteq> None" "protocol_id \<noteq> 0"
    using smt.register_after_release[OF assms that(1), of "(protocol_id, internal_id)"] that(2) by simp
  then have "\<exists>i sm'. sensor_manager_register protocol_id internal_id (sensor_manager_release sid sm) = Some (i, sm')
      \<and> i \<noteq> 0" if "sm_table sm sid \<noteq> None" "protocol_id \<noteq> 0"
    using that sm_register_Some[OF that(2), of internal_id "sensor_manager_release sid sm"]
    by (metis prod.collapse)
  then show ?thesis using smt.invar_release[OF assms] smt.release_table[OF assms] by blast
qed

theorem release_removes_id_witness:
  "sm_table (sensor_manager_release 1 sm_start) = (sm_table sm_start)(1 := None)"
  using release_removes_id[OF sm_inv_start, of 1] by simp

text \<open>C21: stale ids: after an id was handed out, no sequence of releases and at most 31 further
  registrations hands it out again, even if its sensor is stopped at once.\<close>

theorem id_not_recycled_early:
  assumes "sm_inv sm" "sensor_manager_register protocol_id internal_id sm = Some (sid, sm')"
    and "sid \<noteq> PROTO_SENSOR_ID_NONE" "registrations ops \<le> 31"
  shows "sid \<notin> set (sm_run ops sm')"
  by (rule sm_not_recycled[OF assms])

theorem id_not_recycled_early_witness:
  "\<exists>sid sm'. sensor_manager_register 3 0 sm_start = Some (sid, sm') \<and> sid \<noteq> 0 \<and>
     sid \<notin> set (sm_run [Release sid, Register 3 0] sm')"
proof -
  obtain sid sm' where r: "sm_register (3, 0) sm_start = (sid, sm')" by fastforce
  then have c: "sensor_manager_register 3 0 sm_start = Some (sid, sm')" using sm_register_Some[of 3 0 sm_start] by simp
  have "sid \<noteq> 0" using sm_register_room(1)[OF sm_inv_start sm_room_start _ r] by simp
  with id_not_recycled_early[OF sm_inv_start c this, of "[Release sid, Register 3 0]"] c
  show ?thesis by auto
qed

end
