(* ===== verification/Board.thy ===== *)
theory Board
  imports Gpio Hw_Timer Sensor_Manager
begin

text \<open>
  What the sensor backends share: the machine, the timer pool and the sensor table, as one
  record, and the pin bookkeeping each backend does in a static array of 16-bit masks
  (\<^verbatim>\<open>static uint16_t pin_owned[GPIO_PORT_MAX + 1U]\<close> in the files of \<^verbatim>\<open>simulate/\<close>).
\<close>

record board =
  bmcu :: mcu
  btimers :: hw_timers
  bsm :: sensor_manager

definition board_inv :: "board \<Rightarrow> bool" where
  "board_inv b \<longleftrightarrow> timers_inv (btimers b) \<and> sm_inv (bsm b)"

lemma board_mcu_eq [simp]: "b\<lparr>bmcu := x\<rparr> = b\<lparr>bmcu := y\<rparr> \<longleftrightarrow> x = y"
  by (cases b) simp

subsection \<open>Pin ownership\<close>

type_synonym pin_table = "u16 list"

abbreviation (input) pin_table_init :: pin_table where "pin_table_init \<equiv> replicate 6 0"

text \<open>\<^verbatim>\<open>pin_owned[port] & (1U << pin)\<close>\<close>

definition pin_is_owned :: "u8 \<Rightarrow> u8 \<Rightarrow> pin_table \<Rightarrow> bool" where
  "pin_is_owned port pin owned \<longleftrightarrow> owned ! unat port AND push_bit (unat pin) 1 \<noteq> 0"

text \<open>\<^verbatim>\<open>pin_owned[port] |= (1U << pin)\<close>\<close>

definition claim_pin :: "u8 \<Rightarrow> u8 \<Rightarrow> pin_table \<Rightarrow> pin_table" where
  "claim_pin port pin owned = owned[unat port := owned ! unat port OR push_bit (unat pin) 1]"

text \<open>\<^verbatim>\<open>pin_owned[port] &= (uint16_t)~(1U << pin)\<close>\<close>

definition free_pin :: "u8 \<Rightarrow> u8 \<Rightarrow> pin_table \<Rightarrow> pin_table" where
  "free_pin port pin owned = owned[unat port := owned ! unat port AND NOT (push_bit (unat pin) 1)]"

definition pin_pos :: "u8 \<Rightarrow> u8 \<Rightarrow> bool" where
  "pin_pos port pin \<longleftrightarrow> port \<le> GPIO_PORT_MAX \<and> pin \<le> GPIO_PIN_MAX"

lemma pin_pos_nat: "pin_pos port pin \<Longrightarrow> unat port < 6 \<and> unat pin < 16"
  by (auto simp: pin_pos_def word_le_nat_alt)

lemma and_shift_one: "(x :: u16) AND push_bit n 1 \<noteq> 0 \<longleftrightarrow> bit x n"
  by (simp add: bit_iff_and_push_bit_not_eq_0)

lemma pin_is_owned_bit: "pin_is_owned port pin owned \<longleftrightarrow> bit (owned ! unat port) (unat pin)"
  unfolding pin_is_owned_def by (rule and_shift_one)

lemma length_claim_pin [simp]: "length (claim_pin port pin owned) = length owned"
  and length_free_pin [simp]: "length (free_pin port pin owned) = length owned"
  by (simp_all add: claim_pin_def free_pin_def)

text \<open>Claiming adds exactly one pin to the owned set, freeing removes exactly one.\<close>

lemma pin_is_owned_claim:
  assumes "length owned = 6" "pin_pos port pin" "pin_pos port' pin'"
  shows "pin_is_owned port' pin' (claim_pin port pin owned) \<longleftrightarrow>
    port' = port \<and> pin' = pin \<or> pin_is_owned port' pin' owned"
proof -
  have "unat port = unat port' \<longleftrightarrow> port = port'" "unat pin = unat pin' \<longleftrightarrow> pin = pin'"
    by (simp_all only: word_unat_eq_iff)
  then show ?thesis
    using assms(1) assms(2,3)[THEN pin_pos_nat]
    by (auto simp: pin_is_owned_bit claim_pin_def nth_list_update bit_or_iff bit_push_bit_iff bit_exp_iff)
qed

lemma pin_is_owned_free:
  assumes "length owned = 6" "pin_pos port pin" "pin_pos port' pin'"
  shows "pin_is_owned port' pin' (free_pin port pin owned) \<longleftrightarrow>
    \<not> (port' = port \<and> pin' = pin) \<and> pin_is_owned port' pin' owned"
proof -
  have "unat port = unat port' \<longleftrightarrow> port = port'" "unat pin = unat pin' \<longleftrightarrow> pin = pin'"
    by (simp_all only: word_unat_eq_iff)
  then show ?thesis
    using assms(1) assms(2,3)[THEN pin_pos_nat]
    by (auto simp: pin_is_owned_bit free_pin_def nth_list_update bit_and_iff bit_not_iff
        bit_push_bit_iff bit_exp_iff)
qed

lemma free_claim_pin:
  assumes "length owned = 6" "pin_pos port pin" "\<not> pin_is_owned port pin owned"
  shows "free_pin port pin (claim_pin port pin owned) = owned"
proof -
  have "(x OR push_bit n 1) AND NOT (push_bit n 1) = x" if "\<not> bit x n" for x :: u16 and n
    by (rule bit_word_eqI) (use that in \<open>auto simp: bit_simps\<close>)
  then show ?thesis
    using assms pin_pos_nat[OF assms(2)] by (simp add: free_pin_def claim_pin_def pin_is_owned_bit)
qed

subsection \<open>A slot pool that owns pins\<close>

text \<open>
  The slots of a backend and its table of owned pins agree: every used slot names a pin of the
  device, no two used slots name the same pin, and the owned pins are exactly those named.
\<close>

definition pins_consistent :: "('s \<Rightarrow> bool) \<Rightarrow> ('s \<Rightarrow> u8 \<times> u8) \<Rightarrow> 's list \<Rightarrow> pin_table \<Rightarrow> bool" where
  "pins_consistent used pin_of ss owned \<longleftrightarrow> length owned = 6 \<and>
     (\<forall>i<length ss. used (ss ! i) \<longrightarrow> pin_pos (fst (pin_of (ss ! i))) (snd (pin_of (ss ! i)))) \<and>
     (\<forall>i<length ss. \<forall>j<length ss. used (ss ! i) \<and> used (ss ! j) \<and> pin_of (ss ! i) = pin_of (ss ! j) \<longrightarrow> i = j) \<and>
     (\<forall>port pin. pin_pos port pin \<longrightarrow>
        pin_is_owned port pin owned = (\<exists>i<length ss. used (ss ! i) \<and> pin_of (ss ! i) = (port, pin)))"

lemma pins_consistentD:
  assumes "pins_consistent used pin_of ss owned"
  shows "length owned = 6"
    and "i < length ss \<Longrightarrow> used (ss ! i) \<Longrightarrow> pin_pos (fst (pin_of (ss ! i))) (snd (pin_of (ss ! i)))"
    and "i < length ss \<Longrightarrow> j < length ss \<Longrightarrow> used (ss ! i) \<Longrightarrow> used (ss ! j) \<Longrightarrow>
           pin_of (ss ! i) = pin_of (ss ! j) \<Longrightarrow> i = j"
    and "pin_pos port pin \<Longrightarrow>
           pin_is_owned port pin owned = (\<exists>i<length ss. used (ss ! i) \<and> pin_of (ss ! i) = (port, pin))"
  using assms unfolding pins_consistent_def by blast+

text \<open>Only which slots are used and their pins matter.\<close>

lemma pins_consistent_cong:
  assumes "pins_consistent used pin_of ss owned" "length ss' = length ss"
    and "\<And>i. i < length ss \<Longrightarrow> used (ss' ! i) = used (ss ! i)"
    and "\<And>i. i < length ss \<Longrightarrow> used (ss ! i) \<Longrightarrow> pin_of (ss' ! i) = pin_of (ss ! i)"
  shows "pins_consistent used pin_of ss' owned"
proof -
  note D = pins_consistentD[OF assms(1)]
  have own: "(\<exists>i<length ss. used (ss' ! i) \<and> pin_of (ss' ! i) = pq) = (\<exists>i<length ss. used (ss ! i) \<and> pin_of (ss ! i) = pq)" for pq
    using assms(3,4) by auto
  show ?thesis
    unfolding pins_consistent_def assms(2)
  proof (intro conjI allI impI)
    fix i j assume "i < length ss" "j < length ss"
      and "used (ss' ! i) \<and> used (ss' ! j) \<and> pin_of (ss' ! i) = pin_of (ss' ! j)"
    then have "used (ss ! i)" "used (ss ! j)" "pin_of (ss ! i) = pin_of (ss ! j)"
      using assms(3,4) by metis+
    with \<open>i < length ss\<close> \<open>j < length ss\<close> show "i = j" by (rule D(3))
  qed (use D(1,2,4) own assms(3,4) in simp_all)
qed

lemma pin_table_init_free: "pin_pos port pin \<Longrightarrow> \<not> pin_is_owned port pin pin_table_init"
  by (auto simp: pin_is_owned_bit dest!: pin_pos_nat)

text \<open>
  What a backend relies on: a cleared slot is unused. Then claiming the pin of a slot that comes
  into use, and freeing the pin of a slot that is cleared, keep slots and table in agreement.
\<close>

locale pin_pool =
  fixes used :: "'s \<Rightarrow> bool" and pin_of :: "'s \<Rightarrow> u8 \<times> u8" and blank :: 's
  assumes blank_unused: "\<not> used blank"
begin

lemma start: "pins_consistent used pin_of (replicate n blank) pin_table_init"
  using blank_unused pin_table_init_free by (auto simp: pins_consistent_def)

lemma store:
  assumes inv: "pins_consistent used pin_of ss owned" and k: "k < length ss" "\<not> used (ss ! k)"
    and s: "used s" "pin_of s = (port, pin)"
    and pos: "pin_pos port pin" and free: "\<not> pin_is_owned port pin owned"
  shows "pins_consistent used pin_of (ss[k := s]) (claim_pin port pin owned)"
proof -
  note D = pins_consistentD[OF inv]
  have nth: "ss[k := s] ! i = (if i = k then s else ss ! i)" if "i < length ss" for i
    using that by (simp add: nth_list_update)
  have nobody: "pin_of (ss ! i) \<noteq> (port, pin)" if "i < length ss" "used (ss ! i)" for i
    using D(4)[OF pos] free that by blast
  have own: "pin_is_owned p q (claim_pin port pin owned) =
      (\<exists>i<length ss. used (ss[k := s] ! i) \<and> pin_of (ss[k := s] ! i) = (p, q))" if pq: "pin_pos p q" for p q
    using pin_is_owned_claim[OF D(1) pos pq] D(4)[OF pq] nth k s by (metis (no_types, lifting) Pair_inject)
  have uniq: "i = j" if "i < length ss" "j < length ss" "used (ss[k := s] ! i)" "used (ss[k := s] ! j)"
      "pin_of (ss[k := s] ! i) = pin_of (ss[k := s] ! j)" for i j
    using that s(2) nobody[of i] nobody[of j] D(3)[of i j] unfolding nth[OF that(1)] nth[OF that(2)]
    by (cases "i = k"; cases "j = k") simp_all
  have posns: "pin_pos (fst (pin_of (ss[k := s] ! i))) (snd (pin_of (ss[k := s] ! i)))"
    if "i < length ss" "used (ss[k := s] ! i)" for i
    using that(2) D(2)[OF that(1)] s(2) pos unfolding nth[OF that(1)] by (cases "i = k") simp_all
  show ?thesis
    unfolding pins_consistent_def length_list_update using D(1) own uniq posns by simp
qed

lemma clear:
  assumes inv: "pins_consistent used pin_of ss owned" and k: "k < length ss" "used (ss ! k)"
    and pp: "pin_of (ss ! k) = (port, pin)"
  shows "pins_consistent used pin_of (ss[k := blank]) (free_pin port pin owned)"
proof -
  note D = pins_consistentD[OF inv]
  have nth: "ss[k := blank] ! i = (if i = k then blank else ss ! i)" if "i < length ss" for i
    using that by (simp add: nth_list_update)
  have pos: "pin_pos port pin" using D(2)[OF k] pp by simp
  have own: "pin_is_owned p q (free_pin port pin owned) =
      (\<exists>i<length ss. used (ss[k := blank] ! i) \<and> pin_of (ss[k := blank] ! i) = (p, q))" if pq: "pin_pos p q" for p q
    using pin_is_owned_free[OF D(1) pos pq] D(4)[OF pq] nth k blank_unused pp D(3)
    by (metis (no_types, lifting) Pair_inject)
  have rest: "used (ss ! i) \<and> i \<noteq> k" if "i < length ss" "used (ss[k := blank] ! i)" for i
    using that blank_unused unfolding nth[OF that(1)] by (cases "i = k") simp_all
  have uniq: "i = j" if "i < length ss" "j < length ss" "used (ss[k := blank] ! i)" "used (ss[k := blank] ! j)"
      "pin_of (ss[k := blank] ! i) = pin_of (ss[k := blank] ! j)" for i j
    using that(5) rest[OF that(1,3)] rest[OF that(2,4)] D(3)[OF that(1,2)]
    unfolding nth[OF that(1)] nth[OF that(2)] by simp
  have posns: "pin_pos (fst (pin_of (ss[k := blank] ! i))) (snd (pin_of (ss[k := blank] ! i)))"
    if "i < length ss" "used (ss[k := blank] ! i)" for i
    using rest[OF that] D(2)[OF that(1)] unfolding nth[OF that(1)] by simp
  show ?thesis
    unfolding pins_consistent_def length_list_update using D(1) own uniq posns by simp
qed

end

subsection \<open>Pins of the SPI backends\<close>

text \<open>
  Both SPI backends configure three pins and an optional fourth, initialise a descriptor they may
  not need to zero, and undo the configuration pin by pin.
\<close>

definition gpio_pin_zero :: gpio_pin where
  "gpio_pin_zero = \<lparr>gp_port = None, gp_pin = 0\<rparr>"

definition spi_af_config :: "gpio_pin \<Rightarrow> u8 \<Rightarrow> gpio_af_config" where
  "spi_af_config pin af = \<lparr>ac_pin = pin, ac_af = af, ac_speed = GPIO_SPEED_HIGH, ac_pull = GPIO_PULL_NONE,
     ac_output_type = GPIO_OUTPUT_PUSH_PULL\<rparr>"

definition spi_pins_reset :: "gpio_pin \<Rightarrow> gpio_pin \<Rightarrow> gpio_pin \<Rightarrow> gpio_pin \<Rightarrow> bool \<Rightarrow> mcu \<Rightarrow> mcu option" where
  "spi_pins_reset p1 p2 p3 p4 en m =
     do {
       m \<leftarrow> gpio_reset_to_defaults p1 m;
       m \<leftarrow> gpio_reset_to_defaults p2 m;
       m \<leftarrow> gpio_reset_to_defaults p3 m;
       if en then gpio_reset_to_defaults p4 m else Some m
     }"

lemma spi_pins_reset_total:
  assumes "gpio_pin_ok p1" "gpio_pin_ok p2" "gpio_pin_ok p3" "en \<longrightarrow> gpio_pin_ok p4"
  shows "\<exists>m'. spi_pins_reset p1 p2 p3 p4 en m = Some m'"
proof -
  obtain m1 where 1: "gpio_reset_to_defaults p1 m = Some m1" using gpio_total(1)[OF assms(1)] by blast
  obtain m2 where 2: "gpio_reset_to_defaults p2 m1 = Some m2" using gpio_total(1)[OF assms(2)] by blast
  obtain m3 where 3: "gpio_reset_to_defaults p3 m2 = Some m3" using gpio_total(1)[OF assms(3)] by blast
  have "en \<Longrightarrow> \<exists>m4. gpio_reset_to_defaults p4 m3 = Some m4" using gpio_total(1)[of p4] assms(4) by blast
  then show ?thesis using 1 2 3 by (cases en) (simp_all add: spi_pins_reset_def)
qed

lemma gpio_make_pin_pos:
  assumes "port \<le> GPIO_PORT_MAX" "pin \<le> GPIO_PIN_MAX"
  obtains p where "gpio_make_pin port pin = Some p" "gpio_pin_ok p"
  using assms gpio_make_pin_Some_iff[of port pin] gpio_make_pin_ok by blast

lemma spi_af_total:
  assumes "gpio_pin_ok p" "af \<le> GPIO_AF_MAX"
  obtains m' where "gpio_configure_af (spi_af_config p af) m = Some m'"
  using gpio_configure_total(2)[of "spi_af_config p af" m] assms by (auto simp: spi_af_config_def)

subsection \<open>The board after start-up\<close>

definition board_start :: "cmsis \<Rightarrow> board" where
  "board_start M = \<lparr>bmcu = mcu_reset, btimers = hw_timer_init M, bsm = sm_start\<rparr>"

lemma board_inv_start: "board_inv (board_start M)"
  using timers_inv_init[of M] sm_inv_start by (simp add: board_inv_def board_start_def)

end
