(* ===== verification/Heap.thy ===== *)
theory Heap
  imports Mcu
begin

text \<open>
  Memory reached through pointers. A pointer is a block number, NULL is the absent number, and the
  heap maps the live blocks to their bytes. An access to a block that is not live, or outside its
  bounds, is \<open>None\<close>. The I2C slave driver reads and writes a register map, and the SPI master
  driver reads a transmit buffer, that belong to another component.
\<close>

type_synonym heap = "nat \<Rightarrow> u8 list option"

definition heap_load :: "nat \<Rightarrow> nat \<Rightarrow> heap \<Rightarrow> u8 option" where
  "heap_load p i h = do { blk \<leftarrow> h p; fetch i blk }"

definition heap_store :: "nat \<Rightarrow> nat \<Rightarrow> u8 \<Rightarrow> heap \<Rightarrow> heap option" where
  "heap_store p i v h = do { blk \<leftarrow> h p; blk \<leftarrow> store_at i v blk; Some (h(p \<mapsto> blk)) }"

end
