(* ===== verification/Spi.thy ===== *)
theory Spi
  imports Mcu
begin

text \<open>
  \<^verbatim>\<open>drivers/spi/src/spi.c\<close>: which of the two SPI peripherals is in use, in which role, and
  whose interrupt handler serves it. A handler is named by a value of \<open>spi_isr\<close> and its context
  pointer, which in the firmware is the address of the driver's array entry, by the index of that
  entry. The interrupt entry points that call the handlers are in \<open>Spi_Bus\<close>, above both drivers.
\<close>

subsection \<open>Claim table\<close>

datatype spi_role = SPI_ROLE_MASTER | SPI_ROLE_SLAVE
datatype spi_isr = ISR_spi_master_isr | ISR_spi_slave_isr

record spi_slot =
  sp_in_use :: bool
  sp_role :: spi_role
  sp_isr_fn :: "spi_isr option"
  sp_isr_ctx :: "nat option"

abbreviation (input) SPI_PERIPH_COUNT :: u8 where "SPI_PERIPH_COUNT \<equiv> 2"
abbreviation (input) SPI_PERIPH_SPI1 :: u8 where "SPI_PERIPH_SPI1 \<equiv> 0"
abbreviation (input) SPI_MODE_MAX :: u8 where "SPI_MODE_MAX \<equiv> 3"
abbreviation (input) SPI_IRQ_PRIORITY :: u32 where "SPI_IRQ_PRIORITY \<equiv> 6"
abbreviation (input) SPI_MODE_CPOL_BIT :: u32 where "SPI_MODE_CPOL_BIT \<equiv> 2"
abbreviation (input) SPI_MODE_CPHA_BIT :: u32 where "SPI_MODE_CPHA_BIT \<equiv> 1"

definition spi_slots_init :: "spi_slot list" where
  "spi_slots_init = replicate 2 \<lparr>sp_in_use = False, sp_role = SPI_ROLE_MASTER, sp_isr_fn = None, sp_isr_ctx = None\<rparr>"

definition spi_claim :: "u8 \<Rightarrow> spi_role \<Rightarrow> spi_isr option \<Rightarrow> nat \<Rightarrow> spi_slot list \<Rightarrow> err_code \<times> spi_slot list" where
  "spi_claim periph role isr_fn ctx slots =
     (if periph \<ge> SPI_PERIPH_COUNT \<or> isr_fn = None then (ERR_INVALID_PARAMETER, slots)
      else if sp_in_use (slots ! unat periph) then (ERR_PERIPHERAL_BUSY, slots)
      else (ERR_SUCCESS,
            slots[unat periph := \<lparr>sp_in_use = True, sp_role = role, sp_isr_fn = isr_fn, sp_isr_ctx = Some ctx\<rparr>]))"

definition spi_release :: "u8 \<Rightarrow> spi_slot list \<Rightarrow> err_code \<times> spi_slot list" where
  "spi_release periph slots =
     (if periph \<ge> SPI_PERIPH_COUNT then (ERR_INVALID_PARAMETER, slots)
      else (ERR_SUCCESS,
            slots[unat periph := (slots ! unat periph)\<lparr>sp_in_use := False, sp_isr_fn := None, sp_isr_ctx := None\<rparr>]))"

subsection \<open>Clock and interrupt controller\<close>

definition spi_irq :: "u8 \<Rightarrow> irq" where
  "spi_irq periph = [SPI1_IRQn, SPI2_IRQn] ! unat periph"

definition spi_rcc_enable :: "cmsis \<Rightarrow> u8 \<Rightarrow> mcu \<Rightarrow> mcu" where
  "spi_rcc_enable M periph m =
     (if periph = SPI_PERIPH_SPI1
      then emit (Rd RCC_APB2ENR) (reg_or RCC_APB2ENR (rccm M RCC_APB2ENR_SPI1EN) m)
      else emit (Rd RCC_APB1ENR) (reg_or RCC_APB1ENR (rccm M RCC_APB1ENR_SPI2EN) m))"

definition spi_rcc_disable :: "cmsis \<Rightarrow> u8 \<Rightarrow> mcu \<Rightarrow> mcu" where
  "spi_rcc_disable M periph m =
     (if periph = SPI_PERIPH_SPI1 then reg_clear RCC_APB2ENR (rccm M RCC_APB2ENR_SPI1EN) m
      else reg_clear RCC_APB1ENR (rccm M RCC_APB1ENR_SPI2EN) m)"

definition spi_nvic_enable :: "u8 \<Rightarrow> mcu \<Rightarrow> mcu" where
  "spi_nvic_enable periph m =
     emit (NVIC_EnableIRQ (spi_irq periph)) (emit (NVIC_SetPriority (spi_irq periph) SPI_IRQ_PRIORITY) m)"

definition spi_nvic_disable :: "u8 \<Rightarrow> mcu \<Rightarrow> mcu" where
  "spi_nvic_disable periph m = emit (NVIC_DisableIRQ (spi_irq periph)) m"

text \<open>Clock polarity and phase bits of CR1, as both drivers compute them from the mode.\<close>

definition spi_cpol_cpha :: "cmsis \<Rightarrow> u8 \<Rightarrow> u32" where
  "spi_cpol_cpha M mode =
     (if ucast mode AND SPI_MODE_CPOL_BIT \<noteq> 0 then spim M SPI_CR1_CPOL else 0) OR
     (if ucast mode AND SPI_MODE_CPHA_BIT \<noteq> 0 then spim M SPI_CR1_CPHA else 0)"

subsection \<open>Exclusive use\<close>

lemma spi_periph_less: "\<not> (2 :: u8) \<le> periph \<longleftrightarrow> unat periph < 2"
  by (simp add: word_le_nat_alt not_le)

lemma spi_claim_cases:
  assumes "unat periph < 2"
  shows "spi_claim periph role (Some isr) ctx slots =
    (if sp_in_use (slots ! unat periph) then (ERR_PERIPHERAL_BUSY, slots)
     else (ERR_SUCCESS,
           slots[unat periph := \<lparr>sp_in_use = True, sp_role = role, sp_isr_fn = Some isr, sp_isr_ctx = Some ctx\<rparr>]))"
  using assms spi_periph_less[of periph] by (simp add: spi_claim_def)

lemma spi_release_ok:
  assumes "unat periph < 2"
  shows "spi_release periph slots =
    (ERR_SUCCESS, slots[unat periph := (slots ! unat periph)\<lparr>sp_in_use := False, sp_isr_fn := None, sp_isr_ctx := None\<rparr>])"
  using assms spi_periph_less[of periph] by (simp add: spi_release_def)

lemma length_spi_claim [simp]: "length (snd (spi_claim periph role isr ctx slots)) = length slots"
  and length_spi_release [simp]: "length (snd (spi_release periph slots)) = length slots"
  by (simp_all add: spi_claim_def spi_release_def)

end
