(* ===== verification/Spi_Master.thy ===== *)
theory Spi_Master
  imports Heap Spi
begin

text \<open>
  \<^verbatim>\<open>drivers/spi_master/src/spi_master.c\<close>: transmit from a buffer under interrupt control. The
  buffer belongs to the caller, so the handler reads it through a pointer into the heap; the
  handler's result is the callback to run, with its context, when the transfer is over (the code
  returns right after calling it). The value of SR a handler reads is an argument.
\<close>

subsection \<open>State\<close>

datatype spi_master_cb = CB_spi_done_callback

record spi_master_state =
  ms_spi :: spi_handle
  ms_apb_clk_hz :: u32
  ms_initialized :: bool
  ms_busy :: bool
  ms_tx_buf :: "nat option"
  ms_tx_len :: u8
  ms_tx_idx :: u8
  ms_rx_count :: u8
  ms_cb :: "spi_master_cb option"
  ms_cb_ctx :: nat

abbreviation (input) SPI_BR_MAX :: u32 where "SPI_BR_MAX \<equiv> 7"
abbreviation (input) SPI_BR_MASK :: u32 where "SPI_BR_MASK \<equiv> 7"
abbreviation (input) SPI_MASTER_SPI1_MAX_CLOCK_HZ :: u32 where "SPI_MASTER_SPI1_MAX_CLOCK_HZ \<equiv> 42000000"
abbreviation (input) SPI_MASTER_SPI2_MAX_CLOCK_HZ :: u32 where "SPI_MASTER_SPI2_MAX_CLOCK_HZ \<equiv> 21000000"

definition spi_master_state_init :: "spi_handle \<Rightarrow> u32 \<Rightarrow> spi_master_state" where
  "spi_master_state_init h clk = \<lparr>ms_spi = h, ms_apb_clk_hz = clk, ms_initialized = False, ms_busy = False,
     ms_tx_buf = None, ms_tx_len = 0, ms_tx_idx = 0, ms_rx_count = 0, ms_cb = None, ms_cb_ctx = 0\<rparr>"

definition spi_master_states :: "spi_master_state list" where
  "spi_master_states = [spi_master_state_init SPI1 84000000, spi_master_state_init SPI2 42000000]"

subsection \<open>Baud rate\<close>

function compute_br_loop :: "u32 \<Rightarrow> u32 \<Rightarrow> u32 \<Rightarrow> u32" where
  "compute_br_loop apb_clk_hz target_hz br =
     (if br \<le> SPI_BR_MAX
      then if drop_bit (unat (br + 1)) apb_clk_hz \<le> target_hz then br
           else compute_br_loop apb_clk_hz target_hz (br + 1)
      else SPI_BR_MAX)"
  by auto
termination
proof (relation "measure (\<lambda>(_, _, br). 8 - unat br)")
  fix br :: u32 assume "br \<le> 7"
  then have "unat br \<le> 7" by (simp add: word_le_nat_alt)
  then have "unat (br + 1) = unat br + 1" by (simp add: unat_word_ariths)
  then show "((apb, target, br + 1), apb, target, br) \<in> measure (\<lambda>(_, _, br). 8 - unat br)" for apb target :: u32
    using \<open>unat br \<le> 7\<close> by simp
qed simp

definition compute_br :: "u32 \<Rightarrow> u32 \<Rightarrow> u32" where
  "compute_br apb_clk_hz target_hz = compute_br_loop apb_clk_hz target_hz 0"

subsection \<open>Interrupt handler\<close>

definition master_rx ::
    "cmsis \<Rightarrow> u32 \<Rightarrow> spi_master_state \<Rightarrow> mcu \<Rightarrow> bool \<times> spi_master_state \<times> mcu" where
  "master_rx M sr s m =
     (if sr AND spim M SPI_SR_RXNE \<noteq> 0 \<and> ms_tx_idx s > 0
      then let m = emit (Rd (SPI (ms_spi s) SPI_DR)) m;
               s = s\<lparr>ms_rx_count := ms_rx_count s + 1\<rparr>
           in if ms_rx_count s \<ge> ms_tx_len s
              then (True, s\<lparr>ms_busy := False\<rparr>,
                    reg_clear (SPI (ms_spi s) SPI_CR2) (spim M SPI_CR2_TXEIE OR spim M SPI_CR2_RXNEIE) m)
              else (False, s, m)
      else (False, s, m))"

definition master_tx :: "cmsis \<Rightarrow> u32 \<Rightarrow> spi_master_state \<Rightarrow> heap \<Rightarrow> mcu \<Rightarrow> (spi_master_state \<times> mcu) option" where
  "master_tx M sr s h m =
     (if sr AND spim M SPI_SR_TXE \<noteq> 0 \<and> regs m (SPI (ms_spi s) SPI_CR2) AND spim M SPI_CR2_TXEIE \<noteq> 0
      then if ms_tx_idx s < ms_tx_len s
           then do {
             p \<leftarrow> ms_tx_buf s;
             byte \<leftarrow> heap_load p (unat (ms_tx_idx s)) h;
             Some (s\<lparr>ms_tx_idx := ms_tx_idx s + 1\<rparr>, wr (SPI (ms_spi s) SPI_DR) (ucast byte) m)
           }
           else Some (s, reg_clear (SPI (ms_spi s) SPI_CR2) (spim M SPI_CR2_TXEIE) m)
      else Some (s, m))"

definition spi_master_isr ::
    "cmsis \<Rightarrow> u32 \<Rightarrow> spi_master_state \<Rightarrow> heap \<Rightarrow> mcu \<Rightarrow>
     ((spi_master_cb \<times> nat) option \<times> spi_master_state \<times> mcu) option" where
  "spi_master_isr M sr s h m =
     (let m = emit (Rd (SPI (ms_spi s) SPI_SR)) m;
          (done, s, m) = master_rx M sr s m
      in if done then Some (map_option (\<lambda>cb. (cb, ms_cb_ctx s)) (ms_cb s), s, m)
         else do { (s, m) \<leftarrow> master_tx M sr s h m; Some (None, s, m) })"

subsection \<open>Operations\<close>

definition spi_master_init ::
    "cmsis \<Rightarrow> u8 \<Rightarrow> u32 \<Rightarrow> u8 \<Rightarrow> spi_slot list \<Rightarrow> spi_master_state list \<Rightarrow> mcu \<Rightarrow>
     err_code \<times> spi_slot list \<times> spi_master_state list \<times> mcu" where
  "spi_master_init M periph clock_hz mode slots states m =
     (if periph \<ge> SPI_PERIPH_COUNT \<or> clock_hz = 0 \<or> mode > SPI_MODE_MAX
      then (ERR_INVALID_PARAMETER, slots, states, m)
      else let s = states ! unat periph;
               (err, slots) = spi_claim periph SPI_ROLE_MASTER (Some ISR_spi_master_isr) (unat periph) slots
           in if err \<noteq> ERR_SUCCESS then (err, slots, states, m)
              else let m = spi_rcc_enable M periph m;
                       m = wr (SPI (ms_spi s) SPI_CR1) 0 m;
                       m = wr (SPI (ms_spi s) SPI_CR2) 0 m;
                       br = compute_br (ms_apb_clk_hz s) clock_hz;
                       m = wr (SPI (ms_spi s) SPI_CR1)
                             (spim M SPI_CR1_MSTR OR spim M SPI_CR1_SSM OR spim M SPI_CR1_SSI OR
                              push_bit (SPI_CR1_BR_Pos M) (br AND SPI_BR_MASK) OR spi_cpol_cpha M mode) m;
                       m = reg_or (SPI (ms_spi s) SPI_CR1) (spim M SPI_CR1_SPE) m;
                       s = s\<lparr>ms_initialized := True, ms_busy := False\<rparr>;
                       m = spi_nvic_enable periph m
                   in (ERR_SUCCESS, slots, states[unat periph := s], m))"

definition spi_master_deinit ::
    "cmsis \<Rightarrow> u8 \<Rightarrow> spi_slot list \<Rightarrow> spi_master_state list \<Rightarrow> mcu \<Rightarrow>
     err_code \<times> spi_slot list \<times> spi_master_state list \<times> mcu" where
  "spi_master_deinit M periph slots states m =
     (if periph \<ge> SPI_PERIPH_COUNT then (ERR_INVALID_PARAMETER, slots, states, m)
      else let s = states ! unat periph;
               m = spi_nvic_disable periph m;
               m = wr (SPI (ms_spi s) SPI_CR1) 0 m;
               m = wr (SPI (ms_spi s) SPI_CR2) 0 m;
               m = spi_rcc_disable M periph m;
               (_, slots) = spi_release periph slots
           in (ERR_SUCCESS, slots, states[unat periph := s\<lparr>ms_initialized := False, ms_busy := False\<rparr>], m))"

text \<open>The assertions on the buffer and the callback hold by type; \<^verbatim>\<open>len > 0\<close> is checked.\<close>

definition spi_master_write ::
    "cmsis \<Rightarrow> u8 \<Rightarrow> nat \<Rightarrow> u8 \<Rightarrow> spi_master_cb \<Rightarrow> nat \<Rightarrow> spi_master_state list \<Rightarrow> mcu \<Rightarrow>
     (err_code \<times> spi_master_state list \<times> mcu) option" where
  "spi_master_write M periph buf len cb ctx states m =
     (if len = 0 then None
      else if periph \<ge> SPI_PERIPH_COUNT then Some (ERR_INVALID_PARAMETER, states, m)
      else if \<not> ms_initialized (states ! unat periph) then Some (ERR_INVALID_PARAMETER, states, m)
      else if ms_busy (states ! unat periph) then Some (ERR_PERIPHERAL_BUSY, states, m)
      else let s = (states ! unat periph)\<lparr>ms_tx_buf := Some buf, ms_tx_len := len, ms_tx_idx := 0, ms_rx_count := 0,
                     ms_cb := Some cb, ms_cb_ctx := ctx, ms_busy := True\<rparr>;
               m = emit (Rd (SPI (ms_spi s) SPI_SR)) m;
               m = emit (Rd (SPI (ms_spi s) SPI_DR)) m;
               m = reg_or (SPI (ms_spi s) SPI_CR2) (spim M SPI_CR2_TXEIE OR spim M SPI_CR2_RXNEIE) m
           in Some (ERR_SUCCESS, states[unat periph := s], m))"

declare compute_br_loop.simps [simp del]

subsection \<open>The baud rate\<close>

lemma u32_Suc: "unat (br :: u32) \<le> 7 \<Longrightarrow> unat (br + 1) = unat br + 1"
  by (simp add: unat_word_ariths)

lemma compute_br_loop_spec:
  fixes apb target br :: u32
  assumes "unat br \<le> 8"
  defines "r \<equiv> compute_br_loop apb target br"
  shows "r \<le> 7 \<and> (\<forall>k. unat br \<le> k \<and> k < unat r \<longrightarrow> unat target < unat apb div 2 ^ (k + 1)) \<and>
    (r = 7 \<or> unat apb div 2 ^ (unat r + 1) \<le> unat target)"
  using assms(1) unfolding r_def
proof (induction apb target br rule: compute_br_loop.induct)
  case (1 apb target br)
  note eq = compute_br_loop.simps[of apb target br]
  show ?case
  proof (cases "br \<le> 7")
    case True
    then have br: "unat br \<le> 7" by (simp add: word_le_nat_alt)
    have div: "drop_bit (unat (br + 1)) apb \<le> target \<longleftrightarrow> unat apb div 2 ^ (unat br + 1) \<le> unat target"
      by (simp only: u32_Suc[OF br] word_le_nat_alt unat_drop_bit_eq) (simp only: drop_bit_eq_div)
    show ?thesis
    proof (cases "drop_bit (unat (br + 1)) apb \<le> target")
      case hit: True
      then have r: "compute_br_loop apb target br = br" using True eq by simp
      show ?thesis unfolding r using True hit div by simp
    next
      case miss: False
      then have r: "compute_br_loop apb target br = compute_br_loop apb target (br + 1)" using True eq by simp
      have le8: "unat (br + 1) \<le> 8" using u32_Suc[OF br] br by simp
      note IH = 1(1)[OF True miss le8, folded r]
      have "unat target < unat apb div 2 ^ (k + 1)" if "unat br \<le> k" "k < unat (compute_br_loop apb target br)" for k
        using that IH miss div u32_Suc[OF br] by (cases "k = unat br") auto
      with IH show ?thesis by blast
    qed
  next
    case False
    then have r: "compute_br_loop apb target br = 7" using eq by simp
    have "unat br = 8" using False 1(2) by (simp add: word_le_nat_alt)
    then show ?thesis unfolding r by simp
  qed
qed

subsection \<open>Transfers\<close>

text \<open>
  The run of a transfer: interrupts in any order, each with the value of SR the handler reads.
  An interrupt happens only for a flag whose enable bit is set, and the hardware sets RXNE only
  when a byte has been shifted that has not been read: fewer bytes were read than written.
\<close>

definition spi_irq_possible :: "cmsis \<Rightarrow> u32 \<Rightarrow> spi_master_state \<Rightarrow> mcu \<Rightarrow> bool" where
  "spi_irq_possible M sr s m \<longleftrightarrow>
     (sr AND spim M SPI_SR_RXNE \<noteq> 0 \<and> regs m (SPI (ms_spi s) SPI_CR2) AND spim M SPI_CR2_RXNEIE \<noteq> 0 \<or>
      sr AND spim M SPI_SR_TXE \<noteq> 0 \<and> regs m (SPI (ms_spi s) SPI_CR2) AND spim M SPI_CR2_TXEIE \<noteq> 0) \<and>
     (sr AND spim M SPI_SR_RXNE \<noteq> 0 \<longrightarrow> ms_rx_count s < ms_tx_idx s)"

inductive spi_xfer ::
    "cmsis \<Rightarrow> heap \<Rightarrow> spi_master_state \<Rightarrow> mcu \<Rightarrow> nat \<Rightarrow> (spi_master_cb \<times> nat) list \<Rightarrow> spi_master_state \<Rightarrow> mcu \<Rightarrow> bool"
  for M h s0 m0 where
  xfer_start: "spi_xfer M h s0 m0 0 [] s0 m0"
| xfer_irq: "spi_xfer M h s0 m0 n cs s m \<Longrightarrow> spi_irq_possible M sr s m \<Longrightarrow> spi_master_isr M sr s h m = Some (c, s', m') \<Longrightarrow>
    spi_xfer M h s0 m0 (Suc n) (cs @ (case c of None \<Rightarrow> [] | Some c \<Rightarrow> [c])) s' m'"

text \<open>
  The invariant of a transfer of the block \<open>buf\<close>: what was written to the data register is a
  prefix of the buffer, the driver is busy until as many bytes came back, and then the callback
  has been called once and both interrupts are off. The second definition counts the interrupts
  that are still possible.
\<close>

definition xfer_inv ::
    "cmsis \<Rightarrow> u8 list \<Rightarrow> nat \<Rightarrow> spi_master_state \<Rightarrow> mcu \<Rightarrow> (spi_master_cb \<times> nat) list \<Rightarrow> spi_master_state \<Rightarrow> mcu \<Rightarrow> bool" where
  "xfer_inv M buf p s0 m0 cs s m \<longleftrightarrow>
     ms_spi s0 = ms_spi s \<and> ms_tx_buf s = Some p \<and> ms_tx_len s0 = ms_tx_len s \<and> ms_cb s0 = ms_cb s \<and> ms_cb_ctx s0 = ms_cb_ctx s \<and>
     unat (ms_rx_count s) \<le> unat (ms_tx_idx s) \<and> unat (ms_tx_idx s) \<le> unat (ms_tx_len s) \<and>
     writes_to (SPI (ms_spi s) SPI_DR) (trace m) =
       writes_to (SPI (ms_spi s) SPI_DR) (trace m0) @ map ucast (take (unat (ms_tx_idx s)) buf) \<and>
     (if ms_busy s
      then cs = [] \<and> unat (ms_rx_count s) < unat (ms_tx_len s) \<and>
           regs m (SPI (ms_spi s) SPI_CR2) AND spim M SPI_CR2_RXNEIE \<noteq> 0 \<and>
           (unat (ms_tx_idx s) < unat (ms_tx_len s) \<longrightarrow> regs m (SPI (ms_spi s) SPI_CR2) AND spim M SPI_CR2_TXEIE \<noteq> 0)
      else cs = (case ms_cb s of None \<Rightarrow> [] | Some cb \<Rightarrow> [(cb, ms_cb_ctx s)]) \<and> ms_rx_count s = ms_tx_len s \<and> ms_tx_idx s = ms_tx_len s \<and>
           regs m (SPI (ms_spi s) SPI_CR2) AND spim M SPI_CR2_RXNEIE = 0 \<and>
           regs m (SPI (ms_spi s) SPI_CR2) AND spim M SPI_CR2_TXEIE = 0)"

definition xfer_pot :: "cmsis \<Rightarrow> spi_master_state \<Rightarrow> mcu \<Rightarrow> nat" where
  "xfer_pot M s m = (unat (ms_tx_len s) - unat (ms_rx_count s)) + (unat (ms_tx_len s) - unat (ms_tx_idx s)) +
     (if regs m (SPI (ms_spi s) SPI_CR2) AND spim M SPI_CR2_TXEIE \<noteq> 0 then 1 else 0)"

lemma u8_Suc: "unat x < unat y \<Longrightarrow> unat (x + 1) = unat x + 1" for x y :: u8
proof -
  assume "unat x < unat y"
  then have "unat x + 1 < 256" using unat_u8_less[of y] by linarith
  then show ?thesis by (simp add: unat_word_ariths)
qed

lemma and_not_absorb:
  fixes x a b :: u32
  shows "(x AND NOT a AND NOT b) AND a = 0" "(x AND NOT a AND NOT b) AND b = 0" "(x AND NOT a) AND a = 0"
    and "a AND b = 0 \<Longrightarrow> (x AND NOT a) AND b = x AND b"
proof -
  show "(x AND NOT a AND NOT b) AND a = 0" "(x AND NOT a AND NOT b) AND b = 0" "(x AND NOT a) AND a = 0"
    by (rule bit_word_eqI; auto simp: bit_simps)+
  assume "a AND b = 0"
  then have "\<not> (bit a n \<and> bit b n)" for n by (metis bit_0_eq bit_and_iff bot_apply bot_bool_def)
  then show "(x AND NOT a) AND b = x AND b" by (intro bit_word_eqI) (auto simp: bit_simps)
qed

lemma xfer_rx:
  assumes inv: "xfer_inv M buf p s0 m0 cs s m" "ms_busy s" and rx: "sr AND spim M SPI_SR_RXNE \<noteq> 0" "ms_rx_count s < ms_tx_idx s"
  shows "\<exists>fin s' m'. master_rx M sr s m = (fin, s', m') \<and> ms_busy s' = (\<not> fin) \<and>
    xfer_inv M buf p s0 m0 (if fin then (case ms_cb s of None \<Rightarrow> [] | Some cb \<Rightarrow> [(cb, ms_cb_ctx s)]) else []) s' m' \<and>
    xfer_pot M s' m' < xfer_pot M s m"
proof -
  have I: "unat (ms_rx_count s) < unat (ms_tx_idx s)" "unat (ms_tx_idx s) \<le> unat (ms_tx_len s)"
    using inv rx(2) unfolding xfer_inv_def word_less_nat_alt by auto
  note suc = u8_Suc[OF I(1)]
  have pos: "ms_tx_idx s > 0" using I(1) by (simp add: word_less_nat_alt)
  show ?thesis
  proof (cases "ms_rx_count s + 1 \<ge> ms_tx_len s")
    case True
    then have "unat (ms_tx_len s) \<le> unat (ms_rx_count s) + 1" using suc by (simp add: word_le_nat_alt)
    then have "unat (ms_tx_idx s) = unat (ms_tx_len s)" "unat (ms_rx_count s + 1) = unat (ms_tx_len s)" using I suc by simp_all
    then have "ms_tx_idx s = ms_tx_len s" "ms_rx_count s + 1 = ms_tx_len s" by (simp_all only: word_unat_eq_iff)
    moreover have "unat (ms_rx_count s) < unat (ms_tx_len s)" using I by simp
    ultimately show ?thesis using inv rx(1) pos
      by (intro exI[of _ True]) (simp add: master_rx_def Let_def xfer_inv_def xfer_pot_def and_not_absorb split: option.splits)
  next
    case False
    then have "unat (ms_rx_count s) + 1 < unat (ms_tx_len s)" using suc by (simp add: word_le_nat_alt)
    then show ?thesis using inv rx(1) pos False I suc
      by (intro exI[of _ False]) (simp add: master_rx_def Let_def xfer_inv_def xfer_pot_def)
  qed
qed

lemma xfer_tx:
  assumes inv: "xfer_inv M buf p s0 m0 [] s m" "ms_busy s" and h: "h p = Some buf" "unat (ms_tx_len s0) \<le> length buf"
    and bits: "spim M SPI_CR2_TXEIE AND spim M SPI_CR2_RXNEIE = 0"
  shows "\<exists>s' m'. master_tx M sr s h m = Some (s', m') \<and> ms_busy s' \<and> xfer_inv M buf p s0 m0 [] s' m' \<and>
    xfer_pot M s' m' \<le> xfer_pot M s m \<and>
    (sr AND spim M SPI_SR_TXE \<noteq> 0 \<and> regs m (SPI (ms_spi s) SPI_CR2) AND spim M SPI_CR2_TXEIE \<noteq> 0 \<longrightarrow>
       xfer_pot M s' m' < xfer_pot M s m)"
proof (cases "sr AND spim M SPI_SR_TXE \<noteq> 0 \<and> regs m (SPI (ms_spi s) SPI_CR2) AND spim M SPI_CR2_TXEIE \<noteq> 0")
  case True
  show ?thesis
  proof (cases "ms_tx_idx s < ms_tx_len s")
    case less: True
    then have n: "unat (ms_tx_idx s) < unat (ms_tx_len s)" by (simp add: word_less_nat_alt)
    have len: "unat (ms_tx_idx s) < length buf" using n h(2) inv by (simp add: xfer_inv_def)
    have "heap_load p (unat (ms_tx_idx s)) h = Some (buf ! unat (ms_tx_idx s))" using h(1) len by (simp add: heap_load_def)
    with True less n inv len show ?thesis
      by (auto simp: master_tx_def xfer_inv_def xfer_pot_def u8_Suc take_Suc_conv_app_nth)
  next
    case False
    then have "\<not> unat (ms_tx_idx s) < unat (ms_tx_len s)" by (simp add: word_less_nat_alt)
    with False True inv bits show ?thesis
      by (auto simp: master_tx_def xfer_inv_def xfer_pot_def and_not_absorb)
  qed
next
  case False
  then have "master_tx M sr s h m = Some (s, m)" unfolding master_tx_def by (simp only: if_False)
  with inv False show ?thesis by simp
qed

text \<open>One interrupt of a running transfer.\<close>

lemma xfer_step:
  assumes inv: "xfer_inv M buf p s0 m0 cs s m" and h: "h p = Some buf" "unat (ms_tx_len s0) \<le> length buf"
    and bits: "spim M SPI_CR2_TXEIE AND spim M SPI_CR2_RXNEIE = 0" and irq: "spi_irq_possible M sr s m"
  shows "\<exists>c s' m'. spi_master_isr M sr s h m = Some (c, s', m') \<and>
    xfer_inv M buf p s0 m0 (cs @ (case c of None \<Rightarrow> [] | Some c \<Rightarrow> [c])) s' m' \<and> xfer_pot M s' m' < xfer_pot M s m"
proof -
  have busy: "ms_busy s" using inv irq by (auto simp: xfer_inv_def spi_irq_possible_def split: if_splits)
  then have cs: "cs = []" using inv by (simp add: xfer_inv_def)
  let ?m = "emit (Rd (SPI (ms_spi s) SPI_SR)) m"
  have inv1: "xfer_inv M buf p s0 m0 cs s ?m" and pot1: "xfer_pot M s ?m = xfer_pot M s m"
    using inv by (simp_all add: xfer_inv_def xfer_pot_def)
  show ?thesis
  proof (cases "sr AND spim M SPI_SR_RXNE \<noteq> 0")
    case True
    have "ms_rx_count s < ms_tx_idx s" using irq True by (simp add: spi_irq_possible_def)
    from xfer_rx[OF inv1 busy True this] obtain fin s1 m1 where rx: "master_rx M sr s ?m = (fin, s1, m1)" "ms_busy s1 = (\<not> fin)"
      "xfer_inv M buf p s0 m0 (if fin then (case ms_cb s of None \<Rightarrow> [] | Some cb \<Rightarrow> [(cb, ms_cb_ctx s)]) else []) s1 m1"
      "xfer_pot M s1 m1 < xfer_pot M s ?m" by blast
    show ?thesis
    proof (cases fin)
      case True
      have "ms_cb s1 = ms_cb s" "ms_cb_ctx s1 = ms_cb_ctx s" using rx(3) inv by (simp_all add: xfer_inv_def)
      then have "spi_master_isr M sr s h m = Some (map_option (\<lambda>cb. (cb, ms_cb_ctx s)) (ms_cb s), s1, m1)"
        using rx(1) True by (simp add: spi_master_isr_def Let_def)
      with rx True pot1 cs show ?thesis by (cases "ms_cb s") auto
    next
      case False
      with rx have "ms_busy s1" "xfer_inv M buf p s0 m0 [] s1 m1" by simp_all
      from xfer_tx[where h = h and p = p and buf = buf and sr = sr, OF this(2,1) h bits] obtain s2 m2 where tx: "master_tx M sr s1 h m1 = Some (s2, m2)"
        "xfer_inv M buf p s0 m0 [] s2 m2" "xfer_pot M s2 m2 \<le> xfer_pot M s1 m1" by blast
      then have "spi_master_isr M sr s h m = Some (None, s2, m2)" using rx(1) False by (simp add: spi_master_isr_def Let_def)
      with tx rx(4) pot1 cs show ?thesis by auto
    qed
  next
    case False
    then have rx: "master_rx M sr s ?m = (False, s, ?m)" by (simp add: master_rx_def)
    have en: "sr AND spim M SPI_SR_TXE \<noteq> 0 \<and> regs ?m (SPI (ms_spi s) SPI_CR2) AND spim M SPI_CR2_TXEIE \<noteq> 0"
      using irq False by (simp add: spi_irq_possible_def)
    from xfer_tx[where h = h and p = p and buf = buf and sr = sr, OF inv1[unfolded cs] busy h bits] en obtain s2 m2 where tx: "master_tx M sr s h ?m = Some (s2, m2)"
      "xfer_inv M buf p s0 m0 [] s2 m2" "xfer_pot M s2 m2 < xfer_pot M s ?m" by blast
    then have "spi_master_isr M sr s h m = Some (None, s2, m2)" using rx by (simp add: spi_master_isr_def Let_def)
    with tx pot1 cs show ?thesis by auto
  qed
qed

lemma xfer_reachable:
  assumes "spi_xfer M h s0 m0 n cs s m" "xfer_inv M buf p s0 m0 [] s0 m0" "h p = Some buf" "unat (ms_tx_len s0) \<le> length buf"
    "spim M SPI_CR2_TXEIE AND spim M SPI_CR2_RXNEIE = 0"
  shows "xfer_inv M buf p s0 m0 cs s m \<and> n + xfer_pot M s m \<le> xfer_pot M s0 m0"
  using assms(1)
proof (induction rule: spi_xfer.induct)
  case (xfer_irq n cs s m sr c s' m')
  have "\<exists>c s' m'. spi_master_isr M sr s h m = Some (c, s', m') \<and>
      xfer_inv M buf p s0 m0 (cs @ (case c of None \<Rightarrow> [] | Some c \<Rightarrow> [c])) s' m' \<and> xfer_pot M s' m' < xfer_pot M s m"
    by (rule xfer_step) (use xfer_irq assms in simp_all)
  with xfer_irq show ?case by auto
qed (use assms(2) in simp)

text \<open>The state in which \<open>spi_master_write\<close> leaves the driver starts a transfer.\<close>

lemma master_write_starts:
  assumes w: "spi_master_write M periph p len cb ctx states m = Some (ERR_SUCCESS, states', m')"
    and per: "unat periph < length states" and bits: "spim M SPI_CR2_TXEIE \<noteq> 0" "spim M SPI_CR2_RXNEIE \<noteq> 0"
  shows "xfer_inv M buf p (states' ! unat periph) m' [] (states' ! unat periph) m'" "ms_tx_len (states' ! unat periph) = len"
    and "xfer_pot M (states' ! unat periph) m' = 2 * unat len + 1" "ms_busy (states' ! unat periph)"
    and "ms_cb (states' ! unat periph) = Some cb" "ms_cb_ctx (states' ! unat periph) = ctx" "len \<noteq> 0"
proof -
  have absorb: "(x OR (a OR b)) AND a = a" "(x OR (a OR b)) AND b = b" for x a b :: u32
    by (rule bit_word_eqI; auto simp: bit_simps)+
  have len: "len \<noteq> 0" using w by (auto simp: spi_master_write_def)
  then have "0 < unat len" by (simp add: unat_gt_0)
  with w per bits len
  show "xfer_inv M buf p (states' ! unat periph) m' [] (states' ! unat periph) m'" "ms_tx_len (states' ! unat periph) = len"
    "xfer_pot M (states' ! unat periph) m' = 2 * unat len + 1" "ms_busy (states' ! unat periph)"
    "ms_cb (states' ! unat periph) = Some cb" "ms_cb_ctx (states' ! unat periph) = ctx" "len \<noteq> 0"
    by (auto simp: spi_master_write_def Let_def xfer_inv_def xfer_pot_def absorb split: if_splits)
qed

text \<open>What the device header says of the flags: nonzero, and the two of each register distinct.\<close>

definition spi_flags :: "cmsis \<Rightarrow> bool" where
  "spi_flags M \<longleftrightarrow> spim M SPI_CR2_TXEIE \<noteq> 0 \<and> spim M SPI_CR2_RXNEIE \<noteq> 0 \<and>
     spim M SPI_CR2_TXEIE AND spim M SPI_CR2_RXNEIE = 0 \<and>
     spim M SPI_SR_TXE \<noteq> 0 \<and> spim M SPI_SR_RXNE \<noteq> 0 \<and> spim M SPI_SR_TXE AND spim M SPI_SR_RXNE = 0"

lemma xfer_progress:
  assumes "spi_flags M" "xfer_inv M buf p s0 m0 cs s m" "ms_busy s"
  shows "\<exists>sr. spi_irq_possible M sr s m"
proof (cases "unat (ms_tx_idx s) < unat (ms_tx_len s)")
  case True
  then have "spi_irq_possible M (spim M SPI_SR_TXE) s m"
    using assms by (simp add: spi_flags_def xfer_inv_def spi_irq_possible_def)
  then show ?thesis ..
next
  case False
  then have "ms_rx_count s < ms_tx_idx s" using assms by (simp add: xfer_inv_def word_less_nat_alt)
  then have "spi_irq_possible M (spim M SPI_SR_RXNE) s m"
    using assms by (simp add: spi_flags_def xfer_inv_def spi_irq_possible_def)
  then show ?thesis ..
qed

subsection \<open>Properties\<close>

text \<open>The prescaler the master driver chooses. Every faster divider would exceed the requested
  clock, and the chosen one does not exceed it as long as the slowest divider (256) does not; when
  even that one is too fast the code uses it anyway.\<close>

theorem compute_br_correct:
  "let br = compute_br apb target in br \<le> SPI_BR_MAX \<and> (\<forall>k<unat br. unat target < unat apb div 2 ^ (k + 1)) \<and>
    (if unat apb div 256 \<le> unat target then unat apb div 2 ^ (unat br + 1) \<le> unat target else br = SPI_BR_MAX)"
proof -
  define br where "br = compute_br apb target"
  have S: "br \<le> 7 \<and> (\<forall>k<unat br. unat target < unat apb div 2 ^ (k + 1)) \<and> (br = 7 \<or> unat apb div 2 ^ (unat br + 1) \<le> unat target)"
    using compute_br_loop_spec[of 0 apb target] by (simp add: br_def compute_br_def)
  have "br = 7" if "\<not> unat apb div 256 \<le> unat target"
  proof (rule ccontr)
    assume "br \<noteq> 7"
    then have le: "unat apb div 2 ^ (unat br + 1) \<le> unat target" using S by blast
    have "unat br + 1 \<le> 8" using S by (simp add: word_le_nat_alt)
    then have "(2 :: nat) ^ (unat br + 1) \<le> 2 ^ 8" by (intro power_increasing) simp_all
    then have "unat apb div 2 ^ 8 \<le> unat apb div 2 ^ (unat br + 1)" by (intro div_le_mono2) simp_all
    with le that show False by simp
  qed
  moreover have "unat apb div 2 ^ (unat br + 1) \<le> unat target" if "unat apb div 256 \<le> unat target"
    using S that by (cases "br = 7") simp_all
  ultimately show ?thesis using S by (simp flip: br_def)
qed

text \<open>C36: a transfer sends the buffer in order and once. In every state a started transfer can
  reach by interrupts, what has been stored to the data register since the start is a prefix of
  the caller's buffer; the completion callback has not been called while the driver is busy, and
  when it is no longer busy it has been called exactly once and all bytes are out.\<close>

theorem spi_transfer_in_order:
  assumes "spi_master_write M periph p len cb ctx states m0 = Some (ERR_SUCCESS, states', m1)" "unat periph < length states"
    and "spi_flags M" "h p = Some buf" "unat len \<le> length buf"
    and "spi_xfer M h (states' ! unat periph) m1 n cs s m"
  shows "writes_to (SPI (ms_spi s) SPI_DR) (trace m) =
      writes_to (SPI (ms_spi s) SPI_DR) (trace m1) @ map ucast (take (unat (ms_tx_idx s)) buf) \<and>
    (if ms_busy s then cs = [] else cs = [(cb, ctx)] \<and> ms_tx_idx s = len \<and> ms_rx_count s = len)"
proof -
  note W = master_write_starts[OF assms(1,2)]
  have "xfer_inv M buf p (states' ! unat periph) m1 cs s m"
    using xfer_reachable[where h = h and p = p and buf = buf, OF assms(6) W(1) assms(4)] assms(3,5) W(2)
    by (simp add: spi_flags_def)
  with W(2,5,6) assms(3) show ?thesis by (auto simp: xfer_inv_def spi_flags_def split: if_splits option.splits)
qed

text \<open>C37: a transfer ends. The handler never traps, no transfer of \<open>len\<close> bytes takes more than
  \<open>2 * len + 1\<close> interrupts, and as long as the driver is busy some interrupt can occur.\<close>

theorem spi_transfer_terminates:
  assumes "spi_master_write M periph p len cb ctx states m0 = Some (ERR_SUCCESS, states', m1)" "unat periph < length states"
    and "spi_flags M" "h p = Some buf" "unat len \<le> length buf"
    and "spi_xfer M h (states' ! unat periph) m1 n cs s m"
  shows "n \<le> 2 * unat len + 1 \<and> (\<forall>sr. spi_irq_possible M sr s m \<longrightarrow> spi_master_isr M sr s h m \<noteq> None) \<and>
    (ms_busy s \<longrightarrow> (\<exists>sr. spi_irq_possible M sr s m))"
proof -
  note W = master_write_starts[OF assms(1,2)] and F = assms(3)[unfolded spi_flags_def]
  have R: "xfer_inv M buf p (states' ! unat periph) m1 cs s m" "n + xfer_pot M s m \<le> xfer_pot M (states' ! unat periph) m1"
    using xfer_reachable[where h = h and p = p and buf = buf, OF assms(6) W(1) assms(4)] assms(5) F W(2) by simp_all
  have "spi_master_isr M sr s h m \<noteq> None" if "spi_irq_possible M sr s m" for sr
    using xfer_step[where h = h and p = p and buf = buf, OF R(1) assms(4) _ _ that] assms(5) F W(2) by fastforce
  then show ?thesis using R W(3) F xfer_progress[OF assms(3) R(1)] by auto
qed

text \<open>A one-byte transfer, run to its end: the byte is loaded, and comes back.\<close>

definition example_masters :: "spi_master_state list" where
  "example_masters = map (\<lambda>s. s\<lparr>ms_initialized := True\<rparr>) spi_master_states"

lemma example_spi_flags: "spi_flags example_masks"
  by (simp add: spi_flags_def example_masks_def)

lemma example_spi_transfer:
  "\<exists>states' m1 s m. spi_master_write example_masks 1 0 1 CB_spi_done_callback 1 example_masters mcu_reset = Some (ERR_SUCCESS, states', m1) \<and>
     spi_xfer example_masks [0 \<mapsto> [0xAB]] (states' ! 1) m1 2 [(CB_spi_done_callback, 1)] s m \<and> \<not> ms_busy s \<and>
     ms_spi s = SPI2 \<and> writes_to (SPI SPI2 SPI_DR) (trace m1) = []"
proof -
  define s0 where "s0 = (example_masters ! 1)\<lparr>ms_tx_buf := Some 0, ms_tx_len := 1, ms_tx_idx := 0, ms_rx_count := 0,
      ms_cb := Some CB_spi_done_callback, ms_cb_ctx := 1, ms_busy := True\<rparr>"
  define m1 where "m1 = reg_or (SPI SPI2 SPI_CR2) 0xC0 (emit (Rd (SPI SPI2 SPI_DR)) (emit (Rd (SPI SPI2 SPI_SR)) mcu_reset))"
  note D = example_masters_def spi_master_states_def spi_master_state_init_def example_masks_def
  have w: "spi_master_write example_masks 1 0 1 CB_spi_done_callback 1 example_masters mcu_reset =
      Some (ERR_SUCCESS, example_masters[1 := s0], m1)"
    by (simp add: spi_master_write_def s0_def m1_def D Let_def word_le_nat_alt)
  define s1 where "s1 = s0\<lparr>ms_tx_idx := 1\<rparr>"
  define m2 where "m2 = wr (SPI SPI2 SPI_DR) 0xAB (emit (Rd (SPI SPI2 SPI_SR)) m1)"
  have cr2: "regs m1 (SPI SPI2 SPI_CR2) = 0xC0" "regs m2 (SPI SPI2 SPI_CR2) = 0xC0" by (simp_all add: m2_def m1_def mcu_reset_def)
  have i1: "spi_master_isr example_masks 2 s0 [0 \<mapsto> [0xAB]] m1 = Some (None, s1, m2)"
    using cr2 by (simp add: spi_master_isr_def master_rx_def master_tx_def heap_load_def s0_def s1_def m2_def D)
  have p1: "spi_irq_possible example_masks 2 s0 m1" using cr2 by (simp add: spi_irq_possible_def s0_def D)
  have p2: "spi_irq_possible example_masks 1 s1 m2" using cr2 by (simp add: spi_irq_possible_def s1_def s0_def D)
  obtain s2 m3 where i2: "spi_master_isr example_masks 1 s1 [0 \<mapsto> [0xAB]] m2 = Some (Some (CB_spi_done_callback, 1), s2, m3)"
    "\<not> ms_busy s2" "ms_spi s2 = SPI2"
    by (simp add: spi_master_isr_def master_rx_def s1_def s0_def D Let_def)
  have "spi_xfer example_masks [0 \<mapsto> [0xAB]] s0 m1 (Suc (Suc 0)) ([] @ [] @ [(CB_spi_done_callback, 1)]) s2 m3"
    using xfer_irq[OF xfer_irq[OF xfer_start p1 i1] p2 i2(1)] by simp
  moreover have "example_masters[1 := s0] ! 1 = s0" by (simp add: D)
  moreover have "writes_to (SPI SPI2 SPI_DR) (trace m1) = []" by (simp add: m1_def mcu_reset_def)
  ultimately show ?thesis using w i2(2,3) by (auto simp: numeral_2_eq_2)
qed

theorem spi_transfer_in_order_witness:
  "\<exists>states' m1 s m. spi_xfer example_masks [0 \<mapsto> [0xAB]] (states' ! 1) m1 2 [(CB_spi_done_callback, 1)] s m \<and>
     writes_to (SPI SPI2 SPI_DR) (trace m) = [0xAB]"
proof -
  obtain states' m1 s m where E: "spi_master_write example_masks 1 0 1 CB_spi_done_callback 1 example_masters mcu_reset = Some (ERR_SUCCESS, states', m1)"
    "spi_xfer example_masks [0 \<mapsto> [0xAB]] (states' ! 1) m1 2 [(CB_spi_done_callback, 1)] s m" "\<not> ms_busy s" "ms_spi s = SPI2"
    "writes_to (SPI SPI2 SPI_DR) (trace m1) = []"
    using example_spi_transfer by blast
  have "writes_to (SPI (ms_spi s) SPI_DR) (trace m) =
      writes_to (SPI (ms_spi s) SPI_DR) (trace m1) @ map ucast (take (unat (ms_tx_idx s)) [0xAB :: u8]) \<and> ms_tx_idx s = 1"
    using spi_transfer_in_order[where h = "[0 \<mapsto> [0xAB]]" and buf = "[0xAB]", OF E(1) _ example_spi_flags _ _, of 2 "[(CB_spi_done_callback, 1)]" s m] E
    by (simp add: example_masters_def spi_master_states_def)
  then have "writes_to (SPI SPI2 SPI_DR) (trace m) = [0xAB]" using E(4,5) by simp
  with E(2) show ?thesis by blast
qed

theorem spi_transfer_terminates_witness:
  "\<exists>states' m1 sr. spi_master_write example_masks 1 0 1 CB_spi_done_callback 1 example_masters mcu_reset = Some (ERR_SUCCESS, states', m1) \<and>
     spi_irq_possible example_masks sr (states' ! 1) m1 \<and> spi_master_isr example_masks sr (states' ! 1) [0 \<mapsto> [0xAB]] m1 \<noteq> None"
proof -
  obtain states' m1 where E: "spi_master_write example_masks 1 0 1 CB_spi_done_callback 1 example_masters mcu_reset = Some (ERR_SUCCESS, states', m1)"
    using example_spi_transfer by blast
  have L: "unat (1 :: u8) < length example_masters" by (simp add: example_masters_def spi_master_states_def)
  have "ms_busy (states' ! 1)" using master_write_starts(4)[OF E L] example_spi_flags by (simp add: spi_flags_def)
  then show ?thesis
    using spi_transfer_terminates[where h = "[0 \<mapsto> [0xAB]]" and buf = "[0xAB]", OF E L example_spi_flags _ _ , of 0 "[]" "states' ! 1" m1]
      xfer_start[of example_masks "[0 \<mapsto> [0xAB]]" "states' ! 1" m1] E by auto
qed

theorem compute_br_correct_witness:
  "compute_br 84000000 10000000 \<le> 7 \<and> 84000000 div 2 ^ (unat (compute_br 84000000 10000000) + 1) \<le> (10000000 :: nat)"
  using compute_br_correct[of 84000000 10000000] by (simp add: Let_def)

end
