(* ===== verification/Spi_Slave.thy ===== *)
theory Spi_Slave
  imports Spi
begin

text \<open>
  \<^verbatim>\<open>drivers/spi_slave/src/spi_slave.c\<close>: a response buffer of up to 64 bytes that the interrupt
  handler serves to the DUT. The value of SR a handler reads is an argument.
\<close>

subsection \<open>State\<close>

record spi_slave_state =
  ss_spi :: spi_handle
  ss_initialized :: bool
  ss_tx_buf :: "u8 list"
  ss_tx_len :: u8
  ss_tx_idx :: u8

abbreviation (input) SPI_SLAVE_TX_BUF_MAX :: u8 where "SPI_SLAVE_TX_BUF_MAX \<equiv> 64"

definition spi_slave_state_init :: "spi_handle \<Rightarrow> spi_slave_state" where
  "spi_slave_state_init h = \<lparr>ss_spi = h, ss_initialized = False, ss_tx_buf = replicate 64 0, ss_tx_len = 0, ss_tx_idx = 0\<rparr>"

definition spi_slave_states :: "spi_slave_state list" where
  "spi_slave_states = [spi_slave_state_init SPI1, spi_slave_state_init SPI2]"

subsection \<open>Interrupt handler\<close>

definition spi_slave_isr :: "cmsis \<Rightarrow> u32 \<Rightarrow> spi_slave_state \<Rightarrow> mcu \<Rightarrow> (spi_slave_state \<times> mcu) option" where
  "spi_slave_isr M sr s m =
     (let m = emit (Rd (SPI (ss_spi s) SPI_SR)) m;
          m = (if sr AND spim M SPI_SR_RXNE \<noteq> 0 then emit (Rd (SPI (ss_spi s) SPI_DR)) m else m)
      in if sr AND spim M SPI_SR_TXE \<noteq> 0 \<and> regs m (SPI (ss_spi s) SPI_CR2) AND spim M SPI_CR2_TXEIE \<noteq> 0
         then if ss_tx_idx s < ss_tx_len s
              then do {
                byte \<leftarrow> fetch (unat (ss_tx_idx s)) (ss_tx_buf s);
                let idx = ss_tx_idx s + 1;
                Some (s\<lparr>ss_tx_idx := (if idx \<ge> ss_tx_len s then 0 else idx)\<rparr>,
                      wr (SPI (ss_spi s) SPI_DR) (ucast byte) m)
              }
              else Some (s, wr (SPI (ss_spi s) SPI_DR) 0 m)
         else Some (s, m))"

subsection \<open>Operations\<close>

definition spi_slave_init ::
    "cmsis \<Rightarrow> u8 \<Rightarrow> u8 \<Rightarrow> spi_slot list \<Rightarrow> spi_slave_state list \<Rightarrow> mcu \<Rightarrow>
     err_code \<times> spi_slot list \<times> spi_slave_state list \<times> mcu" where
  "spi_slave_init M periph mode slots states m =
     (if periph \<ge> SPI_PERIPH_COUNT \<or> mode > SPI_MODE_MAX then (ERR_INVALID_PARAMETER, slots, states, m)
      else let s = states ! unat periph;
               (err, slots) = spi_claim periph SPI_ROLE_SLAVE (Some ISR_spi_slave_isr) (unat periph) slots
           in if err \<noteq> ERR_SUCCESS then (err, slots, states, m)
              else let m = spi_rcc_enable M periph m;
                       m = wr (SPI (ss_spi s) SPI_CR1) 0 m;
                       m = wr (SPI (ss_spi s) SPI_CR2) 0 m;
                       m = wr (SPI (ss_spi s) SPI_CR1) (spi_cpol_cpha M mode) m;
                       m = reg_or (SPI (ss_spi s) SPI_CR1) (spim M SPI_CR1_SPE) m;
                       s = s\<lparr>ss_tx_idx := 0, ss_initialized := True\<rparr>;
                       m = spi_nvic_enable periph m;
                       m = wr (SPI (ss_spi s) SPI_DR) 0 m;
                       m = wr (SPI (ss_spi s) SPI_CR2) (spim M SPI_CR2_RXNEIE) m
                   in (ERR_SUCCESS, slots, states[unat periph := s], m))"

definition spi_slave_deinit ::
    "cmsis \<Rightarrow> u8 \<Rightarrow> spi_slot list \<Rightarrow> spi_slave_state list \<Rightarrow> mcu \<Rightarrow>
     err_code \<times> spi_slot list \<times> spi_slave_state list \<times> mcu" where
  "spi_slave_deinit M periph slots states m =
     (if periph \<ge> SPI_PERIPH_COUNT then (ERR_INVALID_PARAMETER, slots, states, m)
      else let s = states ! unat periph;
               m = spi_nvic_disable periph m;
               m = wr (SPI (ss_spi s) SPI_CR1) 0 m;
               m = wr (SPI (ss_spi s) SPI_CR2) 0 m;
               m = spi_rcc_disable M periph m;
               (_, slots) = spi_release periph slots
           in (ERR_SUCCESS, slots,
               states[unat periph := s\<lparr>ss_initialized := False, ss_tx_len := 0, ss_tx_idx := 0\<rparr>], m))"

text \<open>\<open>buf\<close> is the memory from the pointer on; a copy that would read past it is \<open>None\<close>.\<close>

definition spi_slave_set_tx ::
    "cmsis \<Rightarrow> u8 \<Rightarrow> u8 list \<Rightarrow> u8 \<Rightarrow> spi_slave_state list \<Rightarrow> mcu \<Rightarrow> (err_code \<times> spi_slave_state list \<times> mcu) option" where
  "spi_slave_set_tx M periph buf len states m =
     (if periph \<ge> SPI_PERIPH_COUNT \<or> len = 0 \<or> len > SPI_SLAVE_TX_BUF_MAX then Some (ERR_INVALID_PARAMETER, states, m)
      else let s = states ! unat periph
           in if \<not> ss_initialized s then Some (ERR_INVALID_PARAMETER, states, m)
              else if length buf < unat len then None
              else do {
                let m = reg_clear (SPI (ss_spi s) SPI_CR2) (spim M SPI_CR2_TXEIE) m;
                tx_buf \<leftarrow> store_all 0 (take (unat len) buf) (ss_tx_buf s);
                byte \<leftarrow> fetch 0 tx_buf;
                let m = wr (SPI (ss_spi s) SPI_DR) (ucast byte) m;
                let m = reg_or (SPI (ss_spi s) SPI_CR2) (spim M SPI_CR2_TXEIE) m;
                Some (ERR_SUCCESS,
                      states[unat periph := s\<lparr>ss_tx_buf := tx_buf, ss_tx_len := len,
                                               ss_tx_idx := (if len > 1 then 1 else 0)\<rparr>], m)
              })"

subsection \<open>What the DUT reads\<close>

fun slave_run :: "cmsis \<Rightarrow> u32 list \<Rightarrow> spi_slave_state \<Rightarrow> mcu \<Rightarrow> (spi_slave_state \<times> mcu) option" where
  "slave_run M [] s m = Some (s, m)"
| "slave_run M (sr # srs) s m = do { (s, m) \<leftarrow> spi_slave_isr M sr s m; slave_run M srs s m }"

text \<open>The state of a slave that serves \<open>buf\<close> with byte \<open>k\<close> (modulo the length) to be loaded next.\<close>

definition serving :: "cmsis \<Rightarrow> u8 list \<Rightarrow> nat \<Rightarrow> spi_slave_state \<Rightarrow> mcu \<Rightarrow> bool" where
  "serving M buf k s m \<longleftrightarrow> buf \<noteq> [] \<and> unat (ss_tx_len s) = length buf \<and> take (length buf) (ss_tx_buf s) = buf \<and>
     unat (ss_tx_idx s) = k mod length buf \<and> regs m (SPI (ss_spi s) SPI_CR2) AND spim M SPI_CR2_TXEIE \<noteq> 0"

lemma serving_step:
  assumes sv: "serving M buf k s m" and sr: "sr AND spim M SPI_SR_TXE \<noteq> 0"
  shows "\<exists>s' m'. spi_slave_isr M sr s m = Some (s', m') \<and> serving M buf (Suc k) s' m' \<and> ss_spi s' = ss_spi s \<and>
    writes_to (SPI (ss_spi s) SPI_DR) (trace m') = writes_to (SPI (ss_spi s) SPI_DR) (trace m) @ [ucast (buf ! (k mod length buf))]"
proof -
  have len: "0 < length buf" "unat (ss_tx_len s) = length buf" and idx: "unat (ss_tx_idx s) = k mod length buf"
    and buf: "take (length buf) (ss_tx_buf s) = buf" using sv by (simp_all add: serving_def)
  have lt: "k mod length buf < length buf" using len(1) by simp
  then have less: "ss_tx_idx s < ss_tx_len s" using len idx by (simp add: word_less_nat_alt)
  have "unat (ss_tx_idx s) + 1 < 256" using lt len(2) idx unat_u8_less[of "ss_tx_len s"] by linarith
  then have suc: "unat (ss_tx_idx s + 1) = k mod length buf + 1" using idx by (simp add: unat_word_ariths)
  have lb: "length buf \<le> length (ss_tx_buf s)" using buf by (metis length_take min.cobounded1)
  have byte: "fetch (unat (ss_tx_idx s)) (ss_tx_buf s) = Some (buf ! (k mod length buf))"
    using lt lb idx buf by (simp, metis nth_take)
  let ?i = "if ss_tx_idx s + 1 \<ge> ss_tx_len s then 0 else ss_tx_idx s + 1"
  have last: "Suc (k mod length buf) = length buf" if "length buf \<le> Suc (k mod length buf)" using lt that by linarith
  have "unat ?i = Suc k mod length buf" using suc len lt by (auto simp: word_le_nat_alt mod_Suc intro!: last)
  then show ?thesis using sv sr less byte by (simp add: spi_slave_isr_def serving_def Let_def)
qed

lemma serving_run:
  assumes "serving M buf k s m" "\<forall>sr\<in>set srs. sr AND spim M SPI_SR_TXE \<noteq> 0"
  shows "\<exists>s' m'. slave_run M srs s m = Some (s', m') \<and> serving M buf (k + length srs) s' m' \<and>
    writes_to (SPI (ss_spi s) SPI_DR) (trace m') =
      writes_to (SPI (ss_spi s) SPI_DR) (trace m) @ map (\<lambda>i. ucast (buf ! (i mod length buf))) [k..<k + length srs]"
  using assms
proof (induction srs arbitrary: k s m)
  case (Cons sr srs)
  then obtain s1 m1 where step: "spi_slave_isr M sr s m = Some (s1, m1)" "serving M buf (Suc k) s1 m1" "ss_spi s1 = ss_spi s"
    "writes_to (SPI (ss_spi s) SPI_DR) (trace m1) = writes_to (SPI (ss_spi s) SPI_DR) (trace m) @ [ucast (buf ! (k mod length buf))]"
    using serving_step[of M buf k s m sr] by auto
  obtain s2 m2 where run: "slave_run M srs s1 m1 = Some (s2, m2)" "serving M buf (Suc k + length srs) s2 m2"
    "writes_to (SPI (ss_spi s1) SPI_DR) (trace m2) =
      writes_to (SPI (ss_spi s1) SPI_DR) (trace m1) @ map (\<lambda>i. ucast (buf ! (i mod length buf))) [Suc k..<Suc k + length srs]"
    using Cons.IH[OF step(2)] Cons.prems(2) by auto
  have "[k..<k + length (sr # srs)] = k # [Suc k..<Suc k + length srs]" by (simp add: upt_rec)
  with step run show ?case by simp
qed simp

lemma set_tx_serving:
  assumes st: "unat periph < 2" "length states = 2" "ss_initialized (states ! unat periph)" "length (ss_tx_buf (states ! unat periph)) = 64"
    and len: "len \<noteq> 0" "unat len \<le> 64" "unat len \<le> length buf" and bit: "spim M SPI_CR2_TXEIE \<noteq> 0"
  shows "\<exists>s m'. spi_slave_set_tx M periph buf len states m = Some (ERR_SUCCESS, states[unat periph := s], m') \<and>
    serving M (take (unat len) buf) 1 s m' \<and> ss_spi s = ss_spi (states ! unat periph) \<and> ss_initialized s \<and> length (ss_tx_buf s) = 64 \<and>
    writes_to (SPI (ss_spi s) SPI_DR) (trace m') = writes_to (SPI (ss_spi s) SPI_DR) (trace m) @ [ucast (buf ! 0)]"
proof -
  let ?s = "states ! unat periph" and ?b = "take (unat len) buf"
  have pos: "0 < unat len" using len(1) by (simp add: unat_gt_0)
  have "store_all (length ([] :: u8 list)) ?b ([] @ take (unat len) (ss_tx_buf ?s) @ drop (unat len) (ss_tx_buf ?s))
      = Some ([] @ ?b @ drop (unat len) (ss_tx_buf ?s))"
    using st(4) len by (intro store_all_append) simp
  then have cpy: "store_all 0 ?b (ss_tx_buf ?s) = Some (?b @ drop (unat len) (ss_tx_buf ?s))" by simp
  have first: "fetch 0 (?b @ drop (unat len) (ss_tx_buf ?s)) = Some (buf ! 0)"
    using pos len(3) st(4) len(2) by (simp add: nth_append)
  have absorb: "(x OR a) AND a = a" for x a :: u32 by (rule bit_word_eqI) (auto simp: bit_simps)
  have g: "\<not> (2 :: u8) \<le> periph" "\<not> len > 64" using st(1) len(2) by (simp_all add: word_le_nat_alt word_less_nat_alt)
  have idx: "unat (if len > 1 then 1 else 0 :: u8) = 1 mod unat len"
    using pos by (cases "len > 1") (auto simp: word_less_nat_alt)
  define s' where "s' = ?s\<lparr>ss_tx_buf := ?b @ drop (unat len) (ss_tx_buf ?s), ss_tx_len := len, ss_tx_idx := if len > 1 then 1 else 0\<rparr>"
  define m' where "m' = reg_or (SPI (ss_spi ?s) SPI_CR2) (spim M SPI_CR2_TXEIE)
    (wr (SPI (ss_spi ?s) SPI_DR) (ucast (buf ! 0)) (reg_clear (SPI (ss_spi ?s) SPI_CR2) (spim M SPI_CR2_TXEIE) m))"
  have "serving M ?b 1 s' m'" "ss_spi s' = ss_spi ?s" "ss_initialized s'" "length (ss_tx_buf s') = 64"
    "writes_to (SPI (ss_spi s') SPI_DR) (trace m') = writes_to (SPI (ss_spi s') SPI_DR) (trace m) @ [ucast (buf ! 0)]"
    using pos len bit idx st by (auto simp: serving_def absorb min_absorb2 s'_def m'_def)
  moreover have "spi_slave_set_tx M periph buf len states m = Some (ERR_SUCCESS, states[unat periph := s'], m')"
    using g len(1,3) st first cpy by (simp add: spi_slave_set_tx_def Let_def s'_def m'_def)
  ultimately show ?thesis by blast
qed

lemma slave_set_tx_ok:
  assumes st: "unat periph < 2" "ss_initialized (states ! unat periph)" "length (ss_tx_buf (states ! unat periph)) = 64"
    and len: "len \<noteq> 0" "unat len \<le> 64" "unat len \<le> length buf"
  shows "\<exists>s m'. spi_slave_set_tx M periph buf len states m = Some (ERR_SUCCESS, states[unat periph := s], m') \<and>
    ss_initialized s \<and> length (ss_tx_buf s) = 64 \<and> ss_tx_len s = len \<and> take (unat len) (ss_tx_buf s) = take (unat len) buf"
proof -
  let ?s = "states ! unat periph" and ?b = "take (unat len) buf"
  have "store_all (length ([] :: u8 list)) ?b ([] @ take (unat len) (ss_tx_buf ?s) @ drop (unat len) (ss_tx_buf ?s))
      = Some ([] @ ?b @ drop (unat len) (ss_tx_buf ?s))"
    using st(3) len by (intro store_all_append) simp
  then have cpy: "store_all 0 ?b (ss_tx_buf ?s) = Some (?b @ drop (unat len) (ss_tx_buf ?s))" by simp
  have pos: "0 < unat len" using len(1) by (simp add: unat_gt_0)
  have first: "fetch 0 (?b @ drop (unat len) (ss_tx_buf ?s)) = Some (buf ! 0)"
    using pos len(3) st(3) len(2) by (simp add: nth_append)
  have g: "\<not> (2 :: u8) \<le> periph" "\<not> len > 64" using st(1) len(2) by (simp_all add: word_le_nat_alt word_less_nat_alt)
  define s' where "s' = ?s\<lparr>ss_tx_buf := ?b @ drop (unat len) (ss_tx_buf ?s), ss_tx_len := len, ss_tx_idx := if len > 1 then 1 else 0\<rparr>"
  have "ss_initialized s'" "length (ss_tx_buf s') = 64" "ss_tx_len s' = len" "take (unat len) (ss_tx_buf s') = ?b"
    using len st by (simp_all add: s'_def min_absorb2)
  moreover obtain m' where "spi_slave_set_tx M periph buf len states m = Some (ERR_SUCCESS, states[unat periph := s'], m')"
    using g len(1,3) st first cpy by (simp add: spi_slave_set_tx_def Let_def s'_def)
  ultimately show ?thesis by blast
qed

subsection \<open>Properties\<close>

lemma concat_replicate_comm: "concat (replicate n bs) @ bs = bs @ concat (replicate n bs)"
  by (induction n) simp_all

text \<open>The bytes of \<open>n\<close> passes over a buffer, by their position.\<close>

lemma concat_replicate_nth: "bs \<noteq> [] \<Longrightarrow> concat (replicate n bs) = map (\<lambda>k. bs ! (k mod length bs)) [0..<n * length bs]"
proof (induction n)
  case (Suc n)
  let ?f = "\<lambda>k. bs ! (k mod length bs)"
  have bs: "map ?f [n * length bs..<n * length bs + length bs] = bs" by (rule nth_equalityI) simp_all
  have "[0..<Suc n * length bs] = [0..<n * length bs] @ [n * length bs..<n * length bs + length bs]"
    using upt_add_eq_append[of 0 "n * length bs" "length bs"] by (simp add: add.commute)
  then have "map ?f [0..<Suc n * length bs] = concat (replicate n bs) @ bs" using Suc bs by simp
  then show ?case by (simp add: concat_replicate_comm)
qed simp

text \<open>C39: the response buffer is persistent. After it has been set, let the DUT make any number of
  transactions that each read exactly the buffer's length: what is loaded into the data register
  for them is the whole buffer in order, once per transaction, with no action of the host in
  between; the preloaded byte is the first of them, and every further one is loaded by one transmit
  interrupt, whatever else the status register shows. The handler never reads outside the buffer.
  (Byte \<open>k\<close> of the stream is byte \<open>k mod len\<close> of the buffer. So a DUT that clocks more than the
  buffer in one transaction reads the buffer again, where comment and specification promise 0x00,
  and since the first byte is loaded when the buffer is set, a transaction under way is not left
  alone: both are recorded as divergences of the code from its documentation.)\<close>

theorem spi_slave_buffer_persists:
  assumes "unat periph < 2" "length states = 2" "ss_initialized (states ! unat periph)" "length (ss_tx_buf (states ! unat periph)) = 64"
    and "len \<noteq> 0" "unat len \<le> 64" "unat len \<le> length buf" "spim M SPI_CR2_TXEIE \<noteq> 0"
    and "\<forall>sr\<in>set srs. sr AND spim M SPI_SR_TXE \<noteq> 0" "Suc (length srs) = n * unat len"
  shows "\<exists>states' m1 s m'. spi_slave_set_tx M periph buf len states m = Some (ERR_SUCCESS, states', m1) \<and>
    slave_run M srs (states' ! unat periph) m1 = Some (s, m') \<and>
    writes_to (SPI (ss_spi (states ! unat periph)) SPI_DR) (trace m') =
      writes_to (SPI (ss_spi (states ! unat periph)) SPI_DR) (trace m) @ map ucast (concat (replicate n (take (unat len) buf))) \<and>
    serving M (take (unat len) buf) 0 s m'"
proof -
  let ?b = "take (unat len) buf"
  have pos: "0 < unat len" using assms(5) by (simp add: unat_gt_0)
  have b: "length ?b = unat len" "?b \<noteq> []" using assms(7) pos by auto
  obtain s m1 where set: "spi_slave_set_tx M periph buf len states m = Some (ERR_SUCCESS, states[unat periph := s], m1)"
    "serving M ?b 1 s m1" "ss_spi s = ss_spi (states ! unat periph)"
    "writes_to (SPI (ss_spi s) SPI_DR) (trace m1) = writes_to (SPI (ss_spi s) SPI_DR) (trace m) @ [ucast (buf ! 0)]"
    using set_tx_serving[OF assms(1-8)] by blast
  obtain s' m' where run: "slave_run M srs s m1 = Some (s', m')" "serving M ?b (1 + length srs) s' m'"
    "writes_to (SPI (ss_spi s) SPI_DR) (trace m') = writes_to (SPI (ss_spi s) SPI_DR) (trace m1) @
      map (\<lambda>i. ucast (?b ! (i mod length ?b))) [1..<1 + length srs]"
    using serving_run[OF set(2) assms(9)] by blast
  have "map (\<lambda>i. ucast (?b ! (i mod length ?b))) [0..<n * unat len] =
      ucast (buf ! 0) # map (\<lambda>i. ucast (?b ! (i mod length ?b))) [1..<1 + length srs]"
    using assms(10) pos unfolding assms(10)[symmetric] by (simp add: upt_conv_Cons del: upt_Suc)
  then have "map ucast (concat (replicate n ?b)) = (ucast (buf ! 0) :: u32) # map (\<lambda>i. ucast (?b ! (i mod length ?b))) [1..<1 + length srs]"
    unfolding concat_replicate_nth[OF b(2)] b(1) by (simp add: o_def)
  then have "writes_to (SPI (ss_spi s) SPI_DR) (trace m') = writes_to (SPI (ss_spi s) SPI_DR) (trace m) @ map ucast (concat (replicate n ?b))"
    unfolding run(3) set(4) by (simp only: append.assoc append_Cons append_Nil)
  moreover have "serving M ?b 0 s' m'" using run(2) assms(10) b(1) by (simp add: serving_def)
  ultimately show ?thesis using set(1,3) run(1) assms(1,2) by simp
qed

theorem spi_slave_buffer_persists_witness:
  "\<exists>states' m1 s m'. spi_slave_set_tx example_masks 0 [7, 8, 9] 3 (map (\<lambda>s. s\<lparr>ss_initialized := True\<rparr>) spi_slave_states) mcu_reset
      = Some (ERR_SUCCESS, states', m1) \<and> slave_run example_masks [2, 3, 2, 2, 3] (states' ! 0) m1 = Some (s, m') \<and>
    writes_to (SPI SPI1 SPI_DR) (trace m') = [7, 8, 9, 7, 8, 9]"
proof -
  let ?st = "map (\<lambda>s. s\<lparr>ss_initialized := True\<rparr>) spi_slave_states"
  have h: "ss_initialized (?st ! unat (0 :: u8))" "length (ss_tx_buf (?st ! unat (0 :: u8))) = 64" "length ?st = 2" "ss_spi (?st ! unat (0 :: u8)) = SPI1"
    by (simp_all add: spi_slave_states_def spi_slave_state_init_def)
  have m: "spim example_masks SPI_CR2_TXEIE \<noteq> 0" "\<forall>sr\<in>set [2, 3, 2, 2, 3]. sr AND spim example_masks SPI_SR_TXE \<noteq> 0"
    by (simp_all add: example_masks_def)
  have n: "Suc (length [2, 3, 2, 2, 3 :: u32]) = 2 * unat (3 :: u8)" by simp
  have l: "(3 :: u8) \<noteq> 0" "unat (3 :: u8) \<le> 64" "unat (3 :: u8) \<le> length [7, 8, 9 :: u8]" by simp_all
  have r: "replicate 2 (take (unat (3 :: u8)) [7, 8, 9 :: u8]) = [[7, 8, 9], [7, 8, 9]]" by code_simp
  show ?thesis using spi_slave_buffer_persists[OF _ h(3,1,2) l m n, of mcu_reset]
    unfolding h(4) r by (auto simp: mcu_reset_def)
qed

text \<open>The divergence for long transactions: after the last byte of the buffer the first one is loaded, not 0x00.\<close>

lemma spi_slave_excess_repeats:
  assumes "serving M buf k s m" "k mod length buf = length buf - 1" "sr AND spim M SPI_SR_TXE \<noteq> 0" "sr' AND spim M SPI_SR_TXE \<noteq> 0"
  shows "\<exists>s' m'. slave_run M [sr, sr'] s m = Some (s', m') \<and> writes_to (SPI (ss_spi s) SPI_DR) (trace m') =
    writes_to (SPI (ss_spi s) SPI_DR) (trace m) @ [ucast (last buf), ucast (hd buf)]"
proof -
  have b: "buf \<noteq> []" "Suc k mod length buf = 0" using assms(1,2) by (auto simp: serving_def mod_Suc)
  have "[k..<k + length [sr, sr']] = [k, Suc k]" by (simp add: upt_rec)
  with serving_run[OF assms(1), of "[sr, sr']"] assms(2-4) b show ?thesis by (auto simp: last_conv_nth hd_conv_nth)
qed

end
