(* ===== verification/Spi_Bus.thy ===== *)
theory Spi_Bus
  imports Spi_Master Spi_Slave
begin

text \<open>
  The SPI layer as a whole: the claim table of \<^verbatim>\<open>spi.c\<close> with the state arrays of the master and
  the slave driver, the interrupt entry points of \<^verbatim>\<open>spi.c\<close>, which call the handler registered in
  the claim table, and the invariant that ties the three arrays together.
\<close>

record spi_bus =
  sb_slots :: "spi_slot list"
  sb_masters :: "spi_master_state list"
  sb_slaves :: "spi_slave_state list"

text \<open>\<^verbatim>\<open>SPI1_IRQHandler\<close> (index 0) and \<^verbatim>\<open>SPI2_IRQHandler\<close> (index 1).\<close>

definition SPI_IRQHandler ::
    "cmsis \<Rightarrow> nat \<Rightarrow> u32 \<Rightarrow> heap \<Rightarrow> spi_bus \<Rightarrow> mcu \<Rightarrow> ((spi_master_cb \<times> nat) option \<times> spi_bus \<times> mcu) option" where
  "SPI_IRQHandler M i sr h bus m =
     (case sp_isr_fn (sb_slots bus ! i) of
        None \<Rightarrow> Some (None, bus, m)
      | Some ISR_spi_master_isr \<Rightarrow> do {
          k \<leftarrow> sp_isr_ctx (sb_slots bus ! i);
          s \<leftarrow> fetch k (sb_masters bus);
          (cb, s, m) \<leftarrow> spi_master_isr M sr s h m;
          Some (cb, bus\<lparr>sb_masters := (sb_masters bus)[k := s]\<rparr>, m)
        }
      | Some ISR_spi_slave_isr \<Rightarrow> do {
          k \<leftarrow> sp_isr_ctx (sb_slots bus ! i);
          s \<leftarrow> fetch k (sb_slaves bus);
          (s, m) \<leftarrow> spi_slave_isr M sr s m;
          Some (None, bus\<lparr>sb_slaves := (sb_slaves bus)[k := s]\<rparr>, m)
        })"

definition spi_bus_start :: spi_bus where
  "spi_bus_start = \<lparr>sb_slots = spi_slots_init, sb_masters = spi_master_states, sb_slaves = spi_slave_states\<rparr>"

subsection \<open>Invariant\<close>

definition spi_slot_ok :: "nat \<Rightarrow> spi_slot \<Rightarrow> spi_master_state \<Rightarrow> spi_slave_state \<Rightarrow> bool" where
  "spi_slot_ok i sl ms ss \<longleftrightarrow>
     length (ss_tx_buf ss) = 64 \<and> unat (ss_tx_len ss) \<le> 64 \<and> (ms_busy ms \<longrightarrow> ms_initialized ms) \<and>
     (if sp_in_use sl
      then sp_isr_ctx sl = Some i \<and>
           (case sp_role sl of
              SPI_ROLE_MASTER \<Rightarrow> sp_isr_fn sl = Some ISR_spi_master_isr \<and> ms_initialized ms \<and> \<not> ss_initialized ss
            | SPI_ROLE_SLAVE \<Rightarrow> sp_isr_fn sl = Some ISR_spi_slave_isr \<and> ss_initialized ss \<and> \<not> ms_initialized ms)
      else sp_isr_fn sl = None \<and> \<not> ms_initialized ms \<and> \<not> ss_initialized ss)"

definition spi_bus_inv :: "spi_bus \<Rightarrow> bool" where
  "spi_bus_inv bus \<longleftrightarrow> length (sb_slots bus) = 2 \<and> length (sb_masters bus) = 2 \<and> length (sb_slaves bus) = 2 \<and>
     (\<forall>i<2. spi_slot_ok i (sb_slots bus ! i) (sb_masters bus ! i) (sb_slaves bus ! i))"

lemma spi_bus_invD:
  assumes "spi_bus_inv bus"
  shows "length (sb_slots bus) = 2" "length (sb_masters bus) = 2" "length (sb_slaves bus) = 2"
    and "i < 2 \<Longrightarrow> spi_slot_ok i (sb_slots bus ! i) (sb_masters bus ! i) (sb_slaves bus ! i)"
  using assms unfolding spi_bus_inv_def by blast+

text \<open>One peripheral changes, the other does not.\<close>

lemma spi_bus_inv_update:
  assumes "spi_bus_inv bus" "i < 2" "spi_slot_ok i sl ms ss"
  shows "spi_bus_inv \<lparr>sb_slots = (sb_slots bus)[i := sl], sb_masters = (sb_masters bus)[i := ms], sb_slaves = (sb_slaves bus)[i := ss]\<rparr>"
proof -
  note D = spi_bus_invD[OF assms(1)]
  have "spi_slot_ok j ((sb_slots bus)[i := sl] ! j) ((sb_masters bus)[i := ms] ! j) ((sb_slaves bus)[i := ss] ! j)" if "j < 2" for j
    using D(4)[OF that] assms(2,3) that D(1-3) by (cases "j = i") simp_all
  then show ?thesis using D(1-3) by (simp add: spi_bus_inv_def)
qed

lemma spi_bus_inv_start: "spi_bus_inv spi_bus_start"
proof -
  have "spi_slot_ok i (spi_slots_init ! i) (spi_master_states ! i) (spi_slave_states ! i)" if "i < 2" for i
  proof -
    have "i = 0 \<or> i = 1" using that by auto
    then show ?thesis by (auto simp: spi_slots_init_def spi_master_states_def spi_slave_states_def spi_slot_ok_def
          spi_master_state_init_def spi_slave_state_init_def numeral_2_eq_2)
  qed
  then show ?thesis by (simp add: spi_bus_inv_def spi_bus_start_def spi_slots_init_def spi_master_states_def spi_slave_states_def)
qed

subsection \<open>The drivers on the bus\<close>

text \<open>Initialising a driver claims a free peripheral, and nothing happens to one that is in use.\<close>

lemma master_init_cases:
  assumes "unat periph < 2" "clock_hz \<noteq> 0" "mode \<le> SPI_MODE_MAX"
  shows "\<exists>m'. spi_master_init M periph clock_hz mode slots masters m =
    (if sp_in_use (slots ! unat periph) then (ERR_PERIPHERAL_BUSY, slots, masters, m)
     else (ERR_SUCCESS,
           slots[unat periph := \<lparr>sp_in_use = True, sp_role = SPI_ROLE_MASTER, sp_isr_fn = Some ISR_spi_master_isr, sp_isr_ctx = Some (unat periph)\<rparr>],
           masters[unat periph := (masters ! unat periph)\<lparr>ms_initialized := True, ms_busy := False\<rparr>], m'))"
  using assms spi_periph_less[of periph] by (simp add: spi_master_init_def spi_claim_cases Let_def not_less)

lemma master_deinit_ok:
  assumes "unat periph < 2"
  shows "\<exists>m'. spi_master_deinit M periph slots masters m = (ERR_SUCCESS,
    slots[unat periph := (slots ! unat periph)\<lparr>sp_in_use := False, sp_isr_fn := None, sp_isr_ctx := None\<rparr>],
    masters[unat periph := (masters ! unat periph)\<lparr>ms_initialized := False, ms_busy := False\<rparr>], m')"
  using assms spi_periph_less[of periph] by (simp add: spi_master_deinit_def spi_release_ok Let_def)

lemma slave_init_cases:
  assumes "unat periph < 2" "mode \<le> SPI_MODE_MAX"
  shows "\<exists>m'. spi_slave_init M periph mode slots slaves m =
    (if sp_in_use (slots ! unat periph) then (ERR_PERIPHERAL_BUSY, slots, slaves, m)
     else (ERR_SUCCESS,
           slots[unat periph := \<lparr>sp_in_use = True, sp_role = SPI_ROLE_SLAVE, sp_isr_fn = Some ISR_spi_slave_isr, sp_isr_ctx = Some (unat periph)\<rparr>],
           slaves[unat periph := (slaves ! unat periph)\<lparr>ss_tx_idx := 0, ss_initialized := True\<rparr>], m'))"
  using assms spi_periph_less[of periph] by (simp add: spi_slave_init_def spi_claim_cases Let_def not_less)

lemma slave_deinit_ok:
  assumes "unat periph < 2"
  shows "\<exists>m'. spi_slave_deinit M periph slots slaves m = (ERR_SUCCESS,
    slots[unat periph := (slots ! unat periph)\<lparr>sp_in_use := False, sp_isr_fn := None, sp_isr_ctx := None\<rparr>],
    slaves[unat periph := (slaves ! unat periph)\<lparr>ss_initialized := False, ss_tx_len := 0, ss_tx_idx := 0\<rparr>], m')"
  using assms spi_periph_less[of periph] by (simp add: spi_slave_deinit_def spi_release_ok Let_def)

subsection \<open>Interrupts\<close>

text \<open>
  What an interrupt keeps: the claim table, the configuration of the drivers, and everything of
  the peripherals it is not for.
\<close>

definition bus_frame :: "spi_bus \<Rightarrow> spi_bus \<Rightarrow> bool" where
  "bus_frame bus bus' \<longleftrightarrow> sb_slots bus' = sb_slots bus \<and> length (sb_masters bus') = length (sb_masters bus) \<and>
     length (sb_slaves bus') = length (sb_slaves bus) \<and>
     (\<forall>i<2. ms_initialized (sb_masters bus' ! i) = ms_initialized (sb_masters bus ! i) \<and>
        ms_tx_buf (sb_masters bus' ! i) = ms_tx_buf (sb_masters bus ! i) \<and> ms_tx_len (sb_masters bus' ! i) = ms_tx_len (sb_masters bus ! i) \<and>
        ms_cb (sb_masters bus' ! i) = ms_cb (sb_masters bus ! i) \<and> ms_cb_ctx (sb_masters bus' ! i) = ms_cb_ctx (sb_masters bus ! i) \<and>
        ss_initialized (sb_slaves bus' ! i) = ss_initialized (sb_slaves bus ! i))"

lemma bus_frame_refl [simp]: "bus_frame bus bus"
  by (simp add: bus_frame_def)

lemma bus_frame_trans: "bus_frame a b \<Longrightarrow> bus_frame b c \<Longrightarrow> bus_frame a c"
  by (simp add: bus_frame_def)

text \<open>A master whose buffer can be read.\<close>

definition master_mem_ok :: "heap \<Rightarrow> spi_master_state \<Rightarrow> bool" where
  "master_mem_ok h s \<longleftrightarrow> ms_tx_len s = 0 \<or> (\<exists>p blk. ms_tx_buf s = Some p \<and> h p = Some blk \<and> unat (ms_tx_len s) \<le> length blk)"

lemma master_isr_total:
  assumes "master_mem_ok h s"
  shows "\<exists>c s' m'. spi_master_isr M sr s h m = Some (c, s', m') \<and> (c = None \<or> (\<exists>cb. ms_cb s = Some cb \<and> c = Some (cb, ms_cb_ctx s))) \<and>
    ms_initialized s' = ms_initialized s \<and> ms_tx_buf s' = ms_tx_buf s \<and> ms_tx_len s' = ms_tx_len s \<and> ms_cb s' = ms_cb s \<and>
    ms_cb_ctx s' = ms_cb_ctx s \<and> ms_spi s' = ms_spi s \<and> (ms_busy s' \<longrightarrow> ms_busy s)"
proof -
  let ?m = "emit (Rd (SPI (ms_spi s) SPI_SR)) m"
  obtain fin s1 m1 where rx: "master_rx M sr s ?m = (fin, s1, m1)" by (cases "master_rx M sr s ?m") auto
  then have s1: "ms_initialized s1 = ms_initialized s" "ms_tx_buf s1 = ms_tx_buf s" "ms_tx_len s1 = ms_tx_len s" "ms_cb s1 = ms_cb s"
    "ms_cb_ctx s1 = ms_cb_ctx s" "ms_spi s1 = ms_spi s" "ms_busy s1 \<longrightarrow> ms_busy s"
    by (auto simp: master_rx_def Let_def split: if_splits)
  have "\<exists>byte. ms_tx_idx s1 < ms_tx_len s1 \<longrightarrow> ms_tx_buf s1 \<noteq> None \<and> heap_load (the (ms_tx_buf s1)) (unat (ms_tx_idx s1)) h = Some byte"
  proof (cases "ms_tx_idx s1 < ms_tx_len s1")
    case True
    then have "ms_tx_len s \<noteq> 0" using s1(3) by (auto simp: word_less_nat_alt)
    then obtain p blk where "ms_tx_buf s = Some p" "h p = Some blk" "unat (ms_tx_len s) \<le> length blk"
      using assms by (auto simp: master_mem_ok_def)
    with True s1(2,3) show ?thesis by (auto simp: heap_load_def word_less_nat_alt)
  qed simp
  then have "\<exists>s2 m2. master_tx M sr s1 h m1 = Some (s2, m2) \<and> ms_initialized s2 = ms_initialized s \<and> ms_tx_buf s2 = ms_tx_buf s \<and>
      ms_tx_len s2 = ms_tx_len s \<and> ms_cb s2 = ms_cb s \<and> ms_cb_ctx s2 = ms_cb_ctx s \<and> ms_spi s2 = ms_spi s \<and> (ms_busy s2 \<longrightarrow> ms_busy s)"
    using s1 by (auto simp: master_tx_def)
  then show ?thesis using rx s1 by (cases fin; cases "ms_cb s") (auto simp: spi_master_isr_def Let_def)
qed

lemma slave_isr_total:
  assumes "length (ss_tx_buf s) = 64" "unat (ss_tx_len s) \<le> 64"
  shows "\<exists>s' m'. spi_slave_isr M sr s m = Some (s', m') \<and> ss_initialized s' = ss_initialized s \<and> ss_tx_buf s' = ss_tx_buf s \<and>
    ss_tx_len s' = ss_tx_len s \<and> ss_spi s' = ss_spi s"
proof -
  have "unat (ss_tx_idx s) < length (ss_tx_buf s)" if "ss_tx_idx s < ss_tx_len s"
    using that assms by (simp add: word_less_nat_alt)
  then show ?thesis by (auto simp: spi_slave_isr_def Let_def)
qed

lemma SPI_IRQHandler_total:
  assumes inv: "spi_bus_inv bus" and i: "i < 2" and mem: "\<forall>k<2. ms_initialized (sb_masters bus ! k) \<longrightarrow> master_mem_ok h (sb_masters bus ! k)"
  shows "\<exists>c bus' m'. SPI_IRQHandler M i sr h bus m = Some (c, bus', m') \<and> spi_bus_inv bus' \<and> bus_frame bus bus' \<and>
    (c = None \<or> ms_initialized (sb_masters bus ! i) \<and> (\<exists>cb. ms_cb (sb_masters bus ! i) = Some cb \<and> c = Some (cb, ms_cb_ctx (sb_masters bus ! i))))"
proof -
  note D = spi_bus_invD[OF inv] and S = spi_bus_invD(4)[OF inv i]
  have upd: "xs[i := xs ! i] = xs" for xs :: "'a list" by simp
  show ?thesis
  proof (cases "sp_isr_fn (sb_slots bus ! i)")
    case None then show ?thesis using inv by (simp add: SPI_IRQHandler_def)
  next
    case (Some isr)
    have use: "sp_in_use (sb_slots bus ! i)" "sp_isr_ctx (sb_slots bus ! i) = Some i"
      using S Some by (auto simp: spi_slot_ok_def split: if_splits)
    show ?thesis
    proof (cases isr)
      case ISR_spi_master_isr
      have init: "ms_initialized (sb_masters bus ! i)" "sp_role (sb_slots bus ! i) = SPI_ROLE_MASTER"
        using S Some use ISR_spi_master_isr by (auto simp: spi_slot_ok_def split: spi_role.splits)
      obtain c s' m' where isr: "spi_master_isr M sr (sb_masters bus ! i) h m = Some (c, s', m')"
        "c = None \<or> (\<exists>cb. ms_cb (sb_masters bus ! i) = Some cb \<and> c = Some (cb, ms_cb_ctx (sb_masters bus ! i)))"
        and s': "ms_initialized s' = ms_initialized (sb_masters bus ! i)" "ms_tx_buf s' = ms_tx_buf (sb_masters bus ! i)"
          "ms_tx_len s' = ms_tx_len (sb_masters bus ! i)" "ms_cb s' = ms_cb (sb_masters bus ! i)"
          "ms_cb_ctx s' = ms_cb_ctx (sb_masters bus ! i)" "ms_busy s' \<longrightarrow> ms_busy (sb_masters bus ! i)"
        using master_isr_total[of h "sb_masters bus ! i" M sr m] mem i init(1) by blast
      let ?bus = "bus\<lparr>sb_masters := (sb_masters bus)[i := s']\<rparr>"
      have "SPI_IRQHandler M i sr h bus m = Some (c, ?bus, m')"
        using Some ISR_spi_master_isr use i D isr(1) by (simp add: SPI_IRQHandler_def)
      moreover have "spi_slot_ok i (sb_slots bus ! i) s' (sb_slaves bus ! i)"
        using S s' init use by (simp add: spi_slot_ok_def)
      then have "spi_bus_inv ?bus"
        using spi_bus_inv_update[OF inv i] upd[of "sb_slots bus"] upd[of "sb_slaves bus"] by (cases bus) fastforce
      moreover have "bus_frame bus ?bus" using s' D i by (auto simp: bus_frame_def nth_list_update)
      ultimately show ?thesis using isr(2) init(1) by blast
    next
      case ISR_spi_slave_isr
      have tx: "length (ss_tx_buf (sb_slaves bus ! i)) = 64" "unat (ss_tx_len (sb_slaves bus ! i)) \<le> 64" using S by (simp_all add: spi_slot_ok_def)
      obtain s' m' where isr: "spi_slave_isr M sr (sb_slaves bus ! i) m = Some (s', m')"
        and s': "ss_initialized s' = ss_initialized (sb_slaves bus ! i)" "ss_tx_buf s' = ss_tx_buf (sb_slaves bus ! i)"
          "ss_tx_len s' = ss_tx_len (sb_slaves bus ! i)"
        using slave_isr_total[OF tx] by blast
      let ?bus = "bus\<lparr>sb_slaves := (sb_slaves bus)[i := s']\<rparr>"
      have "SPI_IRQHandler M i sr h bus m = Some (None, ?bus, m')"
        using Some ISR_spi_slave_isr use i D isr(1) by (simp add: SPI_IRQHandler_def)
      moreover have "spi_slot_ok i (sb_slots bus ! i) (sb_masters bus ! i) s'" using S s' by (simp add: spi_slot_ok_def split: spi_role.splits)
      then have "spi_bus_inv ?bus"
        using spi_bus_inv_update[OF inv i] upd[of "sb_slots bus"] upd[of "sb_masters bus"] by (cases bus) fastforce
      moreover have "bus_frame bus ?bus" using s' D i by (auto simp: bus_frame_def nth_list_update)
      ultimately show ?thesis by blast
    qed
  qed
qed

text \<open>A weaker frame that starting a transfer keeps too: who owns which peripheral.\<close>

definition bus_keeps :: "spi_bus \<Rightarrow> spi_bus \<Rightarrow> bool" where
  "bus_keeps bus bus' \<longleftrightarrow> sb_slots bus' = sb_slots bus \<and>
     (\<forall>i<2. ms_initialized (sb_masters bus' ! i) = ms_initialized (sb_masters bus ! i) \<and>
        ss_initialized (sb_slaves bus' ! i) = ss_initialized (sb_slaves bus ! i))"

lemma bus_keeps_refl [simp]: "bus_keeps bus bus"
  by (simp add: bus_keeps_def)

lemma bus_keeps_trans: "bus_keeps a b \<Longrightarrow> bus_keeps b c \<Longrightarrow> bus_keeps a c"
  by (simp add: bus_keeps_def)

lemma bus_frame_keeps: "bus_frame bus bus' \<Longrightarrow> bus_keeps bus bus'"
  by (simp add: bus_frame_def bus_keeps_def)

end
