(* ===== verification/Dac_Sensor.thy ===== *)
theory Dac_Sensor
  imports Board Spi_Bus
begin

text \<open>
  \<^verbatim>\<open>simulate/dac/src/dac_sensor.c\<close>: channels of DAC8568 chips, one chip per SPI peripheral. The
  transmit buffer of a chip is handed to the master driver by address, so it is read by the
  interrupt handler at the time of the interrupt; its pointer is the index of the chip. A write
  blocks the task on a semaphore while interrupts are served: the operation takes the list of
  interrupts (peripheral and SR value) that may occur before the time-out and serves them until
  the semaphore is given. Semaphores are kernel objects: handle to \<open>Some given\<close>, \<open>None\<close> when the
  handle is not live.
\<close>

subsection \<open>State\<close>

record dac_chip =
  dc_initialized :: bool
  dc_periph :: u8
  dc_clock_hz :: u32
  dc_spi_mode :: u8
  dc_mosi_pin :: gpio_pin
  dc_sck_pin :: gpio_pin
  dc_cs_pin :: gpio_pin
  dc_ldac_pin :: gpio_pin
  dc_ldac_enabled :: bool
  dc_channels_active :: u8
  dc_tx_done :: nat
  dc_tx_buf :: "u8 list"

record dac_sensor_state =
  ds_in_use :: bool
  ds_periph :: u8
  ds_channel :: u8

record dac_dev =
  dac_chips :: "dac_chip list"
  dac_states :: "dac_sensor_state list"
  dac_sems :: "nat \<rightharpoonup> bool"

definition dac_chip_zero :: dac_chip where
  "dac_chip_zero = \<lparr>dc_initialized = False, dc_periph = 0, dc_clock_hz = 0, dc_spi_mode = 0, dc_mosi_pin = gpio_pin_zero,
     dc_sck_pin = gpio_pin_zero, dc_cs_pin = gpio_pin_zero, dc_ldac_pin = gpio_pin_zero, dc_ldac_enabled = False,
     dc_channels_active = 0, dc_tx_done = 0, dc_tx_buf = replicate 4 0\<rparr>"

definition dac_state_zero :: dac_sensor_state where
  "dac_state_zero = \<lparr>ds_in_use = False, ds_periph = 0, ds_channel = 0\<rparr>"

abbreviation (input) DAC_CHANNELS_PER_CHIP :: u8 where "DAC_CHANNELS_PER_CHIP \<equiv> 8"
abbreviation (input) DAC_SENSOR_MAX_COUNT :: u8 where "DAC_SENSOR_MAX_COUNT \<equiv> 16"
abbreviation (input) DAC_SPI_FRAME_SIZE :: u8 where "DAC_SPI_FRAME_SIZE \<equiv> 4"
abbreviation (input) DAC_SPI_TX_TIMEOUT_MS :: u32 where "DAC_SPI_TX_TIMEOUT_MS \<equiv> 10"
abbreviation (input) DAC_CHANNEL_MAX :: u8 where "DAC_CHANNEL_MAX \<equiv> 7"
abbreviation (input) DAC_REFERENCE_EXTERNAL :: u8 where "DAC_REFERENCE_EXTERNAL \<equiv> 0"
abbreviation (input) DAC_REFERENCE_INTERNAL_FLEX :: u8 where "DAC_REFERENCE_INTERNAL_FLEX \<equiv> 2"
abbreviation (input) DAC_CMD_WRITE_AND_LOAD :: u8 where "DAC_CMD_WRITE_AND_LOAD \<equiv> 3"
abbreviation (input) DAC_CMD_REF_SETUP :: u8 where "DAC_CMD_REF_SETUP \<equiv> 8"
abbreviation (input) DAC_ADDR_REF :: u8 where "DAC_ADDR_REF \<equiv> 0"
abbreviation (input) DAC_REF_DATA_STATIC :: u16 where "DAC_REF_DATA_STATIC \<equiv> 1"
abbreviation (input) DAC_REF_DATA_FLEX :: u16 where "DAC_REF_DATA_FLEX \<equiv> 3"
abbreviation (input) DAC_LDAC_PORT_DISABLED :: u8 where "DAC_LDAC_PORT_DISABLED \<equiv> 0xFF"
abbreviation (input) DAC_CFG_OFFSET_SPI_PERIPH :: nat where "DAC_CFG_OFFSET_SPI_PERIPH \<equiv> 0"
abbreviation (input) DAC_CFG_OFFSET_SPI_CLOCK_HZ :: nat where "DAC_CFG_OFFSET_SPI_CLOCK_HZ \<equiv> 1"
abbreviation (input) DAC_CFG_OFFSET_MOSI_PORT :: nat where "DAC_CFG_OFFSET_MOSI_PORT \<equiv> 5"
abbreviation (input) DAC_CFG_OFFSET_MOSI_PIN :: nat where "DAC_CFG_OFFSET_MOSI_PIN \<equiv> 6"
abbreviation (input) DAC_CFG_OFFSET_MOSI_AF :: nat where "DAC_CFG_OFFSET_MOSI_AF \<equiv> 7"
abbreviation (input) DAC_CFG_OFFSET_SCK_PORT :: nat where "DAC_CFG_OFFSET_SCK_PORT \<equiv> 8"
abbreviation (input) DAC_CFG_OFFSET_SCK_PIN :: nat where "DAC_CFG_OFFSET_SCK_PIN \<equiv> 9"
abbreviation (input) DAC_CFG_OFFSET_SCK_AF :: nat where "DAC_CFG_OFFSET_SCK_AF \<equiv> 10"
abbreviation (input) DAC_CFG_OFFSET_CS_PORT :: nat where "DAC_CFG_OFFSET_CS_PORT \<equiv> 11"
abbreviation (input) DAC_CFG_OFFSET_CS_PIN :: nat where "DAC_CFG_OFFSET_CS_PIN \<equiv> 12"
abbreviation (input) DAC_CFG_OFFSET_LDAC_PORT :: nat where "DAC_CFG_OFFSET_LDAC_PORT \<equiv> 13"
abbreviation (input) DAC_CFG_OFFSET_LDAC_PIN :: nat where "DAC_CFG_OFFSET_LDAC_PIN \<equiv> 14"
abbreviation (input) DAC_CFG_OFFSET_CHANNEL :: nat where "DAC_CFG_OFFSET_CHANNEL \<equiv> 15"
abbreviation (input) DAC_CFG_OFFSET_REFERENCE :: nat where "DAC_CFG_OFFSET_REFERENCE \<equiv> 16"
abbreviation (input) DAC_CFG_OFFSET_SPI_MODE :: nat where "DAC_CFG_OFFSET_SPI_MODE \<equiv> 17"
abbreviation (input) DAC_CFG_OFFSET_INITIAL_VALUE :: nat where "DAC_CFG_OFFSET_INITIAL_VALUE \<equiv> 18"
abbreviation (input) DAC_CFG_SIZE :: u16 where "DAC_CFG_SIZE \<equiv> 20"
abbreviation (input) DAC_SET_OUTPUT_SIZE :: u16 where "DAC_SET_OUTPUT_SIZE \<equiv> 2"

text \<open>The chips' transmit buffers, as memory the master driver reads.\<close>

definition dac_heap :: "dac_dev \<Rightarrow> heap" where
  "dac_heap d p = (case fetch p (dac_chips d) of None \<Rightarrow> None | Some c \<Rightarrow> Some (dc_tx_buf c))"

subsection \<open>Helpers\<close>

definition chip_teardown :: "cmsis \<Rightarrow> nat \<Rightarrow> spi_bus \<Rightarrow> dac_dev \<Rightarrow> mcu \<Rightarrow> (spi_bus \<times> dac_dev \<times> mcu) option" where
  "chip_teardown M k bus d m =
     do {
       chip \<leftarrow> fetch k (dac_chips d);
       let (_, sl, masters, m) = spi_master_deinit M (dc_periph chip) (sb_slots bus) (sb_masters bus) m;
       let m = emit (VSemaphoreDelete (dc_tx_done chip)) m;
       m \<leftarrow> spi_pins_reset (dc_mosi_pin chip) (dc_sck_pin chip) (dc_cs_pin chip) (dc_ldac_pin chip) (dc_ldac_enabled chip) m;
       Some (bus\<lparr>sb_slots := sl, sb_masters := masters\<rparr>,
             d\<lparr>dac_chips := (dac_chips d)[k := chip\<lparr>dc_initialized := False\<rparr>],
               dac_sems := (dac_sems d)(dc_tx_done chip := None)\<rparr>, m)
     }"

definition dac_slot_for :: "u8 \<Rightarrow> u8 \<Rightarrow> u8" where
  "dac_slot_for periph channel = periph * DAC_CHANNELS_PER_CHIP + channel"

definition dac_build_frame :: "u8 \<Rightarrow> u8 \<Rightarrow> u16 \<Rightarrow> u8 list" where
  "dac_build_frame command address data =
     write_u32_be (push_bit 24 (ucast (command AND 0xF)) OR push_bit 20 (ucast (address AND 0xF)) OR push_bit 4 (ucast data))"

definition spi_done_callback :: "nat \<Rightarrow> dac_dev \<Rightarrow> mcu \<Rightarrow> (dac_dev \<times> mcu) option" where
  "spi_done_callback ctx d m =
     do {
       chip \<leftarrow> fetch ctx (dac_chips d);
       m \<leftarrow> gpio_set (dc_cs_pin chip) m;
       m \<leftarrow> (if dc_ldac_enabled chip then do { m \<leftarrow> gpio_reset (dc_ldac_pin chip) m; gpio_set (dc_ldac_pin chip) m } else Some m);
       _ \<leftarrow> dac_sems d (dc_tx_done chip);
       Some (d\<lparr>dac_sems := (dac_sems d)(dc_tx_done chip \<mapsto> True)\<rparr>, emit (XSemaphoreGiveFromISR (dc_tx_done chip)) m)
     }"

text \<open>An SPI interrupt in full: the entry point, and the completion callback when the handler calls it.\<close>

definition dac_irq :: "cmsis \<Rightarrow> nat \<times> u32 \<Rightarrow> spi_bus \<Rightarrow> dac_dev \<Rightarrow> mcu \<Rightarrow> (spi_bus \<times> dac_dev \<times> mcu) option" where
  "dac_irq M irq bus d m =
     do {
       (cb, bus, m) \<leftarrow> SPI_IRQHandler M (fst irq) (snd irq) (dac_heap d) bus m;
       case cb of
         None \<Rightarrow> Some (bus, d, m)
       | Some (CB_spi_done_callback, ctx) \<Rightarrow> do { (d, m) \<leftarrow> spi_done_callback ctx d m; Some (bus, d, m) }
     }"

text \<open>\<^verbatim>\<open>xSemaphoreTake\<close> with a time-out: interrupts are served until the semaphore is given.\<close>

fun sem_wait ::
    "cmsis \<Rightarrow> nat \<Rightarrow> (nat \<times> u32) list \<Rightarrow> spi_bus \<Rightarrow> dac_dev \<Rightarrow> mcu \<Rightarrow> (bool \<times> spi_bus \<times> dac_dev \<times> mcu) option" where
  "sem_wait M sem irqs bus d m =
     do {
       given \<leftarrow> dac_sems d sem;
       if given then Some (True, bus, d\<lparr>dac_sems := (dac_sems d)(sem \<mapsto> False)\<rparr>, m)
       else (case irqs of
               [] \<Rightarrow> Some (False, bus, d, m)
             | irq # irqs \<Rightarrow> do { (bus, d, m) \<leftarrow> dac_irq M irq bus d m; sem_wait M sem irqs bus d m })
     }"

definition chip_write ::
    "cmsis \<Rightarrow> rtos \<Rightarrow> (nat \<times> u32) list \<Rightarrow> nat \<Rightarrow> spi_bus \<Rightarrow> dac_dev \<Rightarrow> mcu \<Rightarrow>
     (err_code \<times> spi_bus \<times> dac_dev \<times> mcu) option" where
  "chip_write M K irqs k bus d m =
     do {
       chip \<leftarrow> fetch k (dac_chips d);
       m \<leftarrow> gpio_reset (dc_cs_pin chip) m;
       (err, masters, m) \<leftarrow> spi_master_write M (dc_periph chip) k DAC_SPI_FRAME_SIZE CB_spi_done_callback k (sb_masters bus) m;
       let bus = bus\<lparr>sb_masters := masters\<rparr>;
       if err \<noteq> ERR_SUCCESS then do { m \<leftarrow> gpio_set (dc_cs_pin chip) m; Some (ERR_INTERNAL, bus, d, m) }
       else do {
         let m = emit (XSemaphoreTake (dc_tx_done chip) (pdMS_TO_TICKS K DAC_SPI_TX_TIMEOUT_MS)) m;
         (taken, bus, d, m) \<leftarrow> sem_wait M (dc_tx_done chip) irqs bus d m;
         Some (if taken then ERR_SUCCESS else ERR_INTERNAL, bus, d, m)
       }
     }"

definition chip_set_frame :: "nat \<Rightarrow> u8 list \<Rightarrow> dac_dev \<Rightarrow> dac_dev" where
  "chip_set_frame k frame d = d\<lparr>dac_chips := (dac_chips d)[k := (dac_chips d ! k)\<lparr>dc_tx_buf := frame\<rparr>]\<rparr>"

declare sem_wait.simps [simp del]

subsection \<open>Configuration\<close>

record dac_cfg =
  cf_periph :: u8
  cf_clock_hz :: u32
  cf_mosi_port :: u8
  cf_mosi_pin :: u8
  cf_mosi_af :: u8
  cf_sck_port :: u8
  cf_sck_pin :: u8
  cf_sck_af :: u8
  cf_cs_port :: u8
  cf_cs_pin :: u8
  cf_ldac_port :: u8
  cf_ldac_pin :: u8
  cf_channel :: u8
  cf_reference :: u8
  cf_spi_mode :: u8
  cf_initial_value :: u16

definition dac_read_cfg :: "u8 list \<Rightarrow> dac_cfg option" where
  "dac_read_cfg cfg =
     do {
       spi_periph \<leftarrow> fetch DAC_CFG_OFFSET_SPI_PERIPH cfg;
       clock_hz \<leftarrow> read_u32_le (drop DAC_CFG_OFFSET_SPI_CLOCK_HZ cfg);
       mosi_port \<leftarrow> fetch DAC_CFG_OFFSET_MOSI_PORT cfg;
       mosi_pin \<leftarrow> fetch DAC_CFG_OFFSET_MOSI_PIN cfg;
       mosi_af \<leftarrow> fetch DAC_CFG_OFFSET_MOSI_AF cfg;
       sck_port \<leftarrow> fetch DAC_CFG_OFFSET_SCK_PORT cfg;
       sck_pin \<leftarrow> fetch DAC_CFG_OFFSET_SCK_PIN cfg;
       sck_af \<leftarrow> fetch DAC_CFG_OFFSET_SCK_AF cfg;
       cs_port \<leftarrow> fetch DAC_CFG_OFFSET_CS_PORT cfg;
       cs_pin \<leftarrow> fetch DAC_CFG_OFFSET_CS_PIN cfg;
       ldac_port \<leftarrow> fetch DAC_CFG_OFFSET_LDAC_PORT cfg;
       ldac_pin \<leftarrow> fetch DAC_CFG_OFFSET_LDAC_PIN cfg;
       channel \<leftarrow> fetch DAC_CFG_OFFSET_CHANNEL cfg;
       reference \<leftarrow> fetch DAC_CFG_OFFSET_REFERENCE cfg;
       spi_mode \<leftarrow> fetch DAC_CFG_OFFSET_SPI_MODE cfg;
       initial_value \<leftarrow> read_u16_le (drop DAC_CFG_OFFSET_INITIAL_VALUE cfg);
       Some \<lparr>cf_periph = spi_periph, cf_clock_hz = clock_hz, cf_mosi_port = mosi_port, cf_mosi_pin = mosi_pin,
         cf_mosi_af = mosi_af, cf_sck_port = sck_port, cf_sck_pin = sck_pin, cf_sck_af = sck_af, cf_cs_port = cs_port,
         cf_cs_pin = cs_pin, cf_ldac_port = ldac_port, cf_ldac_pin = ldac_pin, cf_channel = channel,
         cf_reference = reference, cf_spi_mode = spi_mode, cf_initial_value = initial_value\<rparr>
     }"

definition cf_ldac_en :: "dac_cfg \<Rightarrow> bool" where
  "cf_ldac_en c \<longleftrightarrow> cf_ldac_port c \<noteq> DAC_LDAC_PORT_DISABLED"

definition dac_cfg_invalid :: "dac_cfg \<Rightarrow> bool" where
  "dac_cfg_invalid c \<longleftrightarrow>
     cf_periph c \<ge> SPI_PERIPH_COUNT \<or> cf_clock_hz c = 0 \<or>
     cf_mosi_port c > GPIO_PORT_MAX \<or> cf_mosi_pin c > GPIO_PIN_MAX \<or> cf_mosi_af c = 0 \<or> cf_mosi_af c > GPIO_AF_MAX \<or>
     cf_sck_port c > GPIO_PORT_MAX \<or> cf_sck_pin c > GPIO_PIN_MAX \<or> cf_sck_af c = 0 \<or> cf_sck_af c > GPIO_AF_MAX \<or>
     cf_cs_port c > GPIO_PORT_MAX \<or> cf_cs_pin c > GPIO_PIN_MAX \<or>
     (cf_ldac_en c \<and> (cf_ldac_port c > GPIO_PORT_MAX \<or> cf_ldac_pin c > GPIO_PIN_MAX)) \<or>
     cf_channel c > DAC_CHANNEL_MAX \<or> cf_reference c > 2 \<or> cf_spi_mode c > SPI_MODE_MAX"

definition dac_max_clock :: "u8 \<Rightarrow> u32" where
  "dac_max_clock periph =
     (if periph = SPI_PERIPH_SPI1 then SPI_MASTER_SPI1_MAX_CLOCK_HZ else SPI_MASTER_SPI2_MAX_CLOCK_HZ)"

definition pin_differs :: "gpio_pin \<Rightarrow> u8 \<Rightarrow> u8 \<Rightarrow> bool" where
  "pin_differs p port pin \<longleftrightarrow> gp_port p \<noteq> gpio_port_handle port \<or> gp_pin p \<noteq> pin"

text \<open>A set-up on a chip that is already running must agree with it.\<close>

definition dac_join_check :: "dac_chip \<Rightarrow> dac_cfg \<Rightarrow> err_code" where
  "dac_join_check chip c =
     (if dc_clock_hz chip \<noteq> cf_clock_hz c \<or> dc_spi_mode chip \<noteq> cf_spi_mode c then ERR_DAC_CLOCK_MISMATCH
      else if pin_differs (dc_mosi_pin chip) (cf_mosi_port c) (cf_mosi_pin c) \<or>
              pin_differs (dc_sck_pin chip) (cf_sck_port c) (cf_sck_pin c) \<or>
              pin_differs (dc_cs_pin chip) (cf_cs_port c) (cf_cs_pin c) \<or>
              pin_differs (dc_ldac_pin chip) (cf_ldac_port c) (cf_ldac_pin c) then ERR_DAC_PIN_MISMATCH
      else if dc_channels_active chip AND push_bit (unat (cf_channel c)) 1 \<noteq> 0 then ERR_DAC_CHANNEL_IN_USE
      else ERR_SUCCESS)"

subsection \<open>Handlers\<close>

definition dac_sensor_init :: "dac_dev \<Rightarrow> dac_dev" where
  "dac_sensor_init d = d\<lparr>dac_chips := replicate 2 dac_chip_zero, dac_states := replicate 16 dac_state_zero\<rparr>"

definition dac_out_config :: "gpio_pin \<Rightarrow> gpio_output_config" where
  "dac_out_config pin = \<lparr>oc_pin = pin, oc_output_type = GPIO_OUTPUT_PUSH_PULL, oc_speed = GPIO_SPEED_HIGH, oc_pull = GPIO_PULL_NONE\<rparr>"

text \<open>The pins of a new chip: MOSI and SCK to the peripheral, CS and LDAC driven high.\<close>

definition dac_pins_configure ::
    "cmsis \<Rightarrow> dac_cfg \<Rightarrow> mcu \<Rightarrow> (gpio_pin \<times> gpio_pin \<times> gpio_pin \<times> gpio_pin \<times> mcu) option" where
  "dac_pins_configure M c m =
     do {
       mosi \<leftarrow> gpio_make_pin (cf_mosi_port c) (cf_mosi_pin c);
       sck \<leftarrow> gpio_make_pin (cf_sck_port c) (cf_sck_pin c);
       cs \<leftarrow> gpio_make_pin (cf_cs_port c) (cf_cs_pin c);
       m \<leftarrow> gpio_configure_af (spi_af_config mosi (cf_mosi_af c)) (gpio_enable_clock M (cf_mosi_port c) m);
       m \<leftarrow> gpio_configure_af (spi_af_config sck (cf_sck_af c)) (gpio_enable_clock M (cf_sck_port c) m);
       m \<leftarrow> gpio_configure_output (dac_out_config cs) 1 (gpio_enable_clock M (cf_cs_port c) m);
       (ldac, m) \<leftarrow>
         (if cf_ldac_en c then do {
            ldac \<leftarrow> gpio_make_pin (cf_ldac_port c) (cf_ldac_pin c);
            m \<leftarrow> gpio_configure_output (dac_out_config ldac) 1 (gpio_enable_clock M (cf_ldac_port c) m);
            Some (ldac, m)
          } else Some (gpio_pin_zero, m));
       Some (mosi, sck, cs, ldac, m)
     }"

text \<open>First set-up on a peripheral: pins, semaphore, SPI master, then the reference.\<close>

definition dac_chip_open ::
    "cmsis \<Rightarrow> rtos \<Rightarrow> (nat \<times> u32) list \<Rightarrow> dac_cfg \<Rightarrow> spi_bus \<Rightarrow> dac_dev \<Rightarrow> mcu \<Rightarrow>
     (err_code \<times> spi_bus \<times> dac_dev \<times> mcu) option" where
  "dac_chip_open M K irqs c bus d m =
     do {
       let k = unat (cf_periph c);
       (mosi, sck, cs, ldac, m) \<leftarrow> dac_pins_configure M c m;
       let m = emit XSemaphoreCreateBinary m;
       case xSemaphoreCreateBinary_ret K (dac_sems d) of
         None \<Rightarrow> do { m \<leftarrow> spi_pins_reset mosi sck cs ldac (cf_ldac_en c) m; Some (ERR_OUT_OF_RESOURCES, bus, d, m) }
       | Some sem \<Rightarrow>
           (case spi_master_init M (cf_periph c) (cf_clock_hz c) (cf_spi_mode c) (sb_slots bus) (sb_masters bus) m of
              (err, sl, masters, m) \<Rightarrow>
                let bus = bus\<lparr>sb_slots := sl, sb_masters := masters\<rparr>
                in if err \<noteq> ERR_SUCCESS
                   then do {
                     m \<leftarrow> spi_pins_reset mosi sck cs ldac (cf_ldac_en c) (emit (VSemaphoreDelete sem) m);
                     Some (ERR_INVALID_PARAMETER, bus, d, m)
                   }
                   else do {
                     let chip = (dac_chips d ! k)\<lparr>dc_initialized := True, dc_periph := cf_periph c, dc_clock_hz := cf_clock_hz c,
                           dc_spi_mode := cf_spi_mode c, dc_mosi_pin := mosi, dc_sck_pin := sck, dc_cs_pin := cs, dc_ldac_pin := ldac,
                           dc_ldac_enabled := cf_ldac_en c, dc_channels_active := 0, dc_tx_done := sem\<rparr>;
                     let d = d\<lparr>dac_chips := (dac_chips d)[k := chip], dac_sems := (dac_sems d)(sem \<mapsto> False)\<rparr>;
                     if cf_reference c \<noteq> DAC_REFERENCE_EXTERNAL
                     then do {
                       let ref_data = (if cf_reference c = DAC_REFERENCE_INTERNAL_FLEX then DAC_REF_DATA_FLEX else DAC_REF_DATA_STATIC);
                       let d = chip_set_frame k (dac_build_frame DAC_CMD_REF_SETUP DAC_ADDR_REF ref_data) d;
                       (werr, bus, d, m) \<leftarrow> chip_write M K irqs k bus d m;
                       if werr \<noteq> ERR_SUCCESS
                       then do { (bus, d, m) \<leftarrow> chip_teardown M k bus d m; Some (werr, bus, d, m) }
                       else Some (ERR_SUCCESS, bus, d, m)
                     }
                     else Some (ERR_SUCCESS, bus, d, m)
                   })
     }"

text \<open>Tear down a chip without active channels.\<close>

definition chip_release :: "cmsis \<Rightarrow> nat \<Rightarrow> spi_bus \<Rightarrow> dac_dev \<Rightarrow> mcu \<Rightarrow> (spi_bus \<times> dac_dev \<times> mcu) option" where
  "chip_release M k bus d m =
     (if dc_channels_active (dac_chips d ! k) = 0 then chip_teardown M k bus d m else Some (bus, d, m))"

definition chip_channel_on :: "nat \<Rightarrow> u8 \<Rightarrow> dac_dev \<Rightarrow> dac_dev" where
  "chip_channel_on k ch d = d\<lparr>dac_chips := (dac_chips d)[k := (dac_chips d ! k)
     \<lparr>dc_channels_active := dc_channels_active (dac_chips d ! k) OR push_bit (unat ch) 1\<rparr>]\<rparr>"

definition chip_channel_off :: "nat \<Rightarrow> u8 \<Rightarrow> dac_dev \<Rightarrow> dac_dev" where
  "chip_channel_off k ch d = d\<lparr>dac_chips := (dac_chips d)[k := (dac_chips d ! k)
     \<lparr>dc_channels_active := dc_channels_active (dac_chips d ! k) AND NOT (push_bit (unat ch) 1)\<rparr>]\<rparr>"

text \<open>The rest of set-up: write the initial value, mark the channel, register the sensor.\<close>

definition dac_channel_open ::
    "cmsis \<Rightarrow> rtos \<Rightarrow> (nat \<times> u32) list \<Rightarrow> dac_cfg \<Rightarrow> spi_bus \<Rightarrow> dac_dev \<Rightarrow> board \<Rightarrow>
     (err_code \<times> u8 \<times> spi_bus \<times> dac_dev \<times> board) option" where
  "dac_channel_open M K irqs c bus d b =
     do {
       let k = unat (cf_periph c);
       let idx = dac_slot_for (cf_periph c) (cf_channel c);
       let d = chip_set_frame k (dac_build_frame DAC_CMD_WRITE_AND_LOAD (cf_channel c) (cf_initial_value c)) d;
       (werr, bus, d, m) \<leftarrow> chip_write M K irqs k bus d (bmcu b);
       if werr \<noteq> ERR_SUCCESS
       then do { (bus, d, m) \<leftarrow> chip_release M k bus d m; Some (werr, PROTO_SENSOR_ID_NONE, bus, d, b\<lparr>bmcu := m\<rparr>) }
       else do {
         let d = chip_channel_on k (cf_channel c) d;
         let d = d\<lparr>dac_states := (dac_states d)[unat idx := \<lparr>ds_in_use = True, ds_periph = cf_periph c, ds_channel = cf_channel c\<rparr>]\<rparr>;
         (sid, sm) \<leftarrow> sensor_manager_register PROTO_ID_DAC idx (bsm b);
         if sid = PROTO_SENSOR_ID_NONE
         then do {
           let d = chip_channel_off k (cf_channel c) d;
           let d = d\<lparr>dac_states := (dac_states d)[unat idx := (dac_states d ! unat idx)\<lparr>ds_in_use := False\<rparr>]\<rparr>;
           (bus, d, m) \<leftarrow> chip_release M k bus d m;
           Some (ERR_OUT_OF_RESOURCES, PROTO_SENSOR_ID_NONE, bus, d, b\<lparr>bmcu := m, bsm := sm\<rparr>)
         }
         else Some (ERR_SUCCESS, sid, bus, d, b\<lparr>bmcu := m, bsm := sm\<rparr>)
       }
     }"

definition dac_sensor_setup ::
    "cmsis \<Rightarrow> rtos \<Rightarrow> (nat \<times> u32) list \<Rightarrow> (nat \<times> u32) list \<Rightarrow> u8 list \<Rightarrow> u16 \<Rightarrow> spi_bus \<Rightarrow> dac_dev \<Rightarrow> board \<Rightarrow>
     (err_code \<times> u8 \<times> spi_bus \<times> dac_dev \<times> board) option" where
  "dac_sensor_setup M K irqs1 irqs2 cfg cfg_len bus d b =
     (if cfg_len < DAC_CFG_SIZE then Some (ERR_MALFORMED_PAYLOAD, PROTO_SENSOR_ID_NONE, bus, d, b)
      else do {
        c \<leftarrow> dac_read_cfg cfg;
        if dac_cfg_invalid c then Some (ERR_INVALID_PARAMETER, PROTO_SENSOR_ID_NONE, bus, d, b)
        else if cf_clock_hz c > dac_max_clock (cf_periph c) then Some (ERR_INVALID_PARAMETER, PROTO_SENSOR_ID_NONE, bus, d, b)
        else do {
          chip \<leftarrow> fetch (unat (cf_periph c)) (dac_chips d);
          let err = (if dc_initialized chip then dac_join_check chip c else ERR_SUCCESS);
          if err \<noteq> ERR_SUCCESS then Some (err, PROTO_SENSOR_ID_NONE, bus, d, b)
          else do {
            s \<leftarrow> fetch (unat (dac_slot_for (cf_periph c) (cf_channel c))) (dac_states d);
            if ds_in_use s then Some (ERR_DAC_CHANNEL_IN_USE, PROTO_SENSOR_ID_NONE, bus, d, b)
            else do {
              (err, bus, d, m) \<leftarrow>
                (if dc_initialized chip then Some (ERR_SUCCESS, bus, d, bmcu b) else dac_chip_open M K irqs1 c bus d (bmcu b));
              if err \<noteq> ERR_SUCCESS then Some (err, PROTO_SENSOR_ID_NONE, bus, d, b\<lparr>bmcu := m\<rparr>)
              else dac_channel_open M K irqs2 c bus d (b\<lparr>bmcu := m\<rparr>)
            }
          }
        }
      })"

definition dac_sensor_set_output ::
    "cmsis \<Rightarrow> rtos \<Rightarrow> (nat \<times> u32) list \<Rightarrow> u8 \<Rightarrow> u8 list \<Rightarrow> u16 \<Rightarrow> spi_bus \<Rightarrow> dac_dev \<Rightarrow> mcu \<Rightarrow>
     (err_code \<times> spi_bus \<times> dac_dev \<times> mcu) option" where
  "dac_sensor_set_output M K irqs internal_id values values_len bus d m =
     (if internal_id \<ge> DAC_SENSOR_MAX_COUNT then Some (ERR_INVALID_SENSOR_ID, bus, d, m)
      else do {
        s \<leftarrow> fetch (unat internal_id) (dac_states d);
        if \<not> ds_in_use s then Some (ERR_INVALID_SENSOR_ID, bus, d, m)
        else if values_len < DAC_SET_OUTPUT_SIZE then Some (ERR_MALFORMED_PAYLOAD, bus, d, m)
        else do {
          v \<leftarrow> read_u16_le values;
          chip \<leftarrow> fetch (unat (ds_periph s)) (dac_chips d);
          if \<not> dc_initialized chip then Some (ERR_INTERNAL, bus, d, m)
          else chip_write M K irqs (unat (ds_periph s)) bus
                 (chip_set_frame (unat (ds_periph s)) (dac_build_frame DAC_CMD_WRITE_AND_LOAD (ds_channel s) v) d) m
        }
      })"

definition dac_sensor_stop :: "cmsis \<Rightarrow> u8 \<Rightarrow> spi_bus \<Rightarrow> dac_dev \<Rightarrow> mcu \<Rightarrow> (err_code \<times> spi_bus \<times> dac_dev \<times> mcu) option" where
  "dac_sensor_stop M internal_id bus d m =
     (if internal_id \<ge> DAC_SENSOR_MAX_COUNT then Some (ERR_INVALID_SENSOR_ID, bus, d, m)
      else do {
        s \<leftarrow> fetch (unat internal_id) (dac_states d);
        if \<not> ds_in_use s then Some (ERR_INVALID_SENSOR_ID, bus, d, m)
        else do {
          let k = unat (ds_periph s);
          _ \<leftarrow> fetch k (dac_chips d);
          let d = chip_channel_off k (ds_channel s) d;
          let d = d\<lparr>dac_states := (dac_states d)[unat internal_id := s\<lparr>ds_in_use := False\<rparr>]\<rparr>;
          (bus, d, m) \<leftarrow> chip_release M k bus d m;
          Some (ERR_SUCCESS, bus, d, m)
        }
      })"

subsection \<open>Invariant\<close>

definition chip_ok :: "nat \<Rightarrow> dac_chip \<Rightarrow> (nat \<rightharpoonup> bool) \<Rightarrow> bool" where
  "chip_ok k c sems \<longleftrightarrow> length (dc_tx_buf c) = 4 \<and>
     (dc_initialized c \<longrightarrow> unat (dc_periph c) = k \<and> gpio_pin_ok (dc_mosi_pin c) \<and> gpio_pin_ok (dc_sck_pin c) \<and>
        gpio_pin_ok (dc_cs_pin c) \<and> (dc_ldac_enabled c \<longrightarrow> gpio_pin_ok (dc_ldac_pin c)) \<and> sems (dc_tx_done c) \<noteq> None)"

text \<open>What the DAC backend leaves in the master driver: its own buffer and context, or nothing.\<close>

definition dac_master_ok :: "nat \<Rightarrow> spi_master_state \<Rightarrow> bool" where
  "dac_master_ok k s \<longleftrightarrow> (ms_tx_len s = 0 \<or> ms_tx_buf s = Some k \<and> ms_tx_len s = 4) \<and> (ms_cb s \<noteq> None \<longrightarrow> ms_cb_ctx s = k)"

text \<open>Bit \<open>c\<close> of the active channels of chip \<open>k\<close> is the use of slot \<open>8 * k + c\<close>.\<close>

definition channel_ok :: "dac_dev \<Rightarrow> nat \<Rightarrow> nat \<Rightarrow> bool" where
  "channel_ok d k c \<longleftrightarrow> (let s = dac_states d ! (8 * k + c) in
     bit (dc_channels_active (dac_chips d ! k)) c = ds_in_use s \<and>
     (ds_in_use s \<longrightarrow> unat (ds_periph s) = k \<and> unat (ds_channel s) = c))"

definition dac_inv :: "spi_bus \<Rightarrow> dac_dev \<Rightarrow> bool" where
  "dac_inv bus d \<longleftrightarrow> length (dac_chips d) = 2 \<and> length (dac_states d) = 16 \<and>
     (\<forall>k<2. chip_ok k (dac_chips d ! k) (dac_sems d) \<and> dac_master_ok k (sb_masters bus ! k) \<and>
        dc_initialized (dac_chips d ! k) = ms_initialized (sb_masters bus ! k)) \<and>
     (\<forall>k<2. \<forall>c<8. channel_ok d k c) \<and>
     (\<forall>j<2. \<forall>k<2. dc_initialized (dac_chips d ! j) \<and> dc_initialized (dac_chips d ! k) \<and>
        dc_tx_done (dac_chips d ! j) = dc_tx_done (dac_chips d ! k) \<longrightarrow> j = k)"

text \<open>Between commands a chip is running exactly when it has an active channel.\<close>

definition dac_settled :: "dac_dev \<Rightarrow> bool" where
  "dac_settled d \<longleftrightarrow> (\<forall>k<2. dc_initialized (dac_chips d ! k) = (dc_channels_active (dac_chips d ! k) \<noteq> 0))"

definition dac_live :: "dac_dev \<Rightarrow> u8 set" where
  "dac_live d = {i. unat i < 16 \<and> ds_in_use (dac_states d ! unat i)}"

lemma dac_invD:
  assumes "dac_inv bus d"
  shows "length (dac_chips d) = 2" "length (dac_states d) = 16"
    and "k < 2 \<Longrightarrow> chip_ok k (dac_chips d ! k) (dac_sems d)" "k < 2 \<Longrightarrow> dac_master_ok k (sb_masters bus ! k)"
    and "k < 2 \<Longrightarrow> dc_initialized (dac_chips d ! k) = ms_initialized (sb_masters bus ! k)"
    and "k < 2 \<Longrightarrow> c < 8 \<Longrightarrow> channel_ok d k c"
    and "j < 2 \<Longrightarrow> k < 2 \<Longrightarrow> dc_initialized (dac_chips d ! j) \<Longrightarrow> dc_initialized (dac_chips d ! k) \<Longrightarrow>
           dc_tx_done (dac_chips d ! j) = dc_tx_done (dac_chips d ! k) \<Longrightarrow> j = k"
  using assms unfolding dac_inv_def by blast+

text \<open>What the interrupts keep of the backend's state.\<close>

definition dac_frame :: "dac_dev \<Rightarrow> dac_dev \<Rightarrow> bool" where
  "dac_frame d d' \<longleftrightarrow> dac_chips d' = dac_chips d \<and> dac_states d' = dac_states d \<and> dom (dac_sems d') = dom (dac_sems d)"

lemma dac_frame_refl [simp]: "dac_frame d d"
  by (simp add: dac_frame_def)

lemma dac_frame_trans: "dac_frame a b \<Longrightarrow> dac_frame b c \<Longrightarrow> dac_frame a c"
  by (simp add: dac_frame_def)

lemma dac_frame_sem: "dac_frame d d' \<Longrightarrow> dac_sems d s \<noteq> None \<Longrightarrow> dac_sems d' s \<noteq> None"
  by (auto simp: dac_frame_def dom_def set_eq_iff)

lemma chip_ok_sems: "chip_ok k c sems \<Longrightarrow> dom sems \<subseteq> dom sems' \<Longrightarrow> chip_ok k c sems'"
  by (auto simp: chip_ok_def)

lemma dac_inv_frame:
  assumes "dac_inv bus d" "dac_frame d d'" "\<forall>k<2. dac_master_ok k (sb_masters bus' ! k) \<and>
    ms_initialized (sb_masters bus' ! k) = ms_initialized (sb_masters bus ! k)"
  shows "dac_inv bus' d'"
proof -
  note D = dac_invD[OF assms(1)]
  have F: "dac_chips d' = dac_chips d" "dac_states d' = dac_states d" "dom (dac_sems d) \<subseteq> dom (dac_sems d')"
    using assms(2) by (simp_all add: dac_frame_def)
  have "channel_ok d' k c = channel_ok d k c" for k c by (simp add: channel_ok_def F)
  then show ?thesis unfolding dac_inv_def F using D chip_ok_sems[OF D(3) F(3)] assms(3) by simp
qed

lemma master_ok_frame: "dac_master_ok k (sb_masters bus ! k) \<Longrightarrow> bus_frame bus bus' \<Longrightarrow> k < 2 \<Longrightarrow> dac_master_ok k (sb_masters bus' ! k)"
  by (auto simp: dac_master_ok_def bus_frame_def)

subsection \<open>Interrupts\<close>

lemma dac_mem_ok:
  assumes "dac_inv bus d" "k < 2"
  shows "master_mem_ok (dac_heap d) (sb_masters bus ! k)"
proof -
  have "dac_heap d k = Some (dc_tx_buf (dac_chips d ! k))" "length (dc_tx_buf (dac_chips d ! k)) = 4"
    using dac_invD(1)[OF assms(1)] dac_invD(3)[OF assms] assms(2) by (simp_all add: dac_heap_def chip_ok_def)
  then show ?thesis using dac_invD(4)[OF assms] by (auto simp: master_mem_ok_def dac_master_ok_def)
qed

lemma spi_done_callback_ok:
  assumes "dac_inv bus d" "k < 2" "dc_initialized (dac_chips d ! k)"
  shows "\<exists>m'. spi_done_callback k d m = Some (d\<lparr>dac_sems := (dac_sems d)(dc_tx_done (dac_chips d ! k) \<mapsto> True)\<rparr>, m')"
proof -
  let ?c = "dac_chips d ! k"
  have C: "gpio_pin_ok (dc_cs_pin ?c)" "dc_ldac_enabled ?c \<longrightarrow> gpio_pin_ok (dc_ldac_pin ?c)" "dac_sems d (dc_tx_done ?c) \<noteq> None"
    using dac_invD(3)[OF assms(1,2)] assms(3) by (simp_all add: chip_ok_def)
  have f: "fetch k (dac_chips d) = Some ?c" using dac_invD(1)[OF assms(1)] assms(2) by simp
  obtain m1 where 1: "gpio_set (dc_cs_pin ?c) m = Some m1" using gpio_total(2)[OF C(1)] by blast
  show ?thesis
  proof (cases "dc_ldac_enabled ?c")
    case True
    then have ok: "gpio_pin_ok (dc_ldac_pin ?c)" using C(2) by simp
    obtain m2 where m2: "gpio_reset (dc_ldac_pin ?c) m1 = Some m2" using gpio_total(3)[OF ok] by blast
    obtain m3 where "gpio_set (dc_ldac_pin ?c) m2 = Some m3" using gpio_total(2)[OF ok] by blast
    with True m2 f 1 C(3) show ?thesis by (auto simp: spi_done_callback_def)
  qed (use f 1 C(3) in \<open>auto simp: spi_done_callback_def\<close>)
qed

lemma dac_irq_total:
  assumes B: "spi_bus_inv bus" and inv: "dac_inv bus d" and i: "fst irq < 2"
  shows "\<exists>bus' d' m'. dac_irq M irq bus d m = Some (bus', d', m') \<and> spi_bus_inv bus' \<and> dac_inv bus' d' \<and> bus_frame bus bus' \<and> dac_frame d d'"
proof -
  let ?i = "fst irq"
  obtain c bus' m1 where h: "SPI_IRQHandler M ?i (snd irq) (dac_heap d) bus m = Some (c, bus', m1)" "spi_bus_inv bus'" "bus_frame bus bus'"
    "c = None \<or> ms_initialized (sb_masters bus ! ?i) \<and> (\<exists>cb. ms_cb (sb_masters bus ! ?i) = Some cb \<and> c = Some (cb, ms_cb_ctx (sb_masters bus ! ?i)))"
    using SPI_IRQHandler_total[OF B i, of "dac_heap d" M "snd irq" m] dac_mem_ok[OF inv] by blast
  have keeps: "\<forall>k<2. dac_master_ok k (sb_masters bus' ! k) \<and> ms_initialized (sb_masters bus' ! k) = ms_initialized (sb_masters bus ! k)"
    using master_ok_frame[OF dac_invD(4)[OF inv] h(3)] h(3) by (auto simp: bus_frame_def)
  show ?thesis
  proof (cases c)
    case None
    then have "dac_irq M irq bus d m = Some (bus', d, m1)" using h(1) by (simp add: dac_irq_def)
    moreover have "dac_inv bus' d" using dac_inv_frame[OF inv dac_frame_refl keeps] .
    ultimately show ?thesis using h(2,3) by auto
  next
    case (Some cc)
    then have init: "ms_initialized (sb_masters bus ! ?i)" and cb: "ms_cb (sb_masters bus ! ?i) \<noteq> None" "c = Some (CB_spi_done_callback, ms_cb_ctx (sb_masters bus ! ?i))"
      using h(4) by (auto intro: spi_master_cb.exhaust)
    have ctx: "ms_cb_ctx (sb_masters bus ! ?i) = ?i" using dac_invD(4)[OF inv i] cb(1) by (simp add: dac_master_ok_def)
    have chip: "dc_initialized (dac_chips d ! ?i)" using dac_invD(5)[OF inv i] init by simp
    let ?d = "d\<lparr>dac_sems := (dac_sems d)(dc_tx_done (dac_chips d ! ?i) \<mapsto> True)\<rparr>"
    obtain m2 where "spi_done_callback ?i d m1 = Some (?d, m2)" using spi_done_callback_ok[OF inv i chip] by blast
    then have "dac_irq M irq bus d m = Some (bus', ?d, m2)" using h(1) cb(2) ctx by (simp add: dac_irq_def)
    moreover have fr: "dac_frame d ?d"
      using dac_invD(3)[OF inv i] chip by (auto simp: dac_frame_def chip_ok_def)
    moreover have "dac_inv bus' ?d" using dac_inv_frame[OF inv fr keeps] .
    ultimately show ?thesis using h(2,3) by blast
  qed
qed

lemma sem_wait_total:
  assumes "spi_bus_inv bus" "dac_inv bus d" "\<forall>irq\<in>set irqs. fst irq < 2" "dac_sems d sem \<noteq> None"
  shows "\<exists>taken bus' d' m'. sem_wait M sem irqs bus d m = Some (taken, bus', d', m') \<and> spi_bus_inv bus' \<and> dac_inv bus' d' \<and>
    bus_frame bus bus' \<and> dac_frame d d'"
  using assms
proof (induction irqs arbitrary: bus d m)
  case Nil
  then obtain g where g: "dac_sems d sem = Some g" by blast
  have fr: "dac_frame d (d\<lparr>dac_sems := (dac_sems d)(sem \<mapsto> False)\<rparr>)" using g by (auto simp: dac_frame_def)
  have "dac_inv bus (d\<lparr>dac_sems := (dac_sems d)(sem \<mapsto> False)\<rparr>)"
    using dac_inv_frame[OF Nil(2) fr] dac_invD(4)[OF Nil(2)] by blast
  with Nil(1,2) g fr show ?case by (cases g) (auto simp: sem_wait.simps[of M sem "[]"])
next
  case (Cons irq irqs)
  then obtain g where g: "dac_sems d sem = Some g" by blast
  show ?case
  proof (cases g)
    case True
    have fr: "dac_frame d (d\<lparr>dac_sems := (dac_sems d)(sem \<mapsto> False)\<rparr>)" using g by (auto simp: dac_frame_def)
    have "dac_inv bus (d\<lparr>dac_sems := (dac_sems d)(sem \<mapsto> False)\<rparr>)"
      using dac_inv_frame[OF Cons.prems(2) fr] dac_invD(4)[OF Cons.prems(2)] by blast
    with Cons.prems(1) g fr True show ?thesis by (auto simp: sem_wait.simps[of M sem "irq # irqs"])
  next
    case False
    obtain bus1 d1 m1 where s: "dac_irq M irq bus d m = Some (bus1, d1, m1)" "spi_bus_inv bus1" "dac_inv bus1 d1" "bus_frame bus bus1" "dac_frame d d1"
      using dac_irq_total[OF Cons.prems(1,2), of irq M m] Cons.prems(3) by auto
    have sem: "dac_sems d1 sem \<noteq> None" using dac_frame_sem[OF s(5)] Cons.prems(4) by blast
    have rest: "\<forall>irq\<in>set irqs. fst irq < 2" using Cons.prems(3) by simp
    obtain t bus2 d2 m2 where r: "sem_wait M sem irqs bus1 d1 m1 = Some (t, bus2, d2, m2)" "spi_bus_inv bus2" "dac_inv bus2 d2"
      "bus_frame bus1 bus2" "dac_frame d1 d2"
      using Cons.IH[OF s(2,3) rest sem] by blast
    have "sem_wait M sem (irq # irqs) bus d m = Some (t, bus2, d2, m2)"
      using g False s(1) r(1) by (simp add: sem_wait.simps[of M sem "irq # irqs"])
    then show ?thesis using r(2,3) bus_frame_trans[OF s(4) r(4)] dac_frame_trans[OF s(5) r(5)] by blast
  qed
qed

subsection \<open>Writing to a chip\<close>

lemma master_write_cases:
  assumes "unat periph < 2" "ms_initialized (masters ! unat periph)" "len \<noteq> 0"
  shows "spi_master_write M periph p len cb ctx masters m =
      (if ms_busy (masters ! unat periph) then Some (ERR_PERIPHERAL_BUSY, masters, m)
       else spi_master_write M periph p len cb ctx masters m)"
    and "\<not> ms_busy (masters ! unat periph) \<Longrightarrow> \<exists>m'. spi_master_write M periph p len cb ctx masters m =
      Some (ERR_SUCCESS, masters[unat periph := (masters ! unat periph)\<lparr>ms_tx_buf := Some p, ms_tx_len := len, ms_tx_idx := 0,
        ms_rx_count := 0, ms_cb := Some cb, ms_cb_ctx := ctx, ms_busy := True\<rparr>], m')"
  using assms spi_periph_less[of periph] by (simp_all add: spi_master_write_def Let_def)

lemma dac_inv_master:
  assumes "dac_inv bus d" "spi_bus_inv bus" "k < 2" "dac_master_ok k s" "ms_initialized s = ms_initialized (sb_masters bus ! k)"
  shows "dac_inv (bus\<lparr>sb_masters := (sb_masters bus)[k := s]\<rparr>) d"
proof (rule dac_inv_frame[OF assms(1) dac_frame_refl], intro allI impI)
  fix j :: nat assume "j < 2"
  then show "dac_master_ok j (sb_masters (bus\<lparr>sb_masters := (sb_masters bus)[k := s]\<rparr>) ! j) \<and>
      ms_initialized (sb_masters (bus\<lparr>sb_masters := (sb_masters bus)[k := s]\<rparr>) ! j) = ms_initialized (sb_masters bus ! j)"
    using dac_invD(4)[OF assms(1), of j] assms(3-5) spi_bus_invD(2)[OF assms(2)] by (cases "j = k") simp_all
qed

lemma chip_write_total:
  assumes B: "spi_bus_inv bus" and inv: "dac_inv bus d" and irqs: "\<forall>irq\<in>set irqs. fst irq < 2"
    and k: "k < 2" "dc_initialized (dac_chips d ! k)"
  shows "\<exists>err bus' d' m'. chip_write M K irqs k bus d m = Some (err, bus', d', m') \<and> (err = ERR_SUCCESS \<or> err = ERR_INTERNAL) \<and>
    spi_bus_inv bus' \<and> dac_inv bus' d' \<and> bus_keeps bus bus' \<and> dac_frame d d'"
proof -
  let ?c = "dac_chips d ! k" and ?s = "sb_masters bus ! k"
  note D = dac_invD[OF inv]
  have C: "unat (dc_periph ?c) = k" "gpio_pin_ok (dc_cs_pin ?c)" "dac_sems d (dc_tx_done ?c) \<noteq> None"
    using D(3)[OF k(1)] k(2) by (simp_all add: chip_ok_def)
  have f: "fetch k (dac_chips d) = Some ?c" using D(1) k(1) by simp
  have init: "ms_initialized ?s" using D(5)[OF k(1)] k(2) by simp
  have per: "unat (dc_periph ?c) < 2" "ms_initialized (sb_masters bus ! unat (dc_periph ?c))" using C(1) k(1) init by simp_all
  obtain m1 where m1: "gpio_reset (dc_cs_pin ?c) m = Some m1" using gpio_total(3)[OF C(2)] by blast
  show ?thesis
  proof (cases "ms_busy ?s")
    case True
    then have w: "spi_master_write M (dc_periph ?c) k 4 CB_spi_done_callback k (sb_masters bus) m1 = Some (ERR_PERIPHERAL_BUSY, sb_masters bus, m1)"
      using master_write_cases(1)[OF per, of 4 M k CB_spi_done_callback k m1] C(1) by simp
    obtain m2 where "gpio_set (dc_cs_pin ?c) m1 = Some m2" using gpio_total(2)[OF C(2)] by blast
    then have "chip_write M K irqs k bus d m = Some (ERR_INTERNAL, bus, d, m2)" using f m1 w by (simp add: chip_write_def)
    with B inv show ?thesis by auto
  next
    case False
    define s where "s = ?s\<lparr>ms_tx_buf := Some k, ms_tx_len := 4, ms_tx_idx := 0, ms_rx_count := 0,
      ms_cb := Some CB_spi_done_callback, ms_cb_ctx := k, ms_busy := True\<rparr>"
    obtain m2 where w: "spi_master_write M (dc_periph ?c) k 4 CB_spi_done_callback k (sb_masters bus) m1 = Some (ERR_SUCCESS, (sb_masters bus)[k := s], m2)"
      using master_write_cases(2)[OF per, of 4 M k CB_spi_done_callback k m1] C(1) False by (auto simp: s_def)
    let ?bus = "bus\<lparr>sb_masters := (sb_masters bus)[k := s]\<rparr>"
    have "spi_slot_ok k (sb_slots bus ! k) s (sb_slaves bus ! k)"
      using spi_bus_invD(4)[OF B k(1)] init by (auto simp: spi_slot_ok_def s_def split: spi_role.splits if_splits)
    then have B1: "spi_bus_inv ?bus" using spi_bus_inv_update[OF B k(1), of "sb_slots bus ! k" s "sb_slaves bus ! k"] by (cases bus) simp
    have inv1: "dac_inv ?bus d" by (rule dac_inv_master[OF inv B k(1)]) (use init in \<open>simp_all add: dac_master_ok_def s_def\<close>)
    have keeps1: "bus_keeps bus ?bus" using init k(1) spi_bus_invD(2)[OF B] by (auto simp: bus_keeps_def nth_list_update s_def)
    let ?m = "emit (XSemaphoreTake (dc_tx_done ?c) (pdMS_TO_TICKS K 10)) m2"
    obtain t bus2 d2 m3 where wait: "sem_wait M (dc_tx_done ?c) irqs ?bus d ?m = Some (t, bus2, d2, m3)"
      "spi_bus_inv bus2" "dac_inv bus2 d2" "bus_frame ?bus bus2" "dac_frame d d2"
      using sem_wait_total[OF B1 inv1 irqs C(3)] by blast
    then have "chip_write M K irqs k bus d m = Some (if t then ERR_SUCCESS else ERR_INTERNAL, bus2, d2, m3)"
      using f m1 w by (simp add: chip_write_def)
    moreover have "bus_keeps bus bus2" using bus_keeps_trans[OF keeps1 bus_frame_keeps[OF wait(4)]] .
    ultimately show ?thesis using wait by (cases t) auto
  qed
qed

text \<open>Replacing one chip; the other is untouched.\<close>

lemma dac_inv_chip:
  assumes inv: "dac_inv bus d" and k: "k < 2" and c: "chip_ok k c sems" "dac_master_ok k (sb_masters bus' ! k)"
      "dc_initialized c = ms_initialized (sb_masters bus' ! k)"
    and other: "\<forall>j<2. j \<noteq> k \<longrightarrow> sb_masters bus' ! j = sb_masters bus ! j \<and>
      (dc_initialized (dac_chips d ! j) \<longrightarrow> sems (dc_tx_done (dac_chips d ! j)) \<noteq> None \<and> (dc_initialized c \<longrightarrow> dc_tx_done (dac_chips d ! j) \<noteq> dc_tx_done c))"
    and ch: "length states = 16" "\<forall>j<2. \<forall>i<8. channel_ok \<lparr>dac_chips = (dac_chips d)[k := c], dac_states = states, dac_sems = sems\<rparr> j i"
  shows "dac_inv bus' \<lparr>dac_chips = (dac_chips d)[k := c], dac_states = states, dac_sems = sems\<rparr>"
proof -
  note D = dac_invD[OF inv]
  have nth: "(dac_chips d)[k := c] ! j = (if j = k then c else dac_chips d ! j)" if "j < 2" for j
    using that k D(1) by (simp add: nth_list_update)
  have one: "chip_ok j ((dac_chips d)[k := c] ! j) sems \<and> dac_master_ok j (sb_masters bus' ! j) \<and>
      dc_initialized ((dac_chips d)[k := c] ! j) = ms_initialized (sb_masters bus' ! j)" if "j < 2" for j
  proof (cases "j = k")
    case False
    then have "chip_ok j (dac_chips d ! j) sems" using D(3)[OF that] other that by (simp add: chip_ok_def)
    then show ?thesis using False D(4,5)[OF that] other that by (simp add: nth)
  qed (use c in \<open>simp add: nth[OF k]\<close>)
  moreover have "i = j" if "i < 2" "j < 2" "dc_initialized ((dac_chips d)[k := c] ! i)" "dc_initialized ((dac_chips d)[k := c] ! j)"
      "dc_tx_done ((dac_chips d)[k := c] ! i) = dc_tx_done ((dac_chips d)[k := c] ! j)" for i j
    using that D(7)[of i j] other unfolding nth[OF that(1)] nth[OF that(2)] by (cases "i = k"; cases "j = k") fastforce+
  ultimately show ?thesis unfolding dac_inv_def using D(1) ch by auto
qed

text \<open>A chip field that the channel bookkeeping does not see.\<close>

lemma channel_ok_chip:
  assumes "dac_inv bus d" "j < 2" "i < 8" "k < 2" "dc_channels_active c = dc_channels_active (dac_chips d ! k)"
  shows "channel_ok \<lparr>dac_chips = (dac_chips d)[k := c], dac_states = dac_states d, dac_sems = sems\<rparr> j i"
  using dac_invD(6)[OF assms(1-3)] dac_invD(1)[OF assms(1)] assms(2,4,5) by (cases "j = k") (simp_all add: channel_ok_def Let_def)

lemma chip_set_frame_ok:
  assumes "dac_inv bus d" "k < 2" "length frame = 4"
  shows "dac_inv bus (chip_set_frame k frame d)" "dac_states (chip_set_frame k frame d) = dac_states d"
    "dac_sems (chip_set_frame k frame d) = dac_sems d"
    "j < 2 \<Longrightarrow> dac_chips (chip_set_frame k frame d) ! j = (if j = k then (dac_chips d ! k)\<lparr>dc_tx_buf := frame\<rparr> else dac_chips d ! j)"
proof -
  note D = dac_invD[OF assms(1)]
  let ?c = "(dac_chips d ! k)\<lparr>dc_tx_buf := frame\<rparr>"
  have eq: "chip_set_frame k frame d = \<lparr>dac_chips = (dac_chips d)[k := ?c], dac_states = dac_states d, dac_sems = dac_sems d\<rparr>"
    by (simp add: chip_set_frame_def)
  show "dac_states (chip_set_frame k frame d) = dac_states d" "dac_sems (chip_set_frame k frame d) = dac_sems d"
    "j < 2 \<Longrightarrow> dac_chips (chip_set_frame k frame d) ! j = (if j = k then ?c else dac_chips d ! j)"
    using assms(2) D(1) by (simp_all add: chip_set_frame_def nth_list_update)
  show "dac_inv bus (chip_set_frame k frame d)" unfolding eq
  proof (rule dac_inv_chip[OF assms(1,2)])
    show "chip_ok k ?c (dac_sems d)" using D(3)[OF assms(2)] assms(3) by (simp add: chip_ok_def)
    show "\<forall>j<2. j \<noteq> k \<longrightarrow> sb_masters bus ! j = sb_masters bus ! j \<and> (dc_initialized (dac_chips d ! j) \<longrightarrow>
      dac_sems d (dc_tx_done (dac_chips d ! j)) \<noteq> None \<and> (dc_initialized ?c \<longrightarrow> dc_tx_done (dac_chips d ! j) \<noteq> dc_tx_done ?c))"
      using D(3,7) assms(2) by (simp add: chip_ok_def) blast
    show "\<forall>j<2. \<forall>i<8. channel_ok \<lparr>dac_chips = (dac_chips d)[k := ?c], dac_states = dac_states d, dac_sems = dac_sems d\<rparr> j i"
      using channel_ok_chip[OF assms(1) _ _ assms(2)] by simp
  qed (use D(2,4,5) assms(2) in simp_all)
qed

lemma length_dac_build_frame [simp]: "length (dac_build_frame c a v) = 4"
  by (simp add: dac_build_frame_def write_u32_be_def)

subsection \<open>Opening and closing a chip\<close>

lemma chip_teardown_total:
  assumes B: "spi_bus_inv bus" and inv: "dac_inv bus d" and k: "k < 2" "dc_initialized (dac_chips d ! k)"
  shows "\<exists>bus' m' sems. chip_teardown M k bus d m = Some (bus',
      \<lparr>dac_chips = (dac_chips d)[k := (dac_chips d ! k)\<lparr>dc_initialized := False\<rparr>], dac_states = dac_states d, dac_sems = sems\<rparr>, m') \<and>
    spi_bus_inv bus' \<and> dac_inv bus' \<lparr>dac_chips = (dac_chips d)[k := (dac_chips d ! k)\<lparr>dc_initialized := False\<rparr>], dac_states = dac_states d, dac_sems = sems\<rparr> \<and>
    sb_slaves bus' = sb_slaves bus \<and> \<not> sp_in_use (sb_slots bus' ! k) \<and> (\<forall>j<2. j \<noteq> k \<longrightarrow> sb_slots bus' ! j = sb_slots bus ! j)"
proof -
  let ?c = "dac_chips d ! k"
  note D = dac_invD[OF inv] and Bd = spi_bus_invD[OF B]
  have C: "unat (dc_periph ?c) = k" "gpio_pin_ok (dc_mosi_pin ?c)" "gpio_pin_ok (dc_sck_pin ?c)" "gpio_pin_ok (dc_cs_pin ?c)"
    "dc_ldac_enabled ?c \<longrightarrow> gpio_pin_ok (dc_ldac_pin ?c)"
    using D(3)[OF k(1)] k(2) by (simp_all add: chip_ok_def)
  define sl where "sl = (sb_slots bus ! k)\<lparr>sp_in_use := False, sp_isr_fn := None, sp_isr_ctx := None\<rparr>"
  define s where "s = (sb_masters bus ! k)\<lparr>ms_initialized := False, ms_busy := False\<rparr>"
  have per: "unat (dc_periph ?c) < 2" using C(1) k(1) by simp
  obtain m1 where m1: "spi_master_deinit M (dc_periph ?c) (sb_slots bus) (sb_masters bus) m =
      (ERR_SUCCESS, (sb_slots bus)[k := sl], (sb_masters bus)[k := s], m1)"
    using master_deinit_ok[OF per, of M "sb_slots bus" "sb_masters bus" m] C(1) by (auto simp: sl_def s_def)
  obtain m2 where m2: "spi_pins_reset (dc_mosi_pin ?c) (dc_sck_pin ?c) (dc_cs_pin ?c) (dc_ldac_pin ?c) (dc_ldac_enabled ?c)
      (emit (VSemaphoreDelete (dc_tx_done ?c)) m1) = Some m2"
    using spi_pins_reset_total[OF C(2-5)] by blast
  let ?bus = "bus\<lparr>sb_slots := (sb_slots bus)[k := sl], sb_masters := (sb_masters bus)[k := s]\<rparr>"
  let ?sems = "(dac_sems d)(dc_tx_done ?c := None)"
  let ?d = "\<lparr>dac_chips = (dac_chips d)[k := ?c\<lparr>dc_initialized := False\<rparr>], dac_states = dac_states d, dac_sems = ?sems\<rparr>"
  have "chip_teardown M k bus d m = Some (?bus, ?d, m2)" using D(1) k(1) m1 m2 by (simp add: chip_teardown_def)
  moreover have "spi_slot_ok k sl s (sb_slaves bus ! k)"
    using Bd(4)[OF k(1)] D(5)[OF k(1)] k(2) by (auto simp: spi_slot_ok_def sl_def s_def split: if_splits spi_role.splits)
  then have "spi_bus_inv ?bus" using spi_bus_inv_update[OF B k(1), of sl s "sb_slaves bus ! k"] by (cases bus) simp
  moreover have "dac_inv ?bus ?d"
  proof (rule dac_inv_chip[OF inv k(1)])
    show "chip_ok k (?c\<lparr>dc_initialized := False\<rparr>) ?sems" using D(3)[OF k(1)] by (simp add: chip_ok_def)
    show "dac_master_ok k (sb_masters ?bus ! k)" using D(4)[OF k(1)] k(1) Bd(2) by (simp add: dac_master_ok_def s_def)
    show "dc_initialized (?c\<lparr>dc_initialized := False\<rparr>) = ms_initialized (sb_masters ?bus ! k)" using k(1) Bd(2) by (simp add: s_def)
    show "\<forall>j<2. j \<noteq> k \<longrightarrow> sb_masters ?bus ! j = sb_masters bus ! j \<and> (dc_initialized (dac_chips d ! j) \<longrightarrow> ?sems (dc_tx_done (dac_chips d ! j)) \<noteq> None \<and>
        (dc_initialized (?c\<lparr>dc_initialized := False\<rparr>) \<longrightarrow> dc_tx_done (dac_chips d ! j) \<noteq> dc_tx_done (?c\<lparr>dc_initialized := False\<rparr>)))"
      using D(3) D(7)[OF _ k(1) _ k(2)] by (auto simp: chip_ok_def)
    show "\<forall>j<2. \<forall>i<8. channel_ok ?d j i" using channel_ok_chip[OF inv _ _ k(1)] by simp
  qed (rule D(2))
  moreover have "\<not> sp_in_use (sb_slots ?bus ! k)" using k(1) Bd(1) by (simp add: sl_def)
  ultimately show ?thesis by (intro exI[of _ ?bus] exI[of _ m2] exI[of _ ?sems]) simp
qed

lemma dac_cfg_valid:
  assumes "\<not> dac_cfg_invalid c"
  shows "unat (cf_periph c) < 2" "cf_clock_hz c \<noteq> 0" "cf_spi_mode c \<le> 3" "unat (cf_channel c) < 8"
    "\<And>m. \<exists>mosi sck cs ldac m'. dac_pins_configure M c m = Some (mosi, sck, cs, ldac, m') \<and>
       gpio_pin_ok mosi \<and> gpio_pin_ok sck \<and> gpio_pin_ok cs \<and> (cf_ldac_en c \<longrightarrow> gpio_pin_ok ldac)"
proof -
  have v: "\<not> cf_periph c \<ge> 2" "cf_clock_hz c \<noteq> 0" "cf_mosi_port c \<le> 5" "cf_mosi_pin c \<le> 15" "cf_mosi_af c \<le> 15"
    "cf_sck_port c \<le> 5" "cf_sck_pin c \<le> 15" "cf_sck_af c \<le> 15" "cf_cs_port c \<le> 5" "cf_cs_pin c \<le> 15"
    "cf_ldac_en c \<longrightarrow> cf_ldac_port c \<le> 5 \<and> cf_ldac_pin c \<le> 15" "\<not> cf_channel c > 7" "cf_spi_mode c \<le> 3"
    using assms unfolding dac_cfg_invalid_def by (auto simp: not_less)
  show "unat (cf_periph c) < 2" using v(1) by (simp add: spi_periph_less)
  show "cf_clock_hz c \<noteq> 0" "cf_spi_mode c \<le> 3" by fact+
  show "unat (cf_channel c) < 8" using v(12) by (simp add: word_less_nat_alt)
  fix m
  obtain mosi where mosi: "gpio_make_pin (cf_mosi_port c) (cf_mosi_pin c) = Some mosi" "gpio_pin_ok mosi" using gpio_make_pin_pos v(3,4) .
  obtain sck where sck: "gpio_make_pin (cf_sck_port c) (cf_sck_pin c) = Some sck" "gpio_pin_ok sck" using gpio_make_pin_pos v(6,7) .
  obtain cs where cs: "gpio_make_pin (cf_cs_port c) (cf_cs_pin c) = Some cs" "gpio_pin_ok cs" using gpio_make_pin_pos v(9,10) .
  obtain m1 where m1: "gpio_configure_af (spi_af_config mosi (cf_mosi_af c)) (gpio_enable_clock M (cf_mosi_port c) m) = Some m1"
    using spi_af_total mosi(2) v(5) .
  obtain m2 where m2: "gpio_configure_af (spi_af_config sck (cf_sck_af c)) (gpio_enable_clock M (cf_sck_port c) m1) = Some m2"
    using spi_af_total sck(2) v(8) .
  have out: "\<exists>m'. gpio_configure_output (dac_out_config p) 1 m = Some m'" if "gpio_pin_ok p" for p m
    using gpio_configure_total(1)[of "dac_out_config p"] that by (simp add: dac_out_config_def)
  obtain m3 where m3: "gpio_configure_output (dac_out_config cs) 1 (gpio_enable_clock M (cf_cs_port c) m2) = Some m3"
    using out[OF cs(2)] by blast
  show "\<exists>mosi sck cs ldac m'. dac_pins_configure M c m = Some (mosi, sck, cs, ldac, m') \<and>
       gpio_pin_ok mosi \<and> gpio_pin_ok sck \<and> gpio_pin_ok cs \<and> (cf_ldac_en c \<longrightarrow> gpio_pin_ok ldac)"
  proof (cases "cf_ldac_en c")
    case True
    then obtain ldac where ldac: "gpio_make_pin (cf_ldac_port c) (cf_ldac_pin c) = Some ldac" "gpio_pin_ok ldac"
      using gpio_make_pin_pos v(11) by blast
    obtain m4 where m4: "gpio_configure_output (dac_out_config ldac) 1 (gpio_enable_clock M (cf_ldac_port c) m3) = Some m4"
      using out[OF ldac(2)] by blast
    show ?thesis using mosi sck cs ldac m1 m2 m3 m4 True by (simp add: dac_pins_configure_def)
  next
    case False
    show ?thesis using mosi sck cs m1 m2 m3 False by (simp add: dac_pins_configure_def)
  qed
qed

text \<open>What opening chip \<open>k\<close> or writing to it leaves alone.\<close>

definition dac_step_ok :: "nat \<Rightarrow> spi_bus \<Rightarrow> dac_dev \<Rightarrow> spi_bus \<Rightarrow> dac_dev \<Rightarrow> bool" where
  "dac_step_ok k bus d bus' d' \<longleftrightarrow> spi_bus_inv bus' \<and> dac_inv bus' d' \<and> dac_states d' = dac_states d \<and>
     (\<forall>j<2. ss_initialized (sb_slaves bus' ! j) = ss_initialized (sb_slaves bus ! j)) \<and>
     (\<forall>j<2. j \<noteq> k \<longrightarrow> dc_initialized (dac_chips d' ! j) = dc_initialized (dac_chips d ! j)) \<and>
     (\<forall>j<2. dc_channels_active (dac_chips d' ! j) = dc_channels_active (dac_chips d ! j))"

lemma dac_step_trans: "dac_step_ok k bus d bus1 d1 \<Longrightarrow> dac_step_ok k bus1 d1 bus2 d2 \<Longrightarrow> dac_step_ok k bus d bus2 d2"
  by (simp add: dac_step_ok_def)

lemma chip_write_step:
  assumes "spi_bus_inv bus" "dac_inv bus d" "\<forall>irq\<in>set irqs. fst irq < 2" "k < 2" "dc_initialized (dac_chips d ! k)" "length frame = 4"
  shows "\<exists>err bus' d' m'. chip_write M K irqs k bus (chip_set_frame k frame d) m = Some (err, bus', d', m') \<and>
    (err = ERR_SUCCESS \<or> err = ERR_INTERNAL) \<and> dac_step_ok k bus d bus' d' \<and> dc_initialized (dac_chips d' ! k)"
proof -
  note F = chip_set_frame_ok[OF assms(2,4,6)]
  have init: "dc_initialized (dac_chips (chip_set_frame k frame d) ! k)" using F(4)[OF assms(4)] assms(5) by simp
  obtain err bus' d' m' where w: "chip_write M K irqs k bus (chip_set_frame k frame d) m = Some (err, bus', d', m')"
    "err = ERR_SUCCESS \<or> err = ERR_INTERNAL" "spi_bus_inv bus'" "dac_inv bus' d'" "bus_keeps bus bus'" "dac_frame (chip_set_frame k frame d) d'"
    using chip_write_total[OF assms(1) F(1) assms(3,4) init] by blast
  have "dac_step_ok k bus d bus' d'" using w(3-6) F by (simp add: dac_step_ok_def bus_keeps_def dac_frame_def)
  moreover have "dc_initialized (dac_chips d' ! k)" using w(6) init by (simp add: dac_frame_def)
  ultimately show ?thesis using w(1,2) by blast
qed

lemma chip_teardown_step:
  assumes "spi_bus_inv bus" "dac_inv bus d" "k < 2" "dc_initialized (dac_chips d ! k)"
  shows "\<exists>bus' d' m'. chip_teardown M k bus d m = Some (bus', d', m') \<and> dac_step_ok k bus d bus' d' \<and>
    \<not> dc_initialized (dac_chips d' ! k) \<and> \<not> sp_in_use (sb_slots bus' ! k)"
proof -
  obtain bus' m' sems where t: "chip_teardown M k bus d m = Some (bus',
      \<lparr>dac_chips = (dac_chips d)[k := (dac_chips d ! k)\<lparr>dc_initialized := False\<rparr>], dac_states = dac_states d, dac_sems = sems\<rparr>, m')"
    "spi_bus_inv bus'" "dac_inv bus' \<lparr>dac_chips = (dac_chips d)[k := (dac_chips d ! k)\<lparr>dc_initialized := False\<rparr>], dac_states = dac_states d, dac_sems = sems\<rparr>"
    "sb_slaves bus' = sb_slaves bus" "\<not> sp_in_use (sb_slots bus' ! k)"
    using chip_teardown_total[OF assms] by blast
  have "dac_step_ok k bus d bus' \<lparr>dac_chips = (dac_chips d)[k := (dac_chips d ! k)\<lparr>dc_initialized := False\<rparr>], dac_states = dac_states d, dac_sems = sems\<rparr>"
    using t(2-4) assms(3) dac_invD(1)[OF assms(2)] by (auto simp: dac_step_ok_def nth_list_update)
  with t(1,5) assms(3) dac_invD(1)[OF assms(2)] show ?thesis by fastforce
qed

text \<open>The kernel's promise: a new semaphore is not one that is in use.\<close>

definition sem_spec :: "rtos \<Rightarrow> bool" where
  "sem_spec K \<longleftrightarrow> (\<forall>h s. xSemaphoreCreateBinary_ret K h = Some s \<longrightarrow> h s = None)"

text \<open>A free peripheral becomes the master of a chip with a new semaphore.\<close>

lemma dac_chip_start:
  fixes k sem bus d chip
  defines "sl \<equiv> \<lparr>sp_in_use = True, sp_role = SPI_ROLE_MASTER, sp_isr_fn = Some ISR_spi_master_isr, sp_isr_ctx = Some k\<rparr>"
    and "s \<equiv> (sb_masters bus ! k)\<lparr>ms_initialized := True, ms_busy := False\<rparr>"
  assumes B: "spi_bus_inv bus" and inv: "dac_inv bus d" and k: "k < 2" "\<not> sp_in_use (sb_slots bus ! k)"
    and c: "chip_ok k chip ((dac_sems d)(sem \<mapsto> False))" "dc_initialized chip" "dc_tx_done chip = sem"
      "dc_channels_active chip = dc_channels_active (dac_chips d ! k)"
    and none: "dac_sems d sem = None"
  shows "dac_step_ok k bus d (bus\<lparr>sb_slots := (sb_slots bus)[k := sl], sb_masters := (sb_masters bus)[k := s]\<rparr>)
    \<lparr>dac_chips = (dac_chips d)[k := chip], dac_states = dac_states d, dac_sems = (dac_sems d)(sem \<mapsto> False)\<rparr>"
proof -
  note D = dac_invD[OF inv] and Bd = spi_bus_invD[OF B]
  let ?bus = "bus\<lparr>sb_slots := (sb_slots bus)[k := sl], sb_masters := (sb_masters bus)[k := s]\<rparr>"
  let ?d = "\<lparr>dac_chips = (dac_chips d)[k := chip], dac_states = dac_states d, dac_sems = (dac_sems d)(sem \<mapsto> False)\<rparr>"
  have "spi_slot_ok k sl s (sb_slaves bus ! k)" using Bd(4)[OF k(1)] k(2) by (simp add: spi_slot_ok_def sl_def s_def)
  then have B1: "spi_bus_inv ?bus" using spi_bus_inv_update[OF B k(1), of sl s "sb_slaves bus ! k"] by (cases bus) simp
  have other: "dac_sems d (dc_tx_done (dac_chips d ! j)) \<noteq> None \<and> dc_tx_done (dac_chips d ! j) \<noteq> sem"
    if "j < 2" "dc_initialized (dac_chips d ! j)" for j using D(3)[OF that(1)] that none by (auto simp: chip_ok_def)
  have "dac_inv ?bus ?d"
  proof (rule dac_inv_chip[OF inv k(1) c(1)])
    show "dac_master_ok k (sb_masters ?bus ! k)" using D(4)[OF k(1)] k(1) Bd(2) by (simp add: dac_master_ok_def s_def)
    show "dc_initialized chip = ms_initialized (sb_masters ?bus ! k)" using k(1) Bd(2) c(2) by (simp add: s_def)
    show "\<forall>j<2. j \<noteq> k \<longrightarrow> sb_masters ?bus ! j = sb_masters bus ! j \<and> (dc_initialized (dac_chips d ! j) \<longrightarrow>
        ((dac_sems d)(sem \<mapsto> False)) (dc_tx_done (dac_chips d ! j)) \<noteq> None \<and> (dc_initialized chip \<longrightarrow> dc_tx_done (dac_chips d ! j) \<noteq> dc_tx_done chip))"
      using other c(3) by simp
    show "\<forall>j<2. \<forall>i<8. channel_ok ?d j i" using channel_ok_chip[OF inv _ _ k(1) c(4)] by simp
  qed (rule D(2))
  with B1 show ?thesis using k(1) c(4) D(1) by (auto simp: dac_step_ok_def nth_list_update)
qed

lemma dac_chip_open_total:
  assumes B: "spi_bus_inv bus" and inv: "dac_inv bus d" and irqs: "\<forall>irq\<in>set irqs. fst irq < 2" and c: "\<not> dac_cfg_invalid c"
    and k: "k = unat (cf_periph c)" "\<not> dc_initialized (dac_chips d ! k)" "dc_channels_active (dac_chips d ! k) = 0" and fresh: "sem_spec K"
  shows "\<exists>err bus' d' m'. dac_chip_open M K irqs c bus d m = Some (err, bus', d', m') \<and> dac_step_ok k bus d bus' d' \<and>
    dc_initialized (dac_chips d' ! k) = (err = ERR_SUCCESS)"
proof -
  note V = dac_cfg_valid(1-4)[OF c] dac_cfg_valid(5)[OF c, where M = M] and D = dac_invD[OF inv] and Bd = spi_bus_invD[OF B]
  have k2: "k < 2" using V(1) k(1) by simp
  obtain mosi sck cs ldac m1 where cfg: "dac_pins_configure M c m = Some (mosi, sck, cs, ldac, m1)"
    and pins: "gpio_pin_ok mosi" "gpio_pin_ok sck" "gpio_pin_ok cs" "cf_ldac_en c \<longrightarrow> gpio_pin_ok ldac" using V(5) by blast
  have reset: "\<exists>m'. spi_pins_reset mosi sck cs ldac (cf_ldac_en c) m = Some m'" for m using spi_pins_reset_total[OF pins] .
  have same: "dac_step_ok k bus d bus d" using B inv by (simp add: dac_step_ok_def)
  note su = dac_chip_open_def[of M K irqs c bus d m, folded k(1)]
  show ?thesis
  proof (cases "xSemaphoreCreateBinary_ret K (dac_sems d)")
    case None
    obtain m2 where "spi_pins_reset mosi sck cs ldac (cf_ldac_en c) (emit XSemaphoreCreateBinary m1) = Some m2" using reset by blast
    then have "dac_chip_open M K irqs c bus d m = Some (ERR_OUT_OF_RESOURCES, bus, d, m2)" using cfg None by (simp add: su)
    with same k(2) show ?thesis by auto
  next
    case (Some sem)
    show ?thesis
    proof (cases "sp_in_use (sb_slots bus ! k)")
      case True
      have init: "spi_master_init M (cf_periph c) (cf_clock_hz c) (cf_spi_mode c) (sb_slots bus) (sb_masters bus) (emit XSemaphoreCreateBinary m1) =
          (ERR_PERIPHERAL_BUSY, sb_slots bus, sb_masters bus, emit XSemaphoreCreateBinary m1)"
        using master_init_cases[OF V(1-3), of M "sb_slots bus" "sb_masters bus"] True k(1) by simp
      obtain m2 where "spi_pins_reset mosi sck cs ldac (cf_ldac_en c) (emit (VSemaphoreDelete sem) (emit XSemaphoreCreateBinary m1)) = Some m2"
        using reset by blast
      then have "dac_chip_open M K irqs c bus d m = Some (ERR_INVALID_PARAMETER, bus, d, m2)" using cfg Some init by (simp add: su)
      with same k(2) show ?thesis by auto
    next
      case False
      define sl where "sl = \<lparr>sp_in_use = True, sp_role = SPI_ROLE_MASTER, sp_isr_fn = Some ISR_spi_master_isr, sp_isr_ctx = Some k\<rparr>"
      define s where "s = (sb_masters bus ! k)\<lparr>ms_initialized := True, ms_busy := False\<rparr>"
      obtain m2 where init: "spi_master_init M (cf_periph c) (cf_clock_hz c) (cf_spi_mode c) (sb_slots bus) (sb_masters bus) (emit XSemaphoreCreateBinary m1) =
          (ERR_SUCCESS, (sb_slots bus)[k := sl], (sb_masters bus)[k := s], m2)"
        using master_init_cases[OF V(1-3), of M "sb_slots bus" "sb_masters bus" "emit XSemaphoreCreateBinary m1"] False k(1) by (auto simp: sl_def s_def)
      define bus1 where "bus1 = bus\<lparr>sb_slots := (sb_slots bus)[k := sl], sb_masters := (sb_masters bus)[k := s]\<rparr>"
      define chip where "chip = (dac_chips d ! k)\<lparr>dc_initialized := True, dc_periph := cf_periph c, dc_clock_hz := cf_clock_hz c,
                           dc_spi_mode := cf_spi_mode c, dc_mosi_pin := mosi, dc_sck_pin := sck, dc_cs_pin := cs, dc_ldac_pin := ldac,
                           dc_ldac_enabled := cf_ldac_en c, dc_channels_active := 0, dc_tx_done := sem\<rparr>"
      define d1 where "d1 = \<lparr>dac_chips = (dac_chips d)[k := chip], dac_states = dac_states d, dac_sems = (dac_sems d)(sem \<mapsto> False)\<rparr>"
      have none: "dac_sems d sem = None" using fresh Some by (simp add: sem_spec_def)
      have "chip_ok k chip ((dac_sems d)(sem \<mapsto> False))" using D(3)[OF k2] pins k(1) by (simp add: chip_ok_def chip_def)
      then have step1: "dac_step_ok k bus d bus1 d1" unfolding bus1_def d1_def sl_def s_def
        by (rule dac_chip_start[OF B inv k2 False _ _ _ _ none]) (simp_all add: chip_def k(3))
      then have B1: "spi_bus_inv bus1" and inv1: "dac_inv bus1 d1" by (simp_all add: dac_step_ok_def)
      have init1: "dc_initialized (dac_chips d1 ! k)" using k2 D(1) by (simp add: d1_def chip_def)
      have chip_eq: "d\<lparr>dac_chips := (dac_chips d)[k := chip], dac_sems := (dac_sems d)(sem \<mapsto> False)\<rparr> = d1" by (simp add: d1_def)
      show ?thesis
      proof (cases "cf_reference c = 0")
        case True
        have "dac_chip_open M K irqs c bus d m = Some (ERR_SUCCESS, bus1, d1, m2)"
          using cfg Some init True by (simp add: su Let_def chip_def[symmetric] bus1_def chip_eq)
        with step1 init1 show ?thesis by auto
      next
        case False
        define frame where "frame = dac_build_frame 8 0 (if cf_reference c = 2 then 3 else 1)"
        have "length frame = 4" by (simp add: frame_def)
        from chip_write_step[OF B1 inv1 irqs k2 init1 this, of M K m2] obtain err bus2 d2 m3 where
          w: "chip_write M K irqs k bus1 (chip_set_frame k frame d1) m2 = Some (err, bus2, d2, m3)" "err = ERR_SUCCESS \<or> err = ERR_INTERNAL"
            "dac_step_ok k bus1 d1 bus2 d2" "dc_initialized (dac_chips d2 ! k)" by blast
        note step2 = dac_step_trans[OF step1 w(3)]
        show ?thesis
        proof (cases "err = ERR_SUCCESS")
          case True
          have "dac_chip_open M K irqs c bus d m = Some (ERR_SUCCESS, bus2, d2, m3)"
            using cfg Some init False w(1) True by (simp add: su Let_def chip_def[symmetric] bus1_def[symmetric] chip_eq frame_def)
          with step2 w(4) show ?thesis by auto
        next
          case bad: False
          have B2: "spi_bus_inv bus2" "dac_inv bus2 d2" using w(3) by (simp_all add: dac_step_ok_def)
          obtain bus3 d3 m4 where t: "chip_teardown M k bus2 d2 m3 = Some (bus3, d3, m4)" "dac_step_ok k bus2 d2 bus3 d3" "\<not> dc_initialized (dac_chips d3 ! k)"
            using chip_teardown_step[OF B2 k2 w(4)] by blast
          have "dac_chip_open M K irqs c bus d m = Some (err, bus3, d3, m4)"
            using cfg Some init False w(1) bad t(1) by (simp add: su Let_def chip_def[symmetric] bus1_def[symmetric] chip_eq frame_def)
          with dac_step_trans[OF step2 t(2)] t(3) bad show ?thesis by auto
        qed
      qed
    qed
  qed
qed

subsection \<open>Channels\<close>

lemma unat_dac_slot_for:
  assumes "unat periph < 2" "unat ch < 8"
  shows "unat (dac_slot_for periph ch) = 8 * unat periph + unat ch"
proof -
  have "unat (periph * 8) = unat periph * 8" using assms(1) by (simp add: unat_word_ariths)
  then show ?thesis using assms by (simp add: dac_slot_for_def unat_word_ariths)
qed

lemma bit_u8_mask:
  fixes x :: u8
  assumes "n < 8" "i < 8"
  shows "bit (x OR push_bit n 1) i \<longleftrightarrow> i = n \<or> bit x i" "bit (x AND NOT (push_bit n 1)) i \<longleftrightarrow> i \<noteq> n \<and> bit x i"
  using assms by (auto simp: bit_simps)

text \<open>Switching one channel on or off, in the chip and in its slot.\<close>

lemma dac_inv_channel:
  assumes inv: "dac_inv bus d" and k: "k < 2" "ch < 8"
    and bits: "\<forall>i<8. bit x i = (if i = ch then ds_in_use s else bit (dc_channels_active (dac_chips d ! k)) i)"
    and s: "ds_in_use s \<longrightarrow> unat (ds_periph s) = k \<and> unat (ds_channel s) = ch"
  shows "dac_inv bus \<lparr>dac_chips = (dac_chips d)[k := (dac_chips d ! k)\<lparr>dc_channels_active := x\<rparr>],
    dac_states = (dac_states d)[8 * k + ch := s], dac_sems = dac_sems d\<rparr>"
proof -
  note D = dac_invD[OF inv]
  let ?c = "(dac_chips d ! k)\<lparr>dc_channels_active := x\<rparr>"
  let ?d = "\<lparr>dac_chips = (dac_chips d)[k := ?c], dac_states = (dac_states d)[8 * k + ch := s], dac_sems = dac_sems d\<rparr>"
  have "channel_ok ?d j i" if "j < 2" "i < 8" for j i
  proof (cases "j = k \<and> i = ch")
    case True
    then show ?thesis using bits s k D(1,2) by (simp add: channel_ok_def Let_def)
  next
    case False
    have "8 * j + i \<noteq> 8 * k + ch"
    proof
      assume "8 * j + i = 8 * k + ch"
      then have "(8 * j + i) div 8 = (8 * k + ch) div 8" "(8 * j + i) mod 8 = (8 * k + ch) mod 8" by simp_all
      then show False using False that(2) k(2) by simp
    qed
    then show ?thesis using D(6)[OF that] False bits that k D(1) by (cases "j = k") (simp_all add: channel_ok_def Let_def)
  qed
  then show ?thesis
  proof (intro dac_inv_chip[OF inv k(1)])
    show "chip_ok k ?c (dac_sems d)" using D(3)[OF k(1)] by (simp add: chip_ok_def)
    show "dc_initialized ?c = ms_initialized (sb_masters bus ! k)" using D(5)[OF k(1)] by simp
    show "\<forall>j<2. j \<noteq> k \<longrightarrow> sb_masters bus ! j = sb_masters bus ! j \<and> (dc_initialized (dac_chips d ! j) \<longrightarrow>
        dac_sems d (dc_tx_done (dac_chips d ! j)) \<noteq> None \<and> (dc_initialized ?c \<longrightarrow> dc_tx_done (dac_chips d ! j) \<noteq> dc_tx_done ?c))"
      using D(3,7) k(1) by (simp add: chip_ok_def) blast
  qed (use D(2) D(4)[OF k(1)] in simp_all)
qed

lemma dac_live_update:
  assumes "length (dac_states d) = 16" "unat i < 16" "dac_states d' = (dac_states d)[unat i := s]"
  shows "dac_live d' = (if ds_in_use s then insert i (dac_live d) else dac_live d - {i})"
proof -
  have "dac_states d' ! unat j = (if j = i then s else dac_states d ! unat j)" if "unat j < 16" for j
    using that assms by (simp add: nth_list_update word_unat_eq_iff)
  then have "j \<in> dac_live d' \<longleftrightarrow> j \<in> (if ds_in_use s then insert i (dac_live d) else dac_live d - {i})" for j
    using assms(2) by (cases "unat j < 16") (auto simp: dac_live_def)
  then show ?thesis by blast
qed

text \<open>All chips but \<open>k\<close> are running exactly when they have an active channel.\<close>

definition settled_but :: "nat \<Rightarrow> dac_dev \<Rightarrow> bool" where
  "settled_but k d \<longleftrightarrow> (\<forall>j<2. j \<noteq> k \<longrightarrow> dc_initialized (dac_chips d ! j) = (dc_channels_active (dac_chips d ! j) \<noteq> 0))"

lemma settled_step: "settled_but k d \<Longrightarrow> dac_step_ok k bus d bus' d' \<Longrightarrow> settled_but k d'"
  by (simp add: settled_but_def dac_step_ok_def)

lemma settledI: "settled_but k d \<Longrightarrow> dc_initialized (dac_chips d ! k) = (dc_channels_active (dac_chips d ! k) \<noteq> 0) \<Longrightarrow> dac_settled d"
  unfolding settled_but_def dac_settled_def by metis

lemma chip_release_step:
  assumes "spi_bus_inv bus" "dac_inv bus d" "k < 2" "dc_initialized (dac_chips d ! k)" "settled_but k d"
  shows "\<exists>bus' d' m'. chip_release M k bus d m = Some (bus', d', m') \<and> dac_step_ok k bus d bus' d' \<and> dac_settled d'"
proof (cases "dc_channels_active (dac_chips d ! k) = 0")
  case True
  obtain bus' d' m' where t: "chip_teardown M k bus d m = Some (bus', d', m')" "dac_step_ok k bus d bus' d'" "\<not> dc_initialized (dac_chips d' ! k)"
    using chip_teardown_step[OF assms(1-4)] by blast
  have "dac_settled d'" using settledI[OF settled_step[OF assms(5) t(2)]] t(2,3) True assms(3) by (simp add: dac_step_ok_def)
  then show ?thesis using t(1,2) True by (simp add: chip_release_def)
next
  case False
  then have "chip_release M k bus d m = Some (bus, d, m)" by (simp add: chip_release_def)
  moreover have "dac_step_ok k bus d bus d" using assms(1,2) by (simp add: dac_step_ok_def)
  moreover have "dac_settled d" using settledI[OF assms(5)] assms(4) False by simp
  ultimately show ?thesis by blast
qed

subsection \<open>Handlers keep the invariant\<close>

definition dac_setup_post ::
    "spi_bus \<Rightarrow> dac_dev \<Rightarrow> board \<Rightarrow> err_code \<Rightarrow> u8 \<Rightarrow> spi_bus \<Rightarrow> dac_dev \<Rightarrow> board \<Rightarrow> bool" where
  "dac_setup_post bus d b err sid bus' d' b' \<longleftrightarrow>
     spi_bus_inv bus' \<and> dac_inv bus' d' \<and> dac_settled d' \<and> board_inv b' \<and> btimers b' = btimers b \<and>
     (\<forall>j<2. ss_initialized (sb_slaves bus' ! j) = ss_initialized (sb_slaves bus ! j)) \<and>
     (if err = ERR_SUCCESS
      then \<exists>i. i \<notin> dac_live d \<and> dac_live d' = insert i (dac_live d) \<and>
        sid \<noteq> PROTO_SENSOR_ID_NONE \<and> sm_table (bsm b) sid = None \<and>
        sm_table (bsm b') = (sm_table (bsm b))(sid \<mapsto> (PROTO_ID_DAC, i))
      else sid = PROTO_SENSOR_ID_NONE \<and> dac_live d' = dac_live d \<and> bsm b' = bsm b)"

lemma dac_setup_post_same:
  "spi_bus_inv bus \<Longrightarrow> dac_inv bus d \<Longrightarrow> dac_settled d \<Longrightarrow> board_inv b \<Longrightarrow> err \<noteq> ERR_SUCCESS \<Longrightarrow>
   dac_setup_post bus d b err PROTO_SENSOR_ID_NONE bus d b"
  by (simp add: dac_setup_post_def)

lemma dac_setup_post_refused:
  assumes "dac_step_ok k bus d bus' d'" "dac_settled d'" "board_inv b" "err \<noteq> ERR_SUCCESS"
  shows "dac_setup_post bus d b err PROTO_SENSOR_ID_NONE bus' d' (b\<lparr>bmcu := m\<rparr>)"
  using assms by (simp add: dac_setup_post_def dac_step_ok_def board_inv_def dac_live_def)

lemma dac_setup_post_step:
  assumes "dac_step_ok k bus d bus1 d1" "dac_setup_post bus1 d1 (b\<lparr>bmcu := m\<rparr>) err sid bus' d' b'"
  shows "dac_setup_post bus d b err sid bus' d' b'"
proof -
  have "dac_live d1 = dac_live d" using assms(1) by (simp add: dac_step_ok_def dac_live_def)
  with assms show ?thesis by (simp add: dac_setup_post_def dac_step_ok_def cong: if_cong)
qed

lemma dac_setup_postI:
  assumes "spi_bus_inv bus'" "dac_inv bus' d'" "dac_settled d'" "board_inv b'" "btimers b' = btimers b"
    and "\<forall>j<2. ss_initialized (sb_slaves bus' ! j) = ss_initialized (sb_slaves bus ! j)"
    and "i \<notin> dac_live d" "dac_live d' = insert i (dac_live d)" "sid \<noteq> 0" "sm_table (bsm b) sid = None"
    and "sm_table (bsm b') = (sm_table (bsm b))(sid \<mapsto> (PROTO_ID_DAC, i))"
  shows "dac_setup_post bus d b ERR_SUCCESS sid bus' d' b'"
  unfolding dac_setup_post_def using assms by (simp only: if_True simp_thms) blast

lemma dac_channel_open_total:
  assumes B: "spi_bus_inv bus" and inv: "dac_inv bus d" and irqs: "\<forall>irq\<in>set irqs. fst irq < 2" and c: "\<not> dac_cfg_invalid c"
    and k: "k = unat (cf_periph c)" "dc_initialized (dac_chips d ! k)" "settled_but k d" and bi: "board_inv b"
    and free: "\<not> ds_in_use (dac_states d ! (8 * k + unat (cf_channel c)))"
  shows "\<exists>err sid bus' d' b'. dac_channel_open M K irqs c bus d b = Some (err, sid, bus', d', b') \<and> dac_setup_post bus d b err sid bus' d' b'"
proof -
  note V = dac_cfg_valid(1-4)[OF c]
  let ?ch = "unat (cf_channel c)"
  define idx where "idx = dac_slot_for (cf_periph c) (cf_channel c)"
  have k2: "k < 2" using V(1) k(1) by simp
  have idx: "unat idx = 8 * k + ?ch" "unat idx < 16" using unat_dac_slot_for[OF V(1,4)] k(1) V(1,4) by (simp_all add: idx_def)
  have S: "sm_inv (bsm b)" using bi by (simp add: board_inv_def)
  note su = dac_channel_open_def[of M K irqs c bus d b, folded k(1) idx_def]
  obtain err bus1 d1 m1 where w: "chip_write M K irqs k bus (chip_set_frame k (dac_build_frame 3 (cf_channel c) (cf_initial_value c)) d) (bmcu b)
      = Some (err, bus1, d1, m1)" "dac_step_ok k bus d bus1 d1" "dc_initialized (dac_chips d1 ! k)"
    using chip_write_step[OF B inv irqs k2 k(2) length_dac_build_frame] by blast
  have B1: "spi_bus_inv bus1" and inv1: "dac_inv bus1 d1" and st1: "dac_states d1 = dac_states d" using w(2) by (simp_all add: dac_step_ok_def)
  note D1 = dac_invD[OF inv1] and set1 = settled_step[OF k(3) w(2)]
  have off: "\<not> bit (dc_channels_active (dac_chips d1 ! k)) ?ch" using D1(6)[OF k2 V(4)] free st1 by (simp add: channel_ok_def Let_def)
  show ?thesis
  proof (cases "err = ERR_SUCCESS")
    case False
    obtain bus2 d2 m2 where t: "chip_release M k bus1 d1 m1 = Some (bus2, d2, m2)" "dac_step_ok k bus1 d1 bus2 d2" "dac_settled d2"
      using chip_release_step[OF B1 inv1 k2 w(3) set1] by blast
    have "dac_channel_open M K irqs c bus d b = Some (err, 0, bus2, d2, b\<lparr>bmcu := m2\<rparr>)" using w(1) False t(1) by (simp add: su Let_def)
    with dac_setup_post_refused[OF dac_step_trans[OF w(2) t(2)] t(3) bi False] show ?thesis by blast
  next
    case True
    let ?x = "dc_channels_active (dac_chips d1 ! k) OR push_bit ?ch 1"
    define s where "s = \<lparr>ds_in_use = True, ds_periph = cf_periph c, ds_channel = cf_channel c\<rparr>"
    define d2 where "d2 = \<lparr>dac_chips = (dac_chips d1)[k := (dac_chips d1 ! k)\<lparr>dc_channels_active := ?x\<rparr>],
      dac_states = (dac_states d1)[8 * k + ?ch := s], dac_sems = dac_sems d1\<rparr>"
    have d2: "(chip_channel_on k (cf_channel c) d1)\<lparr>dac_states := (dac_states (chip_channel_on k (cf_channel c) d1))[unat idx := s]\<rparr> = d2"
      by (simp add: chip_channel_on_def d2_def idx)
    have inv2: "dac_inv bus1 d2" unfolding d2_def
      by (rule dac_inv_channel[OF inv1 k2 V(4)]) (use bit_u8_mask V(4) k(1) in \<open>simp_all add: s_def\<close>)
    obtain sid sm where reg: "sensor_manager_register PROTO_ID_DAC idx (bsm b) = Some (sid, sm)"
      using register_total[of PROTO_ID_DAC idx "bsm b"] by auto
    have live: "idx \<notin> dac_live d" using free idx by (simp add: dac_live_def)
    have live2: "dac_live d2 = insert idx (dac_live d)"
      using dac_live_update[of d idx d2 s] dac_invD(2)[OF inv] idx st1 by (simp add: d2_def s_def)
    have init2: "dc_initialized (dac_chips d2 ! k)" using w(3) k2 D1(1) by (simp add: d2_def)
    have other2: "dc_initialized (dac_chips d2 ! j) = dc_initialized (dac_chips d1 ! j) \<and>
        (j \<noteq> k \<longrightarrow> dc_channels_active (dac_chips d2 ! j) = dc_channels_active (dac_chips d1 ! j))" if "j < 2" for j
      using that k2 D1(1) by (auto simp: d2_def nth_list_update)
    have set2: "settled_but k d2" using set1 other2 by (simp add: settled_but_def)
    show ?thesis
    proof (cases "sid = 0")
      case False
      note A = register_accepted[OF S reg False]
      have "bit ?x ?ch" using bit_u8_mask(1)[OF V(4,4)] by simp
      then have "?x \<noteq> 0" by (metis bit_0_eq bot_apply bot_bool_def)
      then have "dac_settled d2" using settledI[OF set2] init2 k2 D1(1) by (simp add: d2_def)
      moreover have "dac_channel_open M K irqs c bus d b = Some (ERR_SUCCESS, sid, bus1, d2, b\<lparr>bmcu := m1, bsm := sm\<rparr>)"
        using w(1) True reg False d2 by (simp add: su Let_def s_def)
      moreover have "\<forall>j<2. ss_initialized (sb_slaves bus1 ! j) = ss_initialized (sb_slaves bus ! j)" using w(2) by (simp add: dac_step_ok_def)
      ultimately show ?thesis using dac_setup_postI[where i = idx and b = b and b' = "b\<lparr>bmcu := m1, bsm := sm\<rparr>", OF B1 inv2] A bi live live2 False
        by (simp add: board_inv_def)
    next
      case True
      have sm: "sm = bsm b" using register_refused[OF S] reg True by simp
      let ?y = "?x AND NOT (push_bit ?ch 1)"
      define d3 where "d3 = \<lparr>dac_chips = (dac_chips d2)[k := (dac_chips d2 ! k)\<lparr>dc_channels_active := ?y\<rparr>],
        dac_states = (dac_states d2)[8 * k + ?ch := s\<lparr>ds_in_use := False\<rparr>], dac_sems = dac_sems d2\<rparr>"
      have x: "dc_channels_active (dac_chips d2 ! k) = ?x" using k2 D1(1) by (simp add: d2_def)
      have "dac_states d2 ! unat idx = s" using idx D1(2) by (simp add: d2_def)
      then have d3: "(chip_channel_off k (cf_channel c) d2)\<lparr>dac_states := (dac_states (chip_channel_off k (cf_channel c) d2))[unat idx :=
          (dac_states (chip_channel_off k (cf_channel c) d2) ! unat idx)\<lparr>ds_in_use := False\<rparr>]\<rparr> = d3"
        by (simp add: chip_channel_off_def d3_def idx x)
      have inv3: "dac_inv bus1 d3" unfolding d3_def
        by (rule dac_inv_channel[OF inv2 k2 V(4)]) (use bit_u8_mask V(4) x in \<open>simp_all add: s_def\<close>)
      have init3: "dc_initialized (dac_chips d3 ! k)" using init2 k2 dac_invD(1)[OF inv2] by (simp add: d3_def)
      have "dc_initialized (dac_chips d3 ! j) = dc_initialized (dac_chips d2 ! j) \<and>
          dc_channels_active (dac_chips d3 ! j) = dc_channels_active (dac_chips d2 ! j)" if "j < 2" "j \<noteq> k" for j
        using that k2 by (simp add: d3_def)
      then have set3: "settled_but k d3" using set2 by (simp add: settled_but_def)
      obtain bus4 d4 m4 where t: "chip_release M k bus1 d3 m1 = Some (bus4, d4, m4)" "dac_step_ok k bus1 d3 bus4 d4" "dac_settled d4"
        using chip_release_step[OF B1 inv3 k2 init3 set3] by blast
      have "dac_channel_open M K irqs c bus d b = Some (ERR_OUT_OF_RESOURCES, 0, bus4, d4, b\<lparr>bmcu := m4, bsm := sm\<rparr>)"
        using w(1) \<open>err = ERR_SUCCESS\<close> reg True d2 d3 t(1) by (simp add: su Let_def s_def)
      moreover have "dac_live d3 = dac_live d"
        using dac_live_update[of d2 idx d3 "s\<lparr>ds_in_use := False\<rparr>"] dac_invD(2)[OF inv2] idx live live2 by (simp add: d3_def)
      then have "dac_live d4 = dac_live d" using t(2) by (simp add: dac_step_ok_def dac_live_def)
      ultimately show ?thesis using t(2,3) w(2) bi sm by (simp add: dac_setup_post_def dac_step_ok_def board_inv_def)
    qed
  qed
qed

lemma dac_read_cfg_total:
  assumes "20 \<le> length cfg"
  shows "\<exists>c. dac_read_cfg cfg = Some c"
proof -
  have "\<exists>v. read_u16_le (drop 18 cfg) = Some v" using assms by (intro read_u16_le_Some) simp
  moreover have "\<exists>v. read_u32_le (drop 1 cfg) = Some v" using assms by (intro read_u32_le_Some) simp
  moreover have "cfg \<noteq> []" using assms by auto
  ultimately show ?thesis using assms by (auto simp: dac_read_cfg_def)
qed

lemma settled_but_all: "dac_settled d \<Longrightarrow> settled_but k d"
  by (simp add: dac_settled_def settled_but_def)

lemma dac_setup_result:
  assumes B: "spi_bus_inv bus" and inv: "dac_inv bus d" and settled: "dac_settled d" and bi: "board_inv b"
    and len: "unat cfg_len \<le> length cfg" and irqs: "\<forall>irq\<in>set irqs1. fst irq < 2" "\<forall>irq\<in>set irqs2. fst irq < 2" and fresh: "sem_spec K"
  shows "\<exists>err sid bus' d' b'. dac_sensor_setup M K irqs1 irqs2 cfg cfg_len bus d b = Some (err, sid, bus', d', b') \<and>
    dac_setup_post bus d b err sid bus' d' b'"
proof -
  note su = dac_sensor_setup_def[of M K irqs1 irqs2 cfg cfg_len bus d b] and D = dac_invD[OF inv]
  have refuse: ?thesis if "dac_sensor_setup M K irqs1 irqs2 cfg cfg_len bus d b = Some (err, 0, bus, d, b)" "err \<noteq> ERR_SUCCESS" for err
    using that dac_setup_post_same[OF B inv settled bi that(2)] by blast
  show ?thesis
  proof (cases "cfg_len < 20")
    case True then show ?thesis by (intro refuse[of ERR_MALFORMED_PAYLOAD]) (simp_all add: su)
  next
    case len20: False
    then have "20 \<le> length cfg" using len by (simp add: word_less_nat_alt)
    then obtain c where c: "dac_read_cfg cfg = Some c" using dac_read_cfg_total by blast
    show ?thesis
    proof (cases "dac_cfg_invalid c \<or> cf_clock_hz c > dac_max_clock (cf_periph c)")
      case True then show ?thesis using len20 c by (intro refuse[of ERR_INVALID_PARAMETER]) (auto simp: su)
    next
      case False
      then have v: "\<not> dac_cfg_invalid c" "\<not> cf_clock_hz c > dac_max_clock (cf_periph c)" by simp_all
      note V = dac_cfg_valid(1-4)[OF v(1)]
      define k where "k = unat (cf_periph c)"
      let ?chip = "dac_chips d ! k" and ?i = "8 * k + unat (cf_channel c)"
      have k2: "k < 2" using V(1) by (simp add: k_def)
      have i: "unat (dac_slot_for (cf_periph c) (cf_channel c)) = ?i" "?i < 16"
        using unat_dac_slot_for[OF V(1,4)] V(4) k2 by (simp_all add: k_def)
      have f: "fetch k (dac_chips d) = Some ?chip" "fetch ?i (dac_states d) = Some (dac_states d ! ?i)" using k2 i(2) D(1,2) by simp_all
      note su' = su[unfolded c, folded k_def, unfolded i(1)]
      show ?thesis
      proof (cases "dc_initialized ?chip \<and> dac_join_check ?chip c \<noteq> ERR_SUCCESS")
        case True then show ?thesis using len20 v f by (intro refuse[of "dac_join_check ?chip c"]) (simp_all add: su' c k_def[symmetric] i)
      next
        case join: False
        show ?thesis
        proof (cases "ds_in_use (dac_states d ! ?i)")
          case True then show ?thesis using len20 v f join by (intro refuse[of ERR_DAC_CHANNEL_IN_USE]) (auto simp: su c k_def[symmetric] i)
        next
          case free: False
          show ?thesis
          proof (cases "dc_initialized ?chip")
            case True
            have "dac_sensor_setup M K irqs1 irqs2 cfg cfg_len bus d b = dac_channel_open M K irqs2 c bus d b"
              using len20 c v f join free True by (simp add: su k_def[symmetric] i)
            then show ?thesis
              using dac_channel_open_total[OF B inv irqs(2) v(1) k_def True settled_but_all[OF settled] bi free, of M K] by simp
          next
            case new: False
            have ch0: "dc_channels_active ?chip = 0" using settled new k2 by (simp add: dac_settled_def)
            obtain err bus1 d1 m1 where o: "dac_chip_open M K irqs1 c bus d (bmcu b) = Some (err, bus1, d1, m1)" "dac_step_ok k bus d bus1 d1"
              "dc_initialized (dac_chips d1 ! k) = (err = ERR_SUCCESS)"
              using dac_chip_open_total[OF B inv irqs(1) v(1) k_def new ch0 fresh] by blast
            have s1: "settled_but k d1" using settled_step[OF settled_but_all[OF settled] o(2)] .
            show ?thesis
            proof (cases "err = ERR_SUCCESS")
              case True
              have B1: "spi_bus_inv bus1" "dac_inv bus1 d1" "dac_states d1 = dac_states d" using o(2) by (simp_all add: dac_step_ok_def)
              have "board_inv (b\<lparr>bmcu := m1\<rparr>)" using bi by (simp add: board_inv_def)
              then obtain e sid bus2 d2 b2 where r: "dac_channel_open M K irqs2 c bus1 d1 (b\<lparr>bmcu := m1\<rparr>) = Some (e, sid, bus2, d2, b2)"
                "dac_setup_post bus1 d1 (b\<lparr>bmcu := m1\<rparr>) e sid bus2 d2 b2"
                using dac_channel_open_total[OF B1(1,2) irqs(2) v(1) k_def _ s1, of "b\<lparr>bmcu := m1\<rparr>" M K] o(3) True free B1(3) by auto
              have "dac_sensor_setup M K irqs1 irqs2 cfg cfg_len bus d b = Some (e, sid, bus2, d2, b2)"
                using len20 c v f free new o(1) True r(1) by (simp add: su k_def[symmetric] i)
              with dac_setup_post_step[OF o(2) r(2)] show ?thesis by blast
            next
              case bad: False
              have "dc_channels_active (dac_chips d1 ! k) = 0" using o(2) ch0 k2 by (simp add: dac_step_ok_def)
              then have "dac_settled d1" using settledI[OF s1] o(3) bad by simp
              from dac_setup_post_refused[OF o(2) this bi bad, of m1]
              have "dac_setup_post bus d b err 0 bus1 d1 (b\<lparr>bmcu := m1\<rparr>)" .
              moreover have "dac_sensor_setup M K irqs1 irqs2 cfg cfg_len bus d b = Some (err, 0, bus1, d1, b\<lparr>bmcu := m1\<rparr>)"
                using len20 c v f free new o(1) bad by (simp add: su k_def[symmetric] i)
              ultimately show ?thesis by blast
            qed
          qed
        qed
      qed
    qed
  qed
qed

text \<open>A live channel: its slot says which chip and bit it is, and the chip runs.\<close>

lemma dac_live_slot:
  assumes "dac_inv bus d" "dac_settled d" "i \<in> dac_live d"
  defines "s \<equiv> dac_states d ! unat i"
  shows "\<not> 16 \<le> i" "fetch (unat i) (dac_states d) = Some s" "ds_in_use s" "unat (ds_periph s) < 2" "unat (ds_channel s) < 8"
    "unat i = 8 * unat (ds_periph s) + unat (ds_channel s)" "dc_initialized (dac_chips d ! unat (ds_periph s))"
    "fetch (unat (ds_periph s)) (dac_chips d) = Some (dac_chips d ! unat (ds_periph s))"
proof -
  have i: "unat i < 16" "ds_in_use s" using assms(3) by (simp_all add: dac_live_def s_def)
  then show "\<not> 16 \<le> i" "ds_in_use s" by (simp_all add: word_le_nat_alt)
  show "fetch (unat i) (dac_states d) = Some s" using i(1) dac_invD(2)[OF assms(1)] by (simp add: s_def)
  let ?k = "unat i div 8" and ?c = "unat i mod 8"
  have kc: "?k < 2" "?c < 8" "8 * ?k + ?c = unat i" using i(1) by simp_all
  have ch: "channel_ok d ?k ?c" using dac_invD(6)[OF assms(1) kc(1,2)] .
  then have per: "unat (ds_periph s) = ?k" "unat (ds_channel s) = ?c" "bit (dc_channels_active (dac_chips d ! ?k)) ?c"
    using i(2) by (simp_all add: channel_ok_def Let_def s_def kc(3))
  then show "unat (ds_periph s) < 2" "unat (ds_channel s) < 8" "unat i = 8 * unat (ds_periph s) + unat (ds_channel s)" using kc by simp_all
  have "dc_channels_active (dac_chips d ! ?k) \<noteq> 0" using per(3) by (metis bit_0_eq bot_apply bot_bool_def)
  then show "dc_initialized (dac_chips d ! unat (ds_periph s))" using assms(2) kc(1) per(1) by (simp add: dac_settled_def)
  show "fetch (unat (ds_periph s)) (dac_chips d) = Some (dac_chips d ! unat (ds_periph s))" using kc(1) per(1) dac_invD(1)[OF assms(1)] by simp
qed

lemma dac_dead:
  assumes "dac_inv bus d" "i \<notin> dac_live d"
  shows "dac_sensor_set_output M K irqs i values n bus d m = Some (ERR_INVALID_SENSOR_ID, bus, d, m)"
    and "dac_sensor_stop M i bus d m = Some (ERR_INVALID_SENSOR_ID, bus, d, m)"
proof -
  have "\<not> 16 \<le> i \<longrightarrow> unat i < length (dac_states d) \<and> \<not> ds_in_use (dac_states d ! unat i)"
    using assms(2) dac_invD(2)[OF assms(1)] by (auto simp: dac_live_def word_le_nat_alt)
  then show "dac_sensor_set_output M K irqs i values n bus d m = Some (ERR_INVALID_SENSOR_ID, bus, d, m)"
    "dac_sensor_stop M i bus d m = Some (ERR_INVALID_SENSOR_ID, bus, d, m)"
    by (auto simp: dac_sensor_set_output_def dac_sensor_stop_def)
qed

lemma dac_set_output_result:
  assumes B: "spi_bus_inv bus" and inv: "dac_inv bus d" and settled: "dac_settled d" and i: "i \<in> dac_live d"
    and len: "unat values_len \<le> length values" and irqs: "\<forall>irq\<in>set irqs. fst irq < 2"
  shows "\<exists>err bus' d' m'. dac_sensor_set_output M K irqs i values values_len bus d m = Some (err, bus', d', m') \<and>
    spi_bus_inv bus' \<and> dac_inv bus' d' \<and> dac_settled d' \<and> dac_live d' = dac_live d \<and>
    (\<forall>j<2. ss_initialized (sb_slaves bus' ! j) = ss_initialized (sb_slaves bus ! j))"
proof -
  let ?s = "dac_states d ! unat i"
  note L = dac_live_slot[OF inv settled i] and su = dac_sensor_set_output_def[of M K irqs i "values" values_len bus d m]
  show ?thesis
  proof (cases "values_len < 2")
    case True
    then have "dac_sensor_set_output M K irqs i values values_len bus d m = Some (ERR_MALFORMED_PAYLOAD, bus, d, m)" using L by (simp add: su)
    with B inv settled show ?thesis by auto
  next
    case False
    then have "2 \<le> length values" using len by (simp add: word_less_nat_alt)
    then obtain v where v: "read_u16_le values = Some v" using read_u16_le_Some by blast
    let ?k = "unat (ds_periph ?s)"
    obtain err bus' d' m' where w: "chip_write M K irqs ?k bus (chip_set_frame ?k (dac_build_frame 3 (ds_channel ?s) v) d) m = Some (err, bus', d', m')"
      "dac_step_ok ?k bus d bus' d'" "dc_initialized (dac_chips d' ! ?k)"
      using chip_write_step[OF B inv irqs L(4) L(7) length_dac_build_frame] by blast
    have "dac_sensor_set_output M K irqs i values values_len bus d m = Some (err, bus', d', m')" using False L v w(1) by (simp add: su)
    moreover have "dac_settled d'"
      using settledI[OF settled_step[OF settled_but_all[OF settled] w(2)]] w(2,3) settled L(4,7) by (simp add: dac_settled_def dac_step_ok_def)
    moreover have "dac_live d' = dac_live d" using w(2) by (simp add: dac_step_ok_def dac_live_def)
    ultimately show ?thesis using w(2) by (simp add: dac_step_ok_def)
  qed
qed

lemma dac_stop_result:
  assumes B: "spi_bus_inv bus" and inv: "dac_inv bus d" and settled: "dac_settled d" and i: "i \<in> dac_live d"
  shows "\<exists>bus' d' m'. dac_sensor_stop M i bus d m = Some (ERR_SUCCESS, bus', d', m') \<and>
    spi_bus_inv bus' \<and> dac_inv bus' d' \<and> dac_settled d' \<and> dac_live d' = dac_live d - {i} \<and>
    (\<forall>j<2. ss_initialized (sb_slaves bus' ! j) = ss_initialized (sb_slaves bus ! j))"
proof -
  let ?s = "dac_states d ! unat i"
  note L = dac_live_slot[OF inv settled i] and D = dac_invD[OF inv]
  let ?k = "unat (ds_periph ?s)" and ?ch = "unat (ds_channel ?s)"
  let ?x = "dc_channels_active (dac_chips d ! ?k) AND NOT (push_bit ?ch 1)"
  define d1 where "d1 = \<lparr>dac_chips = (dac_chips d)[?k := (dac_chips d ! ?k)\<lparr>dc_channels_active := ?x\<rparr>],
    dac_states = (dac_states d)[8 * ?k + ?ch := ?s\<lparr>ds_in_use := False\<rparr>], dac_sems = dac_sems d\<rparr>"
  have d1: "(chip_channel_off ?k (ds_channel ?s) d)\<lparr>dac_states := (dac_states (chip_channel_off ?k (ds_channel ?s) d))
      [unat i := ?s\<lparr>ds_in_use := False\<rparr>]\<rparr> = d1" by (simp add: chip_channel_off_def d1_def L(6)[symmetric])
  have inv1: "dac_inv bus d1" unfolding d1_def
    by (rule dac_inv_channel[OF inv L(4,5)]) (use bit_u8_mask L(5) in simp_all)
  have init1: "dc_initialized (dac_chips d1 ! ?k)" using L(4,7) D(1) by (simp add: d1_def)
  have "dac_chips d1 ! j = dac_chips d ! j" if "j \<noteq> ?k" for j using that by (simp add: d1_def)
  then have set1: "settled_but ?k d1" using settled by (simp add: settled_but_def dac_settled_def)
  obtain bus' d' m' where r: "chip_release M ?k bus d1 m = Some (bus', d', m')" "dac_step_ok ?k bus d1 bus' d'" "dac_settled d'"
    using chip_release_step[OF B inv1 L(4) init1 set1] by blast
  have "dac_sensor_stop M i bus d m = Some (ERR_SUCCESS, bus', d', m')" using L d1 r(1) by (simp add: dac_sensor_stop_def Let_def)
  moreover have "dac_live d1 = dac_live d - {i}"
    using dac_live_update[of d i d1 "?s\<lparr>ds_in_use := False\<rparr>"] D(2) L(1) by (simp add: d1_def word_le_nat_alt L(6)[symmetric])
  then have "dac_live d' = dac_live d - {i}" using r(2) by (simp add: dac_step_ok_def dac_live_def)
  ultimately show ?thesis using r(2,3) by (simp add: dac_step_ok_def)
qed

text \<open>The state after start-up.\<close>

definition dac_dev_start :: dac_dev where
  "dac_dev_start = dac_sensor_init \<lparr>dac_chips = [], dac_states = [], dac_sems = Map.empty\<rparr>"

lemma dac_inv_start: "dac_inv spi_bus_start dac_dev_start" "dac_settled dac_dev_start" "dac_live dac_dev_start = {}"
proof -
  have c: "dac_chips dac_dev_start ! k = dac_chip_zero" if "k < 2" for k using that by (simp add: dac_dev_start_def dac_sensor_init_def)
  have s: "dac_states dac_dev_start ! i = dac_state_zero" if "i < 16" for i using that by (simp add: dac_dev_start_def dac_sensor_init_def)
  have m: "\<not> ms_initialized (sb_masters spi_bus_start ! k) \<and> dac_master_ok k (sb_masters spi_bus_start ! k)" if "k < 2" for k
  proof -
    have "k = 0 \<or> k = 1" using that by auto
    then show ?thesis by (auto simp: spi_bus_start_def spi_master_states_def spi_master_state_init_def dac_master_ok_def)
  qed
  have len: "length (dac_chips dac_dev_start) = 2" "length (dac_states dac_dev_start) = 16"
    by (simp_all add: dac_dev_start_def dac_sensor_init_def)
  have off: "\<not> dc_initialized (dac_chips dac_dev_start ! k)" if "k < 2" for k using c[OF that] by (simp add: dac_chip_zero_def)
  have one: "chip_ok k (dac_chips dac_dev_start ! k) (dac_sems dac_dev_start) \<and> dac_master_ok k (sb_masters spi_bus_start ! k) \<and>
      dc_initialized (dac_chips dac_dev_start ! k) = ms_initialized (sb_masters spi_bus_start ! k)" if "k < 2" for k
    using off[OF that] m[OF that] c[OF that] by (simp add: chip_ok_def dac_chip_zero_def)
  have "channel_ok dac_dev_start k i" if "k < 2" "i < 8" for k i
    using c[OF that(1)] s[of "8 * k + i"] that by (simp add: channel_ok_def dac_chip_zero_def dac_state_zero_def)
  with len one off show "dac_inv spi_bus_start dac_dev_start" unfolding dac_inv_def by blast
  show "dac_settled dac_dev_start" using c by (simp add: dac_settled_def dac_chip_zero_def)
  show "dac_live dac_dev_start = {}" using s by (auto simp: dac_live_def dac_state_zero_def)
qed

end
