(* ===== verification/Dac_Wire.thy ===== *)
theory Dac_Wire
  imports Dac_Sensor
begin

text \<open>
  What a DAC write puts on the wire: the interrupts served during the wait of \<^verbatim>\<open>chip_write\<close> are
  those of the transfer it started, so the four bytes of the frame leave in order and the write
  returns when the last one is out.
\<close>

subsection \<open>The frame\<close>

text \<open>The 32-bit word of the converter: prefix, command, address and data, four bits of padding.\<close>

lemma dac_frame_bytes:
  assumes "unat a < 16"
  shows "dac_build_frame c a v = [c AND 0xF, push_bit 4 a OR ucast (drop_bit 12 v), ucast (drop_bit 4 v), push_bit 4 (ucast v)]"
proof -
  have a: "n < 4" if "bit a n" for n
  proof (rule ccontr)
    assume "\<not> n < 4"
    then have "(16 :: nat) \<le> 2 ^ n" using power_increasing[of 4 n "2 :: nat"] by simp
    then have "unat a div 2 ^ n = 0" using assms by simp
    moreover have "bit (unat a) n" using that by (simp add: bit_unsigned_iff)
    ultimately show False by (simp add: bit_iff_odd)
  qed
  have v: "\<not> bit v (20 + n)" for n using bit_imp_le_length[of v "20 + n"] by auto
  have m: "(0xF :: u8) = mask 4" by (simp add: mask_eq_exp_minus_1)
  show ?thesis unfolding dac_build_frame_def write_u32_be_def list.inject m
    by (intro conjI bit_word_eqI refl) (auto simp: bit_simps v dest: a)
qed

subsection \<open>Serving the transfer\<close>

text \<open>
  The chip has started a transfer and waits: the driver is busy with the chip's buffer, and the
  semaphore has not been given. \<open>s0\<close> and \<open>m0\<close> are the driver and the machine when it started.
\<close>

definition dac_busy :: "cmsis \<Rightarrow> spi_master_state \<Rightarrow> mcu \<Rightarrow> nat \<Rightarrow> spi_bus \<Rightarrow> dac_dev \<Rightarrow> mcu \<Rightarrow> bool" where
  "dac_busy M s0 m0 k bus d m \<longleftrightarrow> spi_bus_inv bus \<and> dac_inv bus d \<and> dc_initialized (dac_chips d ! k) \<and>
     dac_sems d (dc_tx_done (dac_chips d ! k)) = Some False \<and> ms_busy (sb_masters bus ! k) \<and>
     ms_cb (sb_masters bus ! k) = Some CB_spi_done_callback \<and> ms_tx_len s0 = DAC_SPI_FRAME_SIZE \<and>
     xfer_inv M (dc_tx_buf (dac_chips d ! k)) k s0 m0 [] (sb_masters bus ! k) m"

text \<open>The transfer is over: the whole buffer is out, and the semaphore has been given.\<close>

definition dac_done :: "spi_master_state \<Rightarrow> mcu \<Rightarrow> nat \<Rightarrow> u8 list \<Rightarrow> spi_bus \<Rightarrow> dac_dev \<Rightarrow> mcu \<Rightarrow> bool" where
  "dac_done s0 m0 k buf bus d m \<longleftrightarrow> dac_sems d (dc_tx_done (dac_chips d ! k)) = Some True \<and> \<not> ms_busy (sb_masters bus ! k) \<and>
     writes_to (SPI (ms_spi s0) SPI_DR) (trace m) = writes_to (SPI (ms_spi s0) SPI_DR) (trace m0) @ map ucast buf"

lemma spi_done_callback_wire:
  assumes "spi_done_callback k d m = Some (d', m')"
  shows "writes_to (SPI q SPI_DR) (trace m') = writes_to (SPI q SPI_DR) (trace m)"
  using assms by (auto simp: spi_done_callback_def gpio_set_def gpio_reset_def GPIO_SET_PIN_def GPIO_RESET_PIN_def
      split: bind_splits if_splits)

lemma dac_busy_irq:
  assumes B: "dac_busy M s0 m0 k bus d m" and k: "k < 2" and F: "spi_flags M" and irq: "spi_irq_possible M sr (sb_masters bus ! k) m"
  shows "\<exists>bus' d' m'. dac_irq M (k, sr) bus d m = Some (bus', d', m') \<and> dac_chips d' = dac_chips d \<and>
    (dac_busy M s0 m0 k bus' d' m' \<and> xfer_pot M (sb_masters bus' ! k) m' < xfer_pot M (sb_masters bus ! k) m \<or>
     dac_done s0 m0 k (dc_tx_buf (dac_chips d ! k)) bus' d' m')"
proof -
  let ?c = "dac_chips d ! k" and ?s = "sb_masters bus ! k"
  have inv: "spi_bus_inv bus" "dac_inv bus d" and chip: "dc_initialized ?c" "dac_sems d (dc_tx_done ?c) = Some False"
    and drv: "ms_busy ?s" "ms_cb ?s = Some CB_spi_done_callback" "ms_tx_len s0 = 4" "xfer_inv M (dc_tx_buf ?c) k s0 m0 [] ?s m"
    using B by (simp_all add: dac_busy_def)
  note D = dac_invD[OF inv(2)] and S = spi_bus_invD(4)[OF inv(1) k]
  have h: "dac_heap d k = Some (dc_tx_buf ?c)" "length (dc_tx_buf ?c) = 4" using D(1) D(3)[OF k] k by (simp_all add: dac_heap_def chip_ok_def)
  have bits: "spim M SPI_CR2_TXEIE AND spim M SPI_CR2_RXNEIE = 0" using F by (simp add: spi_flags_def)
  obtain c s' m1 where isr: "spi_master_isr M sr ?s (dac_heap d) m = Some (c, s', m1)"
    "xfer_inv M (dc_tx_buf ?c) k s0 m0 ([] @ (case c of None \<Rightarrow> [] | Some c \<Rightarrow> [c])) s' m1" "xfer_pot M s' m1 < xfer_pot M ?s m"
    using xfer_step[where h = "dac_heap d" and p = k, OF drv(4) h(1) _ bits irq] h(2) drv(3) by auto
  have cb: "ms_cb s' = Some CB_spi_done_callback" "ms_spi s' = ms_spi s0" "ms_tx_len s' = 4" "ms_cb_ctx s' = ms_cb_ctx ?s"
    using isr(2) drv by (simp_all add: xfer_inv_def)
  let ?bus = "bus\<lparr>sb_masters := (sb_masters bus)[k := s']\<rparr>"
  have init: "ms_initialized ?s" using D(5)[OF k] chip(1) by simp
  have slot: "sp_isr_fn (sb_slots bus ! k) = Some ISR_spi_master_isr" "sp_isr_ctx (sb_slots bus ! k) = Some k"
    using S init by (auto simp: spi_slot_ok_def split: if_splits spi_role.splits)
  have call: "SPI_IRQHandler M k sr (dac_heap d) bus m = Some (c, ?bus, m1)"
    using slot isr(1) k spi_bus_invD(2)[OF inv(1)] by (simp add: SPI_IRQHandler_def)
  obtain bus' d' m' where r: "dac_irq M (k, sr) bus d m = Some (bus', d', m')" "spi_bus_inv bus'" "dac_inv bus' d'" "dac_frame d d'"
    using dac_irq_total[OF inv, of "(k, sr)" M m] k by auto
  have chips: "dac_chips d' = dac_chips d" using r(4) by (simp add: dac_frame_def)
  have nth: "sb_masters ?bus ! k = s'" using k spi_bus_invD(2)[OF inv(1)] by simp
  show ?thesis
  proof (cases c)
    case None
    then have eq: "bus' = ?bus" "d' = d" "m' = m1" using r(1) call by (simp_all add: dac_irq_def)
    have "ms_busy s'" using isr(2) None cb(1) by (auto simp: xfer_inv_def split: if_splits)
    then have "dac_busy M s0 m0 k bus' d' m'" using r(2,3) chip drv(3) cb(1) isr(2) None nth by (simp add: dac_busy_def eq)
    then show ?thesis using r(1) chips isr(3) nth by (auto simp: eq)
  next
    case (Some x)
    then have fin: "\<not> ms_busy s'" "ms_tx_idx s' = ms_tx_len s'" using isr(2) by (auto simp: xfer_inv_def split: if_splits)
    have "ms_cb_ctx ?s = k" using D(4)[OF k] drv(2) by (simp add: dac_master_ok_def)
    then have x: "x = (CB_spi_done_callback, k)" using isr(2) Some fin(1) cb by (simp add: xfer_inv_def)
    then have cbk: "spi_done_callback k d m1 = Some (d', m')" "bus' = ?bus" using r(1) call Some by (auto simp: dac_irq_def split: bind_splits)
    then have sem: "dac_sems d' (dc_tx_done ?c) = Some True" using spi_done_callback_ok[OF inv(2) k chip(1), of m1] by auto
    have "writes_to (SPI (ms_spi s0) SPI_DR) (trace m1) = writes_to (SPI (ms_spi s0) SPI_DR) (trace m0) @ map ucast (dc_tx_buf ?c)"
      using isr(2) fin(2) cb(2,3) h(2) by (simp add: xfer_inv_def)
    then have "dac_done s0 m0 k (dc_tx_buf ?c) bus' d' m'"
      using sem fin(1) nth spi_done_callback_wire[OF cbk(1)] by (simp add: dac_done_def chips cbk(2))
    then show ?thesis using r(1) chips by blast
  qed
qed

text \<open>
  The interrupts of a wait are those of the transfer: each occurs on the chip's peripheral with
  its interrupt enabled and a flag the hardware can show, until the semaphore has been given.
\<close>

fun wait_irqs :: "cmsis \<Rightarrow> nat \<Rightarrow> nat \<Rightarrow> (nat \<times> u32) list \<Rightarrow> spi_bus \<Rightarrow> dac_dev \<Rightarrow> mcu \<Rightarrow> bool" where
  "wait_irqs M k sem [] bus d m \<longleftrightarrow> True"
| "wait_irqs M k sem (irq # irqs) bus d m \<longleftrightarrow>
     dac_sems d sem = Some True \<or>
     fst irq = k \<and> spi_irq_possible M (snd irq) (sb_masters bus ! k) m \<and>
     (case dac_irq M irq bus d m of None \<Rightarrow> False | Some (bus, d, m) \<Rightarrow> wait_irqs M k sem irqs bus d m)"

lemma dac_wait_done:
  assumes "dac_busy M s0 m0 k bus d m" "k < 2" "spi_flags M" "sem = dc_tx_done (dac_chips d ! k)"
    and "wait_irqs M k sem irqs bus d m" "xfer_pot M (sb_masters bus ! k) m \<le> length irqs"
  shows "\<exists>bus' d' m'. sem_wait M sem irqs bus d m = Some (True, bus', d', m') \<and> dac_chips d' = dac_chips d \<and>
    dac_sems d' sem = Some False \<and> \<not> ms_busy (sb_masters bus' ! k) \<and>
    writes_to (SPI (ms_spi s0) SPI_DR) (trace m') = writes_to (SPI (ms_spi s0) SPI_DR) (trace m0) @ map ucast (dc_tx_buf (dac_chips d ! k))"
  using assms(1,4-6)
proof (induction irqs arbitrary: bus d m)
  case Nil
  then show ?case by (auto simp: dac_busy_def xfer_inv_def xfer_pot_def)
next
  case (Cons irq irqs)
  have sem: "dac_sems d sem = Some False" using Cons.prems(1,2) by (simp add: dac_busy_def)
  then have irq: "fst irq = k" "spi_irq_possible M (snd irq) (sb_masters bus ! k) m" using Cons.prems(3) by simp_all
  obtain bus1 d1 m1 where s: "dac_irq M irq bus d m = Some (bus1, d1, m1)" "dac_chips d1 = dac_chips d"
    "dac_busy M s0 m0 k bus1 d1 m1 \<and> xfer_pot M (sb_masters bus1 ! k) m1 < xfer_pot M (sb_masters bus ! k) m \<or>
     dac_done s0 m0 k (dc_tx_buf (dac_chips d ! k)) bus1 d1 m1"
    using dac_busy_irq[OF Cons.prems(1) assms(2,3) irq(2)] irq(1) by (metis prod.collapse)
  have run: "sem_wait M sem (irq # irqs) bus d m = sem_wait M sem irqs bus1 d1 m1"
    using sem s(1) by (simp add: sem_wait.simps[of M sem "irq # irqs"])
  from s(3) show ?case
  proof
    assume b: "dac_busy M s0 m0 k bus1 d1 m1 \<and> xfer_pot M (sb_masters bus1 ! k) m1 < xfer_pot M (sb_masters bus ! k) m"
    have "wait_irqs M k sem irqs bus1 d1 m1" using Cons.prems(3) sem s(1) by simp
    then show ?thesis unfolding run using b Cons.IH[of bus1 d1 m1] Cons.prems(2,4) by (simp add: s(2))
  next
    assume "dac_done s0 m0 k (dc_tx_buf (dac_chips d ! k)) bus1 d1 m1"
    then show ?thesis unfolding run using Cons.prems(2) by (subst sem_wait.simps) (simp add: s(2) dac_done_def)
  qed
qed

text \<open>While the transfer runs some interrupt can occur, so such a sequence of any length exists.\<close>

lemma wait_irqs_exist:
  assumes "dac_busy M s0 m0 k bus d m" "k < 2" "spi_flags M" "sem = dc_tx_done (dac_chips d ! k)"
  shows "\<exists>irqs. length irqs = n \<and> wait_irqs M k sem irqs bus d m"
  using assms(1,4)
proof (induction n arbitrary: bus d m)
  case (Suc n)
  have "xfer_inv M (dc_tx_buf (dac_chips d ! k)) k s0 m0 [] (sb_masters bus ! k) m" "ms_busy (sb_masters bus ! k)"
    using Suc.prems(1) by (simp_all add: dac_busy_def)
  then obtain sr where sr: "spi_irq_possible M sr (sb_masters bus ! k) m" using xfer_progress[OF assms(3)] by blast
  obtain bus1 d1 m1 where s: "dac_irq M (k, sr) bus d m = Some (bus1, d1, m1)" "dac_chips d1 = dac_chips d"
    "dac_busy M s0 m0 k bus1 d1 m1 \<or> dac_done s0 m0 k (dc_tx_buf (dac_chips d ! k)) bus1 d1 m1"
    using dac_busy_irq[OF Suc.prems(1) assms(2,3) sr] by blast
  have "\<exists>irqs. length irqs = n \<and> wait_irqs M k sem irqs bus1 d1 m1"
    using s(3)
  proof
    assume "dac_busy M s0 m0 k bus1 d1 m1" then show ?thesis using Suc.IH[of bus1 d1 m1] Suc.prems(2) by (simp add: s(2))
  next
    assume d: "dac_done s0 m0 k (dc_tx_buf (dac_chips d ! k)) bus1 d1 m1"
    have "wait_irqs M k sem irqs bus1 d1 m1" for irqs using d Suc.prems(2) s(2) by (cases irqs) (simp_all add: dac_done_def)
    then show ?thesis using Ex_list_of_length by blast
  qed
  then obtain irqs where "length irqs = n" "wait_irqs M k sem irqs bus1 d1 m1" by blast
  then show ?case using sr s(1) by (intro exI[of _ "(k, sr) # irqs"]) simp
qed simp

subsection \<open>A write in full\<close>

text \<open>The state in which \<open>chip_write\<close> waits.\<close>

definition chip_waits :: "cmsis \<Rightarrow> rtos \<Rightarrow> nat \<Rightarrow> spi_bus \<Rightarrow> dac_dev \<Rightarrow> mcu \<Rightarrow> (spi_bus \<times> mcu) option" where
  "chip_waits M K k bus d m =
     do {
       let chip = dac_chips d ! k;
       m \<leftarrow> gpio_reset (dc_cs_pin chip) m;
       (err, masters, m) \<leftarrow> spi_master_write M (dc_periph chip) k DAC_SPI_FRAME_SIZE CB_spi_done_callback k (sb_masters bus) m;
       Some (bus\<lparr>sb_masters := masters\<rparr>, emit (XSemaphoreTake (dc_tx_done chip) (pdMS_TO_TICKS K DAC_SPI_TX_TIMEOUT_MS)) m)
     }"

lemma chip_waits_busy:
  assumes inv: "spi_bus_inv bus" "dac_inv bus d" and k: "k < 2" "dc_initialized (dac_chips d ! k)" and F: "spi_flags M"
    and idle: "\<not> ms_busy (sb_masters bus ! k)" "dac_sems d (dc_tx_done (dac_chips d ! k)) = Some False"
  shows "\<exists>bus1 m1. chip_waits M K k bus d m = Some (bus1, m1) \<and> dac_busy M (sb_masters bus1 ! k) m1 k bus1 d m1 \<and>
    xfer_pot M (sb_masters bus1 ! k) m1 = 9 \<and> ms_spi (sb_masters bus1 ! k) = ms_spi (sb_masters bus ! k) \<and>
    writes_to (SPI q SPI_DR) (trace m1) = writes_to (SPI q SPI_DR) (trace m) \<and>
    chip_write M K irqs k bus d m =
      do { (taken, bus', d', m') \<leftarrow> sem_wait M (dc_tx_done (dac_chips d ! k)) irqs bus1 d m1;
           Some (if taken then ERR_SUCCESS else ERR_INTERNAL, bus', d', m') }"
proof -
  let ?c = "dac_chips d ! k" and ?s = "sb_masters bus ! k"
  note D = dac_invD[OF inv(2)]
  have C: "unat (dc_periph ?c) = k" "gpio_pin_ok (dc_cs_pin ?c)" using D(3)[OF k(1)] k(2) by (simp_all add: chip_ok_def)
  have init: "ms_initialized ?s" using D(5)[OF k(1)] k(2) by simp
  have L: "length (sb_masters bus) = 2" using spi_bus_invD(2)[OF inv(1)] .
  obtain ma where ma: "gpio_reset (dc_cs_pin ?c) m = Some ma" using gpio_total(3)[OF C(2)] by blast
  define s where "s = ?s\<lparr>ms_tx_buf := Some k, ms_tx_len := 4, ms_tx_idx := 0, ms_rx_count := 0,
    ms_cb := Some CB_spi_done_callback, ms_cb_ctx := k, ms_busy := True\<rparr>"
  obtain mb where w: "spi_master_write M (dc_periph ?c) k 4 CB_spi_done_callback k (sb_masters bus) ma = Some (ERR_SUCCESS, (sb_masters bus)[k := s], mb)"
    using master_write_cases(2)[of "dc_periph ?c" "sb_masters bus" 4 M k CB_spi_done_callback k ma] C(1) k(1) init idle(1) by (auto simp: s_def)
  let ?bus = "bus\<lparr>sb_masters := (sb_masters bus)[k := s]\<rparr>" and ?m = "emit (XSemaphoreTake (dc_tx_done ?c) (pdMS_TO_TICKS K 10)) mb"
  have nth: "(sb_masters bus)[k := s] ! k = s" using k(1) L by simp
  have bits: "spim M SPI_CR2_TXEIE \<noteq> 0" "spim M SPI_CR2_RXNEIE \<noteq> 0" using F by (simp_all add: spi_flags_def)
  note W = master_write_starts(1)[where buf = "dc_tx_buf ?c", OF w _ bits, unfolded C(1) nth L, OF k(1)]
    master_write_starts(2-6)[OF w _ bits, unfolded C(1) nth L, OF k(1)]
  have "spi_slot_ok k (sb_slots bus ! k) s (sb_slaves bus ! k)"
    using spi_bus_invD(4)[OF inv(1) k(1)] init by (auto simp: spi_slot_ok_def s_def split: spi_role.splits if_splits)
  then have "spi_bus_inv ?bus" using spi_bus_inv_update[OF inv(1) k(1), of "sb_slots bus ! k" s "sb_slaves bus ! k"] by (cases bus) simp
  moreover have "dac_inv ?bus d" by (rule dac_inv_master[OF inv(2,1) k(1)]) (use init in \<open>simp_all add: dac_master_ok_def s_def\<close>)
  ultimately have "dac_busy M s ?m k ?bus d ?m"
    using W k idle(2) nth by (simp add: dac_busy_def xfer_inv_def)
  moreover have "xfer_pot M s ?m = 9" using W(3) by (simp add: xfer_pot_def)
  moreover have "writes_to (SPI q SPI_DR) (trace ?m) = writes_to (SPI q SPI_DR) (trace m)"
    using ma w by (auto simp: gpio_reset_def GPIO_RESET_PIN_def spi_master_write_def Let_def split: bind_splits if_splits)
  ultimately show ?thesis using ma w nth D(1) k(1) by (simp add: chip_waits_def chip_write_def s_def)
qed

text \<open>
  A token left in the semaphore: when an earlier write timed out and its transfer completed
  later, the next write reports success at once, with nothing sent and the transfer still running.
\<close>

lemma dac_stale_token_reports_early:
  assumes inv: "spi_bus_inv bus" "dac_inv bus d" and k: "k < 2" "dc_initialized (dac_chips d ! k)" and F: "spi_flags M"
    and "\<not> ms_busy (sb_masters bus ! k)" "dac_sems d (dc_tx_done (dac_chips d ! k)) = Some True"
  shows "\<exists>bus' d' m'. chip_write M K irqs k bus d m = Some (ERR_SUCCESS, bus', d', m') \<and> ms_busy (sb_masters bus' ! k) \<and>
    writes_to (SPI (ms_spi (sb_masters bus ! k)) SPI_DR) (trace m') = writes_to (SPI (ms_spi (sb_masters bus ! k)) SPI_DR) (trace m)"
proof -
  let ?c = "dac_chips d ! k"
  note D = dac_invD[OF inv(2)]
  have C: "unat (dc_periph ?c) = k" "gpio_pin_ok (dc_cs_pin ?c)" using D(3)[OF k(1)] k(2) by (simp_all add: chip_ok_def)
  have init: "ms_initialized (sb_masters bus ! k)" using D(5)[OF k(1)] k(2) by simp
  obtain ma where ma: "gpio_reset (dc_cs_pin ?c) m = Some ma" using gpio_total(3)[OF C(2)] by blast
  obtain s mb where w: "spi_master_write M (dc_periph ?c) k 4 CB_spi_done_callback k (sb_masters bus) ma = Some (ERR_SUCCESS, (sb_masters bus)[k := s], mb)"
    "ms_busy s"
    using master_write_cases(2)[of "dc_periph ?c" "sb_masters bus" 4 M k CB_spi_done_callback k ma] C(1) k(1) init assms(6) by auto
  have "writes_to (SPI q SPI_DR) (trace mb) = writes_to (SPI q SPI_DR) (trace m)" for q
    using ma w by (auto simp: gpio_reset_def GPIO_RESET_PIN_def spi_master_write_def Let_def split: bind_splits if_splits)
  then show ?thesis using ma w D(1) k(1) assms(7) spi_bus_invD(2)[OF inv(1)] by (simp add: chip_write_def sem_wait.simps)
qed

subsection \<open>Example\<close>

definition example_dac_bus :: spi_bus where
  "example_dac_bus = \<lparr>sb_slots = spi_slots_init[0 := \<lparr>sp_in_use = True, sp_role = SPI_ROLE_MASTER,
       sp_isr_fn = Some ISR_spi_master_isr, sp_isr_ctx = Some 0\<rparr>],
     sb_masters = spi_master_states[0 := (spi_master_states ! 0)\<lparr>ms_initialized := True\<rparr>], sb_slaves = spi_slave_states\<rparr>"

definition example_dac :: dac_dev where
  "example_dac = \<lparr>dac_chips = [dac_chip_zero\<lparr>dc_initialized := True, dc_mosi_pin := \<lparr>gp_port = Some GPIOA, gp_pin = 7\<rparr>,
       dc_sck_pin := \<lparr>gp_port = Some GPIOA, gp_pin = 5\<rparr>, dc_cs_pin := \<lparr>gp_port = Some GPIOA, gp_pin = 4\<rparr>, dc_channels_active := 1\<rparr>, dac_chip_zero],
     dac_states = (replicate 16 dac_state_zero)[0 := \<lparr>ds_in_use = True, ds_periph = 0, ds_channel = 0\<rparr>], dac_sems = [0 \<mapsto> False]\<rparr>"

lemma example_dac_ok: "spi_bus_inv example_dac_bus" "dac_inv example_dac_bus example_dac" "dac_settled example_dac" "0 \<in> dac_live example_dac"
proof -
  show "spi_bus_inv example_dac_bus"
  proof -
    have "spi_slot_ok 0 \<lparr>sp_in_use = True, sp_role = SPI_ROLE_MASTER, sp_isr_fn = Some ISR_spi_master_isr, sp_isr_ctx = Some 0\<rparr>
        ((spi_master_states ! 0)\<lparr>ms_initialized := True\<rparr>) (spi_slave_states ! 0)"
      by (simp add: spi_slot_ok_def spi_master_states_def spi_master_state_init_def spi_slave_states_def spi_slave_state_init_def)
    from spi_bus_inv_update[OF spi_bus_inv_start _ this] show ?thesis
      by (simp add: example_dac_bus_def spi_bus_start_def)
  qed
  show "dac_settled example_dac" "0 \<in> dac_live example_dac"
    by (simp_all add: example_dac_def dac_settled_def dac_live_def less_2_cases_iff all_conj_distrib dac_chip_zero_def)
  have "channel_ok example_dac k c" if "k < 2" "c < 8" for k c
    using that by (cases "k = 0"; cases "c = 0")
      (auto simp: channel_ok_def example_dac_def dac_chip_zero_def dac_state_zero_def less_2_cases_iff bit_1_iff)
  moreover have "chip_ok k (dac_chips example_dac ! k) (dac_sems example_dac) \<and> dac_master_ok k (sb_masters example_dac_bus ! k) \<and>
      dc_initialized (dac_chips example_dac ! k) = ms_initialized (sb_masters example_dac_bus ! k)" if "k < 2" for k
    using that by (auto simp: less_2_cases_iff chip_ok_def example_dac_def dac_chip_zero_def gpio_pin_ok_def dac_master_ok_def
        example_dac_bus_def spi_master_states_def spi_master_state_init_def word_le_nat_alt)
  moreover have "k = 0" if "k < 2" "dc_initialized (dac_chips example_dac ! k)" for k
    using that by (auto simp: example_dac_def dac_chip_zero_def less_2_cases_iff)
  moreover have "length (dac_chips example_dac) = 2" "length (dac_states example_dac) = 16" by (simp_all add: example_dac_def)
  ultimately show "dac_inv example_dac_bus example_dac" unfolding dac_inv_def by blast
qed

subsection \<open>Properties\<close>

text \<open>C38: what a DAC output command puts on the wire. When the chip is idle and the interrupts of
  the wait are those of its transfer (nine are enough), the command reports success, and what it
  stored to the data register is the four-byte frame of the converter: the write-and-load command,
  the channel and the 16-bit value, each in its bit field. The chip is idle again afterwards. For
  any number such a sequence of interrupts exists.\<close>

theorem dac_set_output_on_wire:
  assumes "spi_bus_inv bus" "dac_inv bus d" "dac_settled d" "i \<in> dac_live d" "spi_flags M"
    and "2 \<le> unat n" "read_u16_le vals = Some v" "s = dac_states d ! unat i" "k = unat (ds_periph s)"
    and "\<not> ms_busy (sb_masters bus ! k)" "dac_sems d (dc_tx_done (dac_chips d ! k)) = Some False"
    and "chip_waits M K k bus (chip_set_frame k (dac_build_frame 3 (ds_channel s) v) d) m = Some (bus1, m1)"
  shows "(\<forall>irqs. 9 \<le> length irqs \<and> wait_irqs M k (dc_tx_done (dac_chips d ! k)) irqs bus1 (chip_set_frame k (dac_build_frame 3 (ds_channel s) v) d) m1 \<longrightarrow>
      (\<exists>bus' d' m'. dac_sensor_set_output M K irqs i vals n bus d m = Some (ERR_SUCCESS, bus', d', m') \<and>
        writes_to (SPI (ms_spi (sb_masters bus ! k)) SPI_DR) (trace m') =
          writes_to (SPI (ms_spi (sb_masters bus ! k)) SPI_DR) (trace m) @
          map ucast [3 :: u8, push_bit 4 (ds_channel s) OR ucast (drop_bit 12 v), ucast (drop_bit 4 v), push_bit 4 (ucast v)] \<and>
        \<not> ms_busy (sb_masters bus' ! k) \<and> dac_sems d' (dc_tx_done (dac_chips d ! k)) = Some False)) \<and>
    (\<exists>irqs. length irqs = l \<and> wait_irqs M k (dc_tx_done (dac_chips d ! k)) irqs bus1 (chip_set_frame k (dac_build_frame 3 (ds_channel s) v) d) m1)"
proof -
  note L = dac_live_slot[OF assms(2-4), folded assms(8)]
  let ?frame = "dac_build_frame 3 (ds_channel s) v"
  let ?d = "chip_set_frame k ?frame d"
  have k: "k < 2" "dc_initialized (dac_chips d ! k)" using L(4,7) assms(9) by simp_all
  note S = chip_set_frame_ok[OF assms(2) k(1) length_dac_build_frame]
  have chip: "dac_chips ?d ! k = (dac_chips d ! k)\<lparr>dc_tx_buf := ?frame\<rparr>" using S(4)[OF k(1)] by simp
  have sem: "dc_tx_done (dac_chips ?d ! k) = dc_tx_done (dac_chips d ! k)" "dac_sems ?d (dc_tx_done (dac_chips ?d ! k)) = Some False"
    "dc_initialized (dac_chips ?d ! k)" using chip S(3) assms(11) k(2) by simp_all
  have bytes: "?frame = [3, push_bit 4 (ds_channel s) OR ucast (drop_bit 12 v), ucast (drop_bit 4 v), push_bit 4 (ucast v)]"
    using dac_frame_bytes[of "ds_channel s" 3 v] L(5) by simp
  have W: "dac_busy M (sb_masters bus1 ! k) m1 k bus1 ?d m1" "xfer_pot M (sb_masters bus1 ! k) m1 = 9"
    "ms_spi (sb_masters bus1 ! k) = ms_spi (sb_masters bus ! k)"
    "writes_to (SPI (ms_spi (sb_masters bus ! k)) SPI_DR) (trace m1) = writes_to (SPI (ms_spi (sb_masters bus ! k)) SPI_DR) (trace m)"
    "chip_write M K irqs k bus ?d m = do { (taken, bus', d', m') \<leftarrow> sem_wait M (dc_tx_done (dac_chips ?d ! k)) irqs bus1 ?d m1;
       Some (if taken then ERR_SUCCESS else ERR_INTERNAL, bus', d', m') }" for irqs
    using chip_waits_busy[OF assms(1) S(1) k(1) sem(3) assms(5,10) sem(2), of K m "ms_spi (sb_masters bus ! k)" irqs] assms(12) by auto
  have call: "dac_sensor_set_output M K irqs i vals n bus d m = chip_write M K irqs k bus ?d m" for irqs
    using L assms(6,7,9) by (simp add: dac_sensor_set_output_def word_less_nat_alt)
  show ?thesis
  proof (intro conjI allI impI)
    show "\<exists>irqs. length irqs = l \<and> wait_irqs M k (dc_tx_done (dac_chips d ! k)) irqs bus1 ?d m1"
      using wait_irqs_exist[OF W(1) k(1) assms(5) refl, of l] by (simp add: sem(1))
    fix irqs assume "9 \<le> length irqs \<and> wait_irqs M k (dc_tx_done (dac_chips d ! k)) irqs bus1 ?d m1"
    then obtain bus' d' m' where "sem_wait M (dc_tx_done (dac_chips d ! k)) irqs bus1 ?d m1 = Some (True, bus', d', m')"
      "dac_sems d' (dc_tx_done (dac_chips d ! k)) = Some False" "\<not> ms_busy (sb_masters bus' ! k)"
      "writes_to (SPI (ms_spi (sb_masters bus1 ! k)) SPI_DR) (trace m') =
        writes_to (SPI (ms_spi (sb_masters bus1 ! k)) SPI_DR) (trace m1) @ map ucast (dc_tx_buf (dac_chips ?d ! k))"
      using dac_wait_done[OF W(1) k(1) assms(5) sem(1)[symmetric], of irqs] W(2) by auto
    then show "\<exists>bus' d' m'. dac_sensor_set_output M K irqs i vals n bus d m = Some (ERR_SUCCESS, bus', d', m') \<and>
        writes_to (SPI (ms_spi (sb_masters bus ! k)) SPI_DR) (trace m') = writes_to (SPI (ms_spi (sb_masters bus ! k)) SPI_DR) (trace m) @
          map ucast [3 :: u8, push_bit 4 (ds_channel s) OR ucast (drop_bit 12 v), ucast (drop_bit 4 v), push_bit 4 (ucast v)] \<and>
        \<not> ms_busy (sb_masters bus' ! k) \<and> dac_sems d' (dc_tx_done (dac_chips d ! k)) = Some False"
      using W(3-5) chip bytes by (simp add: call sem(1))
  qed
qed

theorem dac_set_output_on_wire_witness:
  "\<exists>irqs bus' d' m'. dac_sensor_set_output example_masks
       \<lparr>pdMS_TO_TICKS = (\<lambda>ms. ms), xTimerCreate_ret = (\<lambda>_. None), xTimerStart_pass = True, xSemaphoreCreateBinary_ret = (\<lambda>_. None)\<rparr>
       irqs 0 [0x34, 0x12] 2 example_dac_bus example_dac mcu_reset = Some (ERR_SUCCESS, bus', d', m') \<and>
     writes_to (SPI SPI1 SPI_DR) (trace m') = [0x03, 0x01, 0x23, 0x40]"
proof -
  let ?K = "\<lparr>pdMS_TO_TICKS = (\<lambda>ms. ms), xTimerCreate_ret = (\<lambda>_. None), xTimerStart_pass = True, xSemaphoreCreateBinary_ret = (\<lambda>_. None)\<rparr>"
  let ?d = "chip_set_frame 0 (dac_build_frame 3 (ds_channel (dac_states example_dac ! 0)) 0x1234) example_dac"
  have S: "dc_initialized (dac_chips ?d ! 0)" "dac_sems ?d (dc_tx_done (dac_chips ?d ! 0)) = Some False" "\<not> ms_busy (sb_masters example_dac_bus ! 0)"
    "ds_periph (dac_states example_dac ! 0) = 0" "ds_channel (dac_states example_dac ! 0) = 0" "ms_spi (sb_masters example_dac_bus ! 0) = SPI1"
    "dac_sems example_dac (dc_tx_done (dac_chips example_dac ! 0)) = Some False"
    by (simp_all add: chip_set_frame_def example_dac_def dac_chip_zero_def example_dac_bus_def spi_master_states_def spi_master_state_init_def)
  obtain bus1 m1 where w: "chip_waits example_masks ?K 0 example_dac_bus ?d mcu_reset = Some (bus1, m1)"
    using chip_waits_busy[OF example_dac_ok(1) chip_set_frame_ok(1)[OF example_dac_ok(2) _ length_dac_build_frame] _ S(1) example_spi_flags S(3,2),
      where K = ?K and m = mcu_reset and q = SPI1 and irqs = "[]"] by auto
  have v: "read_u16_le [0x34, 0x12] = Some 0x1234" by simp
  have "2 \<le> unat (2 :: u16)" by simp
  note T = dac_set_output_on_wire[OF example_dac_ok example_spi_flags this v refl refl, where K = ?K and m = mcu_reset and ?bus1.0 = bus1 and ?m1.0 = m1 and l = 9]
  show ?thesis using T w S by (simp add: mcu_reset_def) (metis order_refl)
qed

end
