(* ===== verification/Crc16.thy ===== *)
theory Crc16
  imports Shared
begin

text \<open>
  \<^verbatim>\<open>protocol/src/crc16.c\<close>: the bitwise CRC-16/CCITT-FALSE over a byte buffer. The two nested
  loops are \<open>crc16_bits\<close> (the eight shifts of one byte) and \<open>crc16_ccitt_update\<close>. The lemmas
  show that the update is linear over exclusive-or and that every shift step is injective, from
  these which errors a frame check catches, and that the result is the remainder of polynomial
  division by the generator of CRC-16/CCITT.
\<close>

abbreviation (input) CRC16_INIT :: u16 where "CRC16_INIT \<equiv> 0xFFFF"
abbreviation (input) CRC16_POLY :: u16 where "CRC16_POLY \<equiv> 0x1021"
abbreviation (input) CRC16_MSBIT_MASK :: u16 where "CRC16_MSBIT_MASK \<equiv> 0x8000"
abbreviation (input) CRC16_BITS_IN_BYTE :: nat where "CRC16_BITS_IN_BYTE \<equiv> 8"

text \<open>One iteration of the inner loop.\<close>

definition crc16_bit :: "u16 \<Rightarrow> u16" where
  "crc16_bit crc =
     (if crc AND CRC16_MSBIT_MASK \<noteq> 0 then push_bit 1 crc XOR CRC16_POLY else push_bit 1 crc)"

primrec crc16_bits :: "nat \<Rightarrow> u16 \<Rightarrow> u16" where
  "crc16_bits 0 crc = crc"
| "crc16_bits (Suc n) crc = crc16_bits n (crc16_bit crc)"

definition crc16_byte :: "u16 \<Rightarrow> u8 \<Rightarrow> u16" where
  "crc16_byte crc b = crc16_bits CRC16_BITS_IN_BYTE (crc XOR push_bit 8 (ucast b))"

primrec crc16_ccitt_update :: "u16 \<Rightarrow> u8 list \<Rightarrow> u16" where
  "crc16_ccitt_update crc [] = crc"
| "crc16_ccitt_update crc (b # bs) = crc16_ccitt_update (crc16_byte crc b) bs"

lemma crc16_ccitt_update_append:
  "crc16_ccitt_update seed (xs @ ys) = crc16_ccitt_update (crc16_ccitt_update seed xs) ys"
  by (induction xs arbitrary: seed) auto

subsection \<open>One shift step: linear and injective\<close>

lemma and_msbit_iff: "crc AND CRC16_MSBIT_MASK \<noteq> 0 \<longleftrightarrow> bit (crc :: u16) 15"
proof -
  have "CRC16_MSBIT_MASK = push_bit 15 1" by simp
  then show ?thesis by (simp add: bit_iff_and_push_bit_not_eq_0)
qed

lemma crc16_bit_alt: "crc16_bit crc = (if bit crc 15 then push_bit 1 crc XOR CRC16_POLY else push_bit 1 crc)"
  by (simp add: crc16_bit_def and_msbit_iff)

lemma push_bit_xor: "push_bit n (x XOR y) = push_bit n x XOR push_bit n (y :: u16)"
  by (rule bit_word_eqI) (auto simp: bit_simps)

lemma crc16_bit_xor: "crc16_bit (x XOR y) = crc16_bit x XOR crc16_bit y"
  by (auto simp: crc16_bit_alt bit_xor_iff push_bit_xor ac_simps)

lemma crc16_bits_xor: "crc16_bits n (x XOR y) = crc16_bits n x XOR crc16_bits n y"
  by (induction n arbitrary: x y) (simp_all add: crc16_bit_xor)

lemma crc16_bits_add: "crc16_bits (m + n) x = crc16_bits n (crc16_bits m x)"
  by (induction m arbitrary: x) auto

lemma crc16_bit_zero: "crc16_bit x = 0 \<longleftrightarrow> x = 0"
proof
  assume z: "crc16_bit x = 0"
  have "bit (CRC16_POLY) 0" by simp
  moreover have "\<not> bit (push_bit 1 x) 0" unfolding bit_push_bit_iff by simp
  ultimately have "\<not> bit x 15"
    using z by (auto simp: crc16_bit_alt word_xor_eq_0_iff)
  with z have sh: "push_bit 1 x = 0" by (simp add: crc16_bit_alt)
  show "x = 0"
  proof (rule bit_word_eqI)
    fix n
    assume "n < LENGTH(16)"
    show "bit x n = bit (0 :: u16) n"
    proof (cases "n = 15")
      case True
      with \<open>\<not> bit x 15\<close> show ?thesis by simp
    next
      case False
      with \<open>n < LENGTH(16)\<close> have "bit (push_bit 1 x) (Suc n) = bit x n"
        unfolding bit_push_bit_iff by simp
      with sh show ?thesis by simp
    qed
  qed
qed (simp add: crc16_bit_alt)

lemma crc16_bits_zero: "crc16_bits n x = 0 \<longleftrightarrow> x = 0"
  by (induction n arbitrary: x) (simp_all add: crc16_bit_zero)

lemma crc16_bits_inj: "crc16_bits n x = crc16_bits n y \<longleftrightarrow> x = y"
proof -
  have "crc16_bits n x = crc16_bits n y \<longleftrightarrow> crc16_bits n (x XOR y) = 0"
    by (simp add: crc16_bits_xor word_xor_eq_0_iff)
  also have "\<dots> \<longleftrightarrow> x = y" by (simp add: crc16_bits_zero word_xor_eq_0_iff)
  finally show ?thesis .
qed

subsection \<open>Error detection\<close>

lemma crc16_byte_xor:
  "crc16_byte (s XOR t) (a XOR b) = crc16_byte s a XOR crc16_byte t b"
proof -
  have "push_bit 8 (ucast (a XOR b) :: u16) = push_bit 8 (ucast a) XOR push_bit 8 (ucast b)"
    by (rule bit_word_eqI) (auto simp: bit_simps)
  then have "(s XOR t) XOR push_bit 8 (ucast (a XOR b))
    = (s XOR push_bit 8 (ucast a)) XOR (t XOR push_bit 8 (ucast b))"
    by (simp add: ac_simps)
  then show ?thesis by (simp add: crc16_byte_def crc16_bits_xor)
qed

lemma crc16_ccitt_update_linear:
  "length xs = length ys \<Longrightarrow>
     crc16_ccitt_update (s XOR t) (map2 (XOR) xs ys) =
       crc16_ccitt_update s xs XOR crc16_ccitt_update t ys"
  by (induction xs ys arbitrary: s t rule: list_induct2) (simp_all add: crc16_byte_xor)

lemma crc16_ccitt_update_inj_seed:
  "crc16_ccitt_update s xs = crc16_ccitt_update t xs \<longleftrightarrow> s = t"
proof (induction xs arbitrary: s t)
  case (Cons b xs)
  have "crc16_byte s b = crc16_byte t b \<longleftrightarrow> s = t"
    by (simp add: crc16_byte_def crc16_bits_inj xor.commute[of _ "push_bit 8 _"] word_xor_left_cancel)
  with Cons.IH show ?case by simp
qed simp

subsection \<open>The message bit by bit\<close>

text \<open>
  The textbook formulation feeds the message one bit at a time, most significant bit of
  each byte first. It connects the byte-wise routine to polynomial division, and it is where
  burst errors, which need not respect byte boundaries, are stated.
\<close>

definition msbit_of :: "bool \<Rightarrow> u16" where
  "msbit_of b = (if b then CRC16_MSBIT_MASK else 0)"

primrec crc16_serial :: "u16 \<Rightarrow> bool list \<Rightarrow> u16" where
  "crc16_serial crc [] = crc"
| "crc16_serial crc (b # bs) = crc16_serial (crc16_bit (crc XOR msbit_of b)) bs"

definition byte_bits :: "u8 \<Rightarrow> bool list" where
  "byte_bits b = map (bit b) (rev [0..<8])"

text \<open>The register value whose top bits are the given bits, first bit on top.\<close>

primrec top_bits :: "bool list \<Rightarrow> u16" where
  "top_bits [] = 0"
| "top_bits (b # bs) = msbit_of b XOR drop_bit 1 (top_bits bs)"

lemma bit_msbit_of: "bit (msbit_of b) n \<longleftrightarrow> b \<and> n = 15"
proof -
  have "CRC16_MSBIT_MASK = push_bit 15 1" by simp
  moreover have "bit (push_bit 15 1 :: u16) n \<longleftrightarrow> n = 15"
    unfolding bit_push_bit_iff bit_1_iff by auto
  ultimately show ?thesis by (simp add: msbit_of_def)
qed

lemma bit_top_bits:
  "length bs \<le> 16 \<Longrightarrow> bit (top_bits bs) n \<longleftrightarrow> n < 16 \<and> 15 - n < length bs \<and> bs ! (15 - n)"
proof (induction bs arbitrary: n)
  case Nil
  then show ?case by simp
next
  case (Cons b bs)
  have IH: "bit (top_bits bs) (Suc n) \<longleftrightarrow> Suc n < 16 \<and> 15 - Suc n < length bs \<and> bs ! (15 - Suc n)"
    using Cons by simp
  have step: "bit (top_bits (b # bs)) n \<longleftrightarrow> (b \<and> n = 15) \<noteq> bit (top_bits bs) (Suc n)"
    by (simp add: bit_xor_iff bit_drop_bit_eq bit_msbit_of)
  show ?case
  proof (cases "n < 15")
    case True
    then have "15 - n = Suc (15 - Suc n)" by simp
    with True show ?thesis unfolding step IH by simp
  next
    case False
    then show ?thesis unfolding step IH by (cases "n = 15") simp_all
  qed
qed

lemma crc16_serial_top_bits:
  "length bs \<le> 16 \<Longrightarrow> crc16_serial s bs = crc16_bits (length bs) (s XOR top_bits bs)"
proof (induction bs arbitrary: s)
  case Nil
  then show ?case by simp
next
  case (Cons b bs)
  have "push_bit 1 (drop_bit 1 (top_bits bs)) = top_bits bs"
  proof (rule bit_word_eqI)
    fix n
    assume "n < LENGTH(16)"
    moreover have "\<not> bit (top_bits bs) 0"
      using Cons.prems by (simp add: bit_top_bits)
    ultimately show "bit (push_bit 1 (drop_bit 1 (top_bits bs))) n = bit (top_bits bs) n"
      unfolding bit_push_bit_iff bit_drop_bit_eq by (cases n) simp_all
  qed
  moreover have "\<not> bit (drop_bit 1 (top_bits bs)) 15"
    by (auto simp: bit_drop_bit_eq dest: bit_imp_le_length)
  ultimately have "crc16_bit (drop_bit 1 (top_bits bs)) = top_bits bs"
    by (simp only: crc16_bit_alt if_False)
  then have "crc16_bit (s XOR msbit_of b) XOR top_bits bs = crc16_bit (s XOR top_bits (b # bs))"
    by (simp only: top_bits.simps crc16_bit_xor xor.assoc)
  with Cons show ?case by simp
qed

lemma top_bits_inj:
  assumes "length bs = length cs" "length bs \<le> 16" "top_bits bs = top_bits cs"
  shows "bs = cs"
proof (rule nth_equalityI)
  show "length bs = length cs" by fact
next
  fix i
  assume "i < length bs"
  then have "15 - (15 - i) = i" and "15 - i < 16" using assms(2) by simp_all
  with \<open>i < length bs\<close> assms bit_top_bits[of bs "15 - i"] bit_top_bits[of cs "15 - i"]
  show "bs ! i = cs ! i" by simp
qed

lemma crc16_serial_append: "crc16_serial s (xs @ ys) = crc16_serial (crc16_serial s xs) ys"
  by (induction xs arbitrary: s) auto

lemma crc16_serial_inj_seed: "crc16_serial s xs = crc16_serial t xs \<longleftrightarrow> s = t"
proof (induction xs arbitrary: s t)
  case (Cons b xs)
  have "crc16_bit (s XOR msbit_of b) = crc16_bit (t XOR msbit_of b) \<longleftrightarrow> s = t"
    using crc16_bits_inj[of 1 "s XOR msbit_of b" "t XOR msbit_of b"]
    by (simp add: xor.commute[of _ "msbit_of b"] word_xor_left_cancel)
  with Cons.IH show ?case by simp
qed simp

lemma top_bits_byte_bits: "top_bits (byte_bits b) = push_bit 8 (ucast b)"
proof (rule bit_word_eqI)
  fix n
  assume "n < LENGTH(16)"
  then show "bit (top_bits (byte_bits b)) n = bit (push_bit 8 (ucast b) :: u16) n"
    by (auto simp: bit_top_bits byte_bits_def rev_nth bit_simps)
qed

lemma crc16_byte_serial: "crc16_byte s b = crc16_serial s (byte_bits b)"
proof -
  have "length (byte_bits b) = 8" by (simp add: byte_bits_def)
  then show ?thesis
    by (simp add: crc16_serial_top_bits top_bits_byte_bits crc16_byte_def)
qed

lemma crc16_update_serial:
  "crc16_ccitt_update seed data = crc16_serial seed (concat (map byte_bits data))"
  by (induction data arbitrary: seed) (simp_all add: crc16_serial_append crc16_byte_serial)

lemma crc16_serial_burst:
  assumes "length e = length e'" "length e \<le> 16"
  shows "crc16_serial s (xs @ e @ ys) = crc16_serial s (xs @ e' @ ys) \<longleftrightarrow> e = e'"
  using assms top_bits_inj[OF assms]
  by (auto simp: crc16_serial_append crc16_serial_inj_seed crc16_serial_top_bits
      crc16_bits_inj word_xor_left_cancel)

subsection \<open>Polynomial division\<close>

text \<open>
  The mathematical definition of the checksum, independent of the routine: bits are the
  coefficients of a polynomial over the two-element field, highest power first; the generator of
  CRC-16/CCITT is given by the powers that occur in it; the remainder is found by long division,
  cancelling the leading coefficient with the generator until 16 coefficients are left.
\<close>

definition ccitt_generator :: "bool list" where
  "ccitt_generator = map (\<lambda>i. i \<in> {16, 12, 5, 0}) (rev [0..<17 :: nat])"

primrec add_front :: "bool list \<Rightarrow> bool list \<Rightarrow> bool list" where
  "add_front [] ys = ys"
| "add_front (x # xs) ys = (case ys of [] \<Rightarrow> [] | y # ys \<Rightarrow> (x \<noteq> y) # add_front xs ys)"

lemma length_add_front [simp]: "length (add_front xs ys) = length ys"
  by (induction xs arbitrary: ys) (auto split: list.splits)

function poly_rem :: "bool list \<Rightarrow> bool list \<Rightarrow> bool list" where
  "poly_rem g bs =
     (if length bs < length g \<or> g = [] then bs
      else poly_rem g (if hd bs then tl (add_front g bs) else tl bs))"
  by pat_completeness auto
termination by (relation "measure (\<lambda>(g, bs). length bs)") (auto simp: not_less simp flip: length_greater_0_conv)

declare poly_rem.simps [simp del]

definition word_bits :: "u16 \<Rightarrow> bool list" where
  "word_bits w = map (bit w) (rev [0..<16])"

text \<open>
  The checksum of a message: its bits times \<open>x ^ 16\<close>, with the seed added to the first 16
  coefficients, modulo the generator.
\<close>

definition crc_poly :: "u16 \<Rightarrow> bool list \<Rightarrow> bool list" where
  "crc_poly seed bits = poly_rem ccitt_generator (add_front (word_bits seed) (bits @ replicate 16 False))"

lemma nth_add_front: "i < length ys \<Longrightarrow> add_front xs ys ! i = (if i < length xs then xs ! i \<noteq> ys ! i else ys ! i)"
proof (induction xs arbitrary: ys i)
  case (Cons x xs)
  then show ?case by (cases ys; cases i) auto
qed simp

lemma length_word_bits [simp]: "length (word_bits w) = 16"
  by (simp add: word_bits_def)

lemma nth_word_bits: "i < 16 \<Longrightarrow> word_bits w ! i = bit w (15 - i)"
  by (simp add: word_bits_def rev_nth)

text \<open>One division step is one shift of the register: the register holds the sum of the leading
  coefficients, and the lower coefficients of the generator are the polynomial of the routine.\<close>

lemma bit_crc16_poly: "bit (CRC16_POLY :: u16) n \<longleftrightarrow> n \<in> {12, 5, 0}"
proof -
  have "(CRC16_POLY :: u16) = push_bit 12 1 OR push_bit 5 1 OR push_bit 0 1" by simp
  then have "bit (CRC16_POLY :: u16) n \<longleftrightarrow> bit (push_bit 12 1 OR push_bit 5 1 OR push_bit 0 1 :: u16) n" by simp
  also have "\<dots> \<longleftrightarrow> n \<in> {12, 5, 0}" unfolding bit_or_iff bit_push_bit_iff bit_1_iff by auto
  finally show ?thesis .
qed

lemma nth_generator: "i < 16 \<Longrightarrow> ccitt_generator ! Suc i = (15 - i \<in> {12, 5, 0 :: nat})"
  by (auto simp: ccitt_generator_def rev_nth)

lemma crc16_bit_nth:
  assumes "n < 16"
  shows "bit (crc16_bit w) n \<longleftrightarrow> (0 < n \<and> bit w (n - 1)) \<noteq> (bit w 15 \<and> n \<in> {12, 5, 0})"
proof (cases "bit w 15")
  case True
  then have "bit (crc16_bit w) n \<longleftrightarrow> bit (push_bit 1 w) n \<noteq> bit (CRC16_POLY) n" by (simp only: crc16_bit_alt if_True bit_xor_iff)
  then show ?thesis unfolding bit_crc16_poly bit_push_bit_iff using assms True by auto
next
  case False
  then have "bit (crc16_bit w) n \<longleftrightarrow> bit (push_bit 1 w) n" by (simp only: crc16_bit_alt if_False)
  then show ?thesis unfolding bit_push_bit_iff using assms False by auto
qed

lemma poly_rem_step:
  assumes "16 \<le> length rest"
  shows "poly_rem ccitt_generator (add_front (word_bits s) (b # rest)) =
    poly_rem ccitt_generator (add_front (word_bits (crc16_bit (s XOR msbit_of b))) rest)"
proof -
  let ?xs = "add_front (word_bits s) (b # rest)" and ?r = "crc16_bit (s XOR msbit_of b)"
  have len: "length ?xs = Suc (length rest)" "length ccitt_generator = 17" by (simp_all add: ccitt_generator_def)
  have hd: "hd ?xs \<longleftrightarrow> bit s 15 \<noteq> b" using nth_add_front[of 0 "b # rest" "word_bits s"] len(1)
    by (simp add: hd_conv_nth nth_word_bits flip: length_greater_0_conv)
  have "(if hd ?xs then tl (add_front ccitt_generator ?xs) else tl ?xs) = add_front (word_bits ?r) rest"
  proof (rule nth_equalityI)
    fix i assume "i < length (if hd ?xs then tl (add_front ccitt_generator ?xs) else tl ?xs)"
    then have i: "i < length rest" by (simp split: if_splits)
    have top: "bit (s XOR msbit_of b) 15 \<longleftrightarrow> bit s 15 \<noteq> b" by (simp add: bit_xor_iff bit_msbit_of)
    have low: "bit (s XOR msbit_of b) n \<longleftrightarrow> bit s n" if "n < 15" for n using that by (simp add: bit_xor_iff bit_msbit_of)
    have x: "?xs ! Suc i \<longleftrightarrow> (if i < 15 then bit s (14 - i) \<noteq> rest ! i else rest ! i)"
      using i by (simp add: nth_add_front nth_word_bits)
    have g: "add_front ccitt_generator ?xs ! Suc i \<longleftrightarrow> (if i < 16 then ccitt_generator ! Suc i \<noteq> ?xs ! Suc i else ?xs ! Suc i)"
      using i len by (simp add: nth_add_front)
    have r: "add_front (word_bits ?r) rest ! i \<longleftrightarrow> (if i < 16 then bit ?r (15 - i) \<noteq> rest ! i else rest ! i)"
      using i by (simp add: nth_add_front nth_word_bits)
    define G where "G = (15 - i \<in> {12, 5, 0 :: nat})"
    have d: "bit ?r (15 - i) \<longleftrightarrow> (i < 15 \<and> bit s (14 - i)) \<noteq> ((bit s 15 \<noteq> b) \<and> G)"
    proof (cases "i < 15")
      case True
      then have "15 - i - 1 = 14 - i" "14 - i < 15" by linarith+
      then show ?thesis using crc16_bit_nth[of "15 - i" "s XOR msbit_of b"] True unfolding G_def top by (simp only: low) auto
    next
      case False
      then show ?thesis using crc16_bit_nth[of "15 - i" "s XOR msbit_of b"] unfolding G_def top by auto
    qed
    have gen: "i < 16 \<Longrightarrow> ccitt_generator ! Suc i = G" unfolding G_def by (rule nth_generator)
    have L: "(if hd ?xs then tl (add_front ccitt_generator ?xs) else tl ?xs) ! i =
        (if hd ?xs then add_front ccitt_generator ?xs ! Suc i else ?xs ! Suc i)"
      using i len(1) by (simp add: nth_tl)
    show "(if hd ?xs then tl (add_front ccitt_generator ?xs) else tl ?xs) ! i = add_front (word_bits ?r) rest ! i"
      unfolding L unfolding r hd g x d using gen by (cases "i < 15"; cases "i < 16") auto
  qed simp
  moreover have "ccitt_generator \<noteq> []" using len(2) by auto
  ultimately show ?thesis using assms len by (subst poly_rem.simps) simp
qed

lemma crc16_serial_poly: "word_bits (crc16_serial s bs) = crc_poly s bs"
proof (induction bs arbitrary: s)
  case Nil
  have "add_front (word_bits s) (replicate 16 False) = word_bits s"
    by (rule nth_equalityI) (simp_all add: nth_add_front)
  then show ?case by (simp add: crc_poly_def poly_rem.simps[of _ "word_bits s"] ccitt_generator_def)
next
  case (Cons b bs)
  then show ?case using poly_rem_step[of "bs @ replicate 16 False" s b] by (simp add: crc_poly_def)
qed

subsection \<open>Properties\<close>

text \<open>C10: the routine computes CRC-16/CCITT-FALSE. For every seed and every buffer, its result is the
  remainder of the message polynomial (most significant bit of each byte first, times \<open>x ^ 16\<close>, with
  the seed added to the first 16 coefficients) on division by \<open>x ^ 16 + x ^ 12 + x ^ 5 + 1\<close>; and with the initial
  value of the protocol the checksum of the nine ASCII digits is the algorithm's published check
  value 0x29B1.\<close>

theorem crc16_is_polynomial_remainder:
  "word_bits (crc16_ccitt_update seed data) = crc_poly seed (concat (map byte_bits data)) \<and>
   crc16_ccitt_update CRC16_INIT [0x31, 0x32, 0x33, 0x34, 0x35, 0x36, 0x37, 0x38, 0x39] = 0x29B1"
proof
  show "word_bits (crc16_ccitt_update seed data) = crc_poly seed (concat (map byte_bits data))"
    unfolding crc16_update_serial by (rule crc16_serial_poly)
  show "crc16_ccitt_update CRC16_INIT [0x31, 0x32, 0x33, 0x34, 0x35, 0x36, 0x37, 0x38, 0x39] = 0x29B1" by code_simp
qed

text \<open>C11: two different messages whose bits agree outside a window of at most 16 bits (a burst
  error, at any bit position) have different checksums.\<close>

theorem crc16_detects_bursts:
  assumes "concat (map byte_bits data) = pre @ e @ post"
    and "concat (map byte_bits data') = pre @ e' @ post"
    and "length e = length e'" "length e \<le> 16" "e \<noteq> e'"
  shows "crc16_ccitt_update seed data \<noteq> crc16_ccitt_update seed data'"
  using crc16_serial_burst[OF assms(3,4), of seed pre post] assms
  by (simp add: crc16_update_serial)

theorem crc16_detects_bursts_witness:
  "crc16_ccitt_update 0xFFFF [0x12, 0x34] \<noteq> crc16_ccitt_update 0xFFFF [0x12, 0x35]"
proof (rule crc16_detects_bursts)
  show "concat (map byte_bits [0x12, 0x34]) = byte_bits 0x12 @ byte_bits 0x34 @ []"
    "concat (map byte_bits [0x12, 0x35]) = byte_bits 0x12 @ byte_bits 0x35 @ []" by simp_all
  show "length (byte_bits 0x34) = length (byte_bits 0x35)" "length (byte_bits 0x34) \<le> 16"
    by (simp_all add: byte_bits_def)
  show "byte_bits 0x34 \<noteq> byte_bits 0x35" by code_simp
qed

end
