(* ===== verification/Frame.thy ===== *)
theory Frame
  imports Crc16
begin

text \<open>
  The wire format as the encoder writes it and the parser reads it
  (\<^verbatim>\<open>protocol/inc/protocol.h\<close>): START, TYPE, LEN (little endian), SEQ, PAYLOAD, CRC16
  (little endian) over everything between START and the CRC. \<open>encode_frame\<close> is the
  specification both sides are proved against; \<open>collect_step\<close> is the specification of the
  receiver: a machine whose whole state is the list of bytes seen since START.
\<close>

type_synonym frame = "u8 \<times> u8 \<times> u8 list"  \<comment> \<open>TYPE, SEQ, PAYLOAD\<close>

definition frame_body :: "u8 \<Rightarrow> u8 \<Rightarrow> u8 list \<Rightarrow> u8 list" where
  "frame_body ty sq pl = ty # u16_le (word_of_nat (length pl)) @ sq # pl"

definition encode_frame :: "frame \<Rightarrow> u8 list" where
  "encode_frame fr = (case fr of (ty, sq, pl) \<Rightarrow>
     PROTO_START_BYTE # frame_body ty sq pl
       @ u16_le (crc16_ccitt_update CRC16_INIT (frame_body ty sq pl)))"

lemma length_u16_le [simp]: "length (u16_le v) = 2"
  by (simp add: u16_le_def)

lemma length_frame_body [simp]: "length (frame_body ty sq pl) = 4 + length pl"
  by (simp add: frame_body_def)

lemma length_encode_frame [simp]:
  "length (encode_frame (ty, sq, pl)) = PROTO_FRAME_OVERHEAD + length pl"
  by (simp add: encode_frame_def)

lemma u16_le_inj: "u16_le v = u16_le w \<longleftrightarrow> v = w"
  by (metis append_Nil2 option.inject read_u16_le_u16_le)

lemma u16_le_of_halves: "u16_le (ucast a OR push_bit 8 (ucast b)) = [a, b :: u8]"
proof -
  have "ucast (ucast a OR push_bit 8 (ucast b) :: u16) = a"
    by (rule bit_word_eqI) (auto simp: bit_simps)
  moreover have "ucast (drop_bit 8 (ucast a OR push_bit 8 (ucast b) :: u16)) = b"
    by (rule bit_word_eqI) (auto simp: bit_simps dest: bit_u8D)
  ultimately show ?thesis by (simp add: u16_le_def)
qed

subsection \<open>The receiver specification\<close>

text \<open>The LEN field of a byte list that starts with START, TYPE, LEN.\<close>

definition len_field :: "u8 list \<Rightarrow> nat" where
  "len_field acc = (case acc of _ # _ # l # h # _ \<Rightarrow> unat (ucast l OR push_bit 8 (ucast h) :: u16) | _ \<Rightarrow> 0)"

text \<open>The frame a complete byte list carries, if its CRC field matches.\<close>

definition decode_frame :: "u8 list \<Rightarrow> frame option" where
  "decode_frame acc =
     (let L = len_field acc; fr = (acc ! 1, acc ! 4, take L (drop 5 acc))
      in if drop (5 + L) acc = u16_le (crc16_ccitt_update CRC16_INIT (take (4 + L) (drop 1 acc)))
         then Some fr else None)"

definition collect_step :: "u8 list \<Rightarrow> u8 \<Rightarrow> u8 list \<times> frame option" where
  "collect_step acc b =
     (if acc = [] then (if b = PROTO_START_BYTE then [b] else [], None)
      else let acc' = acc @ [b] in
        if length acc' < 4 then (acc', None)
        else if len_field acc' > PROTO_MAX_PAYLOAD then ([], None)
        else if length acc' < PROTO_FRAME_OVERHEAD + len_field acc' then (acc', None)
        else ([], decode_frame acc'))"

primrec collect :: "u8 list \<Rightarrow> u8 list \<Rightarrow> frame list \<times> u8 list" where
  "collect acc [] = ([], acc)"
| "collect acc (b # bs) =
     (let (acc', out) = collect_step acc b; (frs, acc'') = collect acc' bs
      in ((case out of None \<Rightarrow> frs | Some fr \<Rightarrow> fr # frs), acc''))"

text \<open>What every reachable accumulator satisfies.\<close>

definition collecting :: "u8 list \<Rightarrow> bool" where
  "collecting acc \<longleftrightarrow> acc = [] \<or> (hd acc = PROTO_START_BYTE \<and>
     (4 \<le> length acc \<longrightarrow> len_field acc \<le> PROTO_MAX_PAYLOAD \<and>
        length acc < PROTO_FRAME_OVERHEAD + len_field acc))"

lemma len_field_append: "4 \<le> length acc \<Longrightarrow> len_field (acc @ xs) = len_field acc"
  by (auto simp: len_field_def split: list.splits)

lemma collecting_Nil [simp]: "collecting []"
  by (simp add: collecting_def)

lemma collect_step_collecting:
  assumes "collecting acc"
  shows "collecting (fst (collect_step acc b))"
  using assms by (auto simp: collect_step_def collecting_def Let_def)

lemma collecting_length: "collecting acc \<Longrightarrow> length acc < PROTO_FRAME_OVERHEAD + PROTO_MAX_PAYLOAD"
  by (force simp: collecting_def)

lemma collect_append:
  "collect acc (xs @ ys) =
     (let (frs, acc') = collect acc xs; (frs', acc'') = collect acc' ys in (frs @ frs', acc''))"
  by (induction xs arbitrary: acc) (simp_all add: Let_def split: prod.splits option.splits)

subsection \<open>Soundness: a delivered frame was on the wire\<close>

lemma list_at_least4: "4 \<le> length xs \<Longrightarrow> \<exists>a b c d ys. xs = a # b # c # d # ys"
  by (auto simp: numeral_eq_Suc Suc_le_length_iff)

lemma decode_frame_Cons5:
  "decode_frame (st # t # l # h # s # xs) =
     (let L = unat (ucast l OR push_bit 8 (ucast h) :: u16)
      in if drop L xs = u16_le (crc16_ccitt_update CRC16_INIT (t # l # h # s # take L xs))
         then Some (t, s, take L xs) else None)"
  by (simp add: decode_frame_def len_field_def Let_def eval_nat_numeral)

lemma decode_frame_encode:
  assumes "decode_frame acc = Some (ty, sq, pl)" "hd acc = PROTO_START_BYTE"
    "length acc = PROTO_FRAME_OVERHEAD + len_field acc"
  shows "acc = encode_frame (ty, sq, pl)"
proof -
  define L where "L = len_field acc"
  have "4 \<le> length acc" using assms(3) by simp
  then obtain st t l h rest where acc: "acc = st # t # l # h # rest"
    using list_at_least4 by blast
  with assms(3) obtain s tl5 where rest: "rest = s # tl5" and len: "length tl5 = 2 + L"
    by (cases rest) (auto simp: L_def)
  have L: "L = unat (ucast l OR push_bit 8 (ucast h) :: u16)"
    by (simp add: L_def acc len_field_def)
  then have le: "u16_le (word_of_nat L) = [l, h]"
    by (simp add: u16_le_of_halves)
  from assms(1) have pl: "ty = t" "sq = s" "pl = take L tl5"
    and crc: "drop L tl5 = u16_le (crc16_ccitt_update CRC16_INIT (t # l # h # s # take L tl5))"
    unfolding acc rest decode_frame_Cons5 L[symmetric] Let_def
    by (auto split: if_splits)
  have "frame_body ty sq pl = t # l # h # s # take L tl5"
    using pl le len by (simp add: frame_body_def)
  moreover have "tl5 = take L tl5 @ drop L tl5" by simp
  ultimately show ?thesis
    using assms(2) crc by (simp add: encode_frame_def acc rest)
qed

lemma collect_step_Some:
  assumes "collecting acc" "collect_step acc b = (acc', Some fr)"
  shows "acc' = [] \<and> acc @ [b] = encode_frame fr"
proof -
  obtain ty sq pl where fr: "fr = (ty, sq, pl)" by (cases fr) auto
  have ne: "acc \<noteq> []" using assms(2) by (auto simp: collect_step_def split: if_splits)
  have step: "\<not> length (acc @ [b]) < 4" "\<not> len_field (acc @ [b]) > 256"
    "\<not> length (acc @ [b]) < 7 + len_field (acc @ [b])" "decode_frame (acc @ [b]) = Some fr" "acc' = []"
    using assms(2) ne by (auto simp: collect_step_def Let_def split: if_splits)
  have "length (acc @ [b]) = 7 + len_field (acc @ [b])"
  proof (cases "4 \<le> length acc")
    case True
    with assms(1) ne step(3) show ?thesis by (auto simp: collecting_def len_field_append)
  next
    case False
    with step(3) show ?thesis by simp
  qed
  moreover have "hd (acc @ [b]) = PROTO_START_BYTE"
    using assms(1) ne by (simp add: collecting_def)
  ultimately show ?thesis
    using step(4,5) fr decode_frame_encode by blast
qed

lemma collect_step_None:
  assumes "collect_step acc b = (acc', None)" "acc' \<noteq> []"
  shows "acc' = acc @ [b]"
  using assms by (auto simp: collect_step_def Let_def split: if_splits)

text \<open>
  Running the receiver: every delivered frame is a contiguous block of the bytes seen so
  far (the accumulator followed by the input), and what is left over ends the input.
\<close>

lemma collect_sound:
  assumes "collecting acc" "collect acc bs = (frs, acc')" "fr \<in> set frs"
  shows "\<exists>pre post. acc @ bs = pre @ encode_frame fr @ post"
  using assms
proof (induction bs arbitrary: acc frs)
  case Nil
  then show ?case by simp
next
  case (Cons b bs)
  obtain acc1 out where step: "collect_step acc b = (acc1, out)" by force
  obtain frs1 where rest: "collect acc1 bs = (frs1, acc')"
    and frs: "frs = (case out of None \<Rightarrow> frs1 | Some fr \<Rightarrow> fr # frs1)"
    using Cons.prems(2) step by (auto split: prod.splits)
  have coll: "collecting acc1"
    using collect_step_collecting[OF Cons.prems(1), of b] step by simp
  show ?case
  proof (cases "fr \<in> set frs1")
    case True
    then obtain pre post where *: "acc1 @ bs = pre @ encode_frame fr @ post"
      using Cons.IH[OF coll rest] by blast
    show ?thesis
    proof (cases "acc1 = []")
      case True
      with * have "acc @ b # bs = (acc @ [b] @ pre) @ encode_frame fr @ post" by simp
      then show ?thesis by blast
    next
      case False
      then have "out = None"
        using collect_step_Some[OF Cons.prems(1)] step by (cases out) auto
      with False step collect_step_None have "acc1 = acc @ [b]" by blast
      with * show ?thesis by auto
    qed
  next
    case False
    with frs Cons.prems(3) have "out = Some fr" by (auto split: option.splits)
    with collect_step_Some[OF Cons.prems(1)] step have "acc @ [b] = encode_frame fr" by blast
    then have "acc @ b # bs = [] @ encode_frame fr @ bs" by (metis append.assoc append_Cons append_Nil)
    then show ?thesis by blast
  qed
qed

subsection \<open>Completeness: an encoded frame is delivered\<close>

lemma len_field_encode_frame:
  assumes "length pl \<le> PROTO_MAX_PAYLOAD" "4 \<le> length xs" "xs @ ys = encode_frame (ty, sq, pl)"
  shows "len_field xs = length pl"
proof -
  have "len_field xs = len_field (encode_frame (ty, sq, pl))"
    using len_field_append[OF assms(2), of ys] assms(3) by simp
  also have "\<dots> = unat (word_of_nat (length pl) :: u16)"
    by (simp add: encode_frame_def frame_body_def len_field_def u16_le_def u16_halves)
  also have "\<dots> = length pl"
    using assms(1) by (intro unat_word_of_nat_small) simp
  finally show ?thesis .
qed

lemma decode_encode_frame:
  assumes "length pl \<le> PROTO_MAX_PAYLOAD"
  shows "decode_frame (encode_frame (ty, sq, pl)) = Some (ty, sq, pl)"
proof -
  let ?n = "word_of_nat (length pl) :: u16"
  have n: "unat ?n = length pl"
    using assms by (intro unat_word_of_nat_small) simp
  show ?thesis
    by (simp add: encode_frame_def frame_body_def u16_le_def decode_frame_Cons5 u16_halves n Let_def)
qed

lemma collect_encode_tail:
  assumes pl: "length pl \<le> PROTO_MAX_PAYLOAD"
  shows "xs @ ys = encode_frame (ty, sq, pl) \<Longrightarrow> xs \<noteq> [] \<Longrightarrow> ys \<noteq> [] \<Longrightarrow>
    collect xs ys = ([(ty, sq, pl)], [])"
proof (induction ys arbitrary: xs)
  case Nil
  then show ?case by simp
next
  case (Cons b ys)
  let ?acc = "xs @ [b]"
  have app: "?acc @ ys = encode_frame (ty, sq, pl)" using Cons.prems(1) by simp
  have len: "length ?acc + length ys = 7 + length pl"
    using arg_cong[OF app, of length] by simp
  have lf: "4 \<le> length ?acc \<Longrightarrow> len_field ?acc = length pl"
    using len_field_encode_frame[OF pl _ app] .
  show ?case
  proof (cases "ys = []")
    case True
    with app lf len pl decode_encode_frame[OF pl, of ty sq] Cons.prems(2)
    show ?thesis by (simp add: collect_step_def Let_def)
  next
    case False
    have "collect_step xs b = (?acc, None)"
      using False Cons.prems(2) len lf pl by (cases ys) (auto simp: collect_step_def Let_def)
    with Cons.IH[OF app _ False] show ?thesis by simp
  qed
qed

lemma collect_encode:
  assumes "length pl \<le> PROTO_MAX_PAYLOAD"
  shows "collect [] (encode_frame (ty, sq, pl)) = ([(ty, sq, pl)], [])"
proof -
  obtain rest where enc: "encode_frame (ty, sq, pl) = PROTO_START_BYTE # rest" and "rest \<noteq> []"
    by (auto simp: encode_frame_def frame_body_def)
  then have "collect [PROTO_START_BYTE] rest = ([(ty, sq, pl)], [])"
    by (intro collect_encode_tail[OF assms]) auto
  then show ?thesis by (simp add: enc collect_step_def)
qed

text \<open>
  A block that starts with START and has the length its LEN field announces is consumed
  whole, and delivered exactly when its CRC matches.
\<close>

lemma collect_block_tail:
  assumes "len_field all \<le> PROTO_MAX_PAYLOAD" "length all = PROTO_FRAME_OVERHEAD + len_field all"
  shows "xs @ ys = all \<Longrightarrow> xs \<noteq> [] \<Longrightarrow> ys \<noteq> [] \<Longrightarrow>
    collect xs ys = ((case decode_frame all of None \<Rightarrow> [] | Some fr \<Rightarrow> [fr]), [])"
proof (induction ys arbitrary: xs)
  case Nil
  then show ?case by simp
next
  case (Cons b ys)
  let ?acc = "xs @ [b]"
  have app: "?acc @ ys = all" using Cons.prems(1) by simp
  have len: "length ?acc + length ys = 7 + len_field all"
    using arg_cong[OF app, of length] assms(2) by simp
  have lf: "4 \<le> length ?acc \<Longrightarrow> len_field ?acc = len_field all"
    using len_field_append[of ?acc ys] app by simp
  show ?case
  proof (cases "ys = []")
    case True
    with app lf len assms(1) Cons.prems(2)
    show ?thesis by (simp add: collect_step_def Let_def)
  next
    case False
    have "collect_step xs b = (?acc, None)"
      using False Cons.prems(2) len lf assms(1) by (cases ys) (auto simp: collect_step_def Let_def)
    with Cons.IH[OF app _ False] show ?thesis by simp
  qed
qed

lemma collect_block:
  assumes "len_field (PROTO_START_BYTE # xs) \<le> PROTO_MAX_PAYLOAD"
    "length (PROTO_START_BYTE # xs) = PROTO_FRAME_OVERHEAD + len_field (PROTO_START_BYTE # xs)"
  shows "collect [] (PROTO_START_BYTE # xs) =
    ((case decode_frame (PROTO_START_BYTE # xs) of None \<Rightarrow> [] | Some fr \<Rightarrow> [fr]), [])"
proof -
  have "xs \<noteq> []" using assms(2) by auto
  then have "collect [PROTO_START_BYTE] xs =
      ((case decode_frame (PROTO_START_BYTE # xs) of None \<Rightarrow> [] | Some fr \<Rightarrow> [fr]), [])"
    by (intro collect_block_tail[OF assms]) auto
  then show ?thesis by (simp add: collect_step_def)
qed

text \<open>Bytes other than START are ignored while no frame is open.\<close>

lemma collect_noise: "PROTO_START_BYTE \<notin> set ns \<Longrightarrow> collect [] ns = ([], [])"
  by (induction ns) (auto simp: collect_step_def)

subsection \<open>Resynchronisation\<close>

text \<open>
  Whatever the receiver has collected, it is back at the start after at most as many bytes
  as the longest frame has after its START byte.
\<close>

lemma collect_resync:
  assumes "collecting acc" "acc \<noteq> []" "PROTO_FRAME_OVERHEAD + PROTO_MAX_PAYLOAD \<le> length acc + length bs"
  shows "\<exists>k \<le> PROTO_FRAME_OVERHEAD + PROTO_MAX_PAYLOAD - length acc. snd (collect acc (take k bs)) = []"
  using assms
proof (induction bs arbitrary: acc)
  case Nil
  then show ?case using collecting_length[of acc] by simp
next
  case (Cons b bs)
  obtain acc1 out where step: "collect_step acc b = (acc1, out)" by force
  have coll: "collecting acc1"
    using collect_step_collecting[OF Cons.prems(1), of b] step by simp
  have room: "length acc < 263" using collecting_length[OF Cons.prems(1)] by simp
  have unfold: "snd (collect acc (take (Suc k) (b # bs))) = snd (collect acc1 (take k bs))" for k
    by (simp add: step split: prod.splits)
  show ?case
  proof (cases "acc1 = []")
    case True
    then show ?thesis using unfold[of 0] room by (intro exI[of _ 1]) simp
  next
    case False
    then have "acc1 = acc @ [b]"
      using collect_step_Some[OF Cons.prems(1)] collect_step_None step by (cases out) blast+
    with Cons.IH[OF coll False] Cons.prems(3) room
    obtain k where "k \<le> 263 - Suc (length acc)" "snd (collect acc1 (take k bs)) = []"
      by auto
    with unfold[of k] room show ?thesis by (intro exI[of _ "Suc k"]) simp
  qed
qed

end
