(* ===== verification/Protocol_Parser.thy ===== *)
theory Protocol_Parser
  imports Frame
begin

text \<open>
  \<^verbatim>\<open>protocol/src/protocol_parser.c\<close>: the byte-at-a-time frame parser. The struct is the
  record \<open>protocol_parser\<close>, the switch of \<open>protocol_parser_feed\<close> one equation per state.
  \<open>parser_rel\<close> relates the parser to the bytes collected since START; the simulation lemma
  shows that each call of \<open>protocol_parser_feed\<close> is one step of the receiver specification
  \<open>collect_step\<close>.
\<close>

datatype protocol_parser_state =
    PARSER_STATE_WAIT_START
  | PARSER_STATE_READ_TYPE
  | PARSER_STATE_READ_LEN_LO
  | PARSER_STATE_READ_LEN_HI
  | PARSER_STATE_READ_SEQ
  | PARSER_STATE_READ_PAYLOAD
  | PARSER_STATE_READ_CRC_LO
  | PARSER_STATE_READ_CRC_HI

record parsed_frame =
  frame_type :: u8
  frame_len :: u16
  frame_seq :: u8
  frame_payload :: "u8 list"

record protocol_parser =
  pstate :: protocol_parser_state
  payload_idx :: u16
  expected_len :: u16
  crc_running :: u16
  crc_recv :: u16
  pframe :: parsed_frame

definition crc_eat :: "protocol_parser \<Rightarrow> u8 \<Rightarrow> protocol_parser" where
  "crc_eat p b = p\<lparr>crc_running := crc16_ccitt_update (crc_running p) [b]\<rparr>"

definition protocol_parser_reset :: "protocol_parser \<Rightarrow> protocol_parser" where
  "protocol_parser_reset p =
     p\<lparr>pstate := PARSER_STATE_WAIT_START, payload_idx := 0, expected_len := 0,
       crc_running := CRC16_INIT, crc_recv := 0\<rparr>"

text \<open>The result is the returned boolean and the updated parser.\<close>

definition protocol_parser_feed :: "protocol_parser \<Rightarrow> u8 \<Rightarrow> bool \<times> protocol_parser" where
  "protocol_parser_feed p byte =
    (case pstate p of
       PARSER_STATE_WAIT_START \<Rightarrow>
         (False, if byte = PROTO_START_BYTE
                 then p\<lparr>crc_running := CRC16_INIT, pstate := PARSER_STATE_READ_TYPE\<rparr> else p)
     | PARSER_STATE_READ_TYPE \<Rightarrow>
         (False, (crc_eat (p\<lparr>pframe := (pframe p)\<lparr>frame_type := byte\<rparr>\<rparr>) byte)
                   \<lparr>pstate := PARSER_STATE_READ_LEN_LO\<rparr>)
     | PARSER_STATE_READ_LEN_LO \<Rightarrow>
         (False, (crc_eat (p\<lparr>expected_len := ucast byte\<rparr>) byte)
                   \<lparr>pstate := PARSER_STATE_READ_LEN_HI\<rparr>)
     | PARSER_STATE_READ_LEN_HI \<Rightarrow>
         (let p1 = crc_eat (p\<lparr>expected_len := expected_len p OR push_bit 8 (ucast byte)\<rparr>) byte
          in if expected_len p1 > of_nat PROTO_MAX_PAYLOAD
             then (False, protocol_parser_reset p1)
             else (False, p1\<lparr>pframe := (pframe p1)\<lparr>frame_len := expected_len p1\<rparr>,
                             pstate := PARSER_STATE_READ_SEQ\<rparr>))
     | PARSER_STATE_READ_SEQ \<Rightarrow>
         (let p1 = crc_eat (p\<lparr>pframe := (pframe p)\<lparr>frame_seq := byte\<rparr>\<rparr>) byte
          in (False, p1\<lparr>payload_idx := 0,
                       pstate := (if expected_len p1 = 0 then PARSER_STATE_READ_CRC_LO
                                  else PARSER_STATE_READ_PAYLOAD)\<rparr>))
     | PARSER_STATE_READ_PAYLOAD \<Rightarrow>
         (if payload_idx p \<ge> of_nat PROTO_MAX_PAYLOAD then (False, protocol_parser_reset p)
          else let p1 = p\<lparr>pframe := (pframe p)\<lparr>frame_payload :=
                              (frame_payload (pframe p))[unat (payload_idx p) := byte]\<rparr>,
                          payload_idx := payload_idx p + 1\<rparr>;
                   p2 = crc_eat p1 byte
               in (False, if payload_idx p2 \<ge> expected_len p2
                          then p2\<lparr>pstate := PARSER_STATE_READ_CRC_LO\<rparr> else p2))
     | PARSER_STATE_READ_CRC_LO \<Rightarrow>
         (False, p\<lparr>crc_recv := ucast byte, pstate := PARSER_STATE_READ_CRC_HI\<rparr>)
     | PARSER_STATE_READ_CRC_HI \<Rightarrow>
         (let p1 = p\<lparr>crc_recv := crc_recv p OR push_bit 8 (ucast byte)\<rparr>
          in (crc_recv p1 = crc_running p1, protocol_parser_reset p1)))"

text \<open>
  The frame as the dispatcher reads it, and the sequence of frames a byte stream makes the
  protocol task hand to the dispatcher (\<^verbatim>\<open>app/src/app_init.c\<close>, inner loop of
  \<^verbatim>\<open>task_protocol\<close>).
\<close>

definition frame_of :: "parsed_frame \<Rightarrow> frame" where
  "frame_of f = (frame_type f, frame_seq f, take (unat (frame_len f)) (frame_payload f))"

primrec parser_feed_all :: "protocol_parser \<Rightarrow> u8 list \<Rightarrow> parsed_frame list \<times> protocol_parser" where
  "parser_feed_all p [] = ([], p)"
| "parser_feed_all p (b # bs) =
     (let (ok, p') = protocol_parser_feed p b; (fs, p'') = parser_feed_all p' bs
      in (if ok then pframe p' # fs else fs, p''))"

subsection \<open>Relation to the receiver specification\<close>

definition parser_header :: "protocol_parser \<Rightarrow> u8 list" where
  "parser_header p = PROTO_START_BYTE # frame_type (pframe p) # u16_le (expected_len p)"

fun parser_acc :: "protocol_parser_state \<Rightarrow> protocol_parser \<Rightarrow> u8 list \<Rightarrow> bool" where
  "parser_acc PARSER_STATE_WAIT_START p acc \<longleftrightarrow> acc = []"
| "parser_acc PARSER_STATE_READ_TYPE p acc \<longleftrightarrow>
     acc = [PROTO_START_BYTE] \<and> crc_running p = CRC16_INIT"
| "parser_acc PARSER_STATE_READ_LEN_LO p acc \<longleftrightarrow>
     acc = [PROTO_START_BYTE, frame_type (pframe p)] \<and>
     crc_running p = crc16_ccitt_update CRC16_INIT (tl acc)"
| "parser_acc PARSER_STATE_READ_LEN_HI p acc \<longleftrightarrow>
     (\<exists>l. expected_len p = ucast l \<and> acc = [PROTO_START_BYTE, frame_type (pframe p), l] \<and>
          crc_running p = crc16_ccitt_update CRC16_INIT (tl acc))"
| "parser_acc PARSER_STATE_READ_SEQ p acc \<longleftrightarrow>
     acc = parser_header p \<and> expected_len p \<le> 256 \<and> frame_len (pframe p) = expected_len p \<and>
     crc_running p = crc16_ccitt_update CRC16_INIT (tl acc)"
| "parser_acc PARSER_STATE_READ_PAYLOAD p acc \<longleftrightarrow>
     acc = parser_header p @ frame_seq (pframe p)
             # take (unat (payload_idx p)) (frame_payload (pframe p)) \<and>
     payload_idx p < expected_len p \<and> expected_len p \<le> 256 \<and>
     frame_len (pframe p) = expected_len p \<and>
     crc_running p = crc16_ccitt_update CRC16_INIT (tl acc)"
| "parser_acc PARSER_STATE_READ_CRC_LO p acc \<longleftrightarrow>
     acc = parser_header p @ frame_seq (pframe p)
             # take (unat (expected_len p)) (frame_payload (pframe p)) \<and>
     expected_len p \<le> 256 \<and> frame_len (pframe p) = expected_len p \<and>
     crc_running p = crc16_ccitt_update CRC16_INIT (tl acc)"
| "parser_acc PARSER_STATE_READ_CRC_HI p acc \<longleftrightarrow>
     (\<exists>body c. acc = body @ [c] \<and> crc_recv p = ucast c \<and>
       body = parser_header p @ frame_seq (pframe p)
             # take (unat (expected_len p)) (frame_payload (pframe p)) \<and>
       expected_len p \<le> 256 \<and> frame_len (pframe p) = expected_len p \<and>
       crc_running p = crc16_ccitt_update CRC16_INIT (tl body))"

definition parser_rel :: "protocol_parser \<Rightarrow> u8 list \<Rightarrow> bool" where
  "parser_rel p acc \<longleftrightarrow>
     length (frame_payload (pframe p)) = PROTO_MAX_PAYLOAD \<and> parser_acc (pstate p) p acc"

text \<open>The bounds the parser itself keeps, without reference to the bytes consumed.\<close>

definition parser_inv :: "protocol_parser \<Rightarrow> bool" where
  "parser_inv p \<longleftrightarrow>
     length (frame_payload (pframe p)) = PROTO_MAX_PAYLOAD \<and>
     (pstate p \<in> {PARSER_STATE_READ_SEQ, PARSER_STATE_READ_PAYLOAD, PARSER_STATE_READ_CRC_LO,
                  PARSER_STATE_READ_CRC_HI} \<longrightarrow>
        expected_len p \<le> 256 \<and> frame_len (pframe p) = expected_len p) \<and>
     (pstate p = PARSER_STATE_READ_PAYLOAD \<longrightarrow> payload_idx p < expected_len p)"

lemmas parser_step_defs =
  protocol_parser_feed_def protocol_parser_reset_def crc_eat_def Let_def

lemma parser_rel_inv: "parser_rel p acc \<Longrightarrow> parser_inv p"
  by (cases "pstate p") (auto simp: parser_rel_def parser_inv_def)

lemma len_field_header: "len_field (parser_header p @ xs) = unat (expected_len p)"
  by (simp add: len_field_def parser_header_def u16_le_def u16_halves)

lemma length_parser_header [simp]: "length (parser_header p) = 4"
  by (simp add: parser_header_def)

lemma parser_header_not_Nil [simp]: "parser_header p \<noteq> []"
  by (simp add: parser_header_def)

lemma unat_le_256: "(w :: u16) \<le> 256 \<longleftrightarrow> unat w \<le> 256"
  by (simp add: word_le_nat_alt)

lemma unat_gt_256: "(256 :: u16) < w \<longleftrightarrow> 256 < unat w"
  by (simp add: word_less_nat_alt)

lemma collect_step_Nil: "collect_step [] b = (if b = PROTO_START_BYTE then [b] else [], None)"
  by (simp add: collect_step_def)

lemma collect_step_open:
  "acc \<noteq> [] \<Longrightarrow> collect_step acc b =
     (if length acc < 3 then (acc @ [b], None)
      else if len_field (acc @ [b]) > PROTO_MAX_PAYLOAD then ([], None)
      else if length acc < 6 + len_field (acc @ [b]) then (acc @ [b], None)
      else ([], decode_frame (acc @ [b])))"
  by (simp add: collect_step_def Let_def)

text \<open>One step of the simulation: the claim, then one lemma per parser state.\<close>

definition feed_sim :: "protocol_parser \<Rightarrow> u8 list \<Rightarrow> u8 \<Rightarrow> bool" where
  "feed_sim p acc b \<longleftrightarrow>
     (let (ok, p') = protocol_parser_feed p b; (acc', out) = collect_step acc b
      in parser_rel p' acc' \<and> out = (if ok then Some (frame_of (pframe p')) else None))"

lemma feed_sim_wait_start:
  assumes "parser_rel p acc" "pstate p = PARSER_STATE_WAIT_START"
  shows "feed_sim p acc b"
  using assms by (simp add: feed_sim_def parser_rel_def parser_step_defs collect_step_Nil)

lemma feed_sim_type:
  assumes "parser_rel p acc" "pstate p = PARSER_STATE_READ_TYPE"
  shows "feed_sim p acc b"
  using assms by (simp add: feed_sim_def parser_rel_def parser_step_defs collect_step_open)

lemma feed_sim_len_lo:
  assumes "parser_rel p acc" "pstate p = PARSER_STATE_READ_LEN_LO"
  shows "feed_sim p acc b"
  using assms
  by (simp add: feed_sim_def parser_rel_def parser_step_defs collect_step_open)

lemma feed_sim_len_hi:
  assumes "parser_rel p acc" "pstate p = PARSER_STATE_READ_LEN_HI"
  shows "feed_sim p acc b"
proof -
  obtain l where l: "expected_len p = ucast l"
    "acc = [PROTO_START_BYTE, frame_type (pframe p), l]"
    "crc_running p = crc16_ccitt_update CRC16_INIT (tl acc)"
    using assms by (auto simp: parser_rel_def)
  have "len_field (acc @ [b]) = unat (ucast l OR push_bit 8 (ucast b) :: u16)"
    by (simp add: l len_field_def)
  with assms l show ?thesis
    by (simp add: feed_sim_def parser_rel_def parser_step_defs collect_step_open
        parser_header_def u16_le_of_halves unat_gt_256 not_less unat_le_256)
qed

lemma feed_sim_seq:
  assumes "parser_rel p acc" "pstate p = PARSER_STATE_READ_SEQ"
  shows "feed_sim p acc b"
proof -
  have acc: "acc = parser_header p" "expected_len p \<le> 256" "frame_len (pframe p) = expected_len p"
    "crc_running p = crc16_ccitt_update CRC16_INIT (tl acc)"
    "length (frame_payload (pframe p)) = 256"
    using assms by (auto simp: parser_rel_def)
  then have "collect_step acc b = (acc @ [b], None)"
    by (simp add: collect_step_open len_field_header unat_le_256)
  with assms acc show ?thesis
    by (auto simp: feed_sim_def parser_rel_def parser_step_defs parser_header_def
        crc16_ccitt_update_append word_neq_0_conv)
qed

lemma feed_sim_payload:
  assumes "parser_rel p acc" "pstate p = PARSER_STATE_READ_PAYLOAD"
  shows "feed_sim p acc b"
proof -
  let ?pl = "frame_payload (pframe p)" and ?i = "unat (payload_idx p)"
  have acc: "acc = parser_header p @ frame_seq (pframe p) # take ?i ?pl"
    "payload_idx p < expected_len p" "expected_len p \<le> 256"
    "frame_len (pframe p) = expected_len p"
    "crc_running p = crc16_ccitt_update CRC16_INIT (tl acc)" "length ?pl = 256"
    using assms by (auto simp: parser_rel_def)
  have i: "?i < unat (expected_len p)" "unat (expected_len p) \<le> 256"
    using acc(2,3) by (simp_all add: word_less_nat_alt unat_le_256)
  have inc: "unat (payload_idx p + 1) = Suc ?i"
    using i by (simp add: unat_word_ariths)
  have "collect_step acc b = (acc @ [b], None)"
    using i acc(6) by (simp add: collect_step_open len_field_header acc(1))
  moreover have "\<not> 256 \<le> payload_idx p"
    using i by (simp add: word_le_nat_alt)
  moreover have "take (Suc ?i) (?pl[?i := b]) = take ?i ?pl @ [b]"
    using i acc(6) by (intro take_Suc_update) simp
  moreover have "payload_idx p + 1 \<ge> expected_len p \<longleftrightarrow> Suc ?i = unat (expected_len p)"
    using i inc by (auto simp: word_le_nat_alt)
  ultimately show ?thesis
    using assms acc i inc
    by (auto simp: feed_sim_def parser_rel_def parser_step_defs parser_header_def
        crc16_ccitt_update_append word_less_nat_alt)
qed

lemma feed_sim_crc_lo:
  assumes "parser_rel p acc" "pstate p = PARSER_STATE_READ_CRC_LO"
  shows "feed_sim p acc b"
proof -
  have acc: "acc = parser_header p @ frame_seq (pframe p)
       # take (unat (expected_len p)) (frame_payload (pframe p))"
    "expected_len p \<le> 256" "length (frame_payload (pframe p)) = 256"
    using assms by (auto simp: parser_rel_def)
  then have "collect_step acc b = (acc @ [b], None)"
    by (simp add: collect_step_open len_field_header unat_le_256)
  with assms show ?thesis
    by (auto simp: feed_sim_def parser_rel_def parser_step_defs parser_header_def)
qed

lemma feed_sim_crc_hi:
  assumes "parser_rel p acc" "pstate p = PARSER_STATE_READ_CRC_HI"
  shows "feed_sim p acc b"
proof -
  let ?L = "unat (expected_len p)" and ?f = "pframe p"
  obtain c where acc: "acc = parser_header p @ frame_seq ?f # take ?L (frame_payload ?f) @ [c]"
    and c: "crc_recv p = ucast c"
    and p: "expected_len p \<le> 256" "frame_len ?f = expected_len p"
      "length (frame_payload ?f) = 256"
    and crc: "crc_running p = crc16_ccitt_update CRC16_INIT
       (tl (parser_header p @ frame_seq ?f # take ?L (frame_payload ?f)))"
    using assms by (auto simp: parser_rel_def)
  have "collect_step acc b = ([], decode_frame (acc @ [b]))"
    using p by (simp add: acc collect_step_open len_field_header unat_le_256)
  moreover have "decode_frame (acc @ [b]) =
      (if [c, b] = u16_le (crc_running p) then Some (frame_of ?f) else None)"
    using p by (simp add: acc crc parser_header_def u16_le_def decode_frame_Cons5 u16_halves
        Let_def frame_of_def unat_le_256 min_absorb2)
  moreover have "[c, b] = u16_le (crc_running p) \<longleftrightarrow> crc_recv p OR push_bit 8 (ucast b) = crc_running p"
    by (metis c u16_le_inj u16_le_of_halves)
  ultimately show ?thesis
    using assms by (simp add: feed_sim_def parser_rel_def parser_step_defs frame_of_def)
qed

lemma feed_simulates:
  assumes "parser_rel p acc"
  shows "feed_sim p acc b"
  using assms
  by (cases "pstate p")
    (blast intro: feed_sim_wait_start feed_sim_type feed_sim_len_lo feed_sim_len_hi feed_sim_seq
      feed_sim_payload feed_sim_crc_lo feed_sim_crc_hi)+

lemma parser_rel_reset:
  "length (frame_payload (pframe p)) = PROTO_MAX_PAYLOAD \<Longrightarrow>
     parser_rel (protocol_parser_reset p) []"
  by (simp add: parser_rel_def protocol_parser_reset_def)

lemma parser_feed_all_collect:
  assumes "parser_rel p acc"
  shows "map frame_of (fst (parser_feed_all p bs)) = fst (collect acc bs) \<and>
         parser_rel (snd (parser_feed_all p bs)) (snd (collect acc bs))"
  using assms
proof (induction bs arbitrary: p acc)
  case Nil
  then show ?case by simp
next
  case (Cons b bs)
  obtain ok p1 where f: "protocol_parser_feed p b = (ok, p1)" by force
  obtain acc1 out where s: "collect_step acc b = (acc1, out)" by force
  have rel: "parser_rel p1 acc1" and out: "out = (if ok then Some (frame_of (pframe p1)) else None)"
    using feed_simulates[OF Cons.prems, of b] by (auto simp: feed_sim_def f s)
  from Cons.IH[OF rel] show ?case
    by (auto simp: f s out split: prod.splits)
qed

lemma parser_rel_idle: "parser_rel p [] \<Longrightarrow> pstate p = PARSER_STATE_WAIT_START"
  by (cases "pstate p") (auto simp: parser_rel_def parser_header_def)

lemma parser_rel_collecting: "parser_rel p acc \<Longrightarrow> collecting acc"
  by (cases "pstate p")
    (auto simp: parser_rel_def collecting_def parser_header_def len_field_def u16_le_def u16_halves
      unat_le_256 word_less_nat_alt)

subsection \<open>The bounds are invariant\<close>

lemma parser_inv_reset [inv_intros]:
  "length (frame_payload (pframe p)) = PROTO_MAX_PAYLOAD \<Longrightarrow> parser_inv (protocol_parser_reset p)"
  by (simp add: parser_inv_def protocol_parser_reset_def)

lemma parser_inv_feed [inv_intros]:
  assumes "parser_inv p"
  shows "parser_inv (snd (protocol_parser_feed p b))"
  using assms
  by (cases "pstate p")
    (auto simp: parser_inv_def parser_step_defs word_neq_0_conv not_less not_le)

subsection \<open>Properties\<close>

text \<open>The parser as the zero-initialised static of the protocol task holds it.\<close>

definition parser_static :: protocol_parser where
  "parser_static = \<lparr>pstate = PARSER_STATE_WAIT_START, payload_idx = 0, expected_len = 0,
     crc_running = 0, crc_recv = 0,
     pframe = \<lparr>frame_type = 0, frame_len = 0, frame_seq = 0,
               frame_payload = replicate PROTO_MAX_PAYLOAD 0\<rparr>\<rparr>"

lemma parser_static_buffer: "length (frame_payload (pframe parser_static)) = PROTO_MAX_PAYLOAD"
  by (simp add: parser_static_def)

lemma parse_from_reset:
  assumes "length (frame_payload (pframe p)) = PROTO_MAX_PAYLOAD"
  shows "map frame_of (fst (parser_feed_all (protocol_parser_reset p) bs)) = fst (collect [] bs)"
    and "parser_rel (snd (parser_feed_all (protocol_parser_reset p) bs)) (snd (collect [] bs))"
  using parser_feed_all_collect[OF parser_rel_reset[OF assms]] by auto

text \<open>C12: started from reset, the byte-at-a-time parser delivers exactly the frames that the
  receiver specification, which keeps all bytes since START, delivers on the same stream.\<close>

theorem parser_refines_receiver:
  assumes "length (frame_payload (pframe p)) = PROTO_MAX_PAYLOAD"
  shows "map frame_of (fst (parser_feed_all (protocol_parser_reset p) bs)) = fst (collect [] bs)"
  by (rule parse_from_reset[OF assms])

theorem parser_refines_receiver_witness:
  "map frame_of (fst (parser_feed_all (protocol_parser_reset parser_static) [0xAA, 0x05])) = []"
  using parser_refines_receiver[OF parser_static_buffer, of "[0xAA, 0x05]"]
  by (simp add: collect_step_def)

text \<open>C13: every frame the parser delivers was on the wire: the byte stream contains, as one
  contiguous block, the exact encoding of the delivered type, sequence number and payload.\<close>

theorem parser_sound:
  assumes "length (frame_payload (pframe p)) = PROTO_MAX_PAYLOAD"
    and "f \<in> set (fst (parser_feed_all (protocol_parser_reset p) bs))"
  shows "\<exists>pre post. bs = pre @ encode_frame (frame_of f) @ post"
proof -
  have "frame_of f \<in> set (fst (collect [] bs))"
    using assms(2) parse_from_reset(1)[OF assms(1), of bs] by (metis image_eqI list.set_map)
  then show ?thesis
    using collect_sound[OF collecting_Nil, of bs _ _ "frame_of f"] by (cases "collect [] bs") auto
qed

theorem parser_sound_witness:
  "\<exists>f pre post. f \<in> set (fst (parser_feed_all (protocol_parser_reset parser_static)
       ([0x13] @ encode_frame (0x03, 7, [0x01])))) \<and>
     [0x13] @ encode_frame (0x03, 7, [0x01]) = pre @ encode_frame (frame_of f) @ post"
proof -
  let ?bs = "[0x13] @ encode_frame (0x03, 7, [0x01])"
  have "fst (collect [] ?bs) = [(0x03, 7, [0x01])]"
    by (simp add: collect_step_def collect_encode)
  then have "map frame_of (fst (parser_feed_all (protocol_parser_reset parser_static) ?bs)) \<noteq> []"
    using parse_from_reset(1)[OF parser_static_buffer, of ?bs] by simp
  then obtain f where "f \<in> set (fst (parser_feed_all (protocol_parser_reset parser_static) ?bs))"
    by (cases "fst (parser_feed_all (protocol_parser_reset parser_static) ?bs)") auto
  with parser_sound[OF parser_static_buffer this] show ?thesis by blast
qed

text \<open>C14: a well-formed frame is delivered, once, whatever bytes other than START come before
  it, and the parser is idle again afterwards.\<close>

theorem parser_complete:
  assumes "length (frame_payload (pframe p)) = PROTO_MAX_PAYLOAD"
    and "PROTO_START_BYTE \<notin> set noise" "length pl \<le> PROTO_MAX_PAYLOAD"
  shows "map frame_of (fst (parser_feed_all (protocol_parser_reset p) (noise @ encode_frame (ty, sq, pl))))
      = [(ty, sq, pl)] \<and>
    pstate (snd (parser_feed_all (protocol_parser_reset p) (noise @ encode_frame (ty, sq, pl))))
      = PARSER_STATE_WAIT_START"
proof -
  have "collect [] (noise @ encode_frame (ty, sq, pl)) = ([(ty, sq, pl)], [])"
    using assms(2,3) by (simp add: collect_append collect_noise collect_encode)
  then show ?thesis
    using parse_from_reset[OF assms(1), of "noise @ encode_frame (ty, sq, pl)"]
    by (simp add: parser_rel_idle)
qed

theorem parser_complete_witness:
  "map frame_of (fst (parser_feed_all (protocol_parser_reset parser_static)
     ([0x00, 0x13] @ encode_frame (0x03, 7, [0x01])))) = [(0x03, 7, [0x01])] \<and>
   pstate (snd (parser_feed_all (protocol_parser_reset parser_static)
     ([0x00, 0x13] @ encode_frame (0x03, 7, [0x01])))) = PARSER_STATE_WAIT_START"
  by (rule parser_complete[OF parser_static_buffer]) simp_all

text \<open>C15: a frame with a corrupted body is dropped: if type, length, sequence number and payload
  are replaced by a body of the same length with the same LEN field whose bits differ from the
  original inside a window of at most 16 bits, while the CRC is the original one, the parser
  delivers nothing and is idle at the end.\<close>

theorem parser_rejects_corruption:
  assumes "length (frame_payload (pframe p)) = PROTO_MAX_PAYLOAD"
    and "length pl \<le> PROTO_MAX_PAYLOAD"
    and "length body = 4 + length pl" "body ! 1 = frame_body ty sq pl ! 1" "body ! 2 = frame_body ty sq pl ! 2"
    and "concat (map byte_bits (frame_body ty sq pl)) = pre @ e @ post"
    and "concat (map byte_bits body) = pre @ e' @ post"
    and "length e = length e'" "length e \<le> 16" "e \<noteq> e'"
  shows "let r = parser_feed_all (protocol_parser_reset p) (PROTO_START_BYTE # body
           @ u16_le (crc16_ccitt_update CRC16_INIT (frame_body ty sq pl)))
    in fst r = [] \<and> pstate (snd r) = PARSER_STATE_WAIT_START"
proof -
  let ?crc = "crc16_ccitt_update CRC16_INIT (frame_body ty sq pl)"
  let ?bs = "PROTO_START_BYTE # body @ u16_le ?crc"
  obtain t l h s xs where body: "body = t # l # h # s # xs" and xs: "length xs = length pl"
    using assms(3) list_at_least4[of body] by auto
  have lh: "l = ucast (word_of_nat (length pl) :: u16)" "h = ucast (drop_bit 8 (word_of_nat (length pl) :: u16))"
    using assms(4,5) body by (simp_all add: frame_body_def u16_le_def)
  have L: "len_field ?bs = length pl"
    using assms(2) by (simp add: len_field_def body lh u16_halves unat_word_of_nat_small)
  have "crc16_ccitt_update CRC16_INIT body \<noteq> ?crc"
    using crc16_serial_burst[OF assms(8,9), of CRC16_INIT pre post] assms(6,7,10)
    by (simp add: crc16_update_serial)
  then have none: "decode_frame ?bs = None"
    using L xs by (simp add: decode_frame_def Let_def body u16_le_inj numeral_eq_Suc)
  have "collect [] ?bs = ([], [])"
    using collect_block[of "body @ u16_le ?crc"] L none assms(2,3) by simp
  then show ?thesis
    using parse_from_reset[OF assms(1), of ?bs] by (simp add: Let_def parser_rel_idle)
qed

theorem parser_rejects_corruption_witness:
  "let r = parser_feed_all (protocol_parser_reset parser_static) (PROTO_START_BYTE # [0x01, 1, 0, 6, 3]
           @ u16_le (crc16_ccitt_update CRC16_INIT (frame_body 0x01 2 [3])))
    in fst r = [] \<and> pstate (snd r) = PARSER_STATE_WAIT_START"
proof (rule parser_rejects_corruption[OF parser_static_buffer])
  show "concat (map byte_bits (frame_body 0x01 2 [3])) =
      (byte_bits 0x01 @ byte_bits 1 @ byte_bits 0) @ byte_bits 2 @ byte_bits 3"
    "concat (map byte_bits [0x01, 1, 0, 6, 3]) =
      (byte_bits 0x01 @ byte_bits 1 @ byte_bits 0) @ byte_bits 6 @ byte_bits 3"
    by (simp_all add: frame_body_def u16_le_def)
  show "length (byte_bits 2) = length (byte_bits 6)" "length (byte_bits 2) \<le> 16"
    by (simp_all add: byte_bits_def)
  show "byte_bits 2 \<noteq> byte_bits 6" by code_simp
qed (simp_all add: frame_body_def u16_le_def)

text \<open>C16: the parser resynchronises: in the middle of a frame, within at most 262 further bytes,
  whatever they are, it is back in the state that waits for START.\<close>

theorem parser_resynchronises:
  assumes "length (frame_payload (pframe p)) = PROTO_MAX_PAYLOAD"
    and "p' = snd (parser_feed_all (protocol_parser_reset p) bs)"
    and "pstate p' \<noteq> PARSER_STATE_WAIT_START" "262 \<le> length rest"
  shows "\<exists>k \<le> 262. pstate (snd (parser_feed_all p' (take k rest))) = PARSER_STATE_WAIT_START"
proof -
  define acc where "acc = snd (collect [] bs)"
  have rel: "parser_rel p' acc" using parse_from_reset(2)[OF assms(1), of bs] assms(2) acc_def by simp
  have ne: "acc \<noteq> []" using rel assms(3) parser_rel_idle by blast
  then have one: "1 \<le> length acc" by (cases acc) auto
  have "7 + 256 \<le> length acc + length rest" using one assms(4) by simp
  from collect_resync[OF parser_rel_collecting[OF rel] ne this]
  obtain k where "k \<le> 7 + 256 - length acc" "snd (collect acc (take k rest)) = []" by blast
  moreover from this(1) one have "k \<le> 262" by linarith
  ultimately have "k \<le> 262" "snd (collect acc (take k rest)) = []" by blast+
  then show ?thesis
    using parser_feed_all_collect[OF rel, of "take k rest"] parser_rel_idle by metis
qed

theorem parser_resynchronises_witness:
  "\<exists>k \<le> 262. pstate (snd (parser_feed_all
      (snd (parser_feed_all (protocol_parser_reset parser_static) [0xAA])) (take k (replicate 262 0))))
    = PARSER_STATE_WAIT_START"
  by (rule parser_resynchronises[OF parser_static_buffer refl])
     (simp_all add: parser_step_defs)

text \<open>Memory safety of the payload buffer: from reset, for every input, the buffer keeps its
  256 bytes, and whenever a payload byte is about to be stored its index is below the announced
  length, which is at most 256.\<close>

theorem parser_payload_in_bounds:
  assumes "length (frame_payload (pframe p)) = PROTO_MAX_PAYLOAD"
    and "p' = snd (parser_feed_all (protocol_parser_reset p) bs)"
  shows "length (frame_payload (pframe p')) = PROTO_MAX_PAYLOAD \<and>
    (pstate p' = PARSER_STATE_READ_PAYLOAD \<longrightarrow>
       unat (payload_idx p') < unat (expected_len p') \<and> unat (expected_len p') \<le> PROTO_MAX_PAYLOAD)"
  using parser_rel_inv[OF parse_from_reset(2)[OF assms(1), of bs]] assms(2)
  by (auto simp: parser_inv_def word_less_nat_alt unat_le_256)

theorem parser_payload_in_bounds_witness:
  "let p' = snd (parser_feed_all (protocol_parser_reset parser_static) [0xAA, 2, 3, 0, 9, 1])
   in pstate p' = PARSER_STATE_READ_PAYLOAD \<and> unat (payload_idx p') < unat (expected_len p')"
proof -
  let ?p = "snd (parser_feed_all (protocol_parser_reset parser_static) [0xAA, 2, 3, 0, 9, 1])"
  have "pstate ?p = PARSER_STATE_READ_PAYLOAD" by (simp add: parser_step_defs word_le_nat_alt)
  with parser_payload_in_bounds[OF parser_static_buffer refl, of "[0xAA, 2, 3, 0, 9, 1]"]
  show ?thesis by (simp add: Let_def)
qed

end
