(* ===== verification/Uart.thy ===== *)
theory Uart
  imports Gpio
begin

text \<open>
  \<^verbatim>\<open>drivers/uart/src/uart.c\<close>: the USART1 driver with its two single-producer
  single-consumer rings. The static variables are the record \<open>uart\<close>; the registers are in
  the machine state. Each ring is proved to be a bounded FIFO of 511 bytes, through the
  interface locale \<open>bounded_fifo\<close> below, interpreted once for each direction.
\<close>

subsection \<open>A bounded FIFO\<close>

text \<open>
  The contract of a ring: \<open>put\<close> appends unless the queue is full, in which case it drops the
  item; \<open>get\<close> takes the oldest item. The clients of the rings use only these laws.
\<close>

locale bounded_fifo =
  fixes invar :: "'q \<Rightarrow> bool"
    and contents :: "'q \<Rightarrow> 'a list"
    and cap :: nat
    and put :: "'a \<Rightarrow> 'q \<Rightarrow> 'q"
    and get :: "'q \<Rightarrow> ('a \<times> 'q) option"
  assumes invar_put: "invar q \<Longrightarrow> invar (put x q)"
    and contents_put: "invar q \<Longrightarrow>
      contents (put x q) = (if length (contents q) < cap then contents q @ [x] else contents q)"
    and get_None: "invar q \<Longrightarrow> get q = None \<longleftrightarrow> contents q = []"
    and get_Some: "invar q \<Longrightarrow> get q = Some (x, q') \<Longrightarrow> invar q' \<and> contents q = x # contents q'"
    and contents_cap: "invar q \<Longrightarrow> length (contents q) \<le> cap"
begin

lemma put_all:
  "invar q \<Longrightarrow> invar (fold put xs q) \<and>
     contents (fold put xs q) = contents q @ take (cap - length (contents q)) xs"
proof (induction xs arbitrary: q)
  case Nil
  then show ?case by simp
next
  case (Cons x xs)
  have inv: "invar (put x q)" using Cons.prems by (rule invar_put)
  show ?case
  proof (cases "length (contents q) < cap")
    case True
    then obtain k where "cap - length (contents q) = Suc k" by (cases "cap - length (contents q)") auto
    moreover from this have "cap - Suc (length (contents q)) = k" by simp
    ultimately show ?thesis
      using Cons.IH[OF inv] True Cons.prems by (simp add: contents_put)
  next
    case False
    then show ?thesis
      using Cons.IH[OF inv] Cons.prems by (simp add: contents_put)
  qed
qed

text \<open>
  Any schedule of the two sides: \<open>Some x\<close> is a \<open>put\<close> of the producer, \<open>None\<close> a \<open>get\<close> of the
  consumer. Nothing is lost, duplicated or reordered: what came out, followed by what is
  still queued, is what was queued followed by what was accepted.
\<close>

primrec schedule :: "'a option list \<Rightarrow> 'q \<Rightarrow> 'a list \<times> 'a list \<times> 'q" where
  "schedule [] q = ([], [], q)"
| "schedule (op # ops) q =
     (case op of
        Some x \<Rightarrow>
          (let (acc, outs, q') = schedule ops (put x q)
           in (if length (contents q) < cap then x # acc else acc, outs, q'))
      | None \<Rightarrow>
          (case get q of
             None \<Rightarrow> schedule ops q
           | Some (x, q1) \<Rightarrow> (let (acc, outs, q') = schedule ops q1 in (acc, x # outs, q'))))"

lemma schedule_fifo:
  "invar q \<Longrightarrow> schedule ops q = (acc, outs, q') \<Longrightarrow>
     invar q' \<and> outs @ contents q' = contents q @ acc"
proof (induction ops arbitrary: q acc outs)
  case Nil
  then show ?case by simp
next
  case (Cons op ops)
  show ?case
  proof (cases op)
    case (Some x)
    obtain acc1 where s: "schedule ops (put x q) = (acc1, outs, q')"
      and acc: "acc = (if length (contents q) < cap then x # acc1 else acc1)"
      using Cons.prems(2) Some by (auto split: prod.splits)
    from Cons.IH[OF invar_put[OF Cons.prems(1)] s] show ?thesis
      using Cons.prems(1) acc by (auto simp: contents_put)
  next
    case None
    show ?thesis
    proof (cases "get q")
      case None
      with \<open>op = None\<close> Cons show ?thesis by simp
    next
      case (Some r)
      obtain x q1 where g: "get q = Some (x, q1)" using Some by (cases r) auto
      obtain outs1 where s: "schedule ops q1 = (acc, outs1, q')" and o: "outs = x # outs1"
        using Cons.prems(2) \<open>op = None\<close> g by (auto split: prod.splits)
      from get_Some[OF Cons.prems(1) g] have "invar q1" "contents q = x # contents q1" by auto
      with Cons.IH[OF _ s] o show ?thesis by simp
    qed
  qed
qed

end

subsection \<open>State and operations of the driver\<close>

record uart =
  rx_buf :: "u8 list"
  rx_head :: u16
  rx_tail :: u16
  tx_buf :: "u8 list"
  tx_head :: u16
  tx_tail :: u16
  rx_notify_task :: "nat option"

abbreviation (input) UART_BUFFER_SIZE :: nat where "UART_BUFFER_SIZE \<equiv> 512"
abbreviation (input) UART_BUFFER_MASK :: u16 where "UART_BUFFER_MASK \<equiv> 511"

text \<open>\<^verbatim>\<open>(uint16_t)((i + 1U) & MASK)\<close>\<close>

definition ring_next :: "u16 \<Rightarrow> u16" where
  "ring_next i = (i + 1) AND UART_BUFFER_MASK"

abbreviation (input) UART_TX_PIN :: u8 where "UART_TX_PIN \<equiv> 9"
abbreviation (input) UART_RX_PIN :: u8 where "UART_RX_PIN \<equiv> 10"
abbreviation (input) UART_GPIO_AF_USART1 :: u32 where "UART_GPIO_AF_USART1 \<equiv> 7"
abbreviation (input) UART_BAUD_RATE :: u32 where "UART_BAUD_RATE \<equiv> 115200"
abbreviation (input) UART_PCLK2_HZ :: u32 where "UART_PCLK2_HZ \<equiv> 84000000"
abbreviation (input) UART_IRQ_PRIORITY :: u32 where "UART_IRQ_PRIORITY \<equiv> 6"

definition uart_init :: "cmsis \<Rightarrow> mcu \<Rightarrow> mcu" where
  "uart_init M m =
     (let m = reg_or RCC_AHB1ENR (rccm M RCC_AHB1ENR_GPIOAEN) m;
          m = reg_or RCC_APB2ENR (rccm M RCC_APB2ENR_USART1EN) m;
          m = GPIO_SET_MODER GPIOA UART_TX_PIN GPIO_MODER_AF m;
          m = GPIO_SET_MODER GPIOA UART_RX_PIN GPIO_MODER_AF m;
          m = GPIO_SET_AF GPIOA UART_TX_PIN UART_GPIO_AF_USART1 m;
          m = GPIO_SET_AF GPIOA UART_RX_PIN UART_GPIO_AF_USART1 m;
          m = wr (USART1 USART_BRR) (UART_PCLK2_HZ div UART_BAUD_RATE) m;
          m = wr (USART1 USART_CR1)
                (usartm M USART_CR1_TE OR usartm M USART_CR1_RE OR
                 usartm M USART_CR1_RXNEIE OR usartm M USART_CR1_UE) m;
          m = emit (NVIC_SetPriority USART1_IRQn UART_IRQ_PRIORITY) m
      in emit (NVIC_EnableIRQ USART1_IRQn) m)"

definition uart_set_rx_notify_task :: "nat option \<Rightarrow> uart \<Rightarrow> uart" where
  "uart_set_rx_notify_task task u = u\<lparr>rx_notify_task := task\<rparr>"

text \<open>The out parameter is written only on success.\<close>

definition uart_rx_pop :: "uart \<Rightarrow> err_code \<times> u8 option \<times> uart" where
  "uart_rx_pop u =
     (let tail = rx_tail u in
      if tail = rx_head u then (ERR_EMPTY, None, u)
      else (ERR_SUCCESS, Some (rx_buf u ! unat tail), u\<lparr>rx_tail := ring_next tail\<rparr>))"

text \<open>The loop of \<open>uart_tx_push\<close>: \<open>data\<close> is what is left, \<open>pushed\<close> the counter.\<close>

fun uart_tx_push_loop :: "u8 list \<Rightarrow> nat \<Rightarrow> uart \<Rightarrow> nat \<times> uart" where
  "uart_tx_push_loop [] pushed u = (pushed, u)"
| "uart_tx_push_loop (b # data) pushed u =
     (let head = tx_head u; nxt = ring_next head in
      if nxt = tx_tail u then (pushed, u)
      else uart_tx_push_loop data (Suc pushed)
             (u\<lparr>tx_buf := (tx_buf u)[unat head := b], tx_head := nxt\<rparr>))"

definition uart_tx_push ::
    "cmsis \<Rightarrow> u8 list \<Rightarrow> mcu \<Rightarrow> uart \<Rightarrow> err_code \<times> nat \<times> mcu \<times> uart" where
  "uart_tx_push M data m u =
     (let (pushed, u') = uart_tx_push_loop data 0 u
      in (ERR_SUCCESS, pushed,
          if pushed > 0 then reg_or (USART1 USART_CR1) (usartm M USART_CR1_TXEIE) m else m,
          u'))"

text \<open>The receive half of the interrupt handler, for the byte read from DR.\<close>

definition uart_rx_isr :: "u8 \<Rightarrow> uart \<Rightarrow> uart" where
  "uart_rx_isr b u =
     (let head = rx_head u; nxt = ring_next head in
      if nxt \<noteq> rx_tail u then u\<lparr>rx_buf := (rx_buf u)[unat head := b], rx_head := nxt\<rparr> else u)"

text \<open>The transmit half: the byte handed to DR, or \<open>None\<close> when the ring is empty.\<close>

definition uart_tx_isr :: "uart \<Rightarrow> (u8 \<times> uart) option" where
  "uart_tx_isr u =
     (let tail = tx_tail u in
      if tail = tx_head u then None
      else Some (tx_buf u ! unat tail, u\<lparr>tx_tail := ring_next tail\<rparr>))"

text \<open>
  \<open>USART1_IRQHandler\<close>: \<open>sr\<close> is the value read from SR on entry, \<open>dr\<close> the value a read of DR
  returns. The handler is the receive part followed by the transmit part.
\<close>

definition usart1_irq_rx :: "cmsis \<Rightarrow> u32 \<Rightarrow> u32 \<Rightarrow> mcu \<Rightarrow> uart \<Rightarrow> mcu \<times> uart" where
  "usart1_irq_rx M sr dr m u =
     (if sr AND usartm M USART_SR_RXNE \<noteq> 0
      then let m = emit (Rd (USART1 USART_DR)) m; u' = uart_rx_isr (ucast dr) u in
           (case rx_notify_task u' of
              None \<Rightarrow> (m, u')
            | Some t \<Rightarrow> (emit (TaskNotifyGiveFromISR t) m, u'))
      else if sr AND usartm M USART_SR_ORE \<noteq> 0 then (emit (Rd (USART1 USART_DR)) m, u)
      else (m, u))"

definition usart1_irq_tx :: "cmsis \<Rightarrow> u32 \<Rightarrow> mcu \<Rightarrow> uart \<Rightarrow> mcu \<times> uart" where
  "usart1_irq_tx M sr m u =
     (if sr AND usartm M USART_SR_TXE \<noteq> 0 \<and>
         regs m (USART1 USART_CR1) AND usartm M USART_CR1_TXEIE \<noteq> 0
      then (case uart_tx_isr u of
              None \<Rightarrow> (reg_clear (USART1 USART_CR1) (usartm M USART_CR1_TXEIE) m, u)
            | Some (b, u') \<Rightarrow> (wr (USART1 USART_DR) (ucast b) m, u'))
      else (m, u))"

definition USART1_IRQHandler :: "cmsis \<Rightarrow> u32 \<Rightarrow> u32 \<Rightarrow> mcu \<Rightarrow> uart \<Rightarrow> mcu \<times> uart" where
  "USART1_IRQHandler M sr dr m u =
     (let (m1, u1) = usart1_irq_rx M sr dr m u in usart1_irq_tx M sr m1 u1)"

subsection \<open>The rings as FIFOs\<close>

text \<open>The queued bytes: from \<open>tail\<close> up to, not including, \<open>head\<close>, wrapping at 512.\<close>

definition ring_slice :: "u8 list \<Rightarrow> nat \<Rightarrow> nat \<Rightarrow> u8 list" where
  "ring_slice buf head tail =
     map (\<lambda>k. buf ! ((tail + k) mod UART_BUFFER_SIZE))
       [0 ..< (head + UART_BUFFER_SIZE - tail) mod UART_BUFFER_SIZE]"

definition rx_contents :: "uart \<Rightarrow> u8 list" where
  "rx_contents u = ring_slice (rx_buf u) (unat (rx_head u)) (unat (rx_tail u))"

definition tx_contents :: "uart \<Rightarrow> u8 list" where
  "tx_contents u = ring_slice (tx_buf u) (unat (tx_head u)) (unat (tx_tail u))"

definition uart_inv :: "uart \<Rightarrow> bool" where
  "uart_inv u \<longleftrightarrow>
     length (rx_buf u) = UART_BUFFER_SIZE \<and> length (tx_buf u) = UART_BUFFER_SIZE \<and>
     unat (rx_head u) < UART_BUFFER_SIZE \<and> unat (rx_tail u) < UART_BUFFER_SIZE \<and>
     unat (tx_head u) < UART_BUFFER_SIZE \<and> unat (tx_tail u) < UART_BUFFER_SIZE"

text \<open>The rings as the C start-up code leaves the zero-initialised statics.\<close>

definition uart_init_state :: uart where
  "uart_init_state = \<lparr>rx_buf = replicate UART_BUFFER_SIZE 0, rx_head = 0, rx_tail = 0,
     tx_buf = replicate UART_BUFFER_SIZE 0, tx_head = 0, tx_tail = 0, rx_notify_task = None\<rparr>"

lemma unat_ring_next: "unat (ring_next i) = (unat i + 1) mod UART_BUFFER_SIZE"
proof -
  have "ring_next i = take_bit 9 (i + 1)"
    by (simp add: ring_next_def take_bit_eq_mask mask_numeral)
  then have "unat (ring_next i) = take_bit 9 (unat (i + 1))"
    by (simp add: unsigned_take_bit_eq)
  also have "\<dots> = (unat i + 1) mod 65536 mod 512"
    by (simp add: take_bit_eq_mod unat_word_ariths)
  also have "\<dots> = (unat i + 1) mod 512" by (simp add: mod_mod_cancel)
  finally show ?thesis .
qed

lemma length_ring_slice [simp]:
  "length (ring_slice buf head tail) = (head + UART_BUFFER_SIZE - tail) mod UART_BUFFER_SIZE"
  by (simp add: ring_slice_def)

text \<open>The number of queued bytes, and how the two index movements change it.\<close>

lemma ring_count_cases:
  assumes "h < 512" "t < (512 :: nat)"
  shows "(h + 512 - t) mod 512 = (if t \<le> h then h - t else h + 512 - t)"
proof (cases "t \<le> h")
  case True
  then have "h + 512 - t = (h - t) + 512" by simp
  then have "(h + 512 - t) mod 512 = (h - t) mod 512" by (simp only: mod_add_self2)
  with True assms show ?thesis by simp
next
  case False
  with assms show ?thesis by simp
qed

lemma ring_next_cases: "h < 512 \<Longrightarrow> Suc h mod 512 = (if h = 511 then 0 else Suc h)"
  by auto

lemma ring_full_iff:
  assumes "h < 512" "t < (512 :: nat)"
  shows "(h + 1) mod 512 = t \<longleftrightarrow> (h + 512 - t) mod 512 = 511"
  using assms by (auto simp: ring_count_cases ring_next_cases)

lemma ring_empty_iff:
  assumes "h < 512" "t < (512 :: nat)"
  shows "(h + 512 - t) mod 512 = 0 \<longleftrightarrow> h = t"
  using assms by (auto simp: ring_count_cases)

lemma ring_count_put:
  assumes "h < 512" "t < (512 :: nat)" "(h + 1) mod 512 \<noteq> t"
  shows "((h + 1) mod 512 + 512 - t) mod 512 = Suc ((h + 512 - t) mod 512)"
  using assms by (auto simp: ring_count_cases ring_next_cases split: if_splits)

lemma ring_count_get:
  assumes "h < 512" "t < (512 :: nat)" "h \<noteq> t"
  shows "(h + 512 - t) mod 512 = Suc ((h + 512 - (t + 1) mod 512) mod 512)"
  using assms by (auto simp: ring_count_cases ring_next_cases split: if_splits)

lemma ring_index_last:
  assumes "h < 512" "t < (512 :: nat)"
  shows "(t + (h + 512 - t) mod 512) mod 512 = h"
  using assms by (auto simp: ring_count_cases)

lemma ring_index_not_last:
  assumes "h < 512" "t < (512 :: nat)" "k < (h + 512 - t) mod 512"
  shows "(t + k) mod 512 \<noteq> h"
proof (cases "t + k < 512")
  case True
  with assms show ?thesis by (auto simp: ring_count_cases split: if_splits)
next
  case False
  then have "(t + k) mod 512 = t + k - 512"
    using assms by (simp add: ring_count_cases le_mod_geq split: if_splits)
  with assms False show ?thesis by (auto simp: ring_count_cases split: if_splits)
qed

lemma ring_slice_empty:
  assumes "h < 512" "t < 512"
  shows "ring_slice buf h t = [] \<longleftrightarrow> h = t"
  using ring_empty_iff[OF assms] by (simp add: ring_slice_def)

lemma ring_slice_put:
  assumes "h < 512" "t < 512" "(h + 1) mod 512 \<noteq> t" "length buf = 512"
  shows "ring_slice (buf[h := b]) ((h + 1) mod 512) t = ring_slice buf h t @ [b]"
proof -
  let ?n = "(h + 512 - t) mod 512"
  have "ring_slice (buf[h := b]) ((h + 1) mod 512) t
      = map (\<lambda>k. buf[h := b] ! ((t + k) mod 512)) [0 ..< ?n] @ [buf[h := b] ! ((t + ?n) mod 512)]"
    by (simp only: ring_slice_def ring_count_put[OF assms(1-3)]) simp
  also have "map (\<lambda>k. buf[h := b] ! ((t + k) mod 512)) [0 ..< ?n] = ring_slice buf h t"
    unfolding ring_slice_def
    by (rule map_cong[OF refl]) (metis atLeastLessThan_iff atLeast_upt lessThan_iff
      nth_list_update_neq ring_index_not_last[OF assms(1,2)])
  also have "buf[h := b] ! ((t + ?n) mod 512) = b"
    using ring_index_last[OF assms(1,2)] assms by simp
  finally show ?thesis .
qed

lemma ring_slice_get:
  assumes "h < 512" "t < 512" "h \<noteq> t"
  shows "ring_slice buf h t = buf ! t # ring_slice buf h ((t + 1) mod 512)"
proof -
  let ?n = "(h + 512 - (t + 1) mod 512) mod 512"
  have "ring_slice buf h t = map (\<lambda>k. buf ! ((t + k) mod 512)) (0 # map Suc [0 ..< ?n])"
    by (simp only: ring_slice_def ring_count_get[OF assms] map_Suc_upt upt_conv_Cons zero_less_Suc)
  also have "\<dots> = buf ! t # map (\<lambda>k. buf ! ((t + Suc k) mod 512)) [0 ..< ?n]"
    using assms(2) by simp
  also have "map (\<lambda>k. buf ! ((t + Suc k) mod 512)) [0 ..< ?n] = ring_slice buf h ((t + 1) mod 512)"
    by (simp add: ring_slice_def mod_add_left_eq)
  finally show ?thesis .
qed

subsection \<open>Each operation on its ring\<close>

lemmas uart_ring_defs =
  rx_contents_def tx_contents_def uart_inv_def uart_rx_isr_def uart_tx_isr_def uart_rx_pop_def

lemma ring_next_eq_iff: "ring_next i = j \<longleftrightarrow> (unat i + 1) mod 512 = unat j"
  by (simp only: word_unat_eq_iff unat_ring_next)

lemma uart_inv_init: "uart_inv uart_init_state"
  and rx_contents_init: "rx_contents uart_init_state = []"
  and tx_contents_init: "tx_contents uart_init_state = []"
  by (simp_all add: uart_inv_def uart_init_state_def rx_contents_def tx_contents_def ring_slice_def)

text \<open>The step of the transmit producer: one iteration of the loop of \<open>uart_tx_push\<close>.\<close>

definition uart_tx_put :: "u8 \<Rightarrow> uart \<Rightarrow> uart" where
  "uart_tx_put b u = snd (uart_tx_push_loop [b] 0 u)"

text \<open>The step of the receive consumer, as an optional byte.\<close>

definition uart_rx_get :: "uart \<Rightarrow> (u8 \<times> uart) option" where
  "uart_rx_get u = (case uart_rx_pop u of (_, Some b, u') \<Rightarrow> Some (b, u') | (_, None, _) \<Rightarrow> None)"

lemma uart_rx_isr_inv: "uart_inv u \<Longrightarrow> uart_inv (uart_rx_isr b u)"
  by (auto simp: uart_inv_def uart_rx_isr_def Let_def unat_ring_next)

lemma uart_tx_put_inv: "uart_inv u \<Longrightarrow> uart_inv (uart_tx_put b u)"
  by (auto simp: uart_inv_def uart_tx_put_def Let_def unat_ring_next)

lemma uart_rx_isr_contents:
  assumes "uart_inv u"
  shows "rx_contents (uart_rx_isr b u) =
    (if length (rx_contents u) < 511 then rx_contents u @ [b] else rx_contents u)"
proof -
  let ?h = "unat (rx_head u)" and ?t = "unat (rx_tail u)"
  have b: "?h < 512" "?t < 512" "length (rx_buf u) = 512" using assms by (auto simp: uart_inv_def)
  have len: "length (rx_contents u) = (?h + 512 - ?t) mod 512" by (simp add: rx_contents_def)
  have "(?h + 512 - ?t) mod 512 < 512" by simp
  then have full: "length (rx_contents u) < 511 \<longleftrightarrow> (?h + 1) mod 512 \<noteq> ?t"
    unfolding ring_full_iff[OF b(1,2)] len by linarith
  show ?thesis
    using ring_slice_put[OF b(1,2) _ b(3), of b] full
    by (auto simp: rx_contents_def uart_rx_isr_def Let_def ring_next_eq_iff unat_ring_next)
qed

lemma uart_tx_put_contents:
  assumes "uart_inv u"
  shows "tx_contents (uart_tx_put b u) =
    (if length (tx_contents u) < 511 then tx_contents u @ [b] else tx_contents u)"
proof -
  let ?h = "unat (tx_head u)" and ?t = "unat (tx_tail u)"
  have b: "?h < 512" "?t < 512" "length (tx_buf u) = 512" using assms by (auto simp: uart_inv_def)
  have len: "length (tx_contents u) = (?h + 512 - ?t) mod 512" by (simp add: tx_contents_def)
  have "(?h + 512 - ?t) mod 512 < 512" by simp
  then have full: "length (tx_contents u) < 511 \<longleftrightarrow> (?h + 1) mod 512 \<noteq> ?t"
    unfolding ring_full_iff[OF b(1,2)] len by linarith
  show ?thesis
    using ring_slice_put[OF b(1,2) _ b(3), of b] full
    by (auto simp: tx_contents_def uart_tx_put_def Let_def ring_next_eq_iff unat_ring_next)
qed

lemma uart_rx_get_None: "uart_inv u \<Longrightarrow> uart_rx_get u = None \<longleftrightarrow> rx_contents u = []"
  by (auto simp: uart_inv_def uart_rx_get_def uart_rx_pop_def rx_contents_def Let_def
      ring_slice_empty word_unat_eq_iff)

lemma uart_tx_isr_None: "uart_inv u \<Longrightarrow> uart_tx_isr u = None \<longleftrightarrow> tx_contents u = []"
  by (auto simp: uart_inv_def uart_tx_isr_def tx_contents_def Let_def ring_slice_empty
      word_unat_eq_iff)

lemma uart_rx_get_Some:
  assumes "uart_inv u" "uart_rx_get u = Some (b, u')"
  shows "uart_inv u' \<and> rx_contents u = b # rx_contents u'"
  using assms ring_slice_get[of "unat (rx_head u)" "unat (rx_tail u)" "rx_buf u"]
  by (auto simp: uart_inv_def uart_rx_get_def uart_rx_pop_def rx_contents_def Let_def
      word_unat_eq_iff unat_ring_next split: if_splits)

lemma uart_tx_isr_Some:
  assumes "uart_inv u" "uart_tx_isr u = Some (b, u')"
  shows "uart_inv u' \<and> tx_contents u = b # tx_contents u'"
  using assms ring_slice_get[of "unat (tx_head u)" "unat (tx_tail u)" "tx_buf u"]
  by (auto simp: uart_inv_def uart_tx_isr_def tx_contents_def Let_def
      word_unat_eq_iff unat_ring_next split: if_splits)

lemma ring_count_le: "(h + 512 - t) mod 512 \<le> (511 :: nat)"
  using mod_less_divisor[of 512 "h + 512 - t"] by linarith

lemma length_rx_contents_le: "length (rx_contents u) \<le> 511"
  and length_tx_contents_le: "length (tx_contents u) \<le> 511"
  by (simp_all add: rx_contents_def tx_contents_def ring_count_le)

interpretation rxq: bounded_fifo uart_inv rx_contents 511 uart_rx_isr uart_rx_get
  by unfold_locales
     (auto simp: uart_rx_isr_inv uart_rx_isr_contents uart_rx_get_None length_rx_contents_le
       dest: uart_rx_get_Some)

interpretation txq: bounded_fifo uart_inv tx_contents 511 uart_tx_put uart_tx_isr
  by unfold_locales
     (auto simp: uart_tx_put_inv uart_tx_put_contents uart_tx_isr_None length_tx_contents_le
       dest: uart_tx_isr_Some)

subsection \<open>Bulk enqueue\<close>

lemma uart_tx_put_full: "ring_next (tx_head u) = tx_tail u \<Longrightarrow> uart_tx_put b u = u"
  by (simp add: uart_tx_put_def)

lemma fold_uart_tx_put_full: "ring_next (tx_head u) = tx_tail u \<Longrightarrow> fold uart_tx_put bs u = u"
  by (induction bs) (simp_all add: uart_tx_put_full)

text \<open>The loop with its early exit puts every byte in turn; what does not fit is dropped.\<close>

lemma uart_tx_push_loop_full:
  "ring_next (tx_head u) = tx_tail u \<Longrightarrow> uart_tx_push_loop bs n u = (n, u)"
  by (cases bs) simp_all

lemma uart_tx_push_loop_step:
  "ring_next (tx_head u) \<noteq> tx_tail u \<Longrightarrow>
     uart_tx_push_loop (b # bs) n u = uart_tx_push_loop bs (Suc n) (uart_tx_put b u)"
  by (simp add: uart_tx_put_def Let_def)

lemma uart_tx_push_loop_state: "snd (uart_tx_push_loop bs n u) = fold uart_tx_put bs u"
proof (induction bs arbitrary: n u)
  case (Cons b bs)
  then show ?case
    by (cases "ring_next (tx_head u) = tx_tail u")
       (simp_all only: fold_uart_tx_put_full uart_tx_push_loop_full uart_tx_push_loop_step
         fold_simps snd_conv uart_tx_put_full not_False_eq_True)
qed simp

lemma uart_tx_push_loop_contents:
  assumes "uart_inv u"
  shows "uart_inv (snd (uart_tx_push_loop bs n u)) \<and>
    tx_contents (snd (uart_tx_push_loop bs n u)) =
      tx_contents u @ take (511 - length (tx_contents u)) bs"
  unfolding uart_tx_push_loop_state using txq.put_all[OF assms] .

lemma tx_full_iff:
  assumes "uart_inv u"
  shows "ring_next (tx_head u) = tx_tail u \<longleftrightarrow> length (tx_contents u) = 511"
  using assms by (simp only: ring_next_eq_iff) (simp add: tx_contents_def uart_inv_def ring_full_iff[simplified])

lemma uart_tx_push_loop_count:
  assumes "uart_inv u"
  shows "fst (uart_tx_push_loop bs n u) = n + min (length bs) (511 - length (tx_contents u))"
  using assms
proof (induction bs arbitrary: n u)
  case (Cons b bs)
  show ?case
  proof (cases "ring_next (tx_head u) = tx_tail u")
    case True
    then show ?thesis
      using tx_full_iff[OF Cons.prems] by (simp only: uart_tx_push_loop_full) simp
  next
    case False
    have "fst (uart_tx_push_loop (b # bs) n u) =
        Suc n + min (length bs) (511 - length (tx_contents (uart_tx_put b u)))"
      by (simp only: uart_tx_push_loop_step[OF False] Cons.IH[OF uart_tx_put_inv[OF Cons.prems]])
    moreover have "length (tx_contents u) < 511"
      using False tx_full_iff[OF Cons.prems] length_tx_contents_le[of u] by linarith
    ultimately show ?thesis
      using uart_tx_put_contents[OF Cons.prems, of b] by simp
  qed
qed simp

text \<open>
  \<open>uart_tx_push\<close>: always \<open>ERR_SUCCESS\<close>; \<open>pushed\<close> is the number of bytes that fit, the queue grows
  by exactly that prefix, and the transmit interrupt is enabled when there is one.
\<close>

lemma uart_tx_push_spec:
  assumes "uart_inv u" "uart_tx_push M bs m u = (e, n, m', u')"
  shows "e = ERR_SUCCESS" "n = min (length bs) (511 - length (tx_contents u))"
    "uart_inv u'" "tx_contents u' = tx_contents u @ take n bs"
    "m' = (if 0 < n then reg_or (USART1 USART_CR1) (usartm M USART_CR1_TXEIE) m else m)"
proof -
  have n: "n = fst (uart_tx_push_loop bs 0 u)" and u': "u' = snd (uart_tx_push_loop bs 0 u)"
    and "e = ERR_SUCCESS"
    and m': "m' = (if 0 < n then reg_or (USART1 USART_CR1) (usartm M USART_CR1_TXEIE) m else m)"
    using assms(2) by (auto simp: uart_tx_push_def Let_def split: prod.splits)
  then show "e = ERR_SUCCESS"
    "m' = (if 0 < n then reg_or (USART1 USART_CR1) (usartm M USART_CR1_TXEIE) m else m)" by auto
  show count: "n = min (length bs) (511 - length (tx_contents u))"
    using n uart_tx_push_loop_count[OF assms(1), of bs 0] by simp
  show "uart_inv u'" using u' uart_tx_push_loop_contents[OF assms(1)] by simp
  have "tx_contents u' = tx_contents u @ take (511 - length (tx_contents u)) bs"
    using u' uart_tx_push_loop_contents[OF assms(1)] by simp
  then show "tx_contents u' = tx_contents u @ take n bs"
    unfolding count by (simp add: min_def)
qed

lemma uart_tx_push_rx: "rx_contents (snd (uart_tx_push_loop bs n u)) = rx_contents u"
  by (induction bs n u rule: uart_tx_push_loop.induct) (simp_all add: Let_def rx_contents_def)

lemma uart_tx_isr_rx: "uart_tx_isr u = Some (b, u') \<Longrightarrow> rx_contents u' = rx_contents u"
  by (auto simp: uart_tx_isr_def Let_def rx_contents_def split: if_splits)

lemma uart_rx_isr_tx: "tx_contents (uart_rx_isr b u) = tx_contents u"
  by (simp add: uart_rx_isr_def Let_def tx_contents_def)

lemma uart_rx_pop_tx: "uart_rx_pop u = (e, r, u') \<Longrightarrow> tx_contents u' = tx_contents u"
  by (auto simp: uart_rx_pop_def Let_def tx_contents_def split: if_splits)

end
