(* ===== verification/Protocol_Encoder.thy ===== *)
theory Protocol_Encoder
  imports Protocol_Parser Uart
begin

text \<open>
  \<^verbatim>\<open>protocol/src/protocol_encoder.c\<close>: building a response frame in a stack buffer and queueing
  it on the UART. A store or load outside a buffer is \<open>None\<close>. The lemmas show that
  \<open>build_frame\<close> writes exactly the frame of the wire format, that the parser reads every
  frame so built back, and what is queued when the transmit ring has too little room.
\<close>

definition build_frame :: "u8 list \<Rightarrow> u8 \<Rightarrow> u8 \<Rightarrow> u8 list \<Rightarrow> u16 \<Rightarrow> (nat \<times> u8 list) option" where
  "build_frame out type seq payload payload_len =
     do {
       out \<leftarrow> store_at PROTO_OFFSET_START PROTO_START_BYTE out;
       out \<leftarrow> store_at PROTO_OFFSET_TYPE type out;
       out \<leftarrow> store_at PROTO_OFFSET_LEN_LO (ucast (payload_len AND 0xFF)) out;
       out \<leftarrow> store_at PROTO_OFFSET_LEN_HI (ucast (drop_bit 8 payload_len)) out;
       out \<leftarrow> store_at PROTO_OFFSET_SEQ seq out;
       out \<leftarrow> (if unat payload_len \<le> length payload
               then store_all PROTO_OFFSET_PAYLOAD (take (unat payload_len) payload) out else None);
       let crc = crc16_ccitt_update CRC16_INIT
                   (take (PROTO_HEADER_SIZE - 1 + unat payload_len) (drop PROTO_OFFSET_TYPE out));
       let crc_off = PROTO_OFFSET_PAYLOAD + unat payload_len;
       out \<leftarrow> store_at crc_off (ucast (crc AND 0xFF)) out;
       out \<leftarrow> store_at (crc_off + 1) (ucast (drop_bit 8 crc)) out;
       Some (PROTO_FRAME_OVERHEAD + unat payload_len, out)
     }"

text \<open>The first \<open>len\<close> bytes of the buffer are pushed.\<close>

definition push_frame :: "cmsis \<Rightarrow> u8 list \<Rightarrow> nat \<Rightarrow> mcu \<Rightarrow> uart \<Rightarrow> err_code \<times> mcu \<times> uart" where
  "push_frame M frame len m u =
     (let (err, pushed, m, u) = uart_tx_push M (take len frame) m u
      in if err \<noteq> ERR_SUCCESS then (err, m, u)
         else (if pushed = len then ERR_SUCCESS else ERR_OUT_OF_RESOURCES, m, u))"

text \<open>
  The local arrays are uninitialised in C; \<open>junk\<close> is what they hold on entry, and its length
  their declared size.
\<close>

definition protocol_send_ack ::
    "cmsis \<Rightarrow> u8 list \<Rightarrow> u8 \<Rightarrow> err_code \<Rightarrow> u8 \<Rightarrow> u8 \<Rightarrow> mcu \<Rightarrow> uart \<Rightarrow> (err_code \<times> mcu \<times> uart) option" where
  "protocol_send_ack M junk cmd_type error_code sensor_id seq m u =
     do {
       let frame = take (PROTO_FRAME_OVERHEAD + RSP_ACK_PAYLOAD_SIZE) junk;
       let payload = [cmd_type, err_byte error_code, sensor_id];
       (n, frame) \<leftarrow> build_frame frame PROTO_TYPE_RSP_ACK seq payload (of_nat RSP_ACK_PAYLOAD_SIZE);
       Some (push_frame M frame n m u)
     }"

definition protocol_send_error ::
    "cmsis \<Rightarrow> u8 list \<Rightarrow> u8 \<Rightarrow> err_code \<Rightarrow> u8 \<Rightarrow> mcu \<Rightarrow> uart \<Rightarrow> (err_code \<times> mcu \<times> uart) option" where
  "protocol_send_error M junk sensor_id error_code seq m u =
     do {
       let frame = take (PROTO_FRAME_OVERHEAD + RSP_ERROR_PAYLOAD_SIZE) junk;
       let payload = [sensor_id, err_byte error_code];
       (n, frame) \<leftarrow> build_frame frame PROTO_TYPE_RSP_ERROR seq payload (of_nat RSP_ERROR_PAYLOAD_SIZE);
       Some (push_frame M frame n m u)
     }"

lemma split_buffer:
  assumes "7 + n \<le> length out"
  shows "\<exists>a b c d e mid x y post. out = a # b # c # d # e # mid @ x # y # post \<and> length mid = n"
proof -
  obtain a b c d e r where out: "out = a # b # c # d # e # r" and r: "n + 2 \<le> length r"
    using assms by (auto simp: numeral_eq_Suc Suc_le_length_iff)
  have "2 \<le> length (drop n r)" using r by simp
  then obtain x y post where "drop n r = x # y # post"
    by (metis Suc_le_length_iff numeral_2_eq_2)
  then have "r = take n r @ x # y # post" by (metis append_take_drop_id)
  moreover have "length (take n r) = n" using r by simp
  ultimately show ?thesis using out by blast
qed

lemma ucast_low_byte: "(ucast (v AND 0xFF) :: u8) = ucast (v :: u16)"
proof -
  have "v AND 0xFF = take_bit 8 v" by (simp add: take_bit_eq_mask mask_numeral)
  then show ?thesis by (simp only:) (rule bit_word_eqI, auto simp: bit_simps)
qed

lemma build_frame_encode:
  assumes "length payload = unat payload_len" "PROTO_FRAME_OVERHEAD + length payload \<le> length out"
  shows "build_frame out type seq payload payload_len =
    Some (PROTO_FRAME_OVERHEAD + length payload,
          encode_frame (type, seq, payload) @ drop (PROTO_FRAME_OVERHEAD + length payload) out)"
proof -
  obtain a b c d e mid x y post
    where out: "out = a # b # c # d # e # mid @ x # y # post" and mid: "length mid = length payload"
    using split_buffer[OF assms(2)] by blast
  let ?hdr = "[PROTO_START_BYTE, type, ucast payload_len, ucast (drop_bit 8 payload_len), seq]"
  have five: "length ?hdr = 5" by simp
  have len: "word_of_nat (length payload) = payload_len" using assms(1) by simp
  have copy: "store_all 5 payload (?hdr @ mid @ x # y # post) = Some (?hdr @ payload @ x # y # post)"
    using store_all_append[OF mid, of ?hdr "x # y # post"] unfolding five .
  have s1: "store_at (5 + length payload) v (?hdr @ payload @ x # y # post) =
      Some (?hdr @ payload @ v # y # post)" for v
    using store_at_append[of "?hdr @ payload" v x "y # post"]
    by (simp only: length_append five append_assoc)
  have s2: "store_at (Suc (5 + length payload)) w (?hdr @ payload @ v # y # post) =
      Some (?hdr @ payload @ v # w # post)" for v w
    using store_at_append[of "?hdr @ payload @ [v]" w y post]
    by (simp add: numeral_eq_Suc)
  have hdr:
    "store_at 0 PROTO_START_BYTE out = Some (PROTO_START_BYTE # b # c # d # e # mid @ x # y # post)"
    "store_at (Suc 0) type (PROTO_START_BYTE # b # c # d # e # mid @ x # y # post) =
       Some (PROTO_START_BYTE # type # c # d # e # mid @ x # y # post)"
    "store_at 2 l (PROTO_START_BYTE # type # c # d # e # mid @ x # y # post) =
       Some (PROTO_START_BYTE # type # l # d # e # mid @ x # y # post)"
    "store_at 3 h (PROTO_START_BYTE # type # l # d # e # mid @ x # y # post) =
       Some (PROTO_START_BYTE # type # l # h # e # mid @ x # y # post)"
    "store_at 4 seq (PROTO_START_BYTE # type # l # h # e # mid @ x # y # post) =
       Some (PROTO_START_BYTE # type # l # h # seq # mid @ x # y # post)" for l h
    by (simp_all add: out store_at_def)
  have tail: "drop (7 + length payload) out = post"
    using mid by (simp add: out numeral_eq_Suc)
  have covered: "take (4 + length payload) (type # l # h # seq # payload @ x # y # post) =
      type # l # h # seq # payload" for l h
    by (simp add: numeral_eq_Suc)
  show ?thesis
    using copy s1 s2 mid
    by (simp add: build_frame_def hdr tail covered assms(1)[symmetric] ucast_low_byte Let_def
        encode_frame_def u16_le_def frame_body_def len)
qed

text \<open>A buffer that is too short is written out of bounds; callers always pass one that fits.\<close>

lemma build_frame_overflow:
  assumes "length payload = unat payload_len" "length out < PROTO_FRAME_OVERHEAD + length payload"
  shows "build_frame out type seq payload payload_len = None"
proof -
  have inv: "store_at i v buf = Some buf' \<Longrightarrow> length buf' = length buf \<and> i < length buf"
    for i and v :: u8 and buf buf'
    by (auto simp: store_at_def split: if_splits)
  have inv': "store_all i vs buf = Some buf' \<Longrightarrow> length buf' = length buf" for i and vs buf buf' :: "u8 list"
  proof (induction vs arbitrary: i buf)
    case (Cons v vs)
    then show ?case by (auto simp: bind_eq_Some_conv dest!: inv)
  qed simp
  have "False" if "build_frame out type seq payload payload_len = Some r" for r
    using that assms
    by (auto simp: build_frame_def Let_def bind_eq_Some_conv dest!: inv inv' split: if_splits)
  then show ?thesis by (cases "build_frame out type seq payload payload_len") auto
qed

lemma push_frame_spec:
  assumes "uart_inv u" "len \<le> length frame" "push_frame M frame len m u = (err, m', u')"
  shows "uart_inv u'"
    and "tx_contents u' = tx_contents u @ take (min len (511 - length (tx_contents u))) frame"
    and "err = (if len \<le> 511 - length (tx_contents u) then ERR_SUCCESS else ERR_OUT_OF_RESOURCES)"
proof -
  obtain e n m1 u1 where push: "uart_tx_push M (take len frame) m u = (e, n, m1, u1)"
    by (cases "uart_tx_push M (take len frame) m u") auto
  note spec = uart_tx_push_spec[OF assms(1) push]
  have "u' = u1" "err = (if n = len then ERR_SUCCESS else ERR_OUT_OF_RESOURCES)"
    using assms(3) push spec(1) by (auto simp: push_frame_def)
  with spec(2-4) assms(2) show "uart_inv u'"
    "tx_contents u' = tx_contents u @ take (min len (511 - length (tx_contents u))) frame"
    "err = (if len \<le> 511 - length (tx_contents u) then ERR_SUCCESS else ERR_OUT_OF_RESOURCES)"
    by (auto simp: min_def)
qed

text \<open>The frames the two senders build.\<close>

definition ack_frame :: "u8 \<Rightarrow> err_code \<Rightarrow> u8 \<Rightarrow> u8 \<Rightarrow> frame" where
  "ack_frame cmd_type e sid seq = (PROTO_TYPE_RSP_ACK, seq, [cmd_type, err_byte e, sid])"

definition error_frame :: "u8 \<Rightarrow> err_code \<Rightarrow> u8 \<Rightarrow> frame" where
  "error_frame sid e seq = (PROTO_TYPE_RSP_ERROR, seq, [sid, err_byte e])"

lemma protocol_send_ack_push:
  assumes "length junk = 10"
  shows "protocol_send_ack M junk cmd_type e sid seq m u =
    Some (push_frame M (encode_frame (ack_frame cmd_type e sid seq)) 10 m u)"
  using assms build_frame_encode[of "[cmd_type, err_byte e, sid]" 3 junk PROTO_TYPE_RSP_ACK seq]
  by (simp add: protocol_send_ack_def ack_frame_def)

lemma protocol_send_error_push:
  assumes "length junk = 9"
  shows "protocol_send_error M junk sid e seq m u =
    Some (push_frame M (encode_frame (error_frame sid e seq)) 9 m u)"
  using assms build_frame_encode[of "[sid, err_byte e]" 2 junk PROTO_TYPE_RSP_ERROR seq]
  by (simp add: protocol_send_error_def error_frame_def)

lemma length_ack_frame [simp]: "length (encode_frame (ack_frame c e sid seq)) = 10"
  by (simp add: ack_frame_def)

lemma length_error_frame [simp]: "length (encode_frame (error_frame sid e seq)) = 9"
  by (simp add: error_frame_def)

text \<open>
  An acknowledgement queued with room for it appends exactly its frame; without room it
  reports \<open>ERR_OUT_OF_RESOURCES\<close>, but the prefix that fits has been queued.
\<close>

lemma protocol_send_ack_spec:
  assumes "uart_inv u" "length junk = 10"
    "protocol_send_ack M junk cmd_type e sid seq m u = Some (err, m', u')"
  shows "uart_inv u'"
    and "tx_contents u' = tx_contents u @
      take (511 - length (tx_contents u)) (encode_frame (ack_frame cmd_type e sid seq))"
    and "err = ERR_SUCCESS \<longleftrightarrow> length (tx_contents u) \<le> 501"
proof -
  have "push_frame M (encode_frame (ack_frame cmd_type e sid seq)) 10 m u = (err, m', u')"
    using assms by (simp add: protocol_send_ack_push)
  note spec = push_frame_spec[OF assms(1) _ this]
  show "uart_inv u'" using spec(1) by simp
  show "err = ERR_SUCCESS \<longleftrightarrow> length (tx_contents u) \<le> 501" using spec(3) by auto
  show "tx_contents u' = tx_contents u @
      take (511 - length (tx_contents u)) (encode_frame (ack_frame cmd_type e sid seq))"
    using spec(2) by (auto simp: min_def)
qed

lemma parse_encoded:
  assumes "parser_rel p []" "length pl \<le> PROTO_MAX_PAYLOAD"
  shows "map frame_of (fst (parser_feed_all p (encode_frame (ty, sq, pl)))) = [(ty, sq, pl)] \<and>
    parser_rel (snd (parser_feed_all p (encode_frame (ty, sq, pl)))) []"
  using parser_feed_all_collect[OF assms(1), of "encode_frame (ty, sq, pl)"] collect_encode[OF assms(2)] by simp

text \<open>A run of whole frames, with noise that contains no START byte between them, is parsed back.\<close>

lemma collect_encode_many:
  assumes "list_all (\<lambda>(ns, ty, sq, pl). PROTO_START_BYTE \<notin> set ns \<and> length pl \<le> PROTO_MAX_PAYLOAD) items"
  shows "collect [] (concat (map (\<lambda>(ns, fr). ns @ encode_frame fr) items)) = (map snd items, [])"
  using assms
  by (induction items) (auto simp: collect_append collect_noise collect_encode)

subsection \<open>Properties\<close>

text \<open>C20: for a buffer with room for the frame, \<open>build_frame\<close> stays inside it, returns the frame
  length, writes exactly the wire format of the type, sequence number and payload, and leaves
  the rest of the buffer as it was; with less room it would write out of bounds.\<close>

theorem build_frame_writes_wire_format:
  assumes "length payload = unat payload_len"
  shows "build_frame out type seq payload payload_len =
    (if PROTO_FRAME_OVERHEAD + length payload \<le> length out
     then Some (PROTO_FRAME_OVERHEAD + length payload,
                encode_frame (type, seq, payload) @ drop (PROTO_FRAME_OVERHEAD + length payload) out)
     else None)"
  using build_frame_encode[OF assms] build_frame_overflow[OF assms] by (auto simp: not_le)

theorem build_frame_writes_wire_format_witness:
  "build_frame (replicate 10 0) 0x10 5 [1, 2, 3] 3 = Some (10, encode_frame (0x10, 5, [1, 2, 3]))"
  using build_frame_writes_wire_format[where payload = "[1, 2, 3]" and payload_len = 3 and
      out = "replicate 10 0" and type = "0x10" and seq = 5] by simp

text \<open>Round trip of an acknowledgement: with room in the transmit ring, the bytes that
  \<open>protocol_send_ack\<close> adds to the queue are parsed back by the same parser as one RSP\_ACK frame
  with the sequence number, command type, error code and sensor id that were sent, and the
  error byte determines the error code.\<close>

theorem ack_roundtrip:
  assumes "uart_inv u" "length junk = 10" "length (tx_contents u) \<le> 501" "parser_rel p []"
    and "protocol_send_ack M junk cmd_type e sid seq m u = Some (err, m', u')"
  shows "err = ERR_SUCCESS \<and>
    (\<exists>wire. tx_contents u' = tx_contents u @ wire \<and>
       map frame_of (fst (parser_feed_all p wire)) = [(PROTO_TYPE_RSP_ACK, seq, [cmd_type, err_byte e, sid])] \<and>
       err_of_byte (err_byte e) = Some e)"
proof -
  note spec = protocol_send_ack_spec[OF assms(1,2,5)]
  have "tx_contents u' = tx_contents u @ encode_frame (ack_frame cmd_type e sid seq)"
    using spec(2) assms(3) by simp
  moreover have "map frame_of (fst (parser_feed_all p (encode_frame (ack_frame cmd_type e sid seq)))) =
      [(PROTO_TYPE_RSP_ACK, seq, [cmd_type, err_byte e, sid])]"
    using parse_encoded[OF assms(4), of "[cmd_type, err_byte e, sid]" PROTO_TYPE_RSP_ACK seq]
    by (simp add: ack_frame_def)
  ultimately show ?thesis using spec(3) assms(3) by auto
qed

theorem ack_roundtrip_witness:
  "\<exists>m' u'. protocol_send_ack example_masks (replicate 10 0) 1 ERR_EMPTY 2 3 mcu_reset uart_init_state
      = Some (ERR_SUCCESS, m', u') \<and>
    (\<exists>wire. tx_contents u' = tx_contents uart_init_state @ wire \<and>
       map frame_of (fst (parser_feed_all (protocol_parser_reset parser_static) wire))
         = [(PROTO_TYPE_RSP_ACK, 3, [1, err_byte ERR_EMPTY, 2])])"
proof -
  obtain err m' u' where s: "protocol_send_ack example_masks (replicate 10 0) 1 ERR_EMPTY 2 3 mcu_reset uart_init_state
      = Some (err, m', u')"
    using protocol_send_ack_push[of "replicate 10 0" example_masks 1 ERR_EMPTY 2 3 mcu_reset uart_init_state]
    by (metis length_replicate prod_cases3)
  have "length (tx_contents uart_init_state) \<le> 501" by (simp add: tx_contents_init)
  from ack_roundtrip[OF uart_inv_init _ this parser_rel_reset[OF parser_static_buffer] s] s
  show ?thesis by (metis length_replicate)
qed

text \<open>Without room \<open>protocol_send_ack\<close> reports \<open>ERR_OUT_OF_RESOURCES\<close>, but the bytes that fit
  have been queued: between one and nine free bytes, the peer receives a truncated frame.\<close>

theorem send_ack_truncates:
  assumes "uart_inv u" "length junk = 10" "501 < length (tx_contents u)"
    and "protocol_send_ack M junk cmd_type e sid seq m u = Some (err, m', u')"
  shows "err \<noteq> ERR_SUCCESS \<and>
    tx_contents u' = tx_contents u @
      take (511 - length (tx_contents u)) (encode_frame (ack_frame cmd_type e sid seq)) \<and>
    length (tx_contents u') = 511"
proof -
  note spec = protocol_send_ack_spec[OF assms(1,2,4)]
  have "length (tx_contents u') = 511"
    using spec(2) assms(3) length_tx_contents_le[of u] by (simp add: min_def)
  with spec assms(3) show ?thesis by auto
qed

lemma example_full_ring:
  defines "u \<equiv> uart_init_state\<lparr>tx_head := 505\<rparr>"
  shows "uart_inv u" "501 < length (tx_contents u)"
  by (simp_all add: u_def uart_inv_def uart_init_state_def tx_contents_def ring_slice_def)

theorem send_ack_truncates_witness:
  "\<exists>err m' u'. protocol_send_ack example_masks (replicate 10 0) 1 ERR_SUCCESS 2 3 mcu_reset
        (uart_init_state\<lparr>tx_head := 505\<rparr>) = Some (err, m', u') \<and>
     err \<noteq> ERR_SUCCESS \<and> length (tx_contents u') = 511"
proof -
  let ?u = "uart_init_state\<lparr>tx_head := 505\<rparr>"
  obtain err m' u' where s: "protocol_send_ack example_masks (replicate 10 0) 1 ERR_SUCCESS 2 3 mcu_reset ?u
      = Some (err, m', u')"
    using protocol_send_ack_push[of "replicate 10 0" example_masks 1 ERR_SUCCESS 2 3 mcu_reset ?u]
    by (metis length_replicate prod_cases3)
  from send_ack_truncates[OF example_full_ring(1) _ example_full_ring(2) s] s show ?thesis by auto
qed

end
