(* ===== verification/Host.thy ===== *)
theory Host
  imports Protocol_Encoder
begin

text \<open>
  \<^verbatim>\<open>src/bbb/protocol\<close>: the Python library the BeagleBone uses to talk to the firmware: the CRC,
  the frame encoder, the command builders, the byte-at-a-time parser and the response decoder.
  Python integers are \<open>int\<close>, so nothing wraps unless the code masks it; \<^verbatim>\<open>bytes\<close> objects are lists
  of octets; a raised \<^verbatim>\<open>ValueError\<close> is the left part of a sum. The lemmas relate the library to the
  specification of the wire format the firmware is proved against.
\<close>

datatype py_error = ValueError | IndexError | StructError | RuntimeError

subsection \<open>CRC (crc.py)\<close>

text \<open>The conditional expression of the inner loop; the intermediate values may exceed 16 bits.\<close>

definition host_crc_shift :: "int \<Rightarrow> int" where
  "host_crc_shift crc = (if crc AND 0x8000 \<noteq> 0 then push_bit 1 crc XOR 0x1021 else push_bit 1 crc)"

definition host_crc16_step :: "int \<Rightarrow> u8 \<Rightarrow> int" where
  "host_crc16_step crc byte = (host_crc_shift ^^ 8) (crc XOR push_bit 8 (uint byte)) AND 0xFFFF"

primrec host_crc16_ccitt :: "u8 list \<Rightarrow> int \<Rightarrow> int" where
  "host_crc16_ccitt [] crc = crc"
| "host_crc16_ccitt (byte # data) crc =
     host_crc16_ccitt data ((host_crc_shift ^^ 8) (crc XOR push_bit 8 (uint byte)) AND 0xFFFF)"

lemma host_crc_shift_word: "(word_of_int (host_crc_shift c) :: u16) = crc16_bit (word_of_int c)"
proof -
  have "c AND 0x8000 \<noteq> 0 \<longleftrightarrow> bit c 15"
  proof -
    have "(0x8000 :: int) = push_bit 15 1" by simp
    then show ?thesis by (simp only: bit_iff_and_push_bit_not_eq_0)
  qed
  moreover have "(word_of_int (push_bit 1 c XOR 0x1021) :: u16) = push_bit 1 (word_of_int c) XOR CRC16_POLY"
    "(word_of_int (push_bit 1 c) :: u16) = push_bit 1 (word_of_int c)"
    by (simp_all add: push_bit_eq_mult flip: word_wi_log_defs)
  ultimately show ?thesis
    by (auto simp: host_crc_shift_def crc16_bit_alt bit_word_of_int_iff)
qed

lemma host_crc_shifts_word: "(word_of_int ((host_crc_shift ^^ n) c) :: u16) = crc16_bits n (word_of_int c)"
  by (induction n arbitrary: c) (simp_all add: funpow_swap1 host_crc_shift_word)

text \<open>The Python CRC, bits above the sixteenth included, is the firmware's CRC.\<close>

lemma host_crc16_byte:
  "(host_crc_shift ^^ 8) (uint s XOR push_bit 8 (uint b)) AND 0xFFFF = uint (crc16_byte s b)"
proof -
  have m: "x AND 0xFFFF = uint (word_of_int x :: u16)" for x :: int
    using take_bit_eq_mask[of 16 x] by (simp add: mask_eq_exp_minus_1 uint_word_of_int_eq)
  have b: "(word_of_int (uint b) :: u16) = ucast b" by simp
  have "(word_of_int (uint s XOR push_bit 8 (uint b)) :: u16) = s XOR push_bit 8 (ucast b)"
    by (simp add: push_bit_eq_mult flip: word_wi_log_defs)
  then show ?thesis unfolding m host_crc_shifts_word crc16_byte_def by simp
qed

lemma host_crc16_step_eq: "host_crc16_step (uint s) b = uint (crc16_byte s b)"
  by (simp add: host_crc16_step_def host_crc16_byte)

lemma host_crc16_ccitt_eq: "host_crc16_ccitt bs (uint s) = uint (crc16_ccitt_update s bs)"
  by (induction bs arbitrary: s) (simp_all add: host_crc16_byte)

subsection \<open>Encoder (encoder.py)\<close>

text \<open>\<^verbatim>\<open>bytes([...])\<close> raises when an element is not in 0..255.\<close>

definition py_bytes :: "int list \<Rightarrow> py_error + u8 list" where
  "py_bytes xs = (if list_all (\<lambda>x. 0 \<le> x \<and> x < 256) xs then Inr (map word_of_int xs) else Inl ValueError)"

definition host_frame_types :: "int list" where
  "host_frame_types = [0x01, 0x02, 0x03, 0x04, 0x05, 0x10, 0x11, 0x20]"

definition host_protocol_ids :: "int list" where
  "host_protocol_ids = [0x00, 0x01, 0x02, 0x03, 0x04, 0x05, 0x06, 0x07, 0x08, 0x09]"

definition host_encode_frame :: "int \<Rightarrow> int \<Rightarrow> u8 list \<Rightarrow> py_error + u8 list" where
  "host_encode_frame ty sq payload =
     (if ty \<notin> set host_frame_types then Inl ValueError
      else if \<not> (0 \<le> sq \<and> sq \<le> 0xFF) then Inl ValueError
      else if length payload > 256 then Inl ValueError
      else let len = int (length payload)
           in case py_bytes [0xAA, ty AND 0xFF, len AND 0xFF, drop_bit 8 len AND 0xFF, sq AND 0xFF] of
                Inl e \<Rightarrow> Inl e
              | Inr header \<Rightarrow>
                  (let crc = host_crc16_ccitt (drop 1 header @ payload) 0xFFFF
                   in case py_bytes [crc AND 0xFF, drop_bit 8 crc] of
                        Inl e \<Rightarrow> Inl e
                      | Inr tail \<Rightarrow> Inr (header @ payload @ tail)))"

definition build_cmd_sync :: "int \<Rightarrow> py_error + u8 list" where
  "build_cmd_sync sq = host_encode_frame 0x05 sq []"

definition build_cmd_setup_sensor :: "int \<Rightarrow> int \<Rightarrow> u8 list \<Rightarrow> py_error + u8 list" where
  "build_cmd_setup_sensor sq protocol_id cfg =
     (if protocol_id \<notin> set host_protocol_ids then Inl ValueError
      else case py_bytes [protocol_id AND 0xFF] of Inl e \<Rightarrow> Inl e | Inr b \<Rightarrow> host_encode_frame 0x01 sq (b @ cfg))"

definition build_cmd_set_output :: "int \<Rightarrow> int \<Rightarrow> u8 list \<Rightarrow> py_error + u8 list" where
  "build_cmd_set_output sq sensor_id vals =
     (if \<not> (1 \<le> sensor_id \<and> sensor_id \<le> 0xFF) then Inl ValueError
      else case py_bytes [sensor_id AND 0xFF] of Inl e \<Rightarrow> Inl e | Inr b \<Rightarrow> host_encode_frame 0x02 sq (b @ vals))"

definition build_cmd_stop_sensor :: "int \<Rightarrow> int \<Rightarrow> py_error + u8 list" where
  "build_cmd_stop_sensor sq sensor_id =
     (if \<not> (1 \<le> sensor_id \<and> sensor_id \<le> 0xFF) then Inl ValueError
      else case py_bytes [sensor_id AND 0xFF] of Inl e \<Rightarrow> Inl e | Inr b \<Rightarrow> host_encode_frame 0x03 sq b)"

text \<open>\<^verbatim>\<open>SeqCounter\<close>: construction and \<^verbatim>\<open>next()\<close>, which returns the current value.\<close>

definition seq_counter_init :: "int \<Rightarrow> py_error + int" where
  "seq_counter_init start = (if \<not> (0 \<le> start \<and> start \<le> 0xFF) then Inl ValueError else Inr start)"

definition seq_counter_next :: "int \<Rightarrow> int \<times> int" where
  "seq_counter_next v = (v, (v + 1) AND 0xFF)"

subsection \<open>The encoder writes the wire format\<close>

lemma and_byte_mask: "x AND 0xFF = x mod 256" for x :: int
  using take_bit_eq_mask[of 8 x] by (simp add: mask_eq_exp_minus_1 take_bit_eq_mod)

lemma word_of_int_uint_byte: "(word_of_int (uint v) :: u8) = ucast (v :: u16)"
  by simp

lemma word_of_int_uint_half: "(word_of_int (uint v div 256) :: u8) = ucast (drop_bit 8 (v :: u16))"
proof -
  have "uint v div 256 = uint (drop_bit 8 v)" by (simp only: unsigned_drop_bit_eq) (simp add: drop_bit_eq_div bintr_uint)
  then show ?thesis by (simp only: word_of_int_uint_byte)
qed

lemma host_encode_frame_eq:
  "host_encode_frame ty sq pl =
     (if ty \<in> set host_frame_types \<and> 0 \<le> sq \<and> sq \<le> 0xFF \<and> length pl \<le> PROTO_MAX_PAYLOAD
      then Inr (encode_frame (word_of_int ty, word_of_int sq, pl)) else Inl ValueError)"
proof (cases "ty \<in> set host_frame_types \<and> 0 \<le> sq \<and> sq \<le> 0xFF \<and> length pl \<le> PROTO_MAX_PAYLOAD")
  case True
  have w: "(word_of_int (x mod 256) :: u8) = word_of_int x" for x by (rule word_of_int_eq_iff[THEN iffD2]) (simp add: take_bit_eq_mod)
  let ?len = "word_of_nat (length pl) :: u16"
  have "int (length pl) = uint ?len" using True by (simp add: uint_nat unat_of_nat)
  then have len: "(word_of_int (int (length pl)) :: u8) = ucast ?len" "(word_of_int (int (length pl) div 256) :: u8) = ucast (drop_bit 8 ?len)"
    by (simp_all only: word_of_int_uint_half word_of_int_uint_byte)
  define body where "body = frame_body (word_of_int ty) (word_of_int sq) pl"
  have head: "py_bytes [0xAA, ty AND 0xFF, int (length pl) AND 0xFF, drop_bit 8 (int (length pl)) AND 0xFF, sq AND 0xFF] =
      Inr (PROTO_START_BYTE # [word_of_int ty, ucast ?len, ucast (drop_bit 8 ?len), word_of_int sq])"
    using len by (simp add: py_bytes_def and_byte_mask w drop_bit_eq_div)
  have body: "[word_of_int ty, ucast ?len, ucast (drop_bit 8 ?len), word_of_int sq] @ pl = body" by (simp add: body_def frame_body_def u16_le_def)
  let ?crc = "crc16_ccitt_update CRC16_INIT body"
  have tail: "py_bytes [uint ?crc AND 0xFF, drop_bit 8 (uint ?crc)] = Inr (u16_le ?crc)"
  proof -
    have "uint ?crc < 65536" using uint_lt2p[of ?crc] by simp
    then have "uint ?crc div 256 < 256" by simp
    moreover have "0 \<le> uint ?crc div 256" by (simp add: pos_imp_zdiv_nonneg_iff)
    ultimately show ?thesis by (simp add: py_bytes_def and_byte_mask w drop_bit_eq_div u16_le_def word_of_int_uint_half)
  qed
  have seed: "host_crc16_ccitt body 0xFFFF = uint ?crc" using host_crc16_ccitt_eq[of body "0xFFFF"] by simp
  show ?thesis using True head tail by (simp add: host_encode_frame_def Let_def body[simplified] seed)
     (simp add: encode_frame_def body_def frame_body_def u16_le_def)
next
  case False then show ?thesis by (auto simp: host_encode_frame_def)
qed

text \<open>The command builders: which arguments they accept, and the frame they build.\<close>

lemma build_cmd_frames:
  "build_cmd_sync sq = (if 0 \<le> sq \<and> sq \<le> 0xFF then Inr (encode_frame (PROTO_TYPE_CMD_SYNC, word_of_int sq, [])) else Inl ValueError)"
  "build_cmd_setup_sensor sq pid cfg =
     (if 0 \<le> pid \<and> pid \<le> 9 \<and> 0 \<le> sq \<and> sq \<le> 0xFF \<and> length cfg < PROTO_MAX_PAYLOAD
      then Inr (encode_frame (PROTO_TYPE_CMD_SETUP_SENSOR, word_of_int sq, word_of_int pid # cfg)) else Inl ValueError)"
  "build_cmd_set_output sq sid vals =
     (if 1 \<le> sid \<and> sid \<le> 0xFF \<and> 0 \<le> sq \<and> sq \<le> 0xFF \<and> length vals < PROTO_MAX_PAYLOAD
      then Inr (encode_frame (PROTO_TYPE_CMD_SET_OUTPUT, word_of_int sq, word_of_int sid # vals)) else Inl ValueError)"
  "build_cmd_stop_sensor sq sid =
     (if 1 \<le> sid \<and> sid \<le> 0xFF \<and> 0 \<le> sq \<and> sq \<le> 0xFF
      then Inr (encode_frame (PROTO_TYPE_CMD_STOP_SENSOR, word_of_int sq, [word_of_int sid])) else Inl ValueError)"
proof -
  have pid: "pid \<in> set host_protocol_ids \<longleftrightarrow> 0 \<le> pid \<and> pid \<le> 9" by (simp add: host_protocol_ids_def) presburger
  show "build_cmd_sync sq = (if 0 \<le> sq \<and> sq \<le> 0xFF then Inr (encode_frame (PROTO_TYPE_CMD_SYNC, word_of_int sq, [])) else Inl ValueError)"
    by (simp add: build_cmd_sync_def host_encode_frame_eq host_frame_types_def)
  show "build_cmd_setup_sensor sq pid cfg =
     (if 0 \<le> pid \<and> pid \<le> 9 \<and> 0 \<le> sq \<and> sq \<le> 0xFF \<and> length cfg < PROTO_MAX_PAYLOAD
      then Inr (encode_frame (PROTO_TYPE_CMD_SETUP_SENSOR, word_of_int sq, word_of_int pid # cfg)) else Inl ValueError)"
    by (simp add: build_cmd_setup_sensor_def pid and_byte_mask py_bytes_def host_encode_frame_eq host_frame_types_def Suc_le_eq)
  show "build_cmd_set_output sq sid vals =
     (if 1 \<le> sid \<and> sid \<le> 0xFF \<and> 0 \<le> sq \<and> sq \<le> 0xFF \<and> length vals < PROTO_MAX_PAYLOAD
      then Inr (encode_frame (PROTO_TYPE_CMD_SET_OUTPUT, word_of_int sq, word_of_int sid # vals)) else Inl ValueError)"
    by (simp add: build_cmd_set_output_def py_bytes_def and_byte_mask host_encode_frame_eq host_frame_types_def Suc_le_eq)
  show "build_cmd_stop_sensor sq sid =
     (if 1 \<le> sid \<and> sid \<le> 0xFF \<and> 0 \<le> sq \<and> sq \<le> 0xFF
      then Inr (encode_frame (PROTO_TYPE_CMD_STOP_SENSOR, word_of_int sq, [word_of_int sid])) else Inl ValueError)"
    by (simp add: build_cmd_stop_sensor_def py_bytes_def and_byte_mask host_encode_frame_eq host_frame_types_def)
qed

text \<open>The counter runs through 0..255 and repeats a value after exactly 256 calls.\<close>

lemma seq_counter_run: "0 \<le> v \<Longrightarrow> v < 256 \<Longrightarrow> fst (seq_counter_next (((snd \<circ> seq_counter_next) ^^ n) v)) = (v + int n) mod 256"
proof -
  assume v: "0 \<le> v" "v < 256"
  have "((snd \<circ> seq_counter_next) ^^ n) v = (v + int n) mod 256"
    using v by (induction n) (simp_all add: seq_counter_next_def and_byte_mask mod_simps algebra_simps)
  then show ?thesis by (simp add: seq_counter_next_def)
qed

subsection \<open>Parser (parser.py)\<close>

datatype host_state =
    WAIT_START | READ_TYPE | READ_LEN_LO | READ_LEN_HI | READ_SEQ | READ_PAYLOAD | READ_CRC_LO | READ_CRC_HI

record host_frame =
  hf_type :: int
  hf_seq :: int
  hf_payload :: "u8 list"

datatype parse_error_reason = CRC_MISMATCH | PAYLOAD_TOO_LARGE

datatype host_event = Host_Frame host_frame | Host_Parse_Error parse_error_reason int int

record host_parser =
  hp_state :: host_state
  hp_frame_type :: int
  hp_expected_len :: int
  hp_seq :: int
  hp_payload :: "u8 list"
  hp_payload_idx :: int
  hp_crc_running :: int
  hp_crc_recv :: int

definition host_reset :: host_parser where
  "host_reset = \<lparr>hp_state = WAIT_START, hp_frame_type = 0, hp_expected_len = 0, hp_seq = 0, hp_payload = [],
     hp_payload_idx = 0, hp_crc_running = 0xFFFF, hp_crc_recv = 0\<rparr>"

text \<open>\<^verbatim>\<open>feed\<close>: what it returns (\<open>None\<close> for \<^verbatim>\<open>None\<close>) and the parser afterwards.\<close>

definition host_feed :: "host_parser \<Rightarrow> u8 \<Rightarrow> py_error + host_event option \<times> host_parser" where
  "host_feed q byte =
    (case hp_state q of
       WAIT_START \<Rightarrow>
         Inr (None, if uint byte = 0xAA then q\<lparr>hp_crc_running := 0xFFFF, hp_state := READ_TYPE\<rparr> else q)
     | READ_TYPE \<Rightarrow>
         Inr (None, q\<lparr>hp_frame_type := uint byte, hp_crc_running := host_crc16_step (hp_crc_running q) byte, hp_state := READ_LEN_LO\<rparr>)
     | READ_LEN_LO \<Rightarrow>
         Inr (None, q\<lparr>hp_expected_len := uint byte, hp_crc_running := host_crc16_step (hp_crc_running q) byte, hp_state := READ_LEN_HI\<rparr>)
     | READ_LEN_HI \<Rightarrow>
         (let q = q\<lparr>hp_expected_len := hp_expected_len q OR push_bit 8 (uint byte), hp_crc_running := host_crc16_step (hp_crc_running q) byte\<rparr>
          in if hp_expected_len q > 256 then Inr (Some (Host_Parse_Error PAYLOAD_TOO_LARGE (hp_frame_type q) 0), host_reset)
             else Inr (None, q\<lparr>hp_state := READ_SEQ\<rparr>))
     | READ_SEQ \<Rightarrow>
         Inr (None, q\<lparr>hp_seq := uint byte, hp_crc_running := host_crc16_step (hp_crc_running q) byte,
                      hp_payload := replicate (nat (hp_expected_len q)) 0, hp_payload_idx := 0,
                      hp_state := (if hp_expected_len q = 0 then READ_CRC_LO else READ_PAYLOAD)\<rparr>)
     | READ_PAYLOAD \<Rightarrow>
         (if hp_payload_idx q \<ge> 256 then Inr (Some (Host_Parse_Error PAYLOAD_TOO_LARGE (hp_frame_type q) (hp_seq q)), host_reset)
          else if nat (hp_payload_idx q) \<ge> length (hp_payload q) then Inl IndexError
          else let q = q\<lparr>hp_payload := (hp_payload q)[nat (hp_payload_idx q) := byte], hp_payload_idx := hp_payload_idx q + 1,
                         hp_crc_running := host_crc16_step (hp_crc_running q) byte\<rparr>
               in Inr (None, if hp_payload_idx q \<ge> hp_expected_len q then q\<lparr>hp_state := READ_CRC_LO\<rparr> else q))
     | READ_CRC_LO \<Rightarrow> Inr (None, q\<lparr>hp_crc_recv := uint byte, hp_state := READ_CRC_HI\<rparr>)
     | READ_CRC_HI \<Rightarrow>
         (let q = q\<lparr>hp_crc_recv := hp_crc_recv q OR push_bit 8 (uint byte)\<rparr>
          in Inr (Some (if hp_crc_recv q = hp_crc_running q
                        then Host_Frame \<lparr>hf_type = hp_frame_type q, hf_seq = hp_seq q, hf_payload = hp_payload q\<rparr>
                        else Host_Parse_Error CRC_MISMATCH (hp_frame_type q) (hp_seq q)), host_reset)))"

primrec host_feed_bytes :: "host_parser \<Rightarrow> u8 list \<Rightarrow> py_error + host_event list \<times> host_parser" where
  "host_feed_bytes q [] = Inr ([], q)"
| "host_feed_bytes q (byte # data) =
     (case host_feed q byte of
        Inl e \<Rightarrow> Inl e
      | Inr (result, q) \<Rightarrow>
          (case host_feed_bytes q data of
             Inl e \<Rightarrow> Inl e
           | Inr (events, q) \<Rightarrow> Inr (case result of None \<Rightarrow> events | Some r \<Rightarrow> r # events, q)))"

text \<open>\<^verbatim>\<open>parse_ack\<close>: the command type, error code and sensor id of an acknowledgement.\<close>

definition parse_ack :: "host_frame \<Rightarrow> py_error + int \<times> int \<times> int" where
  "parse_ack f =
     (if hf_type f \<noteq> 0x10 then Inl ValueError
      else if length (hf_payload f) \<noteq> 3 then Inl ValueError
      else Inr (uint (hf_payload f ! 0), uint (hf_payload f ! 1), uint (hf_payload f ! 2)))"

text \<open>\<^verbatim>\<open>parse_error_response\<close>: the sensor id and error code.\<close>

definition parse_error_response :: "host_frame \<Rightarrow> py_error + int \<times> int" where
  "parse_error_response f =
     (if hf_type f \<noteq> 0x11 then Inl ValueError
      else if length (hf_payload f) \<noteq> 2 then Inl ValueError
      else Inr (uint (hf_payload f ! 0), uint (hf_payload f ! 1)))"

text \<open>\<^verbatim>\<open>parse_status_report\<close>: \<^verbatim>\<open>struct.unpack("<IBB")\<close> reads a little-endian 32-bit word and two octets.\<close>

definition parse_status_report :: "host_frame \<Rightarrow> py_error + int \<times> int \<times> int" where
  "parse_status_report f =
     (if hf_type f \<noteq> 0x20 then Inl ValueError
      else if length (hf_payload f) \<noteq> 6 then Inl ValueError
      else Inr (uint (hf_payload f ! 0) + 256 * uint (hf_payload f ! 1) + 65536 * uint (hf_payload f ! 2) + 16777216 * uint (hf_payload f ! 3),
                uint (hf_payload f ! 4), uint (hf_payload f ! 5)))"

subsection \<open>The host parser and the firmware parser are in step\<close>

definition host_frame_of :: "frame \<Rightarrow> host_frame" where
  "host_frame_of fr = (case fr of (ty, sq, pl) \<Rightarrow> \<lparr>hf_type = uint ty, hf_seq = uint sq, hf_payload = pl\<rparr>)"

fun same_state :: "host_state \<Rightarrow> protocol_parser_state \<Rightarrow> bool" where
  "same_state WAIT_START PARSER_STATE_WAIT_START = True"
| "same_state READ_TYPE PARSER_STATE_READ_TYPE = True"
| "same_state READ_LEN_LO PARSER_STATE_READ_LEN_LO = True"
| "same_state READ_LEN_HI PARSER_STATE_READ_LEN_HI = True"
| "same_state READ_SEQ PARSER_STATE_READ_SEQ = True"
| "same_state READ_PAYLOAD PARSER_STATE_READ_PAYLOAD = True"
| "same_state READ_CRC_LO PARSER_STATE_READ_CRC_LO = True"
| "same_state READ_CRC_HI PARSER_STATE_READ_CRC_HI = True"
| "same_state _ _ = False"

text \<open>What the two parsers share in each state.\<close>

definition in_step :: "host_parser \<Rightarrow> protocol_parser \<Rightarrow> bool" where
  "in_step q p \<longleftrightarrow> parser_inv p \<and> same_state (hp_state q) (pstate p) \<and>
     (pstate p \<noteq> PARSER_STATE_WAIT_START \<longrightarrow> hp_crc_running q = uint (crc_running p)) \<and>
     (pstate p \<notin> {PARSER_STATE_WAIT_START, PARSER_STATE_READ_TYPE} \<longrightarrow> hp_frame_type q = uint (frame_type (pframe p))) \<and>
     (pstate p \<notin> {PARSER_STATE_WAIT_START, PARSER_STATE_READ_TYPE, PARSER_STATE_READ_LEN_LO} \<longrightarrow> hp_expected_len q = uint (expected_len p)) \<and>
     (pstate p \<in> {PARSER_STATE_READ_PAYLOAD, PARSER_STATE_READ_CRC_LO, PARSER_STATE_READ_CRC_HI} \<longrightarrow>
        hp_seq q = uint (frame_seq (pframe p)) \<and> length (hp_payload q) = unat (expected_len p)) \<and>
     (pstate p = PARSER_STATE_READ_PAYLOAD \<longrightarrow> hp_payload_idx q = uint (payload_idx p) \<and>
        take (unat (payload_idx p)) (hp_payload q) = take (unat (payload_idx p)) (frame_payload (pframe p))) \<and>
     (pstate p \<in> {PARSER_STATE_READ_CRC_LO, PARSER_STATE_READ_CRC_HI} \<longrightarrow> hp_payload q = take (unat (expected_len p)) (frame_payload (pframe p))) \<and>
     (pstate p = PARSER_STATE_READ_CRC_HI \<longrightarrow> hp_crc_recv q = uint (crc_recv p))"

lemma uint_or_byte: "uint (v OR push_bit 8 (ucast (b :: u8)) :: u16) = uint v OR push_bit 8 (uint b)"
proof -
  have "uint (push_bit 8 (ucast b) :: u16) = push_bit 8 (uint b)"
    by (rule bit_eqI) (auto simp: bit_simps bit_unsigned_iff dest: bit_u8D)
  then show ?thesis by (simp add: unsigned_or_eq)
qed

lemma uint_ucast_u8_u16 [simp]: "uint (ucast (b :: u8) :: u16) = uint b"
  by (simp add: unsigned_ucast_eq bintr_uint)

lemma in_step_reset: "parser_inv p \<Longrightarrow> pstate p = PARSER_STATE_WAIT_START \<Longrightarrow> in_step host_reset p"
  by (simp add: in_step_def host_reset_def)

lemma host_crc_eat: "hp_crc_running q = uint (crc_running p) \<Longrightarrow>
    host_crc16_step (hp_crc_running q) b = uint (crc16_ccitt_update (crc_running p) [b])"
  by (simp add: host_crc16_step_eq)

text \<open>What one byte does to both: the host returns a frame exactly when the firmware's parser completes one, and it is the same frame.\<close>

definition step_agrees :: "host_parser \<Rightarrow> protocol_parser \<Rightarrow> u8 \<Rightarrow> bool" where
  "step_agrees q p b \<longleftrightarrow> (\<exists>ev q'. host_feed q b = Inr (ev, q') \<and> in_step q' (snd (protocol_parser_feed p b)) \<and>
     (if fst (protocol_parser_feed p b) then ev = Some (Host_Frame (host_frame_of (frame_of (pframe (snd (protocol_parser_feed p b))))))
      else \<forall>f. ev \<noteq> Some (Host_Frame f)))"

lemma host_step_agrees:
  assumes "in_step q p"
  shows "step_agrees q p b"
proof -
  have inv: "parser_inv (snd (protocol_parser_feed p b))" using assms parser_inv_feed by (simp add: in_step_def)
  show ?thesis
  proof (cases "pstate p")
    case PARSER_STATE_WAIT_START
    then show ?thesis using assms inv by (cases "hp_state q") (auto simp: step_agrees_def in_step_def host_feed_def parser_step_defs word_uint_eq_iff)
  next
    case PARSER_STATE_READ_TYPE
    then show ?thesis using assms inv host_crc_eat[of q p b]
      by (cases "hp_state q") (auto simp: step_agrees_def in_step_def host_feed_def parser_step_defs)
  next
    case PARSER_STATE_READ_LEN_LO
    then show ?thesis using assms inv host_crc_eat[of q p b]
      by (cases "hp_state q") (auto simp: step_agrees_def in_step_def host_feed_def parser_step_defs)
  next
    case PARSER_STATE_READ_LEN_HI
    then have "256 < expected_len p OR push_bit 8 (ucast b) \<longleftrightarrow> 256 < uint (expected_len p) OR push_bit 8 (uint b)"
      using uint_or_byte[of "expected_len p" b] by (simp add: word_less_def)
    with PARSER_STATE_READ_LEN_HI show ?thesis using assms inv host_crc_eat[of q p b] uint_or_byte[of "expected_len p" b]
      by (cases "hp_state q") (auto simp: step_agrees_def in_step_def host_feed_def parser_step_defs host_reset_def)
  next
    case PARSER_STATE_READ_SEQ
    then show ?thesis using assms inv host_crc_eat[of q p b]
      by (cases "hp_state q") (auto simp: step_agrees_def in_step_def host_feed_def parser_step_defs uint_0_iff)
  next
    case PARSER_STATE_READ_PAYLOAD
    then have q: "hp_state q = READ_PAYLOAD" using assms by (cases "hp_state q") (simp_all add: in_step_def)
    let ?i = "payload_idx p" and ?n = "expected_len p"
    have P: "?i < ?n" "?n \<le> 256" "length (frame_payload (pframe p)) = 256" "hp_payload_idx q = uint ?i" "length (hp_payload q) = unat ?n"
      "take (unat ?i) (hp_payload q) = take (unat ?i) (frame_payload (pframe p))" "hp_expected_len q = uint ?n"
      using assms PARSER_STATE_READ_PAYLOAD by (simp_all add: in_step_def parser_inv_def)
    have i: "unat ?i < unat ?n" "unat ?n \<le> 256" using P(1,2) by (simp_all add: word_less_nat_alt word_le_nat_alt)
    then have ui: "unat (?i + 1) = Suc (unat ?i)" by (simp add: unat_word_ariths)
    then have uint1: "uint (?i + 1) = uint ?i + 1" by (simp only: uint_nat of_nat_Suc add.commute)
    have nat_i: "nat (uint ?i) = unat ?i" by simp
    have "uint ?i < 256" using i by (simp only: uint_nat)
    then have lt: "\<not> 256 \<le> uint ?i" "\<not> 256 \<le> ?i" by (simp_all add: word_le_def)
    have tk: "take (Suc (unat ?i)) ((hp_payload q)[unat ?i := b]) = take (Suc (unat ?i)) ((frame_payload (pframe p))[unat ?i := b])"
      using P(3,5,6) i by (simp add: take_Suc_update)
    have last: "?n \<le> ?i + 1 \<longleftrightarrow> uint ?n \<le> uint ?i + 1" using uint1 by (simp add: word_le_def)
    have full: "(hp_payload q)[unat ?i := b] = take (unat ?n) ((frame_payload (pframe p))[unat ?i := b])" if "uint ?n \<le> uint ?i + 1"
    proof -
      have "unat ?n = Suc (unat ?i)" using that i by (simp only: uint_nat)
      then show ?thesis using tk P(5) by simp
    qed
    let ?st = "if uint ?n \<le> uint ?i + 1 then PARSER_STATE_READ_CRC_LO else PARSER_STATE_READ_PAYLOAD"
    let ?p = "p\<lparr>pframe := (pframe p)\<lparr>frame_payload := (frame_payload (pframe p))[unat ?i := b]\<rparr>, payload_idx := ?i + 1,
      crc_running := crc16_ccitt_update (crc_running p) [b], pstate := ?st\<rparr>"
    let ?q = "q\<lparr>hp_payload := (hp_payload q)[unat ?i := b], hp_payload_idx := uint ?i + 1, hp_crc_running := uint (crc_running ?p),
      hp_state := (if uint ?n \<le> uint ?i + 1 then READ_CRC_LO else READ_PAYLOAD)\<rparr>"
    have p: "protocol_parser_feed p b = (False, ?p)" using PARSER_STATE_READ_PAYLOAD lt(2) last by (cases p) (simp add: parser_step_defs)
    have crc: "host_crc16_step (hp_crc_running q) b = uint (crc_running ?p)"
      using host_crc_eat[of q p b] assms PARSER_STATE_READ_PAYLOAD by (simp add: in_step_def)
    have h: "host_feed q b = Inr (None, ?q)" using q lt(1) P(4,5,7) i(1) crc by (cases q) (simp add: host_feed_def)
    have "in_step ?q ?p" unfolding in_step_def
      using inv[unfolded p] assms[unfolded in_step_def] PARSER_STATE_READ_PAYLOAD tk full ui uint1 P(5) by simp
    then show ?thesis using h by (simp add: step_agrees_def p)
  next
    case PARSER_STATE_READ_CRC_LO
    then show ?thesis using assms inv
      by (cases "hp_state q") (auto simp: step_agrees_def in_step_def host_feed_def parser_step_defs)
  next
    case PARSER_STATE_READ_CRC_HI
    then have "crc_recv p OR push_bit 8 (ucast b) = crc_running p \<longleftrightarrow> uint (crc_recv p) OR push_bit 8 (uint b) = uint (crc_running p)"
      using uint_or_byte[of "crc_recv p" b] by (metis word_uint_eq_iff)
    with PARSER_STATE_READ_CRC_HI show ?thesis using assms inv
      by (cases "hp_state q") (auto simp: step_agrees_def in_step_def host_feed_def parser_step_defs host_reset_def host_frame_of_def frame_of_def parser_inv_def)
  qed
qed

text \<open>The frames among the events, as \<^verbatim>\<open>isinstance(event, Frame)\<close> selects them.\<close>

definition host_frames :: "host_event list \<Rightarrow> host_frame list" where
  "host_frames evs = List.map_filter (\<lambda>ev. case ev of Host_Frame f \<Rightarrow> Some f | Host_Parse_Error _ _ _ \<Rightarrow> None) evs"

lemma host_frames_simps [simp]:
  "host_frames [] = []" "host_frames (Host_Frame f # evs) = f # host_frames evs" "host_frames (Host_Parse_Error r t s # evs) = host_frames evs"
  by (simp_all add: host_frames_def)

lemma host_feed_bytes_agrees:
  assumes "in_step q p" "parser_feed_all p bs = (fs, p')"
  shows "\<exists>evs q'. host_feed_bytes q bs = Inr (evs, q') \<and> in_step q' p' \<and> host_frames evs = map (\<lambda>f. host_frame_of (frame_of f)) fs"
  using assms
proof (induction bs arbitrary: q p fs)
  case (Cons b bs)
  obtain ok p1 where f: "protocol_parser_feed p b = (ok, p1)" by fastforce
  obtain fs1 where r: "parser_feed_all p1 bs = (fs1, p')" "fs = (if ok then pframe p1 # fs1 else fs1)"
    using Cons.prems(2) f by (auto split: prod.splits)
  obtain ev q1 where s: "host_feed q b = Inr (ev, q1)" "in_step q1 p1"
    "if ok then ev = Some (Host_Frame (host_frame_of (frame_of (pframe p1)))) else \<forall>f. ev \<noteq> Some (Host_Frame f)"
    using host_step_agrees[OF Cons.prems(1), of b] f by (auto simp: step_agrees_def)
  obtain evs q' where h: "host_feed_bytes q1 bs = Inr (evs, q')" "in_step q' p'" "host_frames evs = map (\<lambda>f. host_frame_of (frame_of f)) fs1"
    using Cons.IH[OF s(2) r(1)] by blast
  have "host_frames (case ev of None \<Rightarrow> evs | Some r \<Rightarrow> r # evs) = map (\<lambda>f. host_frame_of (frame_of f)) fs"
    using s(3) h(3) r(2) by (cases ok; cases ev) (auto, metis host_event.exhaust host_frames_simps(3))
  then show ?case using s(1) h(1,2) by auto
qed simp

subsection \<open>Acknowledgements\<close>

lemma parse_ack_frame: "parse_ack (host_frame_of (ack_frame ty err sid sq)) = Inr (uint ty, uint (err_byte err), uint sid)"
  by (simp add: parse_ack_def host_frame_of_def ack_frame_def)

lemma parse_error_frame: "parse_error_response (host_frame_of (error_frame sid err sq)) = Inr (uint sid, uint (err_byte err))"
  by (simp add: parse_error_response_def host_frame_of_def error_frame_def)

lemma host_ack_seq: "hf_seq (host_frame_of (ack_frame ty err sid sq)) = uint sq"
  by (simp add: host_frame_of_def ack_frame_def)

lemma host_reads_frames:
  assumes "list_all (\<lambda>(ty, sq, pl). length pl \<le> PROTO_MAX_PAYLOAD) frs"
  shows "\<exists>evs q. host_feed_bytes host_reset (concat (map encode_frame frs)) = Inr (evs, q) \<and> host_frames evs = map host_frame_of frs"
proof -
  let ?p = "protocol_parser_reset parser_static"
  obtain fs p' where f: "parser_feed_all ?p (concat (map encode_frame frs)) = (fs, p')" by fastforce
  have "list_all (\<lambda>(ns, ty, sq, pl). PROTO_START_BYTE \<notin> set ns \<and> length pl \<le> PROTO_MAX_PAYLOAD) (map (Pair []) frs)"
    using assms by (auto simp: list_all_iff)
  from collect_encode_many[OF this] have c: "collect [] (concat (map encode_frame frs)) = (frs, [])" by (simp add: comp_def)
  have frs: "map frame_of fs = frs" using parse_from_reset(1)[OF parser_static_buffer, of "concat (map encode_frame frs)"] f c by simp
  have "in_step host_reset ?p"
    by (rule in_step_reset[OF parser_inv_reset[OF parser_static_buffer]]) (simp add: protocol_parser_reset_def)
  from host_feed_bytes_agrees[OF this f] show ?thesis using frs by (auto simp: comp_def)
qed

subsection \<open>Properties\<close>

text \<open>C9: the host's encoder writes the wire format or raises. It raises for an unknown type, a
  sequence number outside 0..255 or a payload of more than 256 bytes; otherwise the bytes are
  exactly the specified frame, with the CRC the firmware computes, although the Python loop
  computes it in unbounded integers.\<close>

theorem host_encoder_writes_wire_format:
  "host_encode_frame ty sq pl =
     (if ty \<in> set host_frame_types \<and> 0 \<le> sq \<and> sq \<le> 0xFF \<and> length pl \<le> PROTO_MAX_PAYLOAD
      then Inr (encode_frame (word_of_int ty, word_of_int sq, pl)) else Inl ValueError)"
  by (rule host_encode_frame_eq)

text \<open>C8: the two parsers agree. On every byte stream the Python parser raises nothing and
  delivers exactly the frames the firmware's parser delivers, with the same type, sequence number
  and payload, in the same order.\<close>

theorem host_parser_equals_firmware_parser:
  "\<exists>evs q. host_feed_bytes host_reset bs = Inr (evs, q) \<and>
     host_frames evs = map (\<lambda>f. host_frame_of (frame_of f)) (fst (parser_feed_all (protocol_parser_reset parser_static) bs))"
proof -
  let ?p = "protocol_parser_reset parser_static"
  have "in_step host_reset ?p"
    by (rule in_step_reset[OF parser_inv_reset[OF parser_static_buffer]]) (simp add: protocol_parser_reset_def)
  then show ?thesis
    using host_feed_bytes_agrees[of host_reset ?p bs "fst (parser_feed_all ?p bs)" "snd (parser_feed_all ?p bs)"] by auto
qed

end
