(* ===== verification/Pwm_Sensor.thy ===== *)
theory Pwm_Sensor
  imports Board
begin

text \<open>
  \<^verbatim>\<open>simulate/pwm/src/pwm_sensor.c\<close>: PWM outputs on the channels of the timer pool. The static
  arrays \<open>states\<close> and \<open>pin_owned\<close> are the record \<open>pwm_sensor\<close>. The handlers take the bytes of the
  payload from the protocol id (or sensor id) on and their length; a failed assertion or a read
  outside the payload is \<open>None\<close>.
\<close>

subsection \<open>State\<close>

record pwm_sensor_state =
  pw_in_use :: bool
  pw_gpio_port :: u8
  pw_gpio_pin :: gpio_pin
  pw_timer_id :: u8
  pw_channel :: u8

record pwm_sensor =
  pw_states :: "pwm_sensor_state list"
  pw_pin_owned :: pin_table

text \<open>What \<^verbatim>\<open>memset(s, 0, sizeof( *s))\<close> leaves.\<close>

definition pwm_state_zero :: pwm_sensor_state where
  "pwm_state_zero = \<lparr>pw_in_use = False, pw_gpio_port = 0, pw_gpio_pin = \<lparr>gp_port = None, gp_pin = 0\<rparr>,
     pw_timer_id = 0, pw_channel = 0\<rparr>"

abbreviation (input) PWM_SLOT_POOL_SIZE :: nat where "PWM_SLOT_POOL_SIZE \<equiv> 28"
abbreviation (input) HW_TIMER_MAX_CHANNELS :: u8 where "HW_TIMER_MAX_CHANNELS \<equiv> 4"
abbreviation (input) PWM_TIMER_MAX_VAL :: u8 where "PWM_TIMER_MAX_VAL \<equiv> 6"
abbreviation (input) PWM_CHANNEL_MIN :: u8 where "PWM_CHANNEL_MIN \<equiv> 1"
abbreviation (input) PWM_CHANNEL_MAX :: u8 where "PWM_CHANNEL_MAX \<equiv> 4"
abbreviation (input) PWM_FREQ_MIN_HZ :: u32 where "PWM_FREQ_MIN_HZ \<equiv> 1"
abbreviation (input) PWM_FREQ_MAX_HZ :: u32 where "PWM_FREQ_MAX_HZ \<equiv> 1000000"
abbreviation (input) PWM_DUTY_MAX :: u16 where "PWM_DUTY_MAX \<equiv> 10000"
abbreviation (input) PWM_CFG_OFFSET_PORT :: nat where "PWM_CFG_OFFSET_PORT \<equiv> 0"
abbreviation (input) PWM_CFG_OFFSET_PIN :: nat where "PWM_CFG_OFFSET_PIN \<equiv> 1"
abbreviation (input) PWM_CFG_OFFSET_AF :: nat where "PWM_CFG_OFFSET_AF \<equiv> 2"
abbreviation (input) PWM_CFG_OFFSET_TIMER :: nat where "PWM_CFG_OFFSET_TIMER \<equiv> 3"
abbreviation (input) PWM_CFG_OFFSET_CHANNEL :: nat where "PWM_CFG_OFFSET_CHANNEL \<equiv> 4"
abbreviation (input) PWM_CFG_OFFSET_FREQ_HZ :: nat where "PWM_CFG_OFFSET_FREQ_HZ \<equiv> 5"
abbreviation (input) PWM_CFG_OFFSET_DUTY_PCT_X100 :: nat where "PWM_CFG_OFFSET_DUTY_PCT_X100 \<equiv> 9"
abbreviation (input) PWM_CFG_SIZE :: u16 where "PWM_CFG_SIZE \<equiv> 11"
abbreviation (input) PWM_SET_OUTPUT_SIZE :: u16 where "PWM_SET_OUTPUT_SIZE \<equiv> 2"

subsection \<open>Helpers\<close>

definition slot_for :: "u8 \<Rightarrow> u8 \<Rightarrow> u8" where
  "slot_for timer_id channel = timer_id * HW_TIMER_MAX_CHANNELS + (channel - 1)"

text \<open>The multiplication is in 32 bits, as in the code.\<close>

definition compute_ccr :: "u32 \<Rightarrow> u16 \<Rightarrow> u32" where
  "compute_ccr arr duty =
     (if duty = 0 then 0
      else if duty \<ge> PWM_DUTY_MAX then arr
      else ((arr + 1) * ucast duty) div ucast PWM_DUTY_MAX)"

text \<open>The registers and masks each case of the three channel switches names.\<close>

record tim_channel =
  tc_ccmr :: tim_reg
  tc_ocm :: tim_mask
  tc_ocm_1 :: tim_mask
  tc_ocm_2 :: tim_mask
  tc_ocpe :: tim_mask
  tc_ccr :: tim_reg
  tc_cce :: tim_mask

definition tim_channel :: "u8 \<Rightarrow> tim_channel option" where
  "tim_channel ch =
     (if ch = 1 then Some \<lparr>tc_ccmr = TIM_CCMR1, tc_ocm = TIM_CCMR1_OC1M, tc_ocm_1 = TIM_CCMR1_OC1M_1,
        tc_ocm_2 = TIM_CCMR1_OC1M_2, tc_ocpe = TIM_CCMR1_OC1PE, tc_ccr = TIM_CCR1, tc_cce = TIM_CCER_CC1E\<rparr>
      else if ch = 2 then Some \<lparr>tc_ccmr = TIM_CCMR1, tc_ocm = TIM_CCMR1_OC2M, tc_ocm_1 = TIM_CCMR1_OC2M_1,
        tc_ocm_2 = TIM_CCMR1_OC2M_2, tc_ocpe = TIM_CCMR1_OC2PE, tc_ccr = TIM_CCR2, tc_cce = TIM_CCER_CC2E\<rparr>
      else if ch = 3 then Some \<lparr>tc_ccmr = TIM_CCMR2, tc_ocm = TIM_CCMR2_OC3M, tc_ocm_1 = TIM_CCMR2_OC3M_1,
        tc_ocm_2 = TIM_CCMR2_OC3M_2, tc_ocpe = TIM_CCMR2_OC3PE, tc_ccr = TIM_CCR3, tc_cce = TIM_CCER_CC3E\<rparr>
      else if ch = 4 then Some \<lparr>tc_ccmr = TIM_CCMR2, tc_ocm = TIM_CCMR2_OC4M, tc_ocm_1 = TIM_CCMR2_OC4M_1,
        tc_ocm_2 = TIM_CCMR2_OC4M_2, tc_ocpe = TIM_CCMR2_OC4PE, tc_ccr = TIM_CCR4, tc_cce = TIM_CCER_CC4E\<rparr>
      else None)"

definition channel_configure :: "cmsis \<Rightarrow> tim_handle \<Rightarrow> u8 \<Rightarrow> u32 \<Rightarrow> mcu \<Rightarrow> mcu" where
  "channel_configure M t ch ccr m =
     (case tim_channel ch of
        None \<Rightarrow> m
      | Some c \<Rightarrow>
          let ccmr = TIM t (tc_ccmr c);
              m = wr ccmr ((regs m ccmr AND NOT (timm M (tc_ocm c) OR timm M (tc_ocpe c)))
                           OR timm M (tc_ocm_1 c) OR timm M (tc_ocm_2 c) OR timm M (tc_ocpe c)) m;
              m = wr (TIM t (tc_ccr c)) ccr m
          in reg_or (TIM t TIM_CCER) (timm M (tc_cce c)) m)"

definition channel_set_ccr :: "tim_handle \<Rightarrow> u8 \<Rightarrow> u32 \<Rightarrow> mcu \<Rightarrow> mcu" where
  "channel_set_ccr t ch ccr m =
     (case tim_channel ch of None \<Rightarrow> m | Some c \<Rightarrow> wr (TIM t (tc_ccr c)) ccr m)"

definition channel_disable :: "cmsis \<Rightarrow> tim_handle \<Rightarrow> u8 \<Rightarrow> mcu \<Rightarrow> mcu" where
  "channel_disable M t ch m =
     (case tim_channel ch of
        None \<Rightarrow> m
      | Some c \<Rightarrow>
          let m = reg_clear (TIM t TIM_CCER) (timm M (tc_cce c)) m;
              m = reg_clear (TIM t (tc_ccmr c)) (timm M (tc_ocm c) OR timm M (tc_ocpe c)) m
          in wr (TIM t (tc_ccr c)) 0 m)"

subsection \<open>Handlers\<close>

definition pwm_sensor_init :: "pwm_sensor \<Rightarrow> pwm_sensor" where
  "pwm_sensor_init st = st\<lparr>pw_states := replicate PWM_SLOT_POOL_SIZE pwm_state_zero,
     pw_pin_owned := pin_table_init\<rparr>"

record pwm_cfg =
  pc_port :: u8
  pc_pin :: u8
  pc_af :: u8
  pc_timer_raw :: u8
  pc_channel :: u8
  pc_freq_hz :: u32
  pc_duty :: u16

definition pwm_read_cfg :: "u8 list \<Rightarrow> pwm_cfg option" where
  "pwm_read_cfg cfg =
     do {
       port \<leftarrow> fetch PWM_CFG_OFFSET_PORT cfg;
       pin \<leftarrow> fetch PWM_CFG_OFFSET_PIN cfg;
       af \<leftarrow> fetch PWM_CFG_OFFSET_AF cfg;
       timer_raw \<leftarrow> fetch PWM_CFG_OFFSET_TIMER cfg;
       channel \<leftarrow> fetch PWM_CFG_OFFSET_CHANNEL cfg;
       freq_hz \<leftarrow> read_u32_le (drop PWM_CFG_OFFSET_FREQ_HZ cfg);
       duty \<leftarrow> read_u16_le (drop PWM_CFG_OFFSET_DUTY_PCT_X100 cfg);
       Some \<lparr>pc_port = port, pc_pin = pin, pc_af = af, pc_timer_raw = timer_raw, pc_channel = channel,
             pc_freq_hz = freq_hz, pc_duty = duty\<rparr>
     }"

definition pwm_cfg_invalid :: "pwm_cfg \<Rightarrow> bool" where
  "pwm_cfg_invalid c \<longleftrightarrow>
     pc_port c > GPIO_PORT_MAX \<or> pc_pin c > GPIO_PIN_MAX \<or> pc_af c = 0 \<or> pc_af c > GPIO_AF_MAX \<or>
     pc_timer_raw c > PWM_TIMER_MAX_VAL \<or> pc_channel c < PWM_CHANNEL_MIN \<or>
     pc_channel c > PWM_CHANNEL_MAX \<or> pc_duty c > PWM_DUTY_MAX \<or>
     pc_freq_hz c < PWM_FREQ_MIN_HZ \<or> pc_freq_hz c > PWM_FREQ_MAX_HZ"

text \<open>The part of set-up after the timer has been acquired.\<close>

definition pwm_open ::
    "cmsis \<Rightarrow> pwm_cfg \<Rightarrow> u8 \<Rightarrow> u32 \<Rightarrow> pwm_sensor \<Rightarrow> board \<Rightarrow> (err_code \<times> u8 \<times> pwm_sensor \<times> board) option" where
  "pwm_open M c idx arr st b =
     do {
       pin \<leftarrow> gpio_make_pin (pc_port c) (pc_pin c);
       let m = gpio_enable_clock M (pc_port c) (bmcu b);
       m \<leftarrow> gpio_configure_af \<lparr>ac_pin = pin, ac_af = pc_af c, ac_speed = GPIO_SPEED_HIGH,
               ac_pull = GPIO_PULL_NONE, ac_output_type = GPIO_OUTPUT_PUSH_PULL\<rparr> m;
       let owned = claim_pin (pc_port c) (pc_pin c) (pw_pin_owned st);
       t \<leftarrow> hw_timer_handle (pc_timer_raw c) (btimers b);
       let m = channel_configure M t (pc_channel c) (compute_ccr arr (pc_duty c)) m;
       let s = \<lparr>pw_in_use = True, pw_gpio_port = pc_port c, pw_gpio_pin = pin,
                pw_timer_id = pc_timer_raw c, pw_channel = pc_channel c\<rparr>;
       (sid, sm) \<leftarrow> sensor_manager_register PROTO_ID_PWM idx (bsm b);
       if sid = PROTO_SENSOR_ID_NONE then do {
         let m = channel_disable M t (pc_channel c) m;
         let (m, ts) = hw_timer_pwm_release (pc_timer_raw c) m (btimers b);
         m \<leftarrow> gpio_reset_to_defaults pin m;
         let owned = free_pin (pc_port c) (pc_pin c) owned;
         Some (ERR_OUT_OF_RESOURCES, PROTO_SENSOR_ID_NONE,
               \<lparr>pw_states = (pw_states st)[unat idx := pwm_state_zero], pw_pin_owned = owned\<rparr>,
               \<lparr>bmcu = m, btimers = ts, bsm = sm\<rparr>)
       } else
         Some (ERR_SUCCESS, sid,
               \<lparr>pw_states = (pw_states st)[unat idx := s], pw_pin_owned = owned\<rparr>,
               \<lparr>bmcu = m, btimers = btimers b, bsm = sm\<rparr>)
     }"

definition pwm_sensor_setup ::
    "cmsis \<Rightarrow> u8 list \<Rightarrow> u16 \<Rightarrow> pwm_sensor \<Rightarrow> board \<Rightarrow> (err_code \<times> u8 \<times> pwm_sensor \<times> board) option" where
  "pwm_sensor_setup M cfg cfg_len st b =
     (if cfg_len < PWM_CFG_SIZE then Some (ERR_MALFORMED_PAYLOAD, PROTO_SENSOR_ID_NONE, st, b)
      else do {
        c \<leftarrow> pwm_read_cfg cfg;
        if pwm_cfg_invalid c then Some (ERR_INVALID_PARAMETER, PROTO_SENSOR_ID_NONE, st, b)
        else if pc_channel c > hw_timer_max_channel (pc_timer_raw c) (btimers b)
        then Some (ERR_INVALID_PARAMETER, PROTO_SENSOR_ID_NONE, st, b)
        else if pin_is_owned (pc_port c) (pc_pin c) (pw_pin_owned st)
        then Some (ERR_PIN_CONFLICT, PROTO_SENSOR_ID_NONE, st, b)
        else do {
          let idx = slot_for (pc_timer_raw c) (pc_channel c);
          s \<leftarrow> fetch (unat idx) (pw_states st);
          if pw_in_use s then Some (ERR_PWM_CHANNEL_IN_USE, PROTO_SENSOR_ID_NONE, st, b)
          else case hw_timer_pwm_acquire M (pc_timer_raw c) (pc_freq_hz c) (bmcu b) (btimers b) of
            (Inl err, m, ts) \<Rightarrow> Some (err, PROTO_SENSOR_ID_NONE, st, b\<lparr>bmcu := m, btimers := ts\<rparr>)
          | (Inr arr, m, ts) \<Rightarrow> pwm_open M c idx arr st (b\<lparr>bmcu := m, btimers := ts\<rparr>)
        }
      })"

definition pwm_sensor_set_output ::
    "u8 \<Rightarrow> u8 list \<Rightarrow> u16 \<Rightarrow> pwm_sensor \<Rightarrow> board \<Rightarrow> (err_code \<times> board) option" where
  "pwm_sensor_set_output internal_id values values_len st b =
     do {
       s \<leftarrow> (if unat internal_id < PWM_SLOT_POOL_SIZE then fetch (unat internal_id) (pw_states st) else None);
       if \<not> pw_in_use s then Some (ERR_INVALID_SENSOR_ID, b)
       else if values_len < PWM_SET_OUTPUT_SIZE then Some (ERR_MALFORMED_PAYLOAD, b)
       else do {
         duty \<leftarrow> read_u16_le values;
         if duty > PWM_DUTY_MAX then Some (ERR_INVALID_PARAMETER, b)
         else do {
           t \<leftarrow> hw_timer_handle (pw_timer_id s) (btimers b);
           let ccr = compute_ccr (hw_timer_pwm_arr (pw_timer_id s) (btimers b)) duty;
           Some (ERR_SUCCESS, b\<lparr>bmcu := channel_set_ccr t (pw_channel s) ccr (bmcu b)\<rparr>)
         }
       }
     }"

definition pwm_sensor_stop :: "cmsis \<Rightarrow> u8 \<Rightarrow> pwm_sensor \<Rightarrow> board \<Rightarrow> (err_code \<times> pwm_sensor \<times> board) option" where
  "pwm_sensor_stop M internal_id st b =
     do {
       s \<leftarrow> (if unat internal_id < PWM_SLOT_POOL_SIZE then fetch (unat internal_id) (pw_states st) else None);
       if \<not> pw_in_use s then Some (ERR_INVALID_SENSOR_ID, st, b)
       else do {
         t \<leftarrow> hw_timer_handle (pw_timer_id s) (btimers b);
         let m = channel_disable M t (pw_channel s) (bmcu b);
         let (m, ts) = hw_timer_pwm_release (pw_timer_id s) m (btimers b);
         m \<leftarrow> gpio_reset_to_defaults (pw_gpio_pin s) m;
         Some (ERR_SUCCESS,
               \<lparr>pw_states = (pw_states st)[unat internal_id := pwm_state_zero],
                pw_pin_owned = free_pin (pw_gpio_port s) (gp_pin (pw_gpio_pin s)) (pw_pin_owned st)\<rparr>,
               b\<lparr>bmcu := m, btimers := ts\<rparr>)
       }
     }"

subsection \<open>Invariant\<close>

text \<open>
  The slots of timer \<open>t\<close> are 4t to 4t+3. A used slot names its own timer and channel and an owned
  pin that no other slot uses; the reference count of a timer is its number of used slots.
\<close>

definition pwm_users :: "pwm_sensor_state list \<Rightarrow> nat \<Rightarrow> nat" where
  "pwm_users ss t = card {i. i < PWM_SLOT_POOL_SIZE \<and> i div 4 = t \<and> pw_in_use (ss ! i)}"

definition pwm_pin_of :: "pwm_sensor_state \<Rightarrow> u8 \<times> u8" where
  "pwm_pin_of s = (pw_gpio_port s, gp_pin (pw_gpio_pin s))"

definition pwm_slot_ok :: "nat \<Rightarrow> pwm_sensor_state \<Rightarrow> bool" where
  "pwm_slot_ok i s \<longleftrightarrow>
     (if pw_in_use s
      then unat (pw_timer_id s) = i div 4 \<and> unat (pw_channel s) = i mod 4 + 1 \<and>
           gpio_make_pin (pw_gpio_port s) (gp_pin (pw_gpio_pin s)) = Some (pw_gpio_pin s)
      else s = pwm_state_zero)"

definition pwm_inv :: "pwm_sensor \<Rightarrow> board \<Rightarrow> bool" where
  "pwm_inv st b \<longleftrightarrow> board_inv b \<and>
     length (pw_states st) = PWM_SLOT_POOL_SIZE \<and>
     (\<forall>i<PWM_SLOT_POOL_SIZE. pwm_slot_ok i (pw_states st ! i)) \<and>
     pins_consistent pw_in_use pwm_pin_of (pw_states st) (pw_pin_owned st) \<and>
     (\<forall>t<7. case timer_use (btimers b ! t) of
        Pwm _ _ n \<Rightarrow> n = pwm_users (pw_states st) t | _ \<Rightarrow> pwm_users (pw_states st) t = 0)"

interpretation pwm_pins: pin_pool pw_in_use pwm_pin_of pwm_state_zero
  by unfold_locales (simp add: pwm_state_zero_def)

lemma pwm_inv_lengths:
  "pwm_inv st b \<Longrightarrow> length (pw_states st) = PWM_SLOT_POOL_SIZE \<and> length (pw_pin_owned st) = 6"
  by (auto simp: pwm_inv_def pins_consistent_def)

lemma pwm_users_le: "pwm_users ss t \<le> 4"
proof -
  have "{i. i < PWM_SLOT_POOL_SIZE \<and> i div 4 = t \<and> pw_in_use (ss ! i)} \<subseteq> {4 * t ..< 4 * t + 4}"
    by auto
  then have "pwm_users ss t \<le> card {4 * t ..< 4 * t + 4}"
    unfolding pwm_users_def by (intro card_mono) auto
  then show ?thesis by simp
qed

lemma pwm_users_set:
  assumes "length ss = 28" "k < 28" "\<not> pw_in_use (ss ! k)" "pw_in_use s"
  shows "pwm_users (ss[k := s]) t = pwm_users ss t + (if k div 4 = t then 1 else 0)"
proof -
  let ?A = "{i. i < 28 \<and> i div 4 = t \<and> pw_in_use (ss ! i)}"
  let ?B = "{i. i < 28 \<and> i div 4 = t \<and> pw_in_use (ss[k := s] ! i)}"
  have "?B = (if k div 4 = t then insert k ?A else ?A)"
    using assms by (auto simp: nth_list_update)
  moreover have "k \<notin> ?A" "finite ?A" using assms by auto
  ultimately show ?thesis by (simp add: pwm_users_def)
qed

lemma pwm_users_clear:
  assumes "length ss = 28" "k < 28" "pw_in_use (ss ! k)" "\<not> pw_in_use s"
  shows "pwm_users (ss[k := s]) t = pwm_users ss t - (if k div 4 = t then 1 else 0)"
proof -
  let ?A = "{i. i < 28 \<and> i div 4 = t \<and> pw_in_use (ss ! i)}"
  let ?B = "{i. i < 28 \<and> i div 4 = t \<and> pw_in_use (ss[k := s] ! i)}"
  have "?B = (if k div 4 = t then ?A - {k} else ?A)"
    using assms by (auto simp: nth_list_update)
  moreover have "k div 4 = t \<Longrightarrow> k \<in> ?A" "finite ?A" using assms by auto
  ultimately show ?thesis by (simp add: pwm_users_def)
qed

lemma pwm_users_pos: "k < 28 \<Longrightarrow> pw_in_use (ss ! k) \<Longrightarrow> 0 < pwm_users ss (k div 4)"
  by (auto simp: pwm_users_def card_gt_0_iff)

text \<open>So a reference count is at most four and cannot wrap.\<close>

lemma pwm_ref_count_small:
  assumes "pwm_inv st b" "t < 7"
  shows "pwm_ref_count (btimers b ! t) \<noteq> 255"
proof
  assume r: "pwm_ref_count (btimers b ! t) = 255"
  have e: "entry_inv (btimers b ! t)"
    using assms timers_inv_nth by (auto simp: pwm_inv_def board_inv_def)
  then have "te_state (btimers b ! t) = STATE_PWM"
    using r by (auto simp: entry_inv_def split: hw_timer_state.splits)
  then have "timer_use (btimers b ! t) = Pwm (te_psc (btimers b ! t)) (te_arr (btimers b ! t)) 255"
    using r by (simp add: timer_use_def)
  then have "255 = pwm_users (pw_states st) t" using assms by (force simp: pwm_inv_def)
  with pwm_users_le[of "pw_states st" t] show False by simp
qed

lemma slot_for_nat:
  assumes "unat t < 7" "1 \<le> ch" "ch \<le> 4"
  shows "unat (slot_for t ch) = 4 * unat t + (unat ch - 1)"
proof -
  have "unat (ch - 1) = unat ch - 1" using assms(2) by (simp add: unat_sub)
  moreover have "unat (t * 4) = unat t * 4" using assms(1) by (simp add: unat_word_ariths)
  moreover have "unat ch \<le> 4" using assms(3) by (simp add: word_le_nat_alt)
  ultimately show ?thesis using assms(1) by (simp add: slot_for_def unat_word_ariths)
qed

lemma pwm_read_cfg_Some: "11 \<le> length cfg \<Longrightarrow> \<exists>c. pwm_read_cfg cfg = Some c"
  using read_u32_le_Some[of "drop 5 cfg"] read_u16_le_Some[of "drop 9 cfg"]
  by (fastforce simp: pwm_read_cfg_def fetch_def)

lemma pwm_cfg_bounds:
  assumes "\<not> pwm_cfg_invalid c"
  shows "pin_pos (pc_port c) (pc_pin c)" "pc_af c \<le> 15" "unat (pc_timer_raw c) < 7"
    "1 \<le> pc_channel c" "pc_channel c \<le> 4" "pc_duty c \<le> 10000"
    "1 \<le> pc_freq_hz c" "pc_freq_hz c \<le> 1000000"
proof -
  have "pc_timer_raw c \<le> 6" using assms by (simp add: pwm_cfg_invalid_def not_less)
  then show "unat (pc_timer_raw c) < 7" by (simp add: word_le_nat_alt)
qed (use assms in \<open>auto simp: pwm_cfg_invalid_def pin_pos_def not_less word_one_le_iff\<close>)

subsection \<open>Set-up\<close>

lemma hw_timer_handle_Some: "unat tid < 7 \<Longrightarrow> hw_timer_handle tid ts = Some (tim (ts ! unat tid))"
  by (simp add: hw_timer_handle_def word_le_nat_alt)

lemma pwm_open_result:
  assumes c: "\<not> pwm_cfg_invalid c" and pin: "gpio_make_pin (pc_port c) (pc_pin c) = Some pin"
    and reg: "sensor_manager_register PROTO_ID_PWM idx (bsm b) = Some (sid, sm)"
  shows "\<exists>m mr. pwm_open M c idx arr st b = Some
    (if sid = 0
     then (ERR_OUT_OF_RESOURCES, 0,
           \<lparr>pw_states = (pw_states st)[unat idx := pwm_state_zero],
            pw_pin_owned = free_pin (pc_port c) (pc_pin c) (claim_pin (pc_port c) (pc_pin c) (pw_pin_owned st))\<rparr>,
           \<lparr>bmcu = m, btimers = snd (hw_timer_pwm_release (pc_timer_raw c) mr (btimers b)), bsm = sm\<rparr>)
     else (ERR_SUCCESS, sid,
           \<lparr>pw_states = (pw_states st)[unat idx := \<lparr>pw_in_use = True, pw_gpio_port = pc_port c,
              pw_gpio_pin = pin, pw_timer_id = pc_timer_raw c, pw_channel = pc_channel c\<rparr>],
            pw_pin_owned = claim_pin (pc_port c) (pc_pin c) (pw_pin_owned st)\<rparr>,
           \<lparr>bmcu = m, btimers = btimers b, bsm = sm\<rparr>))"
proof -
  note B = pwm_cfg_bounds[OF c]
  have ok: "gpio_pin_ok pin" using gpio_make_pin_ok[OF pin] .
  let ?acfg = "\<lparr>ac_pin = pin, ac_af = pc_af c, ac_speed = GPIO_SPEED_HIGH, ac_pull = GPIO_PULL_NONE,
    ac_output_type = GPIO_OUTPUT_PUSH_PULL\<rparr>"
  obtain m1 where m1: "gpio_configure_af ?acfg (gpio_enable_clock M (pc_port c) (bmcu b)) = Some m1"
    using gpio_configure_total(2)[of ?acfg] ok B(2) by fastforce
  let ?t = "tim (btimers b ! unat (pc_timer_raw c))"
  let ?m2 = "channel_configure M ?t (pc_channel c) (compute_ccr arr (pc_duty c)) m1"
  let ?mr = "channel_disable M ?t (pc_channel c) ?m2"
  obtain m3 ts3 where rel: "hw_timer_pwm_release (pc_timer_raw c) ?mr (btimers b) = (m3, ts3)" by fastforce
  obtain m4 where m4: "gpio_reset_to_defaults pin m3 = Some m4" using gpio_total(1)[OF ok] by blast
  show ?thesis
    by (intro exI[of _ "if sid = 0 then m4 else ?m2"] exI[of _ ?mr])
       (simp add: pwm_open_def pin m1 hw_timer_handle_Some[OF B(3)] reg rel m4 Let_def)
qed

text \<open>The new entry of a slot.\<close>

definition pwm_entry :: "pwm_cfg \<Rightarrow> gpio_pin \<Rightarrow> pwm_sensor_state" where
  "pwm_entry c pin = \<lparr>pw_in_use = True, pw_gpio_port = pc_port c, pw_gpio_pin = pin,
     pw_timer_id = pc_timer_raw c, pw_channel = pc_channel c\<rparr>"

text \<open>A successful set-up: everything that happened.\<close>

definition pwm_setup_ok ::
    "cmsis \<Rightarrow> u8 list \<Rightarrow> pwm_sensor \<Rightarrow> board \<Rightarrow> pwm_cfg \<Rightarrow> gpio_pin \<Rightarrow> u32 \<Rightarrow> u8 \<Rightarrow> pwm_sensor \<Rightarrow> board \<Rightarrow> bool" where
  "pwm_setup_ok M cfg st b c pin arr sid st' b' \<longleftrightarrow>
     pwm_read_cfg cfg = Some c \<and> \<not> pwm_cfg_invalid c \<and>
     gpio_make_pin (pc_port c) (pc_pin c) = Some pin \<and>
     \<not> pin_is_owned (pc_port c) (pc_pin c) (pw_pin_owned st) \<and>
     \<not> pw_in_use (pw_states st ! unat (slot_for (pc_timer_raw c) (pc_channel c))) \<and>
     (\<exists>m1. hw_timer_pwm_acquire M (pc_timer_raw c) (pc_freq_hz c) (bmcu b) (btimers b) = (Inr arr, m1, btimers b')) \<and>
     sensor_manager_register PROTO_ID_PWM (slot_for (pc_timer_raw c) (pc_channel c)) (bsm b) = Some (sid, bsm b') \<and>
     sid \<noteq> 0 \<and>
     st' = \<lparr>pw_states = (pw_states st)[unat (slot_for (pc_timer_raw c) (pc_channel c)) := pwm_entry c pin],
            pw_pin_owned = claim_pin (pc_port c) (pc_pin c) (pw_pin_owned st)\<rparr>"

lemma pwm_slot_index:
  assumes "\<not> pwm_cfg_invalid c"
  shows "unat (slot_for (pc_timer_raw c) (pc_channel c)) < 28"
    "unat (slot_for (pc_timer_raw c) (pc_channel c)) div 4 = unat (pc_timer_raw c)"
    "unat (slot_for (pc_timer_raw c) (pc_channel c)) mod 4 + 1 = unat (pc_channel c)"
proof -
  note B = pwm_cfg_bounds[OF assms]
  define k where "k = unat (pc_channel c) - 1"
  have "1 \<le> unat (pc_channel c)" "unat (pc_channel c) \<le> 4" using B(4,5) by (auto simp: word_le_nat_alt)
  then have "k < 4" "unat (pc_channel c) = k + 1" by (simp_all add: k_def)
  then show "unat (slot_for (pc_timer_raw c) (pc_channel c)) < 28"
    "unat (slot_for (pc_timer_raw c) (pc_channel c)) div 4 = unat (pc_timer_raw c)"
    "unat (slot_for (pc_timer_raw c) (pc_channel c)) mod 4 + 1 = unat (pc_channel c)"
    using slot_for_nat[OF B(3-5)] B(3) by auto
qed

lemma pwm_setup_late:
  assumes inv: "pwm_inv st b" and len: "\<not> cfg_len < 11" and c: "pwm_read_cfg cfg = Some c"
    and valid: "\<not> pwm_cfg_invalid c" "\<not> pc_channel c > hw_timer_max_channel (pc_timer_raw c) (btimers b)"
    and free: "\<not> pin_is_owned (pc_port c) (pc_pin c) (pw_pin_owned st)"
    and unused: "\<not> pw_in_use (pw_states st ! unat (slot_for (pc_timer_raw c) (pc_channel c)))"
    and res: "pwm_sensor_setup M cfg cfg_len st b = Some (err, sid, st', b')"
  shows "err \<noteq> ERR_SUCCESS \<and> sid = 0 \<and> st' = st \<and> btimers b' = btimers b \<and> bsm b' = bsm b \<or>
    err = ERR_SUCCESS \<and> (\<exists>pin arr. pwm_setup_ok M cfg st b c pin arr sid st' b')"
proof -
  let ?idx = "slot_for (pc_timer_raw c) (pc_channel c)"
  note B = pwm_cfg_bounds[OF valid(1)] and I = pwm_slot_index[OF valid(1)]
  have fetch: "fetch (unat ?idx) (pw_states st) = Some (pw_states st ! unat ?idx)"
    using I(1) inv by (simp add: pwm_inv_def)
  have zero: "pw_states st ! unat ?idx = pwm_state_zero"
    using inv I(1) unused by (auto simp: pwm_inv_def pwm_slot_ok_def)
  have lens: "length (pw_pin_owned st) = 6" using pwm_inv_lengths[OF inv] by simp
  obtain r m1 ts where acq: "hw_timer_pwm_acquire M (pc_timer_raw c) (pc_freq_hz c) (bmcu b) (btimers b) = (r, m1, ts)"
    by (metis prod_cases3)
  obtain pin where pin: "gpio_make_pin (pc_port c) (pc_pin c) = Some pin"
    using gpio_make_pin_Some_iff B(1) unfolding pin_pos_def by blast
  obtain sid' sm where reg: "sensor_manager_register PROTO_ID_PWM ?idx (bsm b) = Some (sid', sm)"
    using register_total[of PROTO_ID_PWM ?idx "bsm b"] by auto
  show ?thesis
  proof (cases r)
    case (Inl e)
    then have "pwm_sensor_setup M cfg cfg_len st b = Some (e, 0, st, b\<lparr>bmcu := m1, btimers := ts\<rparr>)"
      using len c valid free unused fetch acq by (simp add: pwm_sensor_setup_def Let_def)
    with res pwm_acquire_error[of M _ _ _ _ e m1 ts] acq Inl show ?thesis by auto
  next
    case (Inr arr)
    let ?b = "b\<lparr>bmcu := m1, btimers := ts\<rparr>"
    have "pwm_sensor_setup M cfg cfg_len st b = pwm_open M c ?idx arr st ?b"
      using len c valid free unused fetch acq Inr by (simp add: pwm_sensor_setup_def Let_def)
    moreover obtain m mr where "pwm_open M c ?idx arr st ?b = Some (if sid' = 0
       then (ERR_OUT_OF_RESOURCES, 0,
           \<lparr>pw_states = (pw_states st)[unat ?idx := pwm_state_zero],
            pw_pin_owned = free_pin (pc_port c) (pc_pin c) (claim_pin (pc_port c) (pc_pin c) (pw_pin_owned st))\<rparr>,
           \<lparr>bmcu = m, btimers = snd (hw_timer_pwm_release (pc_timer_raw c) mr ts), bsm = sm\<rparr>)
       else (ERR_SUCCESS, sid',
           \<lparr>pw_states = (pw_states st)[unat ?idx := pwm_entry c pin],
            pw_pin_owned = claim_pin (pc_port c) (pc_pin c) (pw_pin_owned st)\<rparr>,
           \<lparr>bmcu = m, btimers = ts, bsm = sm\<rparr>))"
      using pwm_open_result[OF valid(1) pin, where b = ?b and idx = ?idx and M = M and arr = arr and st = st] reg
      unfolding pwm_entry_def by fastforce
    moreover have "snd (hw_timer_pwm_release (pc_timer_raw c) mr' ts) = btimers b" for mr'
      using inv acq Inr pwm_ref_count_small[OF inv B(3)]
      by (intro pwm_release_acquire[of _ M _ "pc_freq_hz c" "bmcu b" arr m1])
         (auto simp: pwm_inv_def board_inv_def)
    moreover have "sm = bsm b" if "sid' = 0"
      using register_refused reg that inv by (auto simp: pwm_inv_def board_inv_def)
    moreover have "\<lparr>pw_states = (pw_states st)[unat ?idx := pwm_state_zero],
        pw_pin_owned = free_pin (pc_port c) (pc_pin c) (claim_pin (pc_port c) (pc_pin c) (pw_pin_owned st))\<rparr> = st"
      using free_claim_pin[OF lens B(1) free] list_update_id[of "pw_states st" "unat ?idx"]
      unfolding zero by simp
    ultimately show ?thesis
      using res acq reg c valid pin free unused Inr
      by (cases "sid' = 0") (auto simp: pwm_setup_ok_def)
  qed
qed

text \<open>
  The outcome of set-up, whatever the payload: it never traps, and either it reports an error
  and leaves slots, pins, timers and sensor table as they were, or it succeeds.
\<close>

lemma pwm_setup_total:
  assumes "pwm_inv st b" "unat cfg_len \<le> length cfg"
  shows "\<exists>r. pwm_sensor_setup M cfg cfg_len st b = Some r"
proof (cases "cfg_len < 11")
  case False
  then have "11 \<le> length cfg" using assms(2) by (simp add: word_less_nat_alt)
  then obtain c where c: "pwm_read_cfg cfg = Some c" using pwm_read_cfg_Some by blast
  let ?idx = "slot_for (pc_timer_raw c) (pc_channel c)"
  show ?thesis
  proof (cases "pwm_cfg_invalid c")
    case valid: False
    have fetch: "fetch (unat ?idx) (pw_states st) = Some (pw_states st ! unat ?idx)"
      using pwm_slot_index(1)[OF valid] assms(1) by (simp add: pwm_inv_def)
    obtain pin where pin: "gpio_make_pin (pc_port c) (pc_pin c) = Some pin"
      using gpio_make_pin_Some_iff pwm_cfg_bounds(1)[OF valid] unfolding pin_pos_def by blast
    have "\<exists>r. pwm_open M c ?idx arr st (b\<lparr>bmcu := m1, btimers := ts\<rparr>) = Some r" for arr m1 ts
      using pwm_open_result[OF valid pin, where b = "b\<lparr>bmcu := m1, btimers := ts\<rparr>" and idx = ?idx]
        register_total[of PROTO_ID_PWM ?idx "bsm b"] by fastforce
    then show ?thesis
      using False c valid fetch
      by (auto simp: pwm_sensor_setup_def Let_def split: prod.splits sum.splits)
  qed (simp add: pwm_sensor_setup_def False c)
qed (simp add: pwm_sensor_setup_def)

lemma pwm_setup_outcome:
  assumes inv: "pwm_inv st b" and len: "unat cfg_len \<le> length cfg"
    and res: "pwm_sensor_setup M cfg cfg_len st b = Some (err, sid, st', b')"
  shows "err \<noteq> ERR_SUCCESS \<and> sid = 0 \<and> st' = st \<and> btimers b' = btimers b \<and> bsm b' = bsm b \<or>
    err = ERR_SUCCESS \<and> (\<exists>c pin arr. pwm_setup_ok M cfg st b c pin arr sid st' b')"
proof (cases "cfg_len < 11")
  case True
  with res show ?thesis by (auto simp: pwm_sensor_setup_def)
next
  case False
  then have "11 \<le> length cfg" using len by (simp add: word_less_nat_alt)
  then obtain c where c: "pwm_read_cfg cfg = Some c" using pwm_read_cfg_Some by blast
  let ?idx = "slot_for (pc_timer_raw c) (pc_channel c)"
  show ?thesis
  proof (cases "pwm_cfg_invalid c \<or> pc_channel c > hw_timer_max_channel (pc_timer_raw c) (btimers b) \<or>
      pin_is_owned (pc_port c) (pc_pin c) (pw_pin_owned st)")
    case True
    with res False c show ?thesis by (auto simp: pwm_sensor_setup_def split: if_splits)
  next
    case ok: False
    have fetch: "fetch (unat ?idx) (pw_states st) = Some (pw_states st ! unat ?idx)"
      using pwm_slot_index(1)[of c] ok inv by (simp add: pwm_inv_def)
    show ?thesis
    proof (cases "pw_in_use (pw_states st ! unat ?idx)")
      case True
      with res False c ok fetch show ?thesis by (auto simp: pwm_sensor_setup_def Let_def)
    next
      case unused: False
      from pwm_setup_late[OF inv False c _ _ _ unused res] ok show ?thesis by blast
    qed
  qed
qed

subsection \<open>The invariant is preserved\<close>

text \<open>Storing an entry for a pin nobody owns, and clearing a used slot.\<close>

lemma pwm_store_slot:
  assumes inv: "pwm_inv st b" and k: "k < 28" "\<not> pw_in_use (pw_states st ! k)"
    and s: "pw_in_use s" "pwm_slot_ok k s" "pwm_pin_of s = (port, pin)"
    and pos: "pin_pos port pin" and free: "\<not> pin_is_owned port pin (pw_pin_owned st)"
    and b': "board_inv b'"
    and uses: "\<And>t. t < 7 \<Longrightarrow> case timer_use (btimers b' ! t) of
        Pwm _ _ n \<Rightarrow> n = pwm_users (pw_states st) t + (if k div 4 = t then 1 else 0)
      | _ \<Rightarrow> pwm_users (pw_states st) t + (if k div 4 = t then 1 else 0) = 0"
  shows "pwm_inv \<lparr>pw_states = (pw_states st)[k := s], pw_pin_owned = claim_pin port pin (pw_pin_owned st)\<rparr> b'"
proof -
  have L: "length (pw_states st) = 28" using inv by (simp add: pwm_inv_def)
  have users: "pwm_users ((pw_states st)[k := s]) t = pwm_users (pw_states st) t + (if k div 4 = t then 1 else 0)" for t
    using pwm_users_set[OF L k s(1)] by simp
  have "pins_consistent pw_in_use pwm_pin_of ((pw_states st)[k := s]) (claim_pin port pin (pw_pin_owned st))"
    using inv k s pos free L by (intro pwm_pins.store) (auto simp: pwm_inv_def)
  moreover have "pwm_slot_ok i ((pw_states st)[k := s] ! i)" if "i < 28" for i
    using inv that s(2) L k(1) by (auto simp: pwm_inv_def nth_list_update)
  ultimately show ?thesis
    unfolding pwm_inv_def pwm_sensor.select_convs users using b' L uses by simp
qed

lemma pwm_clear_slot:
  assumes inv: "pwm_inv st b" and k: "k < 28" "pw_in_use (pw_states st ! k)"
    and pp: "pwm_pin_of (pw_states st ! k) = (port, pin)"
    and b': "board_inv b'"
    and uses: "\<And>t. t < 7 \<Longrightarrow> case timer_use (btimers b' ! t) of
        Pwm _ _ n \<Rightarrow> n = pwm_users (pw_states st) t - (if k div 4 = t then 1 else 0)
      | _ \<Rightarrow> pwm_users (pw_states st) t - (if k div 4 = t then 1 else 0) = 0"
  shows "pwm_inv \<lparr>pw_states = (pw_states st)[k := pwm_state_zero],
                  pw_pin_owned = free_pin port pin (pw_pin_owned st)\<rparr> b'"
proof -
  have L: "length (pw_states st) = 28" using inv by (simp add: pwm_inv_def)
  have users: "pwm_users ((pw_states st)[k := pwm_state_zero]) t
      = pwm_users (pw_states st) t - (if k div 4 = t then 1 else 0)" for t
    by (rule pwm_users_clear[OF L k]) (simp add: pwm_state_zero_def)
  have "pins_consistent pw_in_use pwm_pin_of ((pw_states st)[k := pwm_state_zero]) (free_pin port pin (pw_pin_owned st))"
    using inv k pp L by (intro pwm_pins.clear) (auto simp: pwm_inv_def)
  moreover have "pwm_slot_ok i ((pw_states st)[k := pwm_state_zero] ! i)" if "i < 28" for i
    using inv that L k(1) by (auto simp: pwm_inv_def nth_list_update pwm_slot_ok_def pwm_state_zero_def)
  ultimately show ?thesis
    unfolding pwm_inv_def pwm_sensor.select_convs users using b' L uses by simp
qed

lemma pwm_setup_inv:
  assumes inv: "pwm_inv st b" and ok: "pwm_setup_ok M cfg st b c pin arr sid st' b'"
  shows "pwm_inv st' b'"
proof -
  let ?t = "unat (pc_timer_raw c)" and ?k = "unat (slot_for (pc_timer_raw c) (pc_channel c))"
  obtain m1 where c: "\<not> pwm_cfg_invalid c" and mk: "gpio_make_pin (pc_port c) (pc_pin c) = Some pin"
    and own: "\<not> pin_is_owned (pc_port c) (pc_pin c) (pw_pin_owned st)"
    and unused: "\<not> pw_in_use (pw_states st ! ?k)"
    and acq: "hw_timer_pwm_acquire M (pc_timer_raw c) (pc_freq_hz c) (bmcu b) (btimers b) = (Inr arr, m1, btimers b')"
    and reg: "sensor_manager_register PROTO_ID_PWM (slot_for (pc_timer_raw c) (pc_channel c)) (bsm b) = Some (sid, bsm b')"
    and sid: "sid \<noteq> 0"
    and st': "st' = \<lparr>pw_states = (pw_states st)[?k := pwm_entry c pin],
            pw_pin_owned = claim_pin (pc_port c) (pc_pin c) (pw_pin_owned st)\<rparr>"
    using ok by (auto simp: pwm_setup_ok_def)
  note B = pwm_cfg_bounds[OF c] and I = pwm_slot_index[OF c]
  have T: "timers_inv (btimers b)" and S: "sm_inv (bsm b)" using inv by (auto simp: pwm_inv_def board_inv_def)
  note small = pwm_ref_count_small[OF inv B(3)]
  have b': "board_inv b'"
    using pwm_acquire_inv[OF T acq small] register_accepted(1)[OF S reg sid] by (simp add: board_inv_def)
  have gp: "gp_pin pin = pc_pin c" using mk by (auto simp: gpio_make_pin_def split: if_splits)
  have l: "length (btimers b) = 7" using T by (simp add: timers_inv_def)
  have uses: "case timer_use (btimers b' ! t) of
        Pwm _ _ n \<Rightarrow> n = pwm_users (pw_states st) t + (if ?k div 4 = t then 1 else 0)
      | _ \<Rightarrow> pwm_users (pw_states st) t + (if ?k div 4 = t then 1 else 0) = 0" if t: "t < 7" for t
  proof -
    have old: "case timer_use (btimers b ! t) of
        Pwm _ _ n \<Rightarrow> n = pwm_users (pw_states st) t | _ \<Rightarrow> pwm_users (pw_states st) t = 0"
      using inv t by (simp add: pwm_inv_def)
    show ?thesis
    proof (cases "t = ?t")
      case True
      with old pwm_acquire_use[OF T acq small] I(2) show ?thesis
        by (auto split: timer_use.splits)
    next
      case False
      with old pwm_acquire_arr(3)[OF l acq False] I(2) show ?thesis by (simp split: timer_use.splits)
    qed
  qed
  show ?thesis
    unfolding st'
    by (rule pwm_store_slot[OF inv I(1) unused _ _ _ B(1) own b' uses])
       (use I mk gp in \<open>auto simp: pwm_entry_def pwm_slot_ok_def pwm_pin_of_def\<close>)
qed

subsection \<open>Stop\<close>

lemma pwm_stop_result:
  assumes inv: "pwm_inv st b" and k: "unat i < 28" "pw_in_use (pw_states st ! unat i)"
  shows "\<exists>m mr ts. pwm_sensor_stop M i st b = Some (ERR_SUCCESS,
      \<lparr>pw_states = (pw_states st)[unat i := pwm_state_zero],
       pw_pin_owned = free_pin (pw_gpio_port (pw_states st ! unat i))
         (gp_pin (pw_gpio_pin (pw_states st ! unat i))) (pw_pin_owned st)\<rparr>,
      \<lparr>bmcu = m, btimers = snd (hw_timer_pwm_release (pw_timer_id (pw_states st ! unat i)) mr (btimers b)), bsm = bsm b\<rparr>)"
proof -
  let ?s = "pw_states st ! unat i"
  have ok: "pwm_slot_ok (unat i) ?s" and len: "length (pw_states st) = 28" using inv k by (auto simp: pwm_inv_def)
  then have "unat (pw_timer_id ?s) < 7" using k by (auto simp: pwm_slot_ok_def)
  then have h: "hw_timer_handle (pw_timer_id ?s) (btimers b) = Some (tim (btimers b ! unat (pw_timer_id ?s)))"
    by (rule hw_timer_handle_Some)
  have pin: "gpio_pin_ok (pw_gpio_pin ?s)" using ok k gpio_make_pin_ok by (auto simp: pwm_slot_ok_def)
  let ?mr = "channel_disable M (tim (btimers b ! unat (pw_timer_id ?s))) (pw_channel ?s) (bmcu b)"
  obtain m3 ts3 where rel: "hw_timer_pwm_release (pw_timer_id ?s) ?mr (btimers b) = (m3, ts3)" by fastforce
  obtain m4 where m4: "gpio_reset_to_defaults (pw_gpio_pin ?s) m3 = Some m4" using gpio_total(1)[OF pin] by blast
  show ?thesis
    using k len by (intro exI[of _ m4] exI[of _ ?mr]) (simp add: pwm_sensor_stop_def h rel m4 Let_def)
qed

lemma pwm_stop_idle:
  assumes "pwm_inv st b" "unat i < 28" "\<not> pw_in_use (pw_states st ! unat i)"
  shows "pwm_sensor_stop M i st b = Some (ERR_INVALID_SENSOR_ID, st, b)"
  using assms by (simp add: pwm_sensor_stop_def pwm_inv_def)

lemma pwm_stop_inv:
  assumes inv: "pwm_inv st b" and i: "unat i < 28"
    and res: "pwm_sensor_stop M i st b = Some (err, st', b')"
  shows "pwm_inv st' b'"
proof (cases "pw_in_use (pw_states st ! unat i)")
  case False
  with pwm_stop_idle[OF inv i False, of M] res inv show ?thesis by simp
next
  case True
  let ?s = "pw_states st ! unat i" and ?t = "unat (pw_timer_id (pw_states st ! unat i))"
  obtain m mr where st': "st' = \<lparr>pw_states = (pw_states st)[unat i := pwm_state_zero],
       pw_pin_owned = free_pin (pw_gpio_port ?s) (gp_pin (pw_gpio_pin ?s)) (pw_pin_owned st)\<rparr>"
    and b': "b' = \<lparr>bmcu = m, btimers = snd (hw_timer_pwm_release (pw_timer_id ?s) mr (btimers b)), bsm = bsm b\<rparr>"
    using pwm_stop_result[OF inv i True, of M] res by auto
  obtain m2 ts where rel: "hw_timer_pwm_release (pw_timer_id ?s) mr (btimers b) = (m2, ts)" by fastforce
  have T: "timers_inv (btimers b)" and S: "sm_inv (bsm b)" using inv by (auto simp: pwm_inv_def board_inv_def)
  have ok: "pwm_slot_ok (unat i) ?s" using inv i by (simp add: pwm_inv_def)
  then have t: "?t = unat i div 4" "?t < 7" using i True by (auto simp: pwm_slot_ok_def)
  have pos: "0 < pwm_users (pw_states st) ?t" using pwm_users_pos[of "unat i" "pw_states st"] i True t by simp
  have old: "case timer_use (btimers b ! u) of
        Pwm _ _ n \<Rightarrow> n = pwm_users (pw_states st) u | _ \<Rightarrow> pwm_users (pw_states st) u = 0" if "u < 7" for u
    using inv that by (simp add: pwm_inv_def)
  obtain psc arr where use: "timer_use (btimers b ! ?t) = Pwm psc arr (pwm_users (pw_states st) ?t)"
    using old[OF t(2)] pos by (auto split: timer_use.splits)
  note R = pwm_release_use[OF T rel t(2) use]
  have uses: "case timer_use (ts ! u) of
        Pwm _ _ n \<Rightarrow> n = pwm_users (pw_states st) u - (if unat i div 4 = u then 1 else 0)
      | _ \<Rightarrow> pwm_users (pw_states st) u - (if unat i div 4 = u then 1 else 0) = 0" if u: "u < 7" for u
  proof (cases "u = ?t")
    case True
    with R(1) t(1) show ?thesis by auto
  next
    case False
    with R(2)[OF u False] old[OF u] t(1) show ?thesis by (simp split: timer_use.splits)
  qed
  have bi: "board_inv b'" using pwm_release_inv[OF T rel] S b' rel by (simp add: board_inv_def)
  show ?thesis
    unfolding st'
    by (rule pwm_clear_slot[OF inv i True _ bi]) (use uses b' rel in \<open>auto simp: pwm_pin_of_def\<close>)
qed

text \<open>Stopping a sensor right after its set-up restores slots, pins and timers.\<close>

lemma pwm_stop_after_setup:
  assumes inv: "pwm_inv st b" and ok: "pwm_setup_ok M cfg st b c pin arr sid st' b'"
  shows "\<exists>b''. pwm_sensor_stop M (slot_for (pc_timer_raw c) (pc_channel c)) st' b' = Some (ERR_SUCCESS, st, b'') \<and>
    btimers b'' = btimers b \<and> bsm b'' = bsm b'"
proof -
  let ?i = "slot_for (pc_timer_raw c) (pc_channel c)" and ?k = "unat (slot_for (pc_timer_raw c) (pc_channel c))"
  obtain m1 where c: "\<not> pwm_cfg_invalid c" and mk: "gpio_make_pin (pc_port c) (pc_pin c) = Some pin"
    and own: "\<not> pin_is_owned (pc_port c) (pc_pin c) (pw_pin_owned st)"
    and unused: "\<not> pw_in_use (pw_states st ! ?k)"
    and acq: "hw_timer_pwm_acquire M (pc_timer_raw c) (pc_freq_hz c) (bmcu b) (btimers b) = (Inr arr, m1, btimers b')"
    and st': "st' = \<lparr>pw_states = (pw_states st)[?k := pwm_entry c pin],
            pw_pin_owned = claim_pin (pc_port c) (pc_pin c) (pw_pin_owned st)\<rparr>"
    using ok by (auto simp: pwm_setup_ok_def)
  note B = pwm_cfg_bounds[OF c] and I = pwm_slot_index[OF c]
  have L: "length (pw_states st) = 28" "length (pw_pin_owned st) = 6" and T: "timers_inv (btimers b)"
    using inv pwm_inv_lengths[OF inv] by (auto simp: pwm_inv_def board_inv_def)
  have zero: "pw_states st ! ?k = pwm_state_zero"
    using inv I(1) unused by (auto simp: pwm_inv_def pwm_slot_ok_def)
  have gp: "gp_pin pin = pc_pin c" using mk by (auto simp: gpio_make_pin_def split: if_splits)
  have entry: "pw_states st' ! ?k = pwm_entry c pin" using st' I(1) L by simp
  have used: "pw_in_use (pw_states st' ! ?k)" by (simp add: entry pwm_entry_def)
  have restored: "\<lparr>pw_states = (pw_states st')[?k := pwm_state_zero],
       pw_pin_owned = free_pin (pw_gpio_port (pwm_entry c pin)) (gp_pin (pw_gpio_pin (pwm_entry c pin)))
         (pw_pin_owned st')\<rparr> = st"
    using free_claim_pin[OF L(2) B(1) own] list_update_id[of "pw_states st" ?k] gp
    unfolding zero by (simp add: st' pwm_entry_def)
  have timers: "snd (hw_timer_pwm_release (pc_timer_raw c) mr (btimers b')) = btimers b" for mr
    by (rule pwm_release_acquire[OF T acq pwm_ref_count_small[OF inv B(3)]])
  show ?thesis
    using pwm_stop_result[OF pwm_setup_inv[OF inv ok] I(1) used, of M] restored timers
    unfolding entry by (auto simp: pwm_entry_def)
qed

subsection \<open>The compare value\<close>

lemma compute_ccr_exact:
  assumes "duty \<noteq> 0" "duty < 10000" "(unat arr + 1) * unat duty < 2 ^ 32"
  shows "unat (compute_ccr arr duty) = (unat arr + 1) * unat duty div 10000"
proof -
  have d: "1 \<le> unat duty" using assms(1) by (simp add: Suc_le_eq unat_gt_0)
  have "unat arr + 1 \<le> (unat arr + 1) * unat duty"
    using mult_le_mono2[OF d, of "unat arr + 1"] by (simp only: mult_1_right)
  then have "unat arr + 1 < 2 ^ 32" using assms(3) by linarith
  then have a: "unat (arr + 1) = unat arr + 1" by (simp add: unat_word_ariths)
  have u: "unat (ucast duty :: u32) = unat duty"
    using less_trans[OF unat_u16_less, of "2 ^ 32" duty] by (simp add: unsigned_ucast_eq take_bit_nat_eq_self_iff)
  have "unat ((arr + 1) * ucast duty) = (unat arr + 1) * unat duty"
    using assms(3) unfolding unat_word_ariths(2) a u by simp
  moreover have "compute_ccr arr duty = ((arr + 1) * ucast duty) div 10000"
    using assms(1,2) leD[of 10000 duty] by (auto simp: compute_ccr_def)
  ultimately show ?thesis by (simp add: unat_div_distrib)
qed

text \<open>On a 16-bit timer the product always fits.\<close>

lemma compute_ccr_16:
  assumes "unat arr \<le> 0xFFFF" "duty \<noteq> 0" "duty < 10000"
  shows "unat (compute_ccr arr duty) = (unat arr + 1) * unat duty div 10000"
proof (rule compute_ccr_exact[OF assms(2,3)])
  have "unat duty \<le> 9999" using assms(3) by (simp add: word_less_nat_alt)
  then have "(unat arr + 1) * unat duty \<le> 65536 * 9999" using assms(1) by (intro mult_le_mono) auto
  then show "(unat arr + 1) * unat duty < 2 ^ 32" by simp
qed

lemma pwm_set_output_result:
  assumes inv: "pwm_inv st b" and k: "unat i < 28" "pw_in_use (pw_states st ! unat i)"
    and v: "\<not> values_len < 2" "read_u16_le values = Some duty" "duty \<le> 10000"
  shows "pwm_sensor_set_output i values values_len st b = Some (ERR_SUCCESS,
    b\<lparr>bmcu := channel_set_ccr (tim (btimers b ! unat (pw_timer_id (pw_states st ! unat i))))
       (pw_channel (pw_states st ! unat i))
       (compute_ccr (te_arr (btimers b ! unat (pw_timer_id (pw_states st ! unat i)))) duty) (bmcu b)\<rparr>)"
proof -
  let ?s = "pw_states st ! unat i"
  have ok: "pwm_slot_ok (unat i) ?s" and len: "length (pw_states st) = 28" using inv k by (auto simp: pwm_inv_def)
  then have t: "unat (pw_timer_id ?s) < 7" using k by (auto simp: pwm_slot_ok_def)
  then have "\<not> pw_timer_id ?s \<ge> 7" by (simp add: word_le_nat_alt)
  then show ?thesis
    using k len v hw_timer_handle_Some[OF t, of "btimers b"]
    by (simp add: pwm_sensor_set_output_def hw_timer_pwm_arr_def not_less Let_def)
qed

text \<open>
  When set-up succeeds: the channel exists on the timer, pin and channel are free, the timer is free
  or runs at the requested frequency, and the sensor table has room.
\<close>

definition pwm_can_open :: "pwm_cfg \<Rightarrow> pwm_sensor \<Rightarrow> board \<Rightarrow> bool" where
  "pwm_can_open c st b \<longleftrightarrow>
     (let e = btimers b ! unat (pc_timer_raw c)
      in pc_channel c \<le> hw_timer_max_channel (pc_timer_raw c) (btimers b) \<and>
         \<not> pin_is_owned (pc_port c) (pc_pin c) (pw_pin_owned st) \<and>
         \<not> pw_in_use (pw_states st ! unat (slot_for (pc_timer_raw c) (pc_channel c))) \<and>
         (te_state e = STATE_FREE \<or>
          te_state e = STATE_PWM \<and> compute_psc_arr (pc_freq_hz c) (te_width e) = Inr (te_psc e, te_arr e)) \<and>
         sm_room (bsm b))"

lemma pwm_acquire_succeeds:
  assumes "\<not> pwm_cfg_invalid c" "pwm_can_open c st b"
  shows "\<exists>arr m ts. hw_timer_pwm_acquire M (pc_timer_raw c) (pc_freq_hz c) (bmcu b) (btimers b) = (Inr arr, m, ts)"
proof -
  note B = pwm_cfg_bounds[OF assms(1)]
  let ?e = "btimers b ! unat (pc_timer_raw c)"
  have "pc_freq_hz c \<noteq> 0" "pc_freq_hz c \<le> 42000000" using B(7,8) by (auto simp: word_le_nat_alt)
  then obtain psc arr where a: "compute_psc_arr (pc_freq_hz c) (te_width ?e) = Inr (psc, arr)" by (rule compute_psc_arr_value)
  have "\<not> pc_timer_raw c \<ge> 7" using B(3) by (simp add: word_le_nat_alt)
  then show ?thesis using assms(2) a by (auto simp: hw_timer_pwm_acquire_def pwm_can_open_def Let_def)
qed

lemma pwm_setup_succeeds:
  assumes "pwm_inv st b" "\<not> cfg_len < PWM_CFG_SIZE" "pwm_read_cfg cfg = Some c" "\<not> pwm_cfg_invalid c" "pwm_can_open c st b"
  shows "\<exists>sid st' b'. pwm_sensor_setup M cfg cfg_len st b = Some (ERR_SUCCESS, sid, st', b')"
proof -
  let ?idx = "slot_for (pc_timer_raw c) (pc_channel c)"
  have fetch: "fetch (unat ?idx) (pw_states st) = Some (pw_states st ! unat ?idx)"
    using pwm_slot_index(1)[OF assms(4)] assms(1) by (simp add: pwm_inv_def)
  obtain pin where pin: "gpio_make_pin (pc_port c) (pc_pin c) = Some pin"
    using gpio_make_pin_Some_iff pwm_cfg_bounds(1)[OF assms(4)] unfolding pin_pos_def by blast
  obtain arr m ts where acq: "hw_timer_pwm_acquire M (pc_timer_raw c) (pc_freq_hz c) (bmcu b) (btimers b) = (Inr arr, m, ts)"
    using pwm_acquire_succeeds[OF assms(4,5)] by blast
  have S: "sm_inv (bsm b)" "sm_room (bsm b)" "(PROTO_ID_PWM :: u8) \<noteq> 0"
    using assms(1,5) by (simp_all add: pwm_inv_def board_inv_def pwm_can_open_def Let_def)
  obtain sid sm where reg: "sensor_manager_register PROTO_ID_PWM ?idx (bsm b) = Some (sid, sm)" "sid \<noteq> 0"
    by (rule register_room_code[OF S, where internal_id = ?idx])
  then have "\<exists>st' b'. pwm_open M c ?idx arr st (b\<lparr>bmcu := m, btimers := ts\<rparr>) = Some (ERR_SUCCESS, sid, st', b')"
    using pwm_open_result[OF assms(4) pin, where b = "b\<lparr>bmcu := m, btimers := ts\<rparr>" and idx = ?idx] by fastforce
  then show ?thesis using assms(2-5) fetch acq
    by (auto simp: pwm_sensor_setup_def pwm_can_open_def Let_def not_le)
qed

subsection \<open>Properties\<close>

definition pwm_start :: pwm_sensor where
  "pwm_start = pwm_sensor_init \<lparr>pw_states = [], pw_pin_owned = []\<rparr>"

lemma pwm_users_start: "pwm_users (replicate 28 pwm_state_zero) t = 0"
  by (auto simp: pwm_users_def pwm_state_zero_def)

lemma timer_use_start: "t < 7 \<Longrightarrow> timer_use (hw_timer_init M ! t) = Free"
proof -
  have "list_all (\<lambda>e. timer_use e = Free) (hw_timer_init M)" "length (hw_timer_init M) = 7"
    by (simp_all add: hw_timer_init_def timer_use_def timer_entry_def)
  then show "t < 7 \<Longrightarrow> timer_use (hw_timer_init M ! t) = Free" by (simp add: list_all_length)
qed

lemma pwm_inv_start: "pwm_inv pwm_start (board_start M)"
proof -
  have "pwm_slot_ok i (replicate 28 pwm_state_zero ! i)" if "i < 28" for i
    using that by (simp add: pwm_slot_ok_def pwm_state_zero_def)
  then show ?thesis
    using timers_inv_init[of M] sm_inv_start pwm_pins.start[of 28]
    by (auto simp: pwm_inv_def pwm_start_def pwm_sensor_init_def board_start_def board_inv_def
        pwm_users_start timer_use_start)
qed

text \<open>C27: PWM set-up, for every payload: it never traps and never reads beyond the payload; on any
  error the slots, the owned pins, the timer pool and the sensor table are exactly as before; on
  success the returned id is new and maps to the slot of the requested timer and channel.\<close>

theorem pwm_setup_all_or_nothing:
  assumes "pwm_inv st b" "unat cfg_len \<le> length cfg"
  shows "\<exists>err sid st' b'. pwm_sensor_setup M cfg cfg_len st b = Some (err, sid, st', b') \<and> pwm_inv st' b' \<and>
    (if err = ERR_SUCCESS
     then \<exists>c. pwm_read_cfg cfg = Some c \<and> sid \<noteq> PROTO_SENSOR_ID_NONE \<and> sm_table (bsm b) sid = None \<and>
            sm_table (bsm b') = (sm_table (bsm b))(sid \<mapsto> (PROTO_ID_PWM, slot_for (pc_timer_raw c) (pc_channel c)))
     else sid = PROTO_SENSOR_ID_NONE \<and> st' = st \<and> btimers b' = btimers b \<and> bsm b' = bsm b)"
proof -
  obtain err sid st' b' where r: "pwm_sensor_setup M cfg cfg_len st b = Some (err, sid, st', b')"
    using pwm_setup_total[OF assms, of M] by (metis prod_cases4)
  have S: "sm_inv (bsm b)" using assms(1) by (simp add: pwm_inv_def board_inv_def)
  from pwm_setup_outcome[OF assms r] show ?thesis
  proof (elim disjE)
    assume err: "err \<noteq> ERR_SUCCESS \<and> sid = 0 \<and> st' = st \<and> btimers b' = btimers b \<and> bsm b' = bsm b"
    then have "pwm_inv st' b'" using assms(1) by (simp add: pwm_inv_def board_inv_def)
    with r err show ?thesis by auto
  next
    assume "err = ERR_SUCCESS \<and> (\<exists>c pin arr. pwm_setup_ok M cfg st b c pin arr sid st' b')"
    then obtain c pin arr where ok: "err = ERR_SUCCESS" "pwm_setup_ok M cfg st b c pin arr sid st' b'" by blast
    then have reg: "sensor_manager_register PROTO_ID_PWM (slot_for (pc_timer_raw c) (pc_channel c)) (bsm b) = Some (sid, bsm b')"
      "sid \<noteq> 0" "pwm_read_cfg cfg = Some c" by (auto simp: pwm_setup_ok_def)
    from register_accepted[OF S reg(1,2)] pwm_setup_inv[OF assms(1) ok(2)] ok(1) reg r show ?thesis by auto
  qed
qed

theorem pwm_setup_all_or_nothing_witness:
  "\<exists>sid st' b'. pwm_sensor_setup example_masks [0, 6] 2 pwm_start (board_start example_masks)
     = Some (ERR_MALFORMED_PAYLOAD, sid, st', b') \<and> st' = pwm_start"
  using pwm_setup_all_or_nothing[OF pwm_inv_start, of 2 "[0, 6]" example_masks example_masks]
  by (auto simp: pwm_sensor_setup_def)

text \<open>The reference count of every PWM timer equals its number of active channels, pins are owned
  by exactly one active channel, and this is preserved by stopping a sensor; in particular the
  count never wraps and a timer is freed exactly with its last channel.\<close>

theorem pwm_stop_keeps_invariant:
  assumes "pwm_inv st b" "unat i < PWM_SLOT_POOL_SIZE"
  shows "\<exists>err st' b'. pwm_sensor_stop M i st b = Some (err, st', b') \<and> pwm_inv st' b' \<and>
    (err = ERR_SUCCESS) = pw_in_use (pw_states st ! unat i) \<and>
    (\<forall>t<7. case timer_use (btimers b' ! t) of
       Pwm _ _ n \<Rightarrow> n = pwm_users (pw_states st') t \<and> 0 < n | _ \<Rightarrow> pwm_users (pw_states st') t = 0)"
proof -
  obtain err st' b' where r: "pwm_sensor_stop M i st b = Some (err, st', b')"
    and e: "(err = ERR_SUCCESS) = pw_in_use (pw_states st ! unat i)"
    using pwm_stop_result[OF assms, of M] pwm_stop_idle[OF assms, of M]
    by (cases "pw_in_use (pw_states st ! unat i)") auto
  have inv': "pwm_inv st' b'" by (rule pwm_stop_inv[OF assms r])
  have "0 < n" if "t < 7" "timer_use (btimers b' ! t) = Pwm psc arr n" for t psc arr n
  proof -
    have "entry_inv (btimers b' ! t)" using inv' that(1) timers_inv_nth by (auto simp: pwm_inv_def board_inv_def)
    then show ?thesis
      using that(2) by (auto simp: timer_use_def entry_inv_def unat_gt_0 word_neq_0_conv split: hw_timer_state.splits)
  qed
  then have "\<forall>t<7. case timer_use (btimers b' ! t) of
       Pwm _ _ n \<Rightarrow> n = pwm_users (pw_states st') t \<and> 0 < n | _ \<Rightarrow> pwm_users (pw_states st') t = 0"
    using inv' by (auto simp: pwm_inv_def split: timer_use.splits)
  with r e inv' show ?thesis by blast
qed

theorem pwm_stop_keeps_invariant_witness:
  "\<exists>err st' b'. pwm_sensor_stop example_masks 3 pwm_start (board_start example_masks) = Some (err, st', b') \<and>
     pwm_inv st' b' \<and> err \<noteq> ERR_SUCCESS"
  using pwm_stop_keeps_invariant[OF pwm_inv_start, of 3 example_masks example_masks]
  by (auto simp: pwm_start_def pwm_sensor_init_def pwm_state_zero_def)

text \<open>C28: stopping a PWM sensor undoes its set-up: slots, owned pins and the whole timer pool are
  what they were before the set-up.\<close>

theorem pwm_stop_undoes_setup:
  assumes "pwm_inv st b" "unat cfg_len \<le> length cfg"
    and "pwm_sensor_setup M cfg cfg_len st b = Some (ERR_SUCCESS, sid, st', b')"
    and "sm_table (bsm b') sid = Some (PROTO_ID_PWM, i)"
  shows "\<exists>b''. pwm_sensor_stop M i st' b' = Some (ERR_SUCCESS, st, b'') \<and>
    btimers b'' = btimers b \<and> bsm b'' = bsm b'"
proof -
  obtain c pin arr where ok: "pwm_setup_ok M cfg st b c pin arr sid st' b'"
    using pwm_setup_outcome[OF assms(1-3)] by auto
  have S: "sm_inv (bsm b)" using assms(1) by (simp add: pwm_inv_def board_inv_def)
  have "sensor_manager_register PROTO_ID_PWM (slot_for (pc_timer_raw c) (pc_channel c)) (bsm b) = Some (sid, bsm b')"
    "sid \<noteq> 0" using ok by (auto simp: pwm_setup_ok_def)
  from register_accepted(3)[OF S this] assms(4) have "i = slot_for (pc_timer_raw c) (pc_channel c)" by simp
  with pwm_stop_after_setup[OF assms(1) ok] show ?thesis by simp
qed

abbreviation (input) example_pwm_cfg :: "u8 list" where
  "example_pwm_cfg \<equiv> [0, 6, 2, 1, 1, 0xE8, 3, 0, 0, 0x88, 0x13]"

lemma example_pwm_setup:
  "map_option (\<lambda>(err, sid, st', b'). (err, sid, sm_table (bsm b') sid))
     (pwm_sensor_setup example_masks example_pwm_cfg 11 pwm_start (board_start example_masks))
   = Some (ERR_SUCCESS, 1, Some (PROTO_ID_PWM, 4))"
  by code_simp

theorem pwm_stop_undoes_setup_witness:
  "\<exists>st' b' b''. pwm_sensor_setup example_masks example_pwm_cfg 11 pwm_start (board_start example_masks)
       = Some (ERR_SUCCESS, 1, st', b') \<and>
     pwm_sensor_stop example_masks 4 st' b' = Some (ERR_SUCCESS, pwm_start, b'') \<and>
     btimers b'' = hw_timer_init example_masks"
proof -
  obtain st' b' where s: "pwm_sensor_setup example_masks example_pwm_cfg 11 pwm_start (board_start example_masks)
      = Some (ERR_SUCCESS, 1, st', b')" "sm_table (bsm b') 1 = Some (PROTO_ID_PWM, 4)"
    using example_pwm_setup by auto
  have "unat (11 :: u16) \<le> length example_pwm_cfg" by simp
  from pwm_stop_undoes_setup[OF pwm_inv_start this s] s(1) show ?thesis
    by (auto simp: board_start_def)
qed

text \<open>C29: a new duty cycle on a 16-bit timer: the handler writes the compare register of its channel
  and no other register; below 100\% the value is exactly the floor of (ARR + 1) times the duty
  (the 32-bit product does not overflow), 0\% gives 0 and 100\% gives ARR.\<close>

theorem pwm_set_output_16bit:
  assumes "pwm_inv st b" "unat i < PWM_SLOT_POOL_SIZE" "pw_in_use (pw_states st ! unat i)"
    and "\<not> values_len < PWM_SET_OUTPUT_SIZE" "read_u16_le values = Some duty" "duty \<le> PWM_DUTY_MAX"
    and "s = pw_states st ! unat i" "e = btimers b ! unat (pw_timer_id s)" "te_width e = HW_TIMER_WIDTH_16"
  shows "\<exists>b' ch. tim_channel (pw_channel s) = Some ch \<and>
    pwm_sensor_set_output i values values_len st b = Some (ERR_SUCCESS, b') \<and>
    unat (regs (bmcu b') (TIM (tim e) (tc_ccr ch))) =
      (if duty = PWM_DUTY_MAX then unat (te_arr e) else (unat (te_arr e) + 1) * unat duty div 10000) \<and>
    (\<forall>r. r \<noteq> TIM (tim e) (tc_ccr ch) \<longrightarrow> regs (bmcu b') r = regs (bmcu b) r)"
proof -
  note r = pwm_set_output_result[OF assms(1-6), folded assms(7), folded assms(8)]
  have ok: "pwm_slot_ok (unat i) s" using assms by (simp add: pwm_inv_def)
  then have ch4: "unat (pw_channel s) = unat i mod 4 + 1" "unat (pw_timer_id s) < 7"
    using assms(2,3,7) by (auto simp: pwm_slot_ok_def)
  obtain ch where ch: "tim_channel (pw_channel s) = Some ch"
  proof -
    have "unat (pw_channel s) \<in> {1, 2, 3, 4}"
      using ch4(1) mod_less_divisor[of 4 "unat i"] by force
    then have "pw_channel s \<in> {1, 2, 3, 4}" by (auto simp: word_unat_eq_iff)
    then show ?thesis using that by (auto simp: tim_channel_def)
  qed
  have "entry_inv e" using assms(1,8) ch4(2) timers_inv_nth by (auto simp: pwm_inv_def board_inv_def)
  then have arr: "unat (te_arr e) \<le> 0xFFFF"
    using assms(9) by (auto simp: entry_inv_def arr_limit_def split: hw_timer_state.splits)
  have ccr: "unat (compute_ccr (te_arr e) duty) =
      (if duty = PWM_DUTY_MAX then unat (te_arr e) else (unat (te_arr e) + 1) * unat duty div 10000)"
  proof (cases "duty = 0 \<or> duty = 10000")
    case True
    then show ?thesis by (auto simp: compute_ccr_def)
  next
    case False
    with assms(6) have "duty < 10000" by auto
    with compute_ccr_16[OF arr] False show ?thesis by auto
  qed
  show ?thesis
    using r ch ccr by (auto simp: channel_set_ccr_def)
qed

theorem pwm_set_output_16bit_witness:
  "\<exists>st b b'. pwm_sensor_set_output 4 [0x88, 0x13] 2 st b = Some (ERR_SUCCESS, b') \<and>
     unat (regs (bmcu b') (TIM TIM3 TIM_CCR1)) = 21000"
proof -
  obtain st' b' where s: "pwm_sensor_setup example_masks example_pwm_cfg 11 pwm_start (board_start example_masks)
      = Some (ERR_SUCCESS, 1, st', b')"
    using example_pwm_setup by auto
  have len: "unat (11 :: u16) \<le> length example_pwm_cfg" by simp
  have inv: "pwm_inv st' b'"
    using pwm_setup_outcome[OF pwm_inv_start len s] pwm_setup_inv[OF pwm_inv_start] by blast
  have "map_option (\<lambda>(err, sid, st', b'). let s = pw_states st' ! 4; e = btimers b' ! 1
        in (pw_in_use s, pw_timer_id s, pw_channel s, te_width e, te_arr e, tim e))
      (pwm_sensor_setup example_masks example_pwm_cfg 11 pwm_start (board_start example_masks))
     = Some (True, 1, 1, HW_TIMER_WIDTH_16, 41999, TIM3)" by code_simp
  with s have f: "pw_in_use (pw_states st' ! 4)" "pw_timer_id (pw_states st' ! 4) = 1" "pw_channel (pw_states st' ! 4) = 1"
    "te_width (btimers b' ! 1) = HW_TIMER_WIDTH_16" "te_arr (btimers b' ! 1) = 41999" "tim (btimers b' ! 1) = TIM3"
    by (auto simp: Let_def)
  have d: "read_u16_le [0x88, 0x13] = Some 5000" by code_simp
  from pwm_set_output_16bit[OF inv _ _ _ d _ refl refl, of 4 2] f show ?thesis
    by (auto simp: tim_channel_def)
qed

text \<open>On a 32-bit timer the product of \<open>compute_ccr\<close> overflows: at 1 Hz and 50\% duty the compare
  value is 338817 instead of 42000000, a duty of 0.4\%.\<close>

theorem pwm_duty_overflow_32bit:
  "compute_psc_arr 1 HW_TIMER_WIDTH_32 = Inr (0, 83999999) \<and>
   compute_ccr 83999999 5000 = 338817 \<and>
   (83999999 + 1) * 5000 div 10000 = (42000000 :: nat)"
proof (intro conjI)
  show "compute_psc_arr 1 HW_TIMER_WIDTH_32 = Inr (0, 83999999)" by code_simp
  show "compute_ccr 83999999 5000 = 338817" by code_simp
qed simp

end
