(* ===== verification/Digital_Out.thy ===== *)
theory Digital_Out
  imports Board
begin

text \<open>
  \<^verbatim>\<open>simulate/digital_out/src/digital_out_sensor.c\<close>: digital outputs with optional pulses, timed by
  a FreeRTOS timer or by a hardware timer of the pool. The static arrays are the record
  \<open>digital_out\<close>, which also holds the kernel's live timers (a handle and the id the timer was
  created with; no other module creates timers). \<open>validate_cfg\<close> writes into the candidate slot before the remaining checks, and so
  does the model. A failed assertion, a read outside the payload, or a call through the
  handle of a timer that is not live is \<open>None\<close>.
\<close>

subsection \<open>State\<close>

record digital_out_state =
  do_in_use :: bool
  do_gpio_port :: u8
  do_gpio_pin :: gpio_pin
  do_timer_kind :: u8
  do_timer_id :: u8
  do_sw_timer :: "nat option"
  do_pulse_revert_level :: u8

record digital_out =
  do_states :: "digital_out_state list"
  do_pin_owned :: pin_table
  do_timers :: "nat \<rightharpoonup> u8"

definition do_state_zero :: digital_out_state where
  "do_state_zero = \<lparr>do_in_use = False, do_gpio_port = 0, do_gpio_pin = \<lparr>gp_port = None, gp_pin = 0\<rparr>,
     do_timer_kind = 0, do_timer_id = 0, do_sw_timer = None, do_pulse_revert_level = 0\<rparr>"

abbreviation (input) DIGITAL_OUT_SENSOR_MAX_COUNT :: nat where "DIGITAL_OUT_SENSOR_MAX_COUNT \<equiv> 8"
abbreviation (input) DIGITAL_OUT_INTERNAL_ID_NONE :: u8 where "DIGITAL_OUT_INTERNAL_ID_NONE \<equiv> 0xFF"
abbreviation (input) DIGITAL_OUT_TIMER_SOFTWARE :: u8 where "DIGITAL_OUT_TIMER_SOFTWARE \<equiv> 0"
abbreviation (input) DIGITAL_OUT_TIMER_HARDWARE :: u8 where "DIGITAL_OUT_TIMER_HARDWARE \<equiv> 1"
abbreviation (input) DIGITAL_OUT_LEVEL_LOW :: u8 where "DIGITAL_OUT_LEVEL_LOW \<equiv> 0"
abbreviation (input) DIGITAL_OUT_LEVEL_HIGH :: u8 where "DIGITAL_OUT_LEVEL_HIGH \<equiv> 1"
abbreviation (input) DIGITAL_OUT_PORT_MAX :: u8 where "DIGITAL_OUT_PORT_MAX \<equiv> 5"
abbreviation (input) DIGITAL_OUT_PIN_MAX :: u8 where "DIGITAL_OUT_PIN_MAX \<equiv> 15"
abbreviation (input) DIGITAL_OUT_TYPE_MAX :: u8 where "DIGITAL_OUT_TYPE_MAX \<equiv> 1"
abbreviation (input) DIGITAL_OUT_SPEED_MAX :: u8 where "DIGITAL_OUT_SPEED_MAX \<equiv> 3"
abbreviation (input) DIGITAL_OUT_PULL_MAX :: u8 where "DIGITAL_OUT_PULL_MAX \<equiv> 2"
abbreviation (input) DIGITAL_OUT_TIMER_KIND_MAX :: u8 where "DIGITAL_OUT_TIMER_KIND_MAX \<equiv> DIGITAL_OUT_TIMER_HARDWARE"
abbreviation (input) DIGITAL_OUT_CFG_SIZE :: u16 where "DIGITAL_OUT_CFG_SIZE \<equiv> 8"
abbreviation (input) DIGITAL_OUT_SET_OUTPUT_SIZE :: u16 where "DIGITAL_OUT_SET_OUTPUT_SIZE \<equiv> 5"
abbreviation (input) DIGITAL_OUT_CFG_OFFSET_PORT :: nat where "DIGITAL_OUT_CFG_OFFSET_PORT \<equiv> 0"
abbreviation (input) DIGITAL_OUT_CFG_OFFSET_PIN :: nat where "DIGITAL_OUT_CFG_OFFSET_PIN \<equiv> 1"
abbreviation (input) DIGITAL_OUT_CFG_OFFSET_INITIAL_LEVEL :: nat where "DIGITAL_OUT_CFG_OFFSET_INITIAL_LEVEL \<equiv> 2"
abbreviation (input) DIGITAL_OUT_CFG_OFFSET_OUTPUT_TYPE :: nat where "DIGITAL_OUT_CFG_OFFSET_OUTPUT_TYPE \<equiv> 3"
abbreviation (input) DIGITAL_OUT_CFG_OFFSET_SPEED :: nat where "DIGITAL_OUT_CFG_OFFSET_SPEED \<equiv> 4"
abbreviation (input) DIGITAL_OUT_CFG_OFFSET_PULL :: nat where "DIGITAL_OUT_CFG_OFFSET_PULL \<equiv> 5"
abbreviation (input) DIGITAL_OUT_CFG_OFFSET_TIMER_KIND :: nat where "DIGITAL_OUT_CFG_OFFSET_TIMER_KIND \<equiv> 6"
abbreviation (input) DIGITAL_OUT_CFG_OFFSET_TIMER_ID :: nat where "DIGITAL_OUT_CFG_OFFSET_TIMER_ID \<equiv> 7"
abbreviation (input) DIGITAL_OUT_SET_OUTPUT_OFFSET_LEVEL :: nat where "DIGITAL_OUT_SET_OUTPUT_OFFSET_LEVEL \<equiv> 0"
abbreviation (input) DIGITAL_OUT_SET_OUTPUT_OFFSET_PULSE_US :: nat where "DIGITAL_OUT_SET_OUTPUT_OFFSET_PULSE_US \<equiv> 1"

subsection \<open>Helpers\<close>

definition do_alloc_slot :: "digital_out \<Rightarrow> u8" where
  "do_alloc_slot st =
     (case find_index (\<lambda>s. \<not> do_in_use s) (do_states st) of
        None \<Rightarrow> DIGITAL_OUT_INTERNAL_ID_NONE | Some i \<Rightarrow> word_of_nat i)"

definition drive_level :: "gpio_pin \<Rightarrow> u8 \<Rightarrow> mcu \<Rightarrow> mcu option" where
  "drive_level pin level m = (if level = DIGITAL_OUT_LEVEL_HIGH then gpio_set pin m else gpio_reset pin m)"

definition revert_to_idle_level :: "u8 \<Rightarrow> digital_out \<Rightarrow> mcu \<Rightarrow> mcu option" where
  "revert_to_idle_level internal_id st m =
     (if unat internal_id \<ge> DIGITAL_OUT_SENSOR_MAX_COUNT then Some m
      else let s = do_states st ! unat internal_id
           in if \<not> do_in_use s then Some m
              else drive_level (do_gpio_pin s) (do_pulse_revert_level s) m)"

text \<open>\<open>timer_id\<close> is what \<open>pvTimerGetTimerID\<close> returns for the timer.\<close>

definition sw_timer_callback :: "u32 \<Rightarrow> digital_out \<Rightarrow> mcu \<Rightarrow> mcu option" where
  "sw_timer_callback timer_id st m = revert_to_idle_level (ucast timer_id) st m"

definition hw_timer_callback :: "u8 \<Rightarrow> digital_out \<Rightarrow> mcu \<Rightarrow> mcu option" where
  "hw_timer_callback internal_id st m = revert_to_idle_level internal_id st m"

text \<open>The C casts from the checked wire bytes to the enums.\<close>

definition output_type_of :: "u8 \<Rightarrow> gpio_output_type" where
  "output_type_of b = (if b = 0 then GPIO_OUTPUT_PUSH_PULL else GPIO_OUTPUT_OPEN_DRAIN)"

definition speed_of :: "u8 \<Rightarrow> gpio_speed" where
  "speed_of b = (if b = 0 then GPIO_SPEED_LOW else if b = 1 then GPIO_SPEED_MEDIUM
     else if b = 2 then GPIO_SPEED_HIGH else GPIO_SPEED_VERY_HIGH)"

definition pull_of :: "u8 \<Rightarrow> gpio_pull" where
  "pull_of b = (if b = 0 then GPIO_PULL_NONE else if b = 1 then GPIO_PULL_UP else GPIO_PULL_DOWN)"

text \<open>
  The result is the error, or the slot with the fields written, the GPIO configuration and
  the initial level.
\<close>

definition validate_cfg ::
    "u8 list \<Rightarrow> u16 \<Rightarrow> digital_out_state \<Rightarrow> pin_table \<Rightarrow>
     (err_code + digital_out_state \<times> gpio_output_config \<times> u8) option" where
  "validate_cfg cfg cfg_len s owned =
     (if cfg_len < DIGITAL_OUT_CFG_SIZE then Some (Inl ERR_MALFORMED_PAYLOAD)
      else do {
        port \<leftarrow> fetch DIGITAL_OUT_CFG_OFFSET_PORT cfg;
        pin \<leftarrow> fetch DIGITAL_OUT_CFG_OFFSET_PIN cfg;
        initial_level \<leftarrow> fetch DIGITAL_OUT_CFG_OFFSET_INITIAL_LEVEL cfg;
        output_type \<leftarrow> fetch DIGITAL_OUT_CFG_OFFSET_OUTPUT_TYPE cfg;
        speed \<leftarrow> fetch DIGITAL_OUT_CFG_OFFSET_SPEED cfg;
        pull \<leftarrow> fetch DIGITAL_OUT_CFG_OFFSET_PULL cfg;
        timer_kind \<leftarrow> fetch DIGITAL_OUT_CFG_OFFSET_TIMER_KIND cfg;
        timer_id \<leftarrow> fetch DIGITAL_OUT_CFG_OFFSET_TIMER_ID cfg;
        if port > DIGITAL_OUT_PORT_MAX \<or> pin > DIGITAL_OUT_PIN_MAX \<or> initial_level > DIGITAL_OUT_LEVEL_HIGH \<or>
           output_type > DIGITAL_OUT_TYPE_MAX \<or> speed > DIGITAL_OUT_SPEED_MAX \<or> pull > DIGITAL_OUT_PULL_MAX \<or>
           timer_kind > DIGITAL_OUT_TIMER_KIND_MAX \<or>
           (timer_kind = DIGITAL_OUT_TIMER_HARDWARE \<and> timer_id \<ge> HW_TIMER_COUNT)
        then Some (Inl ERR_INVALID_PARAMETER)
        else if pin_is_owned port pin owned then Some (Inl ERR_PIN_CONFLICT)
        else do {
          gpio_pin \<leftarrow> gpio_make_pin port pin;
          Some (Inr
            (s\<lparr>do_gpio_port := port, do_gpio_pin := gpio_pin, do_timer_kind := timer_kind, do_timer_id := timer_id\<rparr>,
             \<lparr>oc_pin = gpio_pin, oc_output_type = output_type_of output_type, oc_speed = speed_of speed,
              oc_pull = pull_of pull\<rparr>,
             initial_level))
        }
      })"

subsection \<open>Handlers\<close>

definition digital_out_sensor_init :: "digital_out \<Rightarrow> digital_out" where
  "digital_out_sensor_init st = st\<lparr>do_states := replicate DIGITAL_OUT_SENSOR_MAX_COUNT do_state_zero,
     do_pin_owned := pin_table_init\<rparr>"

text \<open>The part of set-up after the timer has been dealt with; \<open>s\<close> is the slot as written so far.\<close>

definition digital_out_open ::
    "cmsis \<Rightarrow> u8 \<Rightarrow> digital_out_state \<Rightarrow> gpio_output_config \<Rightarrow> u8 \<Rightarrow> digital_out \<Rightarrow> board \<Rightarrow>
     (err_code \<times> u8 \<times> digital_out \<times> board) option" where
  "digital_out_open M idx s gpio_cfg initial_level st b =
     do {
       let pin = gp_pin (do_gpio_pin s);
       let owned = claim_pin (do_gpio_port s) pin (do_pin_owned st);
       let m = gpio_enable_clock M (do_gpio_port s) (bmcu b);
       m \<leftarrow> gpio_configure_output gpio_cfg initial_level m;
       let s = s\<lparr>do_sw_timer := None, do_pulse_revert_level := DIGITAL_OUT_LEVEL_LOW, do_in_use := True\<rparr>;
       (sid, sm) \<leftarrow> sensor_manager_register PROTO_ID_DIGITAL_OUT idx (bsm b);
       if sid = PROTO_SENSOR_ID_NONE then do {
         m \<leftarrow> gpio_reset_to_defaults (do_gpio_pin s) m;
         let (m, ts) = (if do_timer_kind s = DIGITAL_OUT_TIMER_HARDWARE
                        then hw_timer_pulse_release idx m (btimers b) else (m, btimers b));
         Some (ERR_OUT_OF_RESOURCES, PROTO_SENSOR_ID_NONE,
               st\<lparr>do_states := (do_states st)[unat idx := do_state_zero],
                do_pin_owned := free_pin (do_gpio_port s) pin owned\<rparr>,
               \<lparr>bmcu = m, btimers = ts, bsm = sm\<rparr>)
       } else
         Some (ERR_SUCCESS, sid,
               st\<lparr>do_states := (do_states st)[unat idx := s], do_pin_owned := owned\<rparr>,
               \<lparr>bmcu = m, btimers = btimers b, bsm = sm\<rparr>)
     }"

definition digital_out_sensor_setup ::
    "cmsis \<Rightarrow> u8 list \<Rightarrow> u16 \<Rightarrow> digital_out \<Rightarrow> board \<Rightarrow> (err_code \<times> u8 \<times> digital_out \<times> board) option" where
  "digital_out_sensor_setup M cfg cfg_len st b =
     (let idx = do_alloc_slot st
      in if idx = DIGITAL_OUT_INTERNAL_ID_NONE then Some (ERR_OUT_OF_RESOURCES, PROTO_SENSOR_ID_NONE, st, b)
         else do {
           s \<leftarrow> fetch (unat idx) (do_states st);
           v \<leftarrow> validate_cfg cfg cfg_len s (do_pin_owned st);
           case v of
             Inl err \<Rightarrow> Some (err, PROTO_SENSOR_ID_NONE, st, b)
           | Inr (s, gpio_cfg, initial_level) \<Rightarrow>
               if do_timer_kind s = DIGITAL_OUT_TIMER_HARDWARE
               then (case hw_timer_pulse_acquire M (do_timer_id s) idx CB_hw_timer_callback (bmcu b) (btimers b) of
                       (err, m, ts) \<Rightarrow>
                         if err_byte err = 0
                         then Some (ERR_OUT_OF_RESOURCES, PROTO_SENSOR_ID_NONE,
                                    st\<lparr>do_states := (do_states st)[unat idx := s]\<rparr>,
                                    b\<lparr>bmcu := m, btimers := ts\<rparr>)
                         else digital_out_open M idx s gpio_cfg initial_level st (b\<lparr>bmcu := m, btimers := ts\<rparr>))
               else digital_out_open M idx s gpio_cfg initial_level st b
         })"

text \<open>A call through a timer handle, which must be live.\<close>

definition timer_call :: "hw_event \<Rightarrow> nat \<Rightarrow> (nat \<rightharpoonup> u8) \<Rightarrow> mcu \<Rightarrow> mcu option" where
  "timer_call e h timers m = (if timers h = None then None else Some (emit e m))"

text \<open>The pulse of a software-timed output: create or re-arm the FreeRTOS timer. \<open>pdFALSE\<close> makes it one-shot.\<close>

definition sw_pulse_start ::
    "rtos \<Rightarrow> u8 \<Rightarrow> u32 \<Rightarrow> digital_out_state \<Rightarrow> (nat \<rightharpoonup> u8) \<Rightarrow> mcu \<Rightarrow>
     (err_code \<times> digital_out_state \<times> (nat \<rightharpoonup> u8) \<times> mcu) option" where
  "sw_pulse_start K internal_id pulse_us s timers m =
     (let ticks = pdMS_TO_TICKS K ((pulse_us + 999) div 1000);
          ticks = (if ticks = 0 then 1 else ticks);
          start = (\<lambda>h timers m. do {
            m \<leftarrow> timer_call (XTimerStart h) h timers m;
            Some (if xTimerStart_pass K then ERR_SUCCESS else ERR_INTERNAL, s\<lparr>do_sw_timer := Some h\<rparr>, timers, m)
          })
      in case do_sw_timer s of
           None \<Rightarrow>
             (let m = emit (XTimerCreate ''digout_pulse'' ticks False internal_id CB_sw_timer_callback) m
              in case xTimerCreate_ret K timers of
                   None \<Rightarrow> Some (ERR_OUT_OF_RESOURCES, s\<lparr>do_sw_timer := None\<rparr>, timers, m)
                 | Some h \<Rightarrow> start h (timers(h \<mapsto> internal_id)) m)
         | Some h \<Rightarrow> do { m \<leftarrow> timer_call (XTimerChangePeriod h ticks) h timers m; start h timers m })"

definition digital_out_sensor_set_output ::
    "cmsis \<Rightarrow> rtos \<Rightarrow> u8 \<Rightarrow> u8 list \<Rightarrow> u16 \<Rightarrow> digital_out \<Rightarrow> board \<Rightarrow> (err_code \<times> digital_out \<times> board) option" where
  "digital_out_sensor_set_output M K internal_id values values_len st b =
     do {
       s \<leftarrow> (if unat internal_id < DIGITAL_OUT_SENSOR_MAX_COUNT then fetch (unat internal_id) (do_states st) else None);
       if \<not> do_in_use s then Some (ERR_INVALID_SENSOR_ID, st, b)
       else if values_len < DIGITAL_OUT_SET_OUTPUT_SIZE then Some (ERR_MALFORMED_PAYLOAD, st, b)
       else do {
         level \<leftarrow> fetch DIGITAL_OUT_SET_OUTPUT_OFFSET_LEVEL values;
         pulse_us \<leftarrow> read_u32_le (drop DIGITAL_OUT_SET_OUTPUT_OFFSET_PULSE_US values);
         if level > DIGITAL_OUT_LEVEL_HIGH then Some (ERR_INVALID_PARAMETER, st, b)
         else if do_timer_kind s = DIGITAL_OUT_TIMER_HARDWARE \<and>
                 pulse_us > hw_timer_pulse_max_us internal_id (btimers b)
         then Some (ERR_INVALID_PARAMETER, st, b)
         else do {
           m \<leftarrow> (case do_sw_timer s of
                   Some h \<Rightarrow> if do_timer_kind s = DIGITAL_OUT_TIMER_SOFTWARE then timer_call (XTimerStop h) h (do_timers st) (bmcu b)
                             else Some (bmcu b)
                 | None \<Rightarrow> Some (bmcu b));
           m \<leftarrow> drive_level (do_gpio_pin s) level m;
           if pulse_us = 0 then Some (ERR_SUCCESS, st, b\<lparr>bmcu := m\<rparr>)
           else do {
             let s = s\<lparr>do_pulse_revert_level :=
                        (if level = DIGITAL_OUT_LEVEL_HIGH then DIGITAL_OUT_LEVEL_LOW else DIGITAL_OUT_LEVEL_HIGH)\<rparr>;
             if do_timer_kind s = DIGITAL_OUT_TIMER_HARDWARE
             then (case hw_timer_pulse_start M internal_id pulse_us m (btimers b) of
                     (err, m) \<Rightarrow>
                       Some (if err_byte err = 0 then ERR_INTERNAL else ERR_SUCCESS,
                             st\<lparr>do_states := (do_states st)[unat internal_id := s]\<rparr>, b\<lparr>bmcu := m\<rparr>))
             else do {
               (err, s, timers, m) \<leftarrow> sw_pulse_start K internal_id pulse_us s (do_timers st) m;
               Some (err, st\<lparr>do_states := (do_states st)[unat internal_id := s], do_timers := timers\<rparr>, b\<lparr>bmcu := m\<rparr>)
             }
           }
         }
       }
     }"

definition digital_out_sensor_stop ::
    "u8 \<Rightarrow> digital_out \<Rightarrow> board \<Rightarrow> (err_code \<times> digital_out \<times> board) option" where
  "digital_out_sensor_stop internal_id st b =
     do {
       s \<leftarrow> (if unat internal_id < DIGITAL_OUT_SENSOR_MAX_COUNT then fetch (unat internal_id) (do_states st) else None);
       if \<not> do_in_use s then Some (ERR_INVALID_SENSOR_ID, st, b)
       else do {
         (m, timers) \<leftarrow> (case do_sw_timer s of
             None \<Rightarrow> Some (bmcu b, do_timers st)
           | Some h \<Rightarrow> do {
               m \<leftarrow> timer_call (XTimerStop h) h (do_timers st) (bmcu b);
               m \<leftarrow> timer_call (XTimerDelete h) h (do_timers st) m;
               Some (m, (do_timers st)(h := None))
             });
         let (m, ts) = (if do_timer_kind s = DIGITAL_OUT_TIMER_HARDWARE
                        then hw_timer_pulse_release internal_id m (btimers b) else (m, btimers b));
         m \<leftarrow> gpio_reset_to_defaults (do_gpio_pin s) m;
         Some (ERR_SUCCESS,
               \<lparr>do_states = (do_states st)[unat internal_id := do_state_zero],
                do_pin_owned = free_pin (do_gpio_port s) (gp_pin (do_gpio_pin s)) (do_pin_owned st), do_timers = timers\<rparr>,
               b\<lparr>bmcu := m, btimers := ts\<rparr>)
       }
     }"

subsection \<open>Invariant\<close>

definition do_pin_of :: "digital_out_state \<Rightarrow> u8 \<times> u8" where
  "do_pin_of s = (do_gpio_port s, gp_pin (do_gpio_pin s))"

definition do_slot_ok :: "digital_out_state \<Rightarrow> bool" where
  "do_slot_ok s \<longleftrightarrow> (do_in_use s \<longrightarrow>
     gpio_make_pin (do_gpio_port s) (gp_pin (do_gpio_pin s)) = Some (do_gpio_pin s) \<and>
     do_timer_kind s \<le> DIGITAL_OUT_TIMER_HARDWARE \<and> do_pulse_revert_level s \<le> DIGITAL_OUT_LEVEL_HIGH)"

text \<open>The live timers are exactly those of the used slots, each created with the number of its slot.\<close>

definition do_timers_ok :: "digital_out \<Rightarrow> bool" where
  "do_timers_ok st \<longleftrightarrow> (\<forall>h i. do_timers st h = Some i \<longleftrightarrow> unat i < DIGITAL_OUT_SENSOR_MAX_COUNT \<and>
     do_in_use (do_states st ! unat i) \<and> do_sw_timer (do_states st ! unat i) = Some h)"

definition do_inv :: "digital_out \<Rightarrow> board \<Rightarrow> bool" where
  "do_inv st b \<longleftrightarrow> board_inv b \<and> length (do_states st) = DIGITAL_OUT_SENSOR_MAX_COUNT \<and>
     (\<forall>i<DIGITAL_OUT_SENSOR_MAX_COUNT. do_slot_ok (do_states st ! i)) \<and>
     pins_consistent do_in_use do_pin_of (do_states st) (do_pin_owned st) \<and> do_timers_ok st"

lemma do_timers_ok_update:
  assumes "do_timers_ok st" "length (do_states st) = 8" "k < 8" "do_states st' = (do_states st)[k := s]"
    and "\<And>h i. unat i = k \<Longrightarrow> do_timers st' h = Some i \<longleftrightarrow> do_in_use s \<and> do_sw_timer s = Some h"
    and "\<And>h i. unat i \<noteq> k \<Longrightarrow> do_timers st' h = Some i \<longleftrightarrow> do_timers st h = Some i"
  shows "do_timers_ok st'"
  unfolding do_timers_ok_def
proof (intro allI)
  fix h i
  show "do_timers st' h = Some i \<longleftrightarrow> unat i < 8 \<and> do_in_use (do_states st' ! unat i) \<and> do_sw_timer (do_states st' ! unat i) = Some h"
    using assms(1-4) assms(5)[of i h] assms(6)[of i h] by (cases "unat i = k") (auto simp: do_timers_ok_def)
qed

text \<open>What an unused slot and a slot without a timer mean for the live timers.\<close>

lemma do_timers_of_slot:
  assumes "do_timers_ok st" "unat i < 8"
  shows "do_timers st h = Some i \<longleftrightarrow> do_in_use (do_states st ! unat i) \<and> do_sw_timer (do_states st ! unat i) = Some h"
  using assms by (simp add: do_timers_ok_def)

lemma do_timers_ok_quiet:
  assumes "do_timers_ok st" "length (do_states st) = 8" "k < 8" "do_states st' = (do_states st)[k := s]" "do_timers st' = do_timers st"
    and "\<not> do_in_use (do_states st ! k)" "\<not> do_in_use s \<or> do_sw_timer s = None"
  shows "do_timers_ok st'"
proof (rule do_timers_ok_update[OF assms(1-4)])
  fix h i assume "unat (i :: u8) = k"
  then show "do_timers st' h = Some i \<longleftrightarrow> do_in_use s \<and> do_sw_timer s = Some h"
    using do_timers_of_slot[OF assms(1), of i h] assms(3,5-7) by auto
qed (simp add: assms(5))

interpretation do_pins: pin_pool do_in_use do_pin_of do_state_zero
  by unfold_locales (simp add: do_state_zero_def)

text \<open>
  What the rest of the program can see of the slots: the content of the used ones. An unused
  slot may hold fields of a set-up that failed.
\<close>

definition live_slots :: "digital_out \<Rightarrow> digital_out_state option list" where
  "live_slots st = map (\<lambda>s. if do_in_use s then Some s else None) (do_states st)"

lemma live_slots_nth: "i < length (do_states st) \<Longrightarrow>
    live_slots st ! i = (if do_in_use (do_states st ! i) then Some (do_states st ! i) else None)"
  by (simp add: live_slots_def)

lemma live_slots_scratch:
  assumes "\<not> do_in_use s" "\<not> do_in_use (do_states st ! i)"
  shows "live_slots (st\<lparr>do_states := (do_states st)[i := s]\<rparr>) = live_slots st"
  using assms by (cases "i < length (do_states st)") (auto simp: live_slots_def map_update list_eq_iff_nth_eq nth_list_update)

lemma do_inv_scratch:
  assumes inv: "do_inv st b" and b': "board_inv b'" and k: "\<not> do_in_use (do_states st ! k)" "\<not> do_in_use s"
  shows "do_inv (st\<lparr>do_states := (do_states st)[k := s]\<rparr>) b'"
proof (cases "k < 8")
  case True
  let ?ss = "(do_states st)[k := s]"
  have L: "length (do_states st) = 8" using inv by (simp add: do_inv_def)
  have nth: "?ss ! i = (if i = k then s else do_states st ! i)" if "i < 8" for i
    using that L by (simp add: nth_list_update)
  have used: "do_in_use (?ss ! i) \<longleftrightarrow> i \<noteq> k \<and> do_in_use (do_states st ! i)" if "i < 8" for i
    unfolding nth[OF that] using k by simp
  have "pins_consistent do_in_use do_pin_of ?ss (do_pin_owned st)"
    by (rule pins_consistent_cong[of _ _ "do_states st"]) (use inv L k used nth in \<open>auto simp: do_inv_def\<close>)
  moreover have "do_slot_ok (?ss ! i)" if "i < 8" for i
    unfolding nth[OF that] using inv that k by (auto simp: do_inv_def do_slot_ok_def)
  moreover have "do_timers_ok (st\<lparr>do_states := ?ss\<rparr>)"
    by (rule do_timers_ok_quiet[of st k _ s]) (use inv L True k in \<open>simp_all add: do_inv_def\<close>)
  ultimately show ?thesis using L b' by (simp add: do_inv_def)
next
  case False
  then have "(do_states st)[k := s] = do_states st" using inv list_update_beyond[of "do_states st" k s] by (simp add: do_inv_def)
  with inv b' show ?thesis by (simp add: do_inv_def do_timers_ok_def)
qed

lemma do_inv_store:
  assumes inv: "do_inv st b" and k: "k < 8" "\<not> do_in_use (do_states st ! k)"
    and s: "do_in_use s" "do_slot_ok s" "do_pin_of s = (port, pin)" "do_sw_timer s = None"
    and pos: "pin_pos port pin" and free: "\<not> pin_is_owned port pin (do_pin_owned st)" and b': "board_inv b'"
  shows "do_inv (st\<lparr>do_states := (do_states st)[k := s], do_pin_owned := claim_pin port pin (do_pin_owned st)\<rparr>) b'"
    (is "do_inv ?st b'")
proof -
  have L: "length (do_states st) = 8" using inv by (simp add: do_inv_def)
  have "pins_consistent do_in_use do_pin_of ((do_states st)[k := s]) (claim_pin port pin (do_pin_owned st))"
    using inv k s pos free L by (intro do_pins.store) (auto simp: do_inv_def)
  moreover have "do_slot_ok ((do_states st)[k := s] ! i)" if "i < 8" for i
    using inv that s(2) L k(1) by (auto simp: do_inv_def nth_list_update)
  moreover have "do_timers_ok ?st"
    by (rule do_timers_ok_quiet[of st k _ s]) (use inv L k s(4) in \<open>simp_all add: do_inv_def\<close>)
  ultimately show ?thesis using b' L by (simp add: do_inv_def)
qed

lemma do_inv_clear:
  assumes inv: "do_inv st b" and k: "k < 8" "do_in_use (do_states st ! k)"
    and pp: "do_pin_of (do_states st ! k) = (port, pin)" and b': "board_inv b'"
    and tm: "tms = (case do_sw_timer (do_states st ! k) of None \<Rightarrow> do_timers st | Some h \<Rightarrow> (do_timers st)(h := None))"
  shows "do_inv \<lparr>do_states = (do_states st)[k := do_state_zero], do_pin_owned = free_pin port pin (do_pin_owned st), do_timers = tms\<rparr> b'"
    (is "do_inv ?st b'")
proof -
  have L: "length (do_states st) = 8" using inv by (simp add: do_inv_def)
  have "pins_consistent do_in_use do_pin_of ((do_states st)[k := do_state_zero]) (free_pin port pin (do_pin_owned st))"
    using inv k pp L by (intro do_pins.clear) (auto simp: do_inv_def)
  moreover have "do_slot_ok ((do_states st)[k := do_state_zero] ! i)" if "i < 8" for i
    using inv that L k(1) by (auto simp: do_inv_def nth_list_update do_slot_ok_def do_state_zero_def)
  moreover have T: "do_timers_ok st" using inv by (simp add: do_inv_def)
  have "do_timers_ok ?st"
  proof (rule do_timers_ok_update[OF T L k(1)])
    fix h i assume i: "unat (i :: u8) = k"
    show "do_timers ?st h = Some i \<longleftrightarrow> do_in_use do_state_zero \<and> do_sw_timer do_state_zero = Some h"
      using do_timers_of_slot[OF T, of i h] i k tm by (auto simp: do_state_zero_def split: option.splits)
  next
    fix h i assume i: "unat (i :: u8) \<noteq> k"
    have "do_timers st g = Some (word_of_nat k)" if "do_sw_timer (do_states st ! k) = Some g" for g
      using do_timers_of_slot[OF T, of "word_of_nat k" g] that k by (simp add: unat_word_of_nat_small)
    then show "do_timers ?st h = Some i \<longleftrightarrow> do_timers st h = Some i"
      using i k(1) tm by (auto simp: unat_word_of_nat_small split: option.splits)
  qed simp
  ultimately show ?thesis using b' L by (simp add: do_inv_def)
qed

text \<open>A used slot keeps its pin when only its pulse fields change.\<close>

lemma do_inv_rewrite:
  assumes inv: "do_inv st b" and k: "k < 8" "do_in_use (do_states st ! k)"
    and s: "do_in_use s" "do_slot_ok s" "do_pin_of s = do_pin_of (do_states st ! k)" and b': "board_inv b'"
    and tm: "do_sw_timer s = do_sw_timer (do_states st ! k) \<and> tms = do_timers st \<or>
      do_sw_timer (do_states st ! k) = None \<and> (\<exists>h. do_sw_timer s = Some h \<and> do_timers st h = None \<and> tms = (do_timers st)(h \<mapsto> word_of_nat k))"
  shows "do_inv (st\<lparr>do_states := (do_states st)[k := s], do_timers := tms\<rparr>) b'"
proof -
  let ?ss = "(do_states st)[k := s]"
  have L: "length (do_states st) = 8" using inv by (simp add: do_inv_def)
  have nth: "?ss ! i = (if i = k then s else do_states st ! i)" if "i < 8" for i
    using that L by (simp add: nth_list_update)
  have same: "do_in_use (?ss ! i) = do_in_use (do_states st ! i)" "do_pin_of (?ss ! i) = do_pin_of (do_states st ! i)"
    if "i < 8" for i
    unfolding nth[OF that] using k s by simp_all
  have "pins_consistent do_in_use do_pin_of ?ss (do_pin_owned st)"
    by (rule pins_consistent_cong[of _ _ "do_states st"]) (use inv L same in \<open>auto simp: do_inv_def\<close>)
  moreover have "do_slot_ok (?ss ! i)" if "i < 8" for i
    unfolding nth[OF that] using inv that s by (auto simp: do_inv_def)
  moreover have T: "do_timers_ok st" using inv by (simp add: do_inv_def)
  have "do_timers_ok (st\<lparr>do_states := ?ss, do_timers := tms\<rparr>)"
  proof (rule do_timers_ok_update[OF T L k(1)])
    fix h i assume i: "unat (i :: u8) = k"
    then have "i = word_of_nat k" by (simp flip: i)
    then show "do_timers (st\<lparr>do_states := ?ss, do_timers := tms\<rparr>) h = Some i \<longleftrightarrow> do_in_use s \<and> do_sw_timer s = Some h"
      using do_timers_of_slot[OF T, of i h] i k s(1) tm by (auto split: if_splits)
  next
    fix h i assume i: "unat (i :: u8) \<noteq> k"
    then have "i \<noteq> word_of_nat k" using k(1) by (auto simp: unat_word_of_nat_small)
    then show "do_timers (st\<lparr>do_states := ?ss, do_timers := tms\<rparr>) h = Some i \<longleftrightarrow> do_timers st h = Some i" using tm by (auto split: if_splits)
  qed simp
  ultimately show ?thesis using L b' by (simp add: do_inv_def)
qed

subsection \<open>Set-up\<close>

lemma validate_cfg_total:
  assumes "unat cfg_len \<le> length cfg"
  shows "\<exists>v. validate_cfg cfg cfg_len s owned = Some v"
proof (cases "cfg_len < 8")
  case False
  then have "8 \<le> length cfg" using assms by (simp add: word_less_nat_alt)
  moreover from this have "0 < length cfg" by linarith
  ultimately show ?thesis by (auto simp: validate_cfg_def gpio_make_pin_def not_less fetch_def)
qed (simp add: validate_cfg_def)

lemma validate_cfg_error: "validate_cfg cfg cfg_len s owned = Some (Inl e) \<Longrightarrow> e \<noteq> ERR_SUCCESS"
  by (auto simp: validate_cfg_def fetch_def split: if_splits bind_splits)

lemma validate_cfg_ok:
  assumes "validate_cfg cfg cfg_len s owned = Some (Inr (s', gc, lvl))"
  shows "gpio_make_pin (do_gpio_port s') (gp_pin (do_gpio_pin s')) = Some (do_gpio_pin s')"
    and "pin_pos (do_gpio_port s') (gp_pin (do_gpio_pin s'))"
    and "\<not> pin_is_owned (do_gpio_port s') (gp_pin (do_gpio_pin s')) owned"
    and "oc_pin gc = do_gpio_pin s'" and "do_in_use s' = do_in_use s" and "do_sw_timer s' = do_sw_timer s"
    and "do_timer_kind s' \<le> 1" and "do_timer_kind s' = 1 \<Longrightarrow> do_timer_id s' < 7"
    and "cfg ! 0 = do_gpio_port s'" "cfg ! 1 = gp_pin (do_gpio_pin s')" "cfg ! 6 = do_timer_kind s'"
    and "cfg ! 7 = do_timer_id s'"
    and "cfg ! 2 = lvl" "lvl \<le> 1"
  using assms
  by (auto simp: validate_cfg_def fetch_def gpio_make_pin_def pin_pos_def split: if_splits bind_splits)

lemma do_alloc_slot_cases:
  assumes "length (do_states st) = 8"
  shows "do_alloc_slot st = 0xFF \<and> (\<forall>i<8. do_in_use (do_states st ! i)) \<or>
    do_alloc_slot st \<noteq> 0xFF \<and> unat (do_alloc_slot st) < 8 \<and> \<not> do_in_use (do_states st ! unat (do_alloc_slot st))"
proof (cases "find_index (\<lambda>s. \<not> do_in_use s) (do_states st)")
  case None
  then have "\<forall>s\<in>set (do_states st). do_in_use s" by (simp add: find_index_None_iff)
  then have "\<forall>i<8. do_in_use (do_states st ! i)" using assms by (metis nth_mem)
  with None show ?thesis by (simp add: do_alloc_slot_def)
next
  case (Some i)
  then have i: "i < 8" "\<not> do_in_use (do_states st ! i)" using assms find_index_less find_index_hit by fastforce+
  then have "unat (word_of_nat i :: u8) = i" by (intro unat_word_of_nat_small) simp
  moreover from this i(1) have "word_of_nat i \<noteq> (0xFF :: u8)" by auto
  ultimately show ?thesis using i Some by (simp add: do_alloc_slot_def)
qed

lemma digital_out_open_result:
  assumes pin: "gpio_pin_ok (do_gpio_pin s)" and gc: "oc_pin gc = do_gpio_pin s"
    and reg: "sensor_manager_register PROTO_ID_DIGITAL_OUT idx (bsm b) = Some (sid, sm)"
  shows "\<exists>m1 m mr. gpio_configure_output gc lvl (gpio_enable_clock M (do_gpio_port s) (bmcu b)) = Some m1 \<and>
    digital_out_open M idx s gc lvl st b = Some
    (if sid = 0
     then (ERR_OUT_OF_RESOURCES, 0,
           st\<lparr>do_states := (do_states st)[unat idx := do_state_zero],
            do_pin_owned := free_pin (do_gpio_port s) (gp_pin (do_gpio_pin s))
              (claim_pin (do_gpio_port s) (gp_pin (do_gpio_pin s)) (do_pin_owned st))\<rparr>,
           \<lparr>bmcu = m, btimers = (if do_timer_kind s = 1 then snd (hw_timer_pulse_release idx mr (btimers b)) else btimers b),
            bsm = sm\<rparr>)
     else (ERR_SUCCESS, sid,
           st\<lparr>do_states := (do_states st)[unat idx := s\<lparr>do_sw_timer := None, do_pulse_revert_level := 0, do_in_use := True\<rparr>],
            do_pin_owned := claim_pin (do_gpio_port s) (gp_pin (do_gpio_pin s)) (do_pin_owned st)\<rparr>,
           \<lparr>bmcu = m1, btimers = btimers b, bsm = sm\<rparr>))"
proof -
  obtain m1 where m1: "gpio_configure_output gc lvl (gpio_enable_clock M (do_gpio_port s) (bmcu b)) = Some m1"
    using gpio_configure_total(1)[of gc] pin gc by metis
  obtain m2 where m2: "gpio_reset_to_defaults (do_gpio_pin s) m1 = Some m2" using gpio_total(1)[OF pin] by blast
  obtain m3 ts where rel: "hw_timer_pulse_release idx m2 (btimers b) = (m3, ts)" by fastforce
  show ?thesis
    by (intro exI[of _ m1] exI[of _ "if do_timer_kind s = 1 then m3 else m2"] exI[of _ m2])
       (simp add: digital_out_open_def m1 m2 rel reg Let_def)
qed

text \<open>What a set-up call guarantees, whatever it answers.\<close>

definition do_setup_post ::
    "u8 list \<Rightarrow> digital_out \<Rightarrow> board \<Rightarrow> err_code \<Rightarrow> u8 \<Rightarrow> digital_out \<Rightarrow> board \<Rightarrow> bool" where
  "do_setup_post cfg st b err sid st' b' \<longleftrightarrow> do_inv st' b' \<and>
     map pwm_use (btimers b') = map pwm_use (btimers b) \<and>
     (if err = ERR_SUCCESS
      then \<exists>idx s. live_slots st ! unat idx = None \<and> unat idx < DIGITAL_OUT_SENSOR_MAX_COUNT \<and>
        live_slots st' = (live_slots st)[unat idx := Some s] \<and>
        do_pin_of s = (cfg ! 0, cfg ! 1) \<and> \<not> pin_is_owned (cfg ! 0) (cfg ! 1) (do_pin_owned st) \<and>
        sid \<noteq> PROTO_SENSOR_ID_NONE \<and> sm_table (bsm b) sid = None \<and>
        sm_table (bsm b') = (sm_table (bsm b))(sid \<mapsto> (PROTO_ID_DIGITAL_OUT, idx))
      else sid = PROTO_SENSOR_ID_NONE \<and> live_slots st' = live_slots st \<and>
        do_pin_owned st' = do_pin_owned st \<and> bsm b' = bsm b)"

lemma do_setup_post_unchanged:
  "do_inv st b \<Longrightarrow> err \<noteq> ERR_SUCCESS \<Longrightarrow> do_setup_post cfg st b err 0 st b"
  by (simp add: do_setup_post_def)

lemma do_open_post:
  assumes inv: "do_inv st b" and idx: "unat idx < 8" "\<not> do_in_use (do_states st ! unat idx)"
    and v: "validate_cfg cfg cfg_len (do_states st ! unat idx) (do_pin_owned st) = Some (Inr (s, gc, lvl))"
    and b1: "board_inv b1" "bsm b1 = bsm b" "map pwm_use (btimers b1) = map pwm_use (btimers b)"
  shows "\<exists>err sid st' b'. digital_out_open M idx s gc lvl st b1 = Some (err, sid, st', b') \<and>
    do_setup_post cfg st b err sid st' b' \<and> (do_timer_kind s = 0 \<longrightarrow> btimers b' = btimers b1)"
proof -
  note V = validate_cfg_ok[OF v]
  have L: "length (do_states st) = 8" "length (do_pin_owned st) = 6"
    using inv by (auto simp: do_inv_def pins_consistent_def)
  have pin: "gpio_pin_ok (do_gpio_pin s)" by (rule gpio_make_pin_ok[OF V(1)])
  obtain sid sm where reg: "sensor_manager_register PROTO_ID_DIGITAL_OUT idx (bsm b1) = Some (sid, sm)"
    using register_total[of PROTO_ID_DIGITAL_OUT idx "bsm b1"] by auto
  obtain m1 m mr where res: "digital_out_open M idx s gc lvl st b1 = Some
    (if sid = 0
     then (ERR_OUT_OF_RESOURCES, 0,
           st\<lparr>do_states := (do_states st)[unat idx := do_state_zero],
            do_pin_owned := free_pin (do_gpio_port s) (gp_pin (do_gpio_pin s))
              (claim_pin (do_gpio_port s) (gp_pin (do_gpio_pin s)) (do_pin_owned st))\<rparr>,
           \<lparr>bmcu = m, btimers = (if do_timer_kind s = 1 then snd (hw_timer_pulse_release idx mr (btimers b1)) else btimers b1),
            bsm = sm\<rparr>)
     else (ERR_SUCCESS, sid,
           st\<lparr>do_states := (do_states st)[unat idx := s\<lparr>do_sw_timer := None, do_pulse_revert_level := 0, do_in_use := True\<rparr>],
            do_pin_owned := claim_pin (do_gpio_port s) (gp_pin (do_gpio_pin s)) (do_pin_owned st)\<rparr>,
           \<lparr>bmcu = m1, btimers = btimers b1, bsm = sm\<rparr>))"
    using digital_out_open_result[OF pin V(4) reg, of lvl M st] by blast
  have T: "timers_inv (btimers b1)" and S: "sm_inv (bsm b1)" using b1(1) by (auto simp: board_inv_def)
  show ?thesis
  proof (cases "sid = 0")
    case True
    let ?ts = "if do_timer_kind s = 1 then snd (hw_timer_pulse_release idx mr (btimers b1)) else btimers b1"
    have sm: "sm = bsm b1" using register_refused[OF S] reg True by simp
    have ts: "timers_inv ?ts" "map pwm_use ?ts = map pwm_use (btimers b1)"
      using T pulse_release_inv[OF T surjective_pairing] pulse_release_pwm_use[OF surjective_pairing] by auto
    have st': "st\<lparr>do_states := (do_states st)[unat idx := do_state_zero],
            do_pin_owned := free_pin (do_gpio_port s) (gp_pin (do_gpio_pin s))
              (claim_pin (do_gpio_port s) (gp_pin (do_gpio_pin s)) (do_pin_owned st))\<rparr>
        = st\<lparr>do_states := (do_states st)[unat idx := do_state_zero]\<rparr>"
      using free_claim_pin[OF L(2) V(2,3)] by simp
    have bi: "board_inv \<lparr>bmcu = m, btimers = ?ts, bsm = sm\<rparr>"
      using ts(1) S sm by (simp add: board_inv_def)
    have z: "\<not> do_in_use do_state_zero" by (rule do_pins.blank_unused)
    from do_inv_scratch[OF inv bi idx(2) z] live_slots_scratch[OF z idx(2)] True ts(2) b1 sm
    have "do_setup_post cfg st b ERR_OUT_OF_RESOURCES 0 (st\<lparr>do_states := (do_states st)[unat idx := do_state_zero]\<rparr>)
      \<lparr>bmcu = m, btimers = ?ts, bsm = sm\<rparr>"
      by (simp add: do_setup_post_def)
    with res st' True show ?thesis by auto
  next
    case False
    let ?s = "s\<lparr>do_sw_timer := None, do_pulse_revert_level := 0, do_in_use := True\<rparr>"
    let ?st = "st\<lparr>do_states := (do_states st)[unat idx := ?s],
            do_pin_owned := claim_pin (do_gpio_port s) (gp_pin (do_gpio_pin s)) (do_pin_owned st)\<rparr>"
    note A = register_accepted[OF S reg False]
    have "do_inv ?st \<lparr>bmcu = m1, btimers = btimers b1, bsm = sm\<rparr>"
      by (rule do_inv_store[OF inv idx _ _ _ _ V(2,3)])
         (use V T A(1) in \<open>auto simp: do_slot_ok_def do_pin_of_def board_inv_def\<close>)
    moreover have "live_slots ?st = (live_slots st)[unat idx := Some ?s]"
      by (simp add: live_slots_def map_update)
    moreover have "live_slots st ! unat idx = None" using idx L by (simp add: live_slots_def)
    moreover have "do_pin_of ?s = (cfg ! 0, cfg ! 1)" using V(9,10) by (simp add: do_pin_of_def)
    ultimately have "do_setup_post cfg st b ERR_SUCCESS sid ?st \<lparr>bmcu = m1, btimers = btimers b1, bsm = sm\<rparr>"
      using False A(2,3) b1 idx(1) V(3,9,10) unfolding do_setup_post_def by auto
    with res False show ?thesis by auto
  qed
qed

lemma do_setup_result:
  assumes inv: "do_inv st b" and len: "unat cfg_len \<le> length cfg"
  shows "\<exists>err sid st' b'. digital_out_sensor_setup M cfg cfg_len st b = Some (err, sid, st', b') \<and>
    do_setup_post cfg st b err sid st' b' \<and>
    (cfg ! 6 \<noteq> DIGITAL_OUT_TIMER_HARDWARE \<longrightarrow> btimers b' = btimers b)"
proof -
  let ?idx = "do_alloc_slot st"
  have L: "length (do_states st) = 8" using inv by (simp add: do_inv_def)
  obtain v where v: "validate_cfg cfg cfg_len (do_states st ! unat ?idx) (do_pin_owned st) = Some v"
    using validate_cfg_total[OF len] by blast
  consider "?idx = 0xFF" | e where "?idx \<noteq> 0xFF" "v = Inl e"
    | s gc lvl where "?idx \<noteq> 0xFF" "v = Inr (s, gc, lvl)"
    by (metis sum.exhaust prod_cases3)
  then show ?thesis
  proof cases
    case 1
    with do_setup_post_unchanged[OF inv] show ?thesis by (simp add: digital_out_sensor_setup_def)
  next
    case (2 e)
    moreover have "unat ?idx < 8" using do_alloc_slot_cases[OF L] 2(1) by blast
    ultimately show ?thesis
      using v L do_setup_post_unchanged[OF inv] validate_cfg_error
      by (auto simp: digital_out_sensor_setup_def Let_def)
  next
    case (3 s gc lvl)
    have idx: "unat ?idx < 8" "\<not> do_in_use (do_states st ! unat ?idx)"
      using do_alloc_slot_cases[OF L] 3(1) by blast+
    note v' = v[unfolded 3(2)]
    note V = validate_cfg_ok[OF v']
    have bi: "board_inv b" using inv by (simp add: do_inv_def)
    show ?thesis
    proof (cases "do_timer_kind s = 1")
      case False
      have "digital_out_sensor_setup M cfg cfg_len st b = digital_out_open M ?idx s gc lvl st b"
        using 3(1) idx L v' False by (simp add: digital_out_sensor_setup_def Let_def)
      moreover have "do_timer_kind s = 0" using V(7) False by (auto simp: word_le_nat_alt word_unat_eq_iff le_Suc_eq)
      ultimately show ?thesis using do_open_post[OF inv idx v' bi refl refl, of M] V(11) by auto
    next
      case True
      obtain e m ts where acq: "hw_timer_pulse_acquire M (do_timer_id s) ?idx CB_hw_timer_callback (bmcu b) (btimers b) = (e, m, ts)"
        by (metis prod_cases3)
      let ?b = "b\<lparr>bmcu := m, btimers := ts\<rparr>"
      have T: "timers_inv (btimers b)" using bi by (simp add: board_inv_def)
      have b1: "board_inv ?b" "map pwm_use (btimers ?b) = map pwm_use (btimers b)"
        using pulse_acquire_inv[OF T acq] pulse_acquire_pwm_use[OF acq] bi by (simp_all add: board_inv_def)
      show ?thesis
      proof (cases "e = ERR_SUCCESS")
        case err: True
        have "\<not> do_in_use s" using V(5) idx(2) by simp
        then have "do_setup_post cfg st b ERR_OUT_OF_RESOURCES 0 (st\<lparr>do_states := (do_states st)[unat ?idx := s]\<rparr>) ?b"
          using do_inv_scratch[OF inv b1(1) idx(2)] live_slots_scratch[OF _ idx(2)] b1 by (simp add: do_setup_post_def)
        then show ?thesis
          using 3(1) idx L v' True acq err V(11) by (simp add: digital_out_sensor_setup_def Let_def)
      next
        case err: False
        have "digital_out_sensor_setup M cfg cfg_len st b = digital_out_open M ?idx s gc lvl st ?b"
          using 3(1) idx L v' True acq err by (simp add: digital_out_sensor_setup_def Let_def)
        then show ?thesis using do_open_post[OF inv idx v' b1(1) _ b1(2), of M] V(11) True by auto
      qed
    qed
  qed
qed

text \<open>Hardware pulses: the test of the acquisition result is inverted.\<close>

lemma do_setup_hardware_free:
  assumes inv: "do_inv st b" and idx: "do_alloc_slot st \<noteq> DIGITAL_OUT_INTERNAL_ID_NONE"
    and v: "validate_cfg cfg cfg_len (do_states st ! unat (do_alloc_slot st)) (do_pin_owned st) = Some (Inr (s, gc, lvl))"
    and hw: "do_timer_kind s = DIGITAL_OUT_TIMER_HARDWARE" "timer_use (btimers b ! unat (do_timer_id s)) = Free"
  shows "\<exists>st' b'. digital_out_sensor_setup M cfg cfg_len st b = Some (ERR_OUT_OF_RESOURCES, PROTO_SENSOR_ID_NONE, st', b') \<and>
    live_slots st' = live_slots st \<and> timer_use (btimers b' ! unat (do_timer_id s)) = Pulse (do_alloc_slot st)"
proof -
  let ?idx = "do_alloc_slot st" and ?t = "unat (do_timer_id s)"
  note V = validate_cfg_ok[OF v]
  have L: "length (do_states st) = 8" and T: "timers_inv (btimers b)" using inv by (auto simp: do_inv_def board_inv_def)
  have i: "unat ?idx < 8" "\<not> do_in_use (do_states st ! unat ?idx)" using do_alloc_slot_cases[OF L] idx by blast+
  obtain e m ts where acq: "hw_timer_pulse_acquire M (do_timer_id s) ?idx CB_hw_timer_callback (bmcu b) (btimers b) = (e, m, ts)"
    by (metis prod_cases3)
  have tid: "\<not> do_timer_id s \<ge> 7" "?t < 7" using V(8)[OF hw(1)] by (auto simp: word_less_nat_alt not_le)
  have "spec_pulse_acquire (do_timer_id s) ?idx (pool_use (btimers b)) = (ERR_SUCCESS, (pool_use (btimers b))[?t := Pulse ?idx])"
    using tid hw(2) pool_use_nth[OF T tid(2)] by (simp add: spec_pulse_acquire_def)
  then have e: "e = ERR_SUCCESS" "pool_use ts = (pool_use (btimers b))[?t := Pulse ?idx]"
    using pulse_acquire_refines(1)[OF T acq] by simp_all
  have "timer_use (ts ! ?t) = Pulse ?idx"
    using pool_use_nth[OF pulse_acquire_inv[OF T acq] tid(2)] e(2) tid(2) T
    by (simp add: pool_use_def timers_inv_def)
  moreover have "\<not> do_in_use s" using V(5) i(2) by simp
  ultimately show ?thesis
    using idx i L v hw(1) acq e(1) live_slots_scratch[OF _ i(2)] by (simp add: digital_out_sensor_setup_def Let_def)
qed

subsection \<open>Driving the output\<close>

definition bsrr_value :: "gpio_pin \<Rightarrow> u8 \<Rightarrow> u32" where
  "bsrr_value pin level = push_bit (unat (gp_pin pin) + (if level = DIGITAL_OUT_LEVEL_HIGH then 0 else 16)) 1"

definition pin_bsrr :: "gpio_pin \<Rightarrow> reg" where
  "pin_bsrr pin = GPIO (the (gp_port pin)) BSRR"

lemma drive_level_ok:
  "gpio_pin_ok pin \<Longrightarrow> drive_level pin level m = Some (wr (pin_bsrr pin) (bsrr_value pin level) m)"
  by (auto simp: gpio_pin_ok_def drive_level_def gpio_set_def gpio_reset_def GPIO_SET_PIN_def GPIO_RESET_PIN_def
      pin_bsrr_def bsrr_value_def)

lemma do_slot_live:
  assumes "do_inv st b" "unat i < 8" "do_in_use (do_states st ! unat i)"
  shows "fetch (unat i) (do_states st) = Some (do_states st ! unat i)"
    and "gpio_pin_ok (do_gpio_pin (do_states st ! unat i))" and "do_slot_ok (do_states st ! unat i)"
proof -
  show s: "do_slot_ok (do_states st ! unat i)" "fetch (unat i) (do_states st) = Some (do_states st ! unat i)"
    using assms by (simp_all add: do_inv_def)
  then show "gpio_pin_ok (do_gpio_pin (do_states st ! unat i))"
    using assms(3) gpio_make_pin_ok by (auto simp: do_slot_ok_def)
qed

text \<open>The reversion callback drives the stored level on the pin of its slot.\<close>

lemma revert_live:
  assumes "do_inv st b" "unat i < 8" "do_in_use (do_states st ! unat i)"
  shows "revert_to_idle_level i st m = Some (wr (pin_bsrr (do_gpio_pin (do_states st ! unat i)))
    (bsrr_value (do_gpio_pin (do_states st ! unat i)) (do_pulse_revert_level (do_states st ! unat i))) m)"
  using assms drive_level_ok[OF do_slot_live(2)[OF assms]] by (simp add: revert_to_idle_level_def Let_def)

text \<open>What the code relies on of \<^verbatim>\<open>xTimerCreate\<close>: a new timer is none of the live ones.\<close>

definition timer_spec :: "rtos \<Rightarrow> bool" where
  "timer_spec K \<longleftrightarrow> (\<forall>timers h. xTimerCreate_ret K timers = Some h \<longrightarrow> timers h = None)"

text \<open>The timer a pulse uses, when there is one, and the calls that arm it.\<close>

definition pulse_timer :: "rtos \<Rightarrow> digital_out \<Rightarrow> digital_out_state \<Rightarrow> nat option" where
  "pulse_timer K st s = (case do_sw_timer s of None \<Rightarrow> xTimerCreate_ret K (do_timers st) | Some h \<Rightarrow> Some h)"

definition pulse_error :: "rtos \<Rightarrow> nat option \<Rightarrow> err_code" where
  "pulse_error K timer = (case timer of None \<Rightarrow> ERR_OUT_OF_RESOURCES | Some h \<Rightarrow> if xTimerStart_pass K then ERR_SUCCESS else ERR_INTERNAL)"

definition arm_calls :: "u32 \<Rightarrow> u8 \<Rightarrow> nat option \<Rightarrow> nat option \<Rightarrow> hw_event list" where
  "arm_calls ticks i old timer =
     (case old of None \<Rightarrow> [XTimerCreate ''digout_pulse'' ticks False i CB_sw_timer_callback] | Some h \<Rightarrow> [XTimerChangePeriod h ticks]) @
     (case timer of None \<Rightarrow> [] | Some h \<Rightarrow> [XTimerStart h])"

lemma slot_timer_live:
  assumes "do_inv st b" "unat i < 8" "do_in_use (do_states st ! unat i)" "do_sw_timer (do_states st ! unat i) = Some h"
  shows "do_timers st h = Some i"
  using assms do_timers_of_slot[of st i h] by (simp add: do_inv_def)

lemma sw_pulse_start_result:
  assumes "do_inv st b" "unat i < 8" "do_in_use (do_states st ! unat i)" "do_sw_timer s = do_sw_timer (do_states st ! unat i)"
    and "ticks = (if pdMS_TO_TICKS K ((us + 999) div 1000) = 0 then 1 else pdMS_TO_TICKS K ((us + 999) div 1000))"
  shows "sw_pulse_start K i us s (do_timers st) m = Some (pulse_error K (pulse_timer K st s), s\<lparr>do_sw_timer := pulse_timer K st s\<rparr>,
    (case pulse_timer K st s of None \<Rightarrow> do_timers st | Some h \<Rightarrow> (do_timers st)(h \<mapsto> i)),
    m\<lparr>trace := trace m @ arm_calls ticks i (do_sw_timer s) (pulse_timer K st s)\<rparr>)"
proof (cases "do_sw_timer s")
  case None
  then show ?thesis unfolding sw_pulse_start_def Let_def assms(5)[symmetric]
    by (auto simp: pulse_timer_def pulse_error_def arm_calls_def timer_call_def emit_def split: option.splits)
next
  case (Some h)
  then have "do_timers st h = Some i" using slot_timer_live[OF assms(1-3)] assms(4) by simp
  moreover from this have "(do_timers st)(h \<mapsto> i) = do_timers st" by auto
  ultimately show ?thesis using Some unfolding sw_pulse_start_def Let_def assms(5)[symmetric]
    by (simp add: pulse_timer_def pulse_error_def arm_calls_def timer_call_def emit_def)
qed

text \<open>The stop of a running pulse before a new level is driven.\<close>

definition stop_calls :: "digital_out_state \<Rightarrow> hw_event list" where
  "stop_calls s = (case do_sw_timer s of Some h \<Rightarrow> if do_timer_kind s = DIGITAL_OUT_TIMER_SOFTWARE then [XTimerStop h] else [] | None \<Rightarrow> [])"

lemma stop_running_pulse:
  fixes i :: u8
  assumes "do_inv st b" "unat i < 8" "do_in_use (do_states st ! unat i)" "s = do_states st ! unat i"
  shows "(case do_sw_timer s of
       Some h \<Rightarrow> if do_timer_kind s = DIGITAL_OUT_TIMER_SOFTWARE then timer_call (XTimerStop h) h (do_timers st) m else Some m
     | None \<Rightarrow> Some m) = Some (m\<lparr>trace := trace m @ stop_calls s\<rparr>)"
  using slot_timer_live[OF assms(1-3)] assms(4) by (auto simp: stop_calls_def timer_call_def emit_def split: option.splits)

lemma do_slot_ok_pulse:
  "do_slot_ok s \<Longrightarrow> do_slot_ok (s\<lparr>do_pulse_revert_level := (if P then 0 else 1)\<rparr>)"
  "do_slot_ok s \<Longrightarrow> do_slot_ok (s\<lparr>do_sw_timer := h\<rparr>)"
  "do_pin_of (s\<lparr>do_pulse_revert_level := r\<rparr>) = do_pin_of s" "do_pin_of (s\<lparr>do_sw_timer := h\<rparr>) = do_pin_of s"
  by (auto simp: do_slot_ok_def do_pin_of_def)

text \<open>
  Whatever the payload, the handler does not trap; it changes nothing but the pulse fields of its
  slot, the registers and the kernel timers.
\<close>

lemma do_set_output_frame:
  assumes inv: "do_inv st b" and i: "unat i < 8" and len: "unat values_len \<le> length values" and K: "timer_spec K"
  shows "\<exists>err st' m. digital_out_sensor_set_output M K i values values_len st b = Some (err, st', b\<lparr>bmcu := m\<rparr>) \<and>
    do_inv st' (b\<lparr>bmcu := m\<rparr>) \<and> do_pin_owned st' = do_pin_owned st \<and>
    (\<forall>j. do_in_use (do_states st' ! j) = do_in_use (do_states st ! j)) \<and>
    (do_in_use (do_states st ! unat i) \<longrightarrow> err \<noteq> ERR_INVALID_SENSOR_ID)"
proof -
  let ?s = "do_states st ! unat i"
  have L: "length (do_states st) = 8" and bi: "\<And>m. board_inv (b\<lparr>bmcu := m\<rparr>)"
    using inv by (simp_all add: do_inv_def board_inv_def)
  have same: "do_inv st (b\<lparr>bmcu := m\<rparr>)" for m using inv bi by (simp add: do_inv_def)
  have keep: "do_in_use ((do_states st)[unat i := s'] ! j) = do_in_use (do_states st ! j)"
    if "do_in_use s'" "do_in_use ?s" for s' j
    using that by (cases "unat i < length (do_states st)") (auto simp: nth_list_update list_update_beyond)
  show ?thesis
  proof (cases "do_in_use ?s \<and> \<not> values_len < 5")
    case False
    then show ?thesis
      using i L same[of "bmcu b"] by (auto simp: digital_out_sensor_set_output_def intro!: exI[of _ "bmcu b"])
  next
    case True
    note S = do_slot_live[OF inv i conjunct1[OF True]]
    have l5: "5 \<le> length values" using len True by (simp add: word_less_nat_alt)
    then have "4 \<le> length (drop 1 values)" by simp
    then obtain us where us: "read_u32_le (drop 1 values) = Some us" using read_u32_le_Some by blast
    have lv: "fetch 0 values = Some (values ! 0)" using l5 by (intro fetch_Some) linarith
    let ?lv = "values ! 0"
    show ?thesis
    proof (cases "?lv > 1 \<or> do_timer_kind ?s = 1 \<and> us > hw_timer_pulse_max_us i (btimers b)")
      case bad: True
      then show ?thesis
        using i True S(1) us lv same[of "bmcu b"]
        by (auto simp: digital_out_sensor_set_output_def intro!: exI[of _ "bmcu b"])
    next
      case ok: False
      let ?m = "(bmcu b)\<lparr>trace := trace (bmcu b) @ stop_calls ?s\<rparr>"
      let ?s' = "?s\<lparr>do_pulse_revert_level := (if ?lv = 1 then 0 else 1)\<rparr>"
      note D = drive_level_ok[OF S(2), of ?lv ?m]
      note stop = stop_running_pulse[OF inv i conjunct1[OF True] refl, of "bmcu b"]
      show ?thesis
      proof (cases "us = 0")
        case zero: True
        then show ?thesis
          using i True S(1) us lv ok D stop same by (auto simp: digital_out_sensor_set_output_def Let_def)
      next
        case nz: False
        obtain e1 m1 where hw: "hw_timer_pulse_start M i us (wr (pin_bsrr (do_gpio_pin ?s)) (bsrr_value (do_gpio_pin ?s) ?lv) ?m)
            (btimers b) = (e1, m1)" by fastforce
        let ?t = "pulse_timer K st ?s'"
        let ?tms = "case ?t of None \<Rightarrow> do_timers st | Some h \<Rightarrow> (do_timers st)(h \<mapsto> i)"
        let ?s2 = "?s'\<lparr>do_sw_timer := ?t\<rparr>"
        obtain m2 where sw: "sw_pulse_start K i us ?s' (do_timers st) (wr (pin_bsrr (do_gpio_pin ?s)) (bsrr_value (do_gpio_pin ?s) ?lv) ?m)
            = Some (pulse_error K ?t, ?s2, ?tms, m2)"
          using sw_pulse_start_result[OF inv i conjunct1[OF True], of ?s'] by simp
        have e2: "pulse_error K ?t \<noteq> ERR_INVALID_SENSOR_ID" by (simp add: pulse_error_def split: option.splits)
        have inv1: "do_inv (st\<lparr>do_states := (do_states st)[unat i := ?s'], do_timers := do_timers st\<rparr>) (b\<lparr>bmcu := m\<rparr>)" for m
          using True S(3) do_slot_ok_pulse by (intro do_inv_rewrite[OF inv i]) (auto simp: bi)
        have "do_sw_timer ?s2 = do_sw_timer ?s \<and> ?tms = do_timers st \<or> do_sw_timer ?s = None \<and>
            (\<exists>h. do_sw_timer ?s2 = Some h \<and> do_timers st h = None \<and> ?tms = (do_timers st)(h \<mapsto> word_of_nat (unat i)))"
          using K slot_timer_live[OF inv i conjunct1[OF True]]
          by (auto simp: pulse_timer_def timer_spec_def map_upd_triv split: option.splits)
        then have inv2: "do_inv (st\<lparr>do_states := (do_states st)[unat i := ?s2], do_timers := ?tms\<rparr>) (b\<lparr>bmcu := m\<rparr>)" for m
          using True S(3) do_slot_ok_pulse by (intro do_inv_rewrite[OF inv i]) (auto simp: bi)
        show ?thesis
        proof (cases "do_timer_kind ?s = 1")
          case hwt: True
          then show ?thesis using i True S(1) us lv ok D stop nz hw inv1 keep[of ?s']
            by (auto simp: digital_out_sensor_set_output_def Let_def)
        next
          case swt: False
          then have "digital_out_sensor_set_output M K i values values_len st b =
              Some (pulse_error K ?t, st\<lparr>do_states := (do_states st)[unat i := ?s2], do_timers := ?tms\<rparr>, b\<lparr>bmcu := m2\<rparr>)"
            using i True S(1) us lv ok D stop nz sw by (simp add: digital_out_sensor_set_output_def Let_def)
          then show ?thesis using inv2 keep[of ?s2] True e2 by simp
        qed
      qed
    qed
  qed
qed

text \<open>The period of a software pulse, in ticks: the milliseconds are rounded up.\<close>

definition pulse_ticks :: "rtos \<Rightarrow> u32 \<Rightarrow> u32" where
  "pulse_ticks K us = (let t = pdMS_TO_TICKS K (word_of_nat ((unat us + 999) div 1000)) in if t = 0 then 1 else t)"

lemma round_up_ms:
  assumes "unat us \<le> 2 ^ 32 - 1000"
  shows "(us + 999) div 1000 = (word_of_nat ((unat us + 999) div 1000) :: u32)"
proof -
  have "unat (us + 999) = unat us + 999" using assms by (simp add: unat_word_ariths)
  then have "unat ((us + 999) div 1000) = (unat us + 999) div 1000" by (simp add: unat_div_distrib)
  then show ?thesis by (metis of_nat_unat ucast_id)
qed

lemma do_set_output_software:
  assumes inv: "do_inv st b" and i: "unat i < 8" and s: "s = do_states st ! unat i" "do_in_use s" "do_timer_kind s = 0"
    and v: "\<not> values_len < 5" "fetch 0 values = Some level" "read_u32_le (drop 1 values) = Some us"
    and ok: "level \<le> 1" "us \<noteq> 0" "unat us \<le> 2 ^ 32 - 1000"
    and s': "s' = s\<lparr>do_pulse_revert_level := (if level = 1 then 0 else 1), do_sw_timer := pulse_timer K st s\<rparr>"
  shows "\<exists>m. digital_out_sensor_set_output M K i values values_len st b
      = Some (pulse_error K (pulse_timer K st s), st\<lparr>do_states := (do_states st)[unat i := s'],
          do_timers := (case pulse_timer K st s of None \<Rightarrow> do_timers st | Some h \<Rightarrow> (do_timers st)(h \<mapsto> i))\<rparr>, b\<lparr>bmcu := m\<rparr>) \<and>
    trace m = trace (bmcu b) @ (case do_sw_timer s of None \<Rightarrow> [] | Some h \<Rightarrow> [XTimerStop h]) @
      [Wr (pin_bsrr (do_gpio_pin s)) (bsrr_value (do_gpio_pin s) level)] @
      arm_calls (pulse_ticks K us) i (do_sw_timer s) (pulse_timer K st s)"
proof -
  note S = do_slot_live[OF inv i s(2)[unfolded s(1)], folded s(1)]
  have lv: "\<not> level > 1" using ok(1) by simp
  let ?m = "(bmcu b)\<lparr>trace := trace (bmcu b) @ stop_calls s\<rparr>"
  let ?s = "s\<lparr>do_pulse_revert_level := (if level = 1 then 0 else 1)\<rparr>"
  have tm: "pulse_timer K st ?s = pulse_timer K st s" "do_sw_timer ?s = do_sw_timer s" by (simp_all add: pulse_timer_def)
  note stop = stop_running_pulse[OF inv i s(2)[unfolded s(1)] s(1), of "bmcu b"]
  have "pulse_ticks K us = (if pdMS_TO_TICKS K ((us + 999) div 1000) = 0 then 1 else pdMS_TO_TICKS K ((us + 999) div 1000))"
    using round_up_ms[OF ok(3)] by (simp add: pulse_ticks_def Let_def)
  from sw_pulse_start_result[OF inv i s(2)[unfolded s(1)] _ this, of ?s, unfolded tm]
  have sw: "sw_pulse_start K i us ?s (do_timers st) m = Some (pulse_error K (pulse_timer K st s), s',
      (case pulse_timer K st s of None \<Rightarrow> do_timers st | Some h \<Rightarrow> (do_timers st)(h \<mapsto> i)),
      m\<lparr>trace := trace m @ arm_calls (pulse_ticks K us) i (do_sw_timer s) (pulse_timer K st s)\<rparr>)" for m
    using s(1) s' by simp
  have "stop_calls s = (case do_sw_timer s of None \<Rightarrow> [] | Some h \<Rightarrow> [XTimerStop h])"
    using s(3) by (simp add: stop_calls_def split: option.splits)
  then show ?thesis
    using S(1) i s(2,3) v lv ok(2) stop drive_level_ok[OF S(2), of level ?m] sw
    by (simp add: digital_out_sensor_set_output_def Let_def)
qed

text \<open>A hardware pulse: the test of the start result is inverted, too.\<close>

lemma do_set_output_hardware:
  assumes inv: "do_inv st b" and i: "unat i < 8" and s: "s = do_states st ! unat i" "do_in_use s" "do_timer_kind s = 1"
    and v: "\<not> values_len < 5" "fetch 0 values = Some level" "read_u32_le (drop 1 values) = Some us"
    and ok: "level \<le> 1" "us \<noteq> 0"
    and t: "find_pulse_entry i (btimers b) = Some t" "unat us \<le> arr_limit (te_width (btimers b ! t))"
  shows "\<exists>st' b'. digital_out_sensor_set_output M K i values values_len st b = Some (ERR_INTERNAL, st', b') \<and>
    unat (regs (bmcu b') (TIM (tim (btimers b ! t)) TIM_ARR)) + 1 = unat us"
proof -
  note S = do_slot_live[OF inv i s(2)[unfolded s(1)], folded s(1)]
  have lv: "\<not> level > 1" using ok(1) by simp
  have max: "\<not> us > hw_timer_pulse_max_us i (btimers b)"
    using t by (auto simp: hw_timer_pulse_max_us_def word_less_nat_alt arr_limit_def split: if_splits)
  let ?m = "wr (pin_bsrr (do_gpio_pin s)) (bsrr_value (do_gpio_pin s) level) ((bmcu b)\<lparr>trace := trace (bmcu b) @ stop_calls s\<rparr>)"
  obtain e m where st: "hw_timer_pulse_start M i us ?m (btimers b) = (e, m)" by fastforce
  from pulse_start_spec(1,2)[OF t(1) ok(2) t(2), of M ?m] pulse_start_spec(3)[OF t(1) ok(2) t(2)]
  have "e = ERR_SUCCESS" "unat (regs m (TIM (tim (btimers b ! t)) TIM_ARR)) + 1 = unat us" by (simp_all add: st)
  then show ?thesis
    using S(1) i s(2,3) v lv max ok(2) drive_level_ok[OF S(2)] st stop_running_pulse[OF inv i s(2)[unfolded s(1)] s(1), of "bmcu b"]
    by (auto simp: digital_out_sensor_set_output_def Let_def)
qed

subsection \<open>Stop\<close>

lemma do_stop_live:
  assumes inv: "do_inv st b" and i: "unat i < 8" and s: "s = do_states st ! unat i" "do_in_use s"
  shows "\<exists>b' m. digital_out_sensor_stop i st b = Some (ERR_SUCCESS,
      \<lparr>do_states = (do_states st)[unat i := do_state_zero],
       do_pin_owned = free_pin (do_gpio_port s) (gp_pin (do_gpio_pin s)) (do_pin_owned st),
       do_timers = (case do_sw_timer s of None \<Rightarrow> do_timers st | Some h \<Rightarrow> (do_timers st)(h := None))\<rparr>, b') \<and>
    board_inv b' \<and> bsm b' = bsm b \<and> map pwm_use (btimers b') = map pwm_use (btimers b) \<and>
    btimers b' = (if do_timer_kind s = DIGITAL_OUT_TIMER_HARDWARE
                  then snd (hw_timer_pulse_release i m (btimers b)) else btimers b)"
proof -
  note S = do_slot_live[OF inv i s(2)[unfolded s(1)], folded s(1)]
  have T: "timers_inv (btimers b)" "sm_inv (bsm b)" using inv by (auto simp: do_inv_def board_inv_def)
  let ?m = "case do_sw_timer s of None \<Rightarrow> bmcu b | Some h \<Rightarrow> emit (XTimerDelete h) (emit (XTimerStop h) (bmcu b))"
  let ?tms = "case do_sw_timer s of None \<Rightarrow> do_timers st | Some h \<Rightarrow> (do_timers st)(h := None)"
  have del: "(case do_sw_timer s of None \<Rightarrow> Some (bmcu b, do_timers st)
     | Some h \<Rightarrow> do { m \<leftarrow> timer_call (XTimerStop h) h (do_timers st) (bmcu b); m \<leftarrow> timer_call (XTimerDelete h) h (do_timers st) m;
         Some (m, (do_timers st)(h := None)) }) = Some (?m, ?tms)"
    using slot_timer_live[OF inv i s(2)[unfolded s(1)]] s(1) by (auto simp: timer_call_def split: option.splits)
  obtain m1 ts where rel: "hw_timer_pulse_release i ?m (btimers b) = (m1, ts)" by fastforce
  obtain m2 where m2: "gpio_reset_to_defaults (do_gpio_pin s) (if do_timer_kind s = 1 then m1 else ?m) = Some m2"
    using gpio_total(1)[OF S(2)] by blast
  let ?b = "b\<lparr>bmcu := m2, btimers := (if do_timer_kind s = 1 then ts else btimers b)\<rparr>"
  have "digital_out_sensor_stop i st b = Some (ERR_SUCCESS,
      \<lparr>do_states = (do_states st)[unat i := do_state_zero],
       do_pin_owned = free_pin (do_gpio_port s) (gp_pin (do_gpio_pin s)) (do_pin_owned st), do_timers = ?tms\<rparr>, ?b)"
    using S(1) i s(2) rel m2 del by (cases "do_timer_kind s = 1") (simp_all add: digital_out_sensor_stop_def Let_def)
  moreover have "board_inv ?b" using T pulse_release_inv[OF T(1) rel] by (simp add: board_inv_def)
  moreover have "map pwm_use (btimers ?b) = map pwm_use (btimers b)" using pulse_release_pwm_use[OF rel] by simp
  moreover have "btimers ?b = (if do_timer_kind s = 1 then snd (hw_timer_pulse_release i ?m (btimers b)) else btimers b)"
    by (simp add: rel)
  ultimately show ?thesis by (intro exI[of _ ?b] exI[of _ ?m]) simp
qed

lemma do_stop_idle:
  "do_inv st b \<Longrightarrow> unat i < 8 \<Longrightarrow> \<not> do_in_use (do_states st ! unat i) \<Longrightarrow>
     digital_out_sensor_stop i st b = Some (ERR_INVALID_SENSOR_ID, st, b)"
  by (simp add: digital_out_sensor_stop_def do_inv_def)

subsection \<open>Properties\<close>

definition do_start :: digital_out where
  "do_start = digital_out_sensor_init \<lparr>do_states = [], do_pin_owned = [], do_timers = Map.empty\<rparr>"

lemma do_inv_start: "do_inv do_start (board_start M)"
proof -
  have "do_slot_ok (replicate 8 do_state_zero ! i)" if "i < 8" for i
    using that by (simp add: do_slot_ok_def do_state_zero_def)
  moreover have "do_timers_ok do_start"
    by (auto simp: do_timers_ok_def do_start_def digital_out_sensor_init_def do_state_zero_def)
  ultimately show ?thesis
    using board_inv_start[of M] do_pins.start[of 8] by (simp add: do_inv_def do_start_def digital_out_sensor_init_def)
qed

text \<open>C30: set-up of a digital output, for every payload: it never traps and never reads beyond the
  payload; slots, owned pins and tables stay consistent, and PWM timers are not disturbed. On
  success one free slot becomes live with the requested, previously unowned pin, under a fresh
  sensor id. On an error no slot, pin or sensor id has changed, and for an output without a
  hardware timer the timer pool is untouched, too.\<close>

theorem digital_out_setup_sound:
  assumes "do_inv st b" "unat cfg_len \<le> length cfg"
  shows "\<exists>err sid st' b'. digital_out_sensor_setup M cfg cfg_len st b = Some (err, sid, st', b') \<and>
    do_setup_post cfg st b err sid st' b' \<and>
    (cfg ! 6 \<noteq> DIGITAL_OUT_TIMER_HARDWARE \<longrightarrow> btimers b' = btimers b)"
  by (rule do_setup_result[OF assms])

abbreviation (input) example_do_cfg :: "u8 list" where
  "example_do_cfg \<equiv> [2, 13, 1, 0, 1, 0, 0, 0]"

theorem digital_out_setup_sound_witness:
  "\<exists>err sid st' b'. digital_out_sensor_setup example_masks example_do_cfg 8 do_start (board_start example_masks)
     = Some (err, sid, st', b') \<and> do_inv st' b' \<and> btimers b' = hw_timer_init example_masks"
  using digital_out_setup_sound[OF do_inv_start, of 8 example_do_cfg example_masks example_masks]
  by (auto simp: do_setup_post_def board_start_def)

lemma example_do_setup:
  "\<exists>st b. do_inv st b \<and> do_in_use (do_states st ! 0) \<and> do_timer_kind (do_states st ! 0) = 0 \<and>
     do_sw_timer (do_states st ! 0) = None \<and>
     do_gpio_pin (do_states st ! 0) = \<lparr>gp_port = Some GPIOC, gp_pin = 13\<rparr> \<and> do_timers st = Map.empty"
proof -
  let ?s = "do_state_zero\<lparr>do_in_use := True, do_gpio_port := 2, do_gpio_pin := \<lparr>gp_port = Some GPIOC, gp_pin = 13\<rparr>\<rparr>"
  let ?st = "do_start\<lparr>do_states := (do_states do_start)[0 := ?s], do_pin_owned := claim_pin 2 13 (do_pin_owned do_start)\<rparr>"
  have pos: "pin_pos 2 13" by (simp add: pin_pos_def word_le_nat_alt)
  have "\<not> pin_is_owned 2 13 (do_pin_owned do_start)"
    using pin_table_init_free[OF pos] by (simp add: do_start_def digital_out_sensor_init_def)
  moreover have "gpio_make_pin 2 13 = Some \<lparr>gp_port = Some GPIOC, gp_pin = 13\<rparr>"
    by (simp add: gpio_make_pin_def gpio_port_handle_def word_le_nat_alt)
  ultimately have "do_inv ?st (board_start example_masks)"
    using do_inv_start[of example_masks] pos board_inv_start
    by (intro do_inv_store[of _ _ 0])
       (auto simp: do_start_def digital_out_sensor_init_def do_state_zero_def do_slot_ok_def do_pin_of_def)
  then show ?thesis by (intro exI) (auto simp: do_start_def digital_out_sensor_init_def do_state_zero_def)
qed

text \<open>C31: a software-timed pulse, the first one and every later one, for pulses of 1 to 2 to the 32 minus
  1000 microseconds. A running pulse's timer is stopped, then the requested level is stored to BSRR,
  then the timer is armed with a period of at least one tick that rounds the microseconds up to
  milliseconds: the first pulse creates a one-shot timer (auto-reload off) with the number of the
  slot as its id, a later one changes the period of the timer that exists; then it is started. No
  call goes through a handle that is not live, and the timer stays live under that id. The answer
  is success when the timer exists and \<open>xTimerStart\<close> accepts it, and otherwise the error for the
  missing timer or the refused start (the level stays driven then). When the timer expires, its
  callback stores the opposite level on the same pin.\<close>

theorem digital_out_software_pulse:
  assumes "do_inv st b" "unat i < DIGITAL_OUT_SENSOR_MAX_COUNT" "s = do_states st ! unat i" "do_in_use s"
    and "do_timer_kind s = DIGITAL_OUT_TIMER_SOFTWARE" "timer_spec K"
    and "values = level # u32_le us @ more'" "\<not> values_len < DIGITAL_OUT_SET_OUTPUT_SIZE" "unat values_len \<le> length values"
    and "level \<le> DIGITAL_OUT_LEVEL_HIGH" "us \<noteq> 0" "unat us \<le> 2 ^ 32 - 1000"
  shows "\<exists>timer st' m. digital_out_sensor_set_output M K i values values_len st b =
      Some (case timer of None \<Rightarrow> ERR_OUT_OF_RESOURCES | Some h \<Rightarrow> if xTimerStart_pass K then ERR_SUCCESS else ERR_INTERNAL,
        st', b\<lparr>bmcu := m\<rparr>) \<and> do_inv st' (b\<lparr>bmcu := m\<rparr>) \<and>
    timer = (case do_sw_timer s of None \<Rightarrow> xTimerCreate_ret K (do_timers st) | Some h \<Rightarrow> Some h) \<and>
    do_sw_timer (do_states st' ! unat i) = timer \<and> (\<forall>h. timer = Some h \<longrightarrow> do_timers st' h = Some i) \<and>
    trace m = trace (bmcu b) @ (case do_sw_timer s of None \<Rightarrow> [] | Some h \<Rightarrow> [XTimerStop h]) @
      [Wr (pin_bsrr (do_gpio_pin s)) (bsrr_value (do_gpio_pin s) level)] @
      (case do_sw_timer s of
         None \<Rightarrow> [XTimerCreate ''digout_pulse'' (pulse_ticks K us) False i CB_sw_timer_callback]
       | Some h \<Rightarrow> [XTimerChangePeriod h (pulse_ticks K us)]) @
      (case timer of None \<Rightarrow> [] | Some h \<Rightarrow> [XTimerStart h]) \<and> pulse_ticks K us \<noteq> 0 \<and>
    (\<forall>m'. sw_timer_callback (ucast i) st' m' =
       Some (wr (pin_bsrr (do_gpio_pin s))
         (bsrr_value (do_gpio_pin s) (if level = DIGITAL_OUT_LEVEL_HIGH then DIGITAL_OUT_LEVEL_LOW else DIGITAL_OUT_LEVEL_HIGH)) m'))"
proof -
  let ?t = "pulse_timer K st s"
  let ?s = "s\<lparr>do_pulse_revert_level := (if level = 1 then 0 else 1), do_sw_timer := ?t\<rparr>"
  let ?st = "st\<lparr>do_states := (do_states st)[unat i := ?s],
    do_timers := (case ?t of None \<Rightarrow> do_timers st | Some h \<Rightarrow> (do_timers st)(h \<mapsto> i))\<rparr>"
  have v: "fetch 0 values = Some level" "read_u32_le (drop 1 values) = Some us"
    using assms(7) read_u32_le_u32_le[of us more'] by (simp_all add: fetch_def)
  obtain m where m: "digital_out_sensor_set_output M K i values values_len st b = Some (pulse_error K ?t, ?st, b\<lparr>bmcu := m\<rparr>)"
    "trace m = trace (bmcu b) @ (case do_sw_timer s of None \<Rightarrow> [] | Some h \<Rightarrow> [XTimerStop h]) @
      [Wr (pin_bsrr (do_gpio_pin s)) (bsrr_value (do_gpio_pin s) level)] @ arm_calls (pulse_ticks K us) i (do_sw_timer s) ?t"
    using do_set_output_software[OF assms(1-5,8) v assms(10-12), of ?s K M] by auto
  have inv: "do_inv ?st (b\<lparr>bmcu := m\<rparr>)"
    using do_set_output_frame[OF assms(1,2,9,6), of M] m(1) by auto
  have L: "unat i < length (do_states st)" using assms(1,2) by (simp add: do_inv_def)
  have "ucast (ucast i :: u32) = i" by (rule ucast_byte_u32)
  then have cb: "sw_timer_callback (ucast i) ?st m' =
       Some (wr (pin_bsrr (do_gpio_pin s)) (bsrr_value (do_gpio_pin s) (if level = 1 then 0 else 1)) m')" for m'
    using revert_live[OF inv assms(2), of m'] assms(4) L by (simp add: sw_timer_callback_def)
  have ticks: "pulse_ticks K us \<noteq> 0" by (simp add: pulse_ticks_def Let_def)
  show ?thesis
    by (intro exI[of _ ?t] exI[of _ ?st] exI[of _ m] conjI)
       (use m inv L cb ticks in \<open>simp_all add: pulse_error_def arm_calls_def pulse_timer_def\<close>)
qed

theorem digital_out_software_pulse_witness:
  "\<exists>st b st' m. digital_out_sensor_set_output example_masks
       \<lparr>pdMS_TO_TICKS = (\<lambda>ms. ms), xTimerCreate_ret = (\<lambda>ts. if ts 7 = None then Some 7 else None), xTimerStart_pass = True,
         xSemaphoreCreateBinary_ret = (\<lambda>_. None)\<rparr> 0 [1, 0xDC, 5, 0, 0] 5 st b
       = Some (ERR_SUCCESS, st', b\<lparr>bmcu := m\<rparr>) \<and>
     trace m = trace (bmcu b) @ [Wr (GPIO GPIOC BSRR) 0x2000, XTimerCreate ''digout_pulse'' 2 False 0 CB_sw_timer_callback, XTimerStart 7]"
proof -
  let ?K = "\<lparr>pdMS_TO_TICKS = (\<lambda>ms. ms), xTimerCreate_ret = (\<lambda>ts. if ts 7 = None then Some 7 else None), xTimerStart_pass = True,
    xSemaphoreCreateBinary_ret = (\<lambda>_. None)\<rparr>"
  obtain st b where s: "do_inv st b" "do_in_use (do_states st ! 0)" "do_timer_kind (do_states st ! 0) = 0"
    "do_sw_timer (do_states st ! 0) = None" "do_gpio_pin (do_states st ! 0) = \<lparr>gp_port = Some GPIOC, gp_pin = 13\<rparr>" "do_timers st = Map.empty"
    using example_do_setup by blast
  have v: "[1, 0xDC, 5, 0, 0] = 1 # u32_le 1500 @ []" by code_simp
  have k: "pulse_ticks ?K 1500 = 2" "timer_spec ?K" by (simp_all add: pulse_ticks_def timer_spec_def)
  have p: "pin_bsrr \<lparr>gp_port = Some GPIOC, gp_pin = 13\<rparr> = GPIO GPIOC BSRR"
    "bsrr_value \<lparr>gp_port = Some GPIOC, gp_pin = 13\<rparr> 1 = 0x2000" by (simp_all add: pin_bsrr_def bsrr_value_def)
  have z: "unat (0 :: u8) = 0" by simp
  from digital_out_software_pulse[OF s(1) _ refl _ _ k(2) v, of 0 5 example_masks] s(2-4)
  show ?thesis unfolding k(1) z s(5) p by (auto simp: s(6))
qed

text \<open>Stopping a digital output, for every slot number the handler accepts: an unused slot is
  refused and nothing changes; a live one is cleared and its pin, and no other, becomes free
  again. Consistency, the sensor table and the PWM timers are preserved.\<close>

theorem digital_out_stop_frees:
  assumes "do_inv st b" "unat i < DIGITAL_OUT_SENSOR_MAX_COUNT"
  shows "\<exists>err st' b'. digital_out_sensor_stop i st b = Some (err, st', b') \<and> do_inv st' b' \<and> bsm b' = bsm b \<and>
    map pwm_use (btimers b') = map pwm_use (btimers b) \<and>
    (case live_slots st ! unat i of
       None \<Rightarrow> err = ERR_INVALID_SENSOR_ID \<and> st' = st \<and> b' = b
     | Some s \<Rightarrow> err = ERR_SUCCESS \<and> live_slots st' = (live_slots st)[unat i := None] \<and>
         (\<forall>port pin. pin_pos port pin \<longrightarrow> pin_is_owned port pin (do_pin_owned st') =
            (pin_is_owned port pin (do_pin_owned st) \<and> (port, pin) \<noteq> do_pin_of s)))"
proof -
  let ?s = "do_states st ! unat i"
  have L: "length (do_states st) = 8" and P: "pins_consistent do_in_use do_pin_of (do_states st) (do_pin_owned st)"
    using assms(1) by (auto simp: do_inv_def)
  show ?thesis
  proof (cases "do_in_use ?s")
    case False
    with do_stop_idle[OF assms False] live_slots_nth[of "unat i" st] L assms show ?thesis by simp
  next
    case True
    obtain b' where b': "digital_out_sensor_stop i st b = Some (ERR_SUCCESS,
        \<lparr>do_states = (do_states st)[unat i := do_state_zero],
         do_pin_owned = free_pin (do_gpio_port ?s) (gp_pin (do_gpio_pin ?s)) (do_pin_owned st),
         do_timers = (case do_sw_timer ?s of None \<Rightarrow> do_timers st | Some h \<Rightarrow> (do_timers st)(h := None))\<rparr>, b')"
      "board_inv b'" "bsm b' = bsm b" "map pwm_use (btimers b') = map pwm_use (btimers b)"
      using do_stop_live[OF assms refl True] by blast
    let ?st = "\<lparr>do_states = (do_states st)[unat i := do_state_zero],
         do_pin_owned = free_pin (do_gpio_port ?s) (gp_pin (do_gpio_pin ?s)) (do_pin_owned st),
         do_timers = (case do_sw_timer ?s of None \<Rightarrow> do_timers st | Some h \<Rightarrow> (do_timers st)(h := None))\<rparr>"
    have inv: "do_inv ?st b'"
      by (rule do_inv_clear[OF assms True _ b'(2)]) (simp_all add: do_pin_of_def)
    have "live_slots ?st = (live_slots st)[unat i := None]"
      using do_pins.blank_unused by (simp add: live_slots_def map_update)
    moreover have "pin_is_owned port pin (do_pin_owned ?st) =
        (pin_is_owned port pin (do_pin_owned st) \<and> (port, pin) \<noteq> do_pin_of ?s)" if "pin_pos port pin" for port pin
      using pin_is_owned_free[OF pins_consistentD(1)[OF P] _ that] pins_consistentD(2)[OF P, of "unat i"] True L assms(2)
      by (auto simp: do_pin_of_def)
    ultimately show ?thesis
      using b' inv live_slots_nth[of "unat i" st] True L assms(2) by auto
  qed
qed

theorem digital_out_stop_frees_witness:
  "\<exists>st b st' b'. digital_out_sensor_stop 0 st b = Some (ERR_SUCCESS, st', b') \<and> do_inv st' b' \<and>
     live_slots st' ! 0 = None"
proof -
  obtain st b where s: "do_inv st b" "do_in_use (do_states st ! 0)" using example_do_setup by blast
  have L: "length (do_states st) = 8" using s(1) by (simp add: do_inv_def)
  have l: "live_slots st ! unat (0 :: u8) = Some (do_states st ! 0)" "length (live_slots st) = 8"
    using live_slots_nth[of 0 st] L s(2) by (simp_all add: live_slots_def)
  have "unat (0 :: u8) < 8" by simp
  from digital_out_stop_frees[OF s(1) this] l show ?thesis by fastforce
qed

end
