(* ===== verification/I2c_Slave.thy ===== *)
theory I2c_Slave
  imports Heap
begin

text \<open>
  \<^verbatim>\<open>drivers/i2c_slave/src/i2c_slave.c\<close>: the interrupt-driven register-map slave. The driver keeps
  a pointer to a register map it does not own, a block of the heap of theory \<open>Heap\<close>; an access to a
  block that has been freed, or outside its bounds, is \<open>None\<close>, as is a failed assertion. The values the handlers read from SR1, SR2 and DR
  are arguments.
\<close>

subsection \<open>State\<close>

datatype i2c_phase = I2C_PHASE_IDLE | I2C_PHASE_RX_REG_ADDR | I2C_PHASE_RX_DATA | I2C_PHASE_TX

record i2c_slave_state =
  sl_i2c :: i2c_handle
  sl_initialized :: bool
  sl_regmap :: "nat option"
  sl_regmap_len :: u16
  sl_reg_addr_width :: u8
  sl_auto_inc_mode :: u8
  sl_auto_inc_wrap :: bool
  sl_writes_allowed :: bool
  sl_phase :: i2c_phase
  sl_reg_ptr :: u16
  sl_reg_addr_acc :: u16
  sl_reg_addr_cnt :: u8

record i2c_slave_cfg =
  sc_regmap :: "nat option"
  sc_regmap_len :: u16
  sc_reg_addr_width :: u8
  sc_auto_inc_mode :: u8
  sc_auto_inc_wrap :: bool
  sc_writes_allowed :: bool
  sc_general_call :: bool
  sc_clock_stretch :: bool

abbreviation (input) I2C_PERIPH_COUNT :: u8 where "I2C_PERIPH_COUNT \<equiv> 3"
abbreviation (input) I2C_SLAVE_ADDR_7BIT :: u8 where "I2C_SLAVE_ADDR_7BIT \<equiv> 0"
abbreviation (input) I2C_SLAVE_ADDR_10BIT :: u8 where "I2C_SLAVE_ADDR_10BIT \<equiv> 1"
abbreviation (input) I2C_SLAVE_REG_NONE :: u8 where "I2C_SLAVE_REG_NONE \<equiv> 0"
abbreviation (input) I2C_SLAVE_REG_8 :: u8 where "I2C_SLAVE_REG_8 \<equiv> 1"
abbreviation (input) I2C_SLAVE_REG_16 :: u8 where "I2C_SLAVE_REG_16 \<equiv> 2"
abbreviation (input) I2C_SLAVE_AUTO_INC_NONE :: u8 where "I2C_SLAVE_AUTO_INC_NONE \<equiv> 0"
abbreviation (input) I2C_SLAVE_AUTO_INC_READ :: u8 where "I2C_SLAVE_AUTO_INC_READ \<equiv> 1"
abbreviation (input) I2C_SLAVE_AUTO_INC_WRITE :: u8 where "I2C_SLAVE_AUTO_INC_WRITE \<equiv> 2"
abbreviation (input) I2C_SLAVE_AUTO_INC_BOTH :: u8 where "I2C_SLAVE_AUTO_INC_BOTH \<equiv> 3"
abbreviation (input) APB1_CLOCK_HZ :: u32 where "APB1_CLOCK_HZ \<equiv> 42000000"
abbreviation (input) I2C_CR2_FREQ_VAL :: u32 where "I2C_CR2_FREQ_VAL \<equiv> APB1_CLOCK_HZ div 1000000"
abbreviation (input) I2C_STD_MAX_HZ :: u32 where "I2C_STD_MAX_HZ \<equiv> 100000"
abbreviation (input) I2C_FAST_MAX_HZ :: u32 where "I2C_FAST_MAX_HZ \<equiv> 400000"
abbreviation (input) I2C_7BIT_ADDR_MAX :: u16 where "I2C_7BIT_ADDR_MAX \<equiv> 0x7F"
abbreviation (input) I2C_10BIT_ADDR_MAX :: u16 where "I2C_10BIT_ADDR_MAX \<equiv> 0x3FF"
abbreviation (input) I2C_OAR1_RESERVED14 :: u32 where "I2C_OAR1_RESERVED14 \<equiv> 0x4000"
abbreviation (input) I2C_IRQ_PRIORITY :: u32 where "I2C_IRQ_PRIORITY \<equiv> 6"

text \<open>The static initialisers of the two tables.\<close>

definition i2c_slave_state_init :: "i2c_handle \<Rightarrow> i2c_slave_state" where
  "i2c_slave_state_init i = \<lparr>sl_i2c = i, sl_initialized = False, sl_regmap = None, sl_regmap_len = 0,
     sl_reg_addr_width = 0, sl_auto_inc_mode = 0, sl_auto_inc_wrap = False, sl_writes_allowed = False,
     sl_phase = I2C_PHASE_IDLE, sl_reg_ptr = 0, sl_reg_addr_acc = 0, sl_reg_addr_cnt = 0\<rparr>"

definition i2c_slave_states :: "i2c_slave_state list" where
  "i2c_slave_states = [i2c_slave_state_init I2C1, i2c_slave_state_init I2C2, i2c_slave_state_init I2C3]"

definition i2c_ev_irq :: "u8 \<Rightarrow> irq" where
  "i2c_ev_irq periph = (if periph = 0 then I2C1_EV_IRQn else if periph = 1 then I2C2_EV_IRQn else I2C3_EV_IRQn)"

definition i2c_er_irq :: "u8 \<Rightarrow> irq" where
  "i2c_er_irq periph = (if periph = 0 then I2C1_ER_IRQn else if periph = 1 then I2C2_ER_IRQn else I2C3_ER_IRQn)"

subsection \<open>Clocks\<close>

definition i2c_rcc_mask :: "u8 \<Rightarrow> rcc_mask option" where
  "i2c_rcc_mask periph = (if periph = 0 then Some RCC_APB1ENR_I2C1EN else if periph = 1 then Some RCC_APB1ENR_I2C2EN
     else if periph = 2 then Some RCC_APB1ENR_I2C3EN else None)"

definition rcc_enable :: "cmsis \<Rightarrow> u8 \<Rightarrow> mcu \<Rightarrow> mcu" where
  "rcc_enable M periph m =
     (case i2c_rcc_mask periph of
        None \<Rightarrow> m
      | Some k \<Rightarrow> emit (Rd RCC_APB1ENR) (reg_or RCC_APB1ENR (rccm M k) m))"

definition rcc_disable :: "cmsis \<Rightarrow> u8 \<Rightarrow> mcu \<Rightarrow> mcu" where
  "rcc_disable M periph m =
     (case i2c_rcc_mask periph of None \<Rightarrow> m | Some k \<Rightarrow> reg_clear RCC_APB1ENR (rccm M k) m)"

definition i2c_compute_ccr :: "cmsis \<Rightarrow> u32 \<Rightarrow> u32" where
  "i2c_compute_ccr M clock_hz =
     (if clock_hz \<le> I2C_STD_MAX_HZ then APB1_CLOCK_HZ div (2 * clock_hz)
      else i2cm M I2C_CCR_FS OR (APB1_CLOCK_HZ div (3 * clock_hz)))"

definition compute_trise :: "u32 \<Rightarrow> u32" where
  "compute_trise clock_hz =
     (if clock_hz \<le> I2C_STD_MAX_HZ then I2C_CR2_FREQ_VAL + 1 else (I2C_CR2_FREQ_VAL * 3) div 10 + 1)"

subsection \<open>The register map\<close>

text \<open>The pointer after an access; the comparison is at unsigned int width, so it does not wrap.\<close>

definition reg_ptr_inc :: "i2c_slave_state \<Rightarrow> i2c_slave_state" where
  "reg_ptr_inc s =
     (if unat (sl_reg_ptr s) + 1 < unat (sl_regmap_len s) then s\<lparr>sl_reg_ptr := sl_reg_ptr s + 1\<rparr>
      else if sl_auto_inc_wrap s then s\<lparr>sl_reg_ptr := 0\<rparr> else s)"

definition regmap_read :: "i2c_slave_state \<Rightarrow> heap \<Rightarrow> (u8 \<times> i2c_slave_state) option" where
  "regmap_read s h =
     do {
       p \<leftarrow> sl_regmap s;
       if sl_reg_ptr s \<ge> sl_regmap_len s then Some (0, s)
       else do {
         byte \<leftarrow> heap_load p (unat (sl_reg_ptr s)) h;
         let do_inc = (sl_auto_inc_mode s = I2C_SLAVE_AUTO_INC_READ \<or> sl_auto_inc_mode s = I2C_SLAVE_AUTO_INC_BOTH);
         Some (byte, if do_inc then reg_ptr_inc s else s)
       }
     }"

definition regmap_write :: "i2c_slave_state \<Rightarrow> u8 \<Rightarrow> heap \<Rightarrow> (i2c_slave_state \<times> heap) option" where
  "regmap_write s byte h =
     do {
       p \<leftarrow> sl_regmap s;
       if \<not> sl_writes_allowed s \<or> sl_reg_ptr s \<ge> sl_regmap_len s then Some (s, h)
       else do {
         h \<leftarrow> heap_store p (unat (sl_reg_ptr s)) byte h;
         let do_inc = (sl_auto_inc_mode s = I2C_SLAVE_AUTO_INC_WRITE \<or> sl_auto_inc_mode s = I2C_SLAVE_AUTO_INC_BOTH);
         Some (if do_inc then reg_ptr_inc s else s, h)
       }
     }"

subsection \<open>Interrupt handlers\<close>

text \<open>The four parts of the event handler, in the order of the code.\<close>

definition ev_addr :: "cmsis \<Rightarrow> u32 \<Rightarrow> u32 \<Rightarrow> i2c_slave_state \<Rightarrow> mcu \<Rightarrow> i2c_slave_state \<times> mcu" where
  "ev_addr M sr1 sr2 s m =
     (if sr1 AND i2cm M I2C_SR1_ADDR = 0 then (s, m)
      else let m = emit (Rd (I2C (sl_i2c s) I2C_SR2)) m
           in if sr2 AND i2cm M I2C_SR2_TRA \<noteq> 0 then (s\<lparr>sl_phase := I2C_PHASE_TX\<rparr>, m)
              else let s = s\<lparr>sl_reg_addr_acc := 0, sl_reg_addr_cnt := 0\<rparr>
                   in if sl_reg_addr_width s = I2C_SLAVE_REG_NONE
                      then (s\<lparr>sl_reg_ptr := 0, sl_phase := I2C_PHASE_RX_DATA\<rparr>, m)
                      else (s\<lparr>sl_phase := I2C_PHASE_RX_REG_ADDR\<rparr>, m))"

definition ev_rxne ::
    "cmsis \<Rightarrow> u32 \<Rightarrow> u32 \<Rightarrow> i2c_slave_state \<Rightarrow> heap \<Rightarrow> mcu \<Rightarrow> (i2c_slave_state \<times> heap \<times> mcu) option" where
  "ev_rxne M sr1 dr s h m =
     (if sr1 AND i2cm M I2C_SR1_RXNE = 0 then Some (s, h, m)
      else let byte = ucast dr;
               m = emit (Rd (I2C (sl_i2c s) I2C_DR)) m
           in if sl_phase s = I2C_PHASE_RX_REG_ADDR
              then let expected = (if sl_reg_addr_width s = I2C_SLAVE_REG_16 then 2 else 1);
                       s = s\<lparr>sl_reg_addr_acc := push_bit 8 (sl_reg_addr_acc s) OR ucast (byte :: u8),
                             sl_reg_addr_cnt := sl_reg_addr_cnt s + 1\<rparr>
                   in Some (if sl_reg_addr_cnt s \<ge> expected
                            then s\<lparr>sl_reg_ptr := sl_reg_addr_acc s, sl_phase := I2C_PHASE_RX_DATA\<rparr> else s, h, m)
              else if sl_phase s = I2C_PHASE_RX_DATA
              then do { (s, h) \<leftarrow> regmap_write s byte h; Some (s, h, m) }
              else Some (s, h, m))"

definition ev_txe ::
    "cmsis \<Rightarrow> u32 \<Rightarrow> i2c_slave_state \<Rightarrow> heap \<Rightarrow> mcu \<Rightarrow> (i2c_slave_state \<times> mcu) option" where
  "ev_txe M sr1 s h m =
     (if sl_phase s = I2C_PHASE_TX \<and> sr1 AND (i2cm M I2C_SR1_TXE OR i2cm M I2C_SR1_BTF) \<noteq> 0
      then do { (byte, s) \<leftarrow> regmap_read s h; Some (s, wr (I2C (sl_i2c s) I2C_DR) (ucast byte) m) }
      else Some (s, m))"

definition ev_stopf :: "cmsis \<Rightarrow> u32 \<Rightarrow> i2c_slave_state \<Rightarrow> mcu \<Rightarrow> i2c_slave_state \<times> mcu" where
  "ev_stopf M sr1 s m =
     (if sr1 AND i2cm M I2C_SR1_STOPF = 0 then (s, m)
      else (s\<lparr>sl_phase := I2C_PHASE_IDLE\<rparr>, reg_or (I2C (sl_i2c s) I2C_CR1) (i2cm M I2C_CR1_PE) m))"

definition ev_isr ::
    "cmsis \<Rightarrow> u32 \<Rightarrow> u32 \<Rightarrow> u32 \<Rightarrow> i2c_slave_state \<Rightarrow> heap \<Rightarrow> mcu \<Rightarrow> (i2c_slave_state \<times> heap \<times> mcu) option" where
  "ev_isr M sr1 sr2 dr s h m =
     do {
       let m = emit (Rd (I2C (sl_i2c s) I2C_SR1)) m;
       let (s, m) = ev_addr M sr1 sr2 s m;
       (s, h, m) \<leftarrow> ev_rxne M sr1 dr s h m;
       (s, m) \<leftarrow> ev_txe M sr1 s h m;
       let (s, m) = ev_stopf M sr1 s m;
       Some (s, h, m)
     }"

definition er_isr :: "i2c_slave_state \<Rightarrow> mcu \<Rightarrow> i2c_slave_state \<times> mcu" where
  "er_isr s m =
     (let m = emit (Rd (I2C (sl_i2c s) I2C_SR1)) m;
          m = wr (I2C (sl_i2c s) I2C_SR1) 0 m
      in (s\<lparr>sl_phase := I2C_PHASE_IDLE\<rparr>, m))"

text \<open>The six vectors: the handlers above on the entry of their peripheral.\<close>

definition I2C_EV_IRQHandler ::
    "cmsis \<Rightarrow> nat \<Rightarrow> u32 \<Rightarrow> u32 \<Rightarrow> u32 \<Rightarrow> i2c_slave_state list \<Rightarrow> heap \<Rightarrow> mcu \<Rightarrow>
     (i2c_slave_state list \<times> heap \<times> mcu) option" where
  "I2C_EV_IRQHandler M p sr1 sr2 dr states h m =
     do { (s, h, m) \<leftarrow> ev_isr M sr1 sr2 dr (states ! p) h m; Some (states[p := s], h, m) }"

definition I2C_ER_IRQHandler :: "nat \<Rightarrow> i2c_slave_state list \<Rightarrow> mcu \<Rightarrow> i2c_slave_state list \<times> mcu" where
  "I2C_ER_IRQHandler p states m = (case er_isr (states ! p) m of (s, m) \<Rightarrow> (states[p := s], m))"

subsection \<open>Initialisation\<close>

definition cfg_valid :: "u8 \<Rightarrow> u32 \<Rightarrow> u8 \<Rightarrow> u16 \<Rightarrow> u16 \<Rightarrow> i2c_slave_cfg \<Rightarrow> bool" where
  "cfg_valid periph clock_hz addr_mode primary_addr secondary_addr cfg =
     (if periph \<ge> I2C_PERIPH_COUNT then False
      else if sc_regmap cfg = None \<or> sc_regmap_len cfg = 0 then False
      else if addr_mode > I2C_SLAVE_ADDR_10BIT then False
      else if clock_hz = 0 \<or> clock_hz > I2C_FAST_MAX_HZ then False
      else if (if addr_mode = I2C_SLAVE_ADDR_7BIT
               then primary_addr > I2C_7BIT_ADDR_MAX \<or> secondary_addr \<noteq> 0 \<and> secondary_addr > I2C_7BIT_ADDR_MAX
               else primary_addr = 0 \<or> primary_addr > I2C_10BIT_ADDR_MAX \<or> secondary_addr \<noteq> 0) then False
      else if sc_reg_addr_width cfg > I2C_SLAVE_REG_16 then False
      else if sc_auto_inc_mode cfg > I2C_SLAVE_AUTO_INC_BOTH then False
      else True)"

text \<open>The register sequence of the initialisation, up to the driver state being filled in.\<close>

definition i2c_program_registers ::
    "cmsis \<Rightarrow> i2c_handle \<Rightarrow> u32 \<Rightarrow> u8 \<Rightarrow> u16 \<Rightarrow> u16 \<Rightarrow> mcu \<Rightarrow> mcu" where
  "i2c_program_registers M i2c clock_hz addr_mode primary_addr secondary_addr m =
     (let r = I2C i2c;
          m = wr (r I2C_CR1) (i2cm M I2C_CR1_SWRST) m;
          m = wr (r I2C_CR1) 0 m;
          m = wr (r I2C_CR2) (I2C_CR2_FREQ_VAL OR i2cm M I2C_CR2_ITEVTEN OR i2cm M I2C_CR2_ITERREN OR
                i2cm M I2C_CR2_ITBUFEN) m;
          m = wr (r I2C_CCR) (i2c_compute_ccr M clock_hz) m;
          m = wr (r I2C_TRISE) (compute_trise clock_hz) m;
          m = wr (r I2C_OAR1)
                (if addr_mode = I2C_SLAVE_ADDR_7BIT then I2C_OAR1_RESERVED14 OR push_bit 1 (ucast primary_addr)
                 else I2C_OAR1_RESERVED14 OR i2cm M I2C_OAR1_ADDMODE OR ucast primary_addr) m
      in wr (r I2C_OAR2)
           (if secondary_addr \<noteq> 0 \<and> addr_mode = I2C_SLAVE_ADDR_7BIT
            then i2cm M I2C_OAR2_ENDUAL OR push_bit 1 (ucast secondary_addr) else 0) m)"

definition i2c_slave_init ::
    "cmsis \<Rightarrow> u8 \<Rightarrow> u32 \<Rightarrow> u8 \<Rightarrow> u16 \<Rightarrow> u16 \<Rightarrow> i2c_slave_cfg \<Rightarrow> i2c_slave_state list \<Rightarrow> mcu \<Rightarrow>
     err_code \<times> i2c_slave_state list \<times> mcu" where
  "i2c_slave_init M periph clock_hz addr_mode primary_addr secondary_addr cfg states m =
     (if \<not> cfg_valid periph clock_hz addr_mode primary_addr secondary_addr cfg
      then (ERR_INVALID_PARAMETER, states, m)
      else let s = states ! unat periph
           in if sl_initialized s then (ERR_PERIPHERAL_BUSY, states, m)
              else let m = rcc_enable M periph m;
                       m = i2c_program_registers M (sl_i2c s) clock_hz addr_mode primary_addr secondary_addr m;
                       s = s\<lparr>sl_regmap := sc_regmap cfg, sl_regmap_len := sc_regmap_len cfg,
                             sl_reg_addr_width := sc_reg_addr_width cfg, sl_auto_inc_mode := sc_auto_inc_mode cfg,
                             sl_auto_inc_wrap := sc_auto_inc_wrap cfg, sl_writes_allowed := sc_writes_allowed cfg,
                             sl_phase := I2C_PHASE_IDLE, sl_reg_ptr := 0, sl_reg_addr_acc := 0,
                             sl_reg_addr_cnt := 0, sl_initialized := True\<rparr>;
                       cr1 = i2cm M I2C_CR1_PE OR i2cm M I2C_CR1_ACK;
                       cr1 = (if \<not> sc_clock_stretch cfg then cr1 OR i2cm M I2C_CR1_NOSTRETCH else cr1);
                       cr1 = (if sc_general_call cfg then cr1 OR i2cm M I2C_CR1_ENGC else cr1);
                       m = wr (I2C (sl_i2c s) I2C_CR1) cr1 m;
                       m = emit (NVIC_SetPriority (i2c_ev_irq periph) I2C_IRQ_PRIORITY) m;
                       m = emit (NVIC_EnableIRQ (i2c_ev_irq periph)) m;
                       m = emit (NVIC_SetPriority (i2c_er_irq periph) I2C_IRQ_PRIORITY) m;
                       m = emit (NVIC_EnableIRQ (i2c_er_irq periph)) m
                   in (ERR_SUCCESS, states[unat periph := s], m))"

definition i2c_slave_deinit ::
    "cmsis \<Rightarrow> u8 \<Rightarrow> i2c_slave_state list \<Rightarrow> mcu \<Rightarrow> err_code \<times> i2c_slave_state list \<times> mcu" where
  "i2c_slave_deinit M periph states m =
     (if periph \<ge> I2C_PERIPH_COUNT then (ERR_INVALID_PARAMETER, states, m)
      else let s = states ! unat periph;
               m = emit (NVIC_DisableIRQ (i2c_ev_irq periph)) m;
               m = emit (NVIC_DisableIRQ (i2c_er_irq periph)) m;
               m = wr (I2C (sl_i2c s) I2C_CR1) 0 m;
               m = wr (I2C (sl_i2c s) I2C_CR2) 0 m;
               m = rcc_disable M periph m
           in (ERR_SUCCESS,
               states[unat periph := s\<lparr>sl_initialized := False, sl_regmap := None, sl_regmap_len := 0,
                                       sl_phase := I2C_PHASE_IDLE\<rparr>], m))"

subsection \<open>Memory safety\<close>

text \<open>
  The driver's pointer refers to a live block of the stated length. The second definition adds
  what holds while a register address is being collected.
\<close>

definition slave_ok :: "i2c_slave_state \<Rightarrow> heap \<Rightarrow> bool" where
  "slave_ok s h \<longleftrightarrow> (\<exists>p blk. sl_regmap s = Some p \<and> h p = Some blk \<and> length blk = unat (sl_regmap_len s))"

definition phase_ok :: "i2c_slave_state \<Rightarrow> bool" where
  "phase_ok s \<longleftrightarrow> (sl_phase s = I2C_PHASE_RX_REG_ADDR \<longrightarrow>
     (sl_reg_addr_width s = I2C_SLAVE_REG_16 \<and> sl_reg_addr_cnt s = 1 \<and> unat (sl_reg_addr_acc s) < 256 \<or>
      sl_reg_addr_width s \<noteq> I2C_SLAVE_REG_NONE \<and> sl_reg_addr_cnt s = 0 \<and> sl_reg_addr_acc s = 0))"

text \<open>What no interrupt changes.\<close>

definition slave_cfg_of :: "i2c_slave_state \<Rightarrow> i2c_handle \<times> bool \<times> nat option \<times> u16 \<times> u8 \<times> u8 \<times> bool \<times> bool" where
  "slave_cfg_of s = (sl_i2c s, sl_initialized s, sl_regmap s, sl_regmap_len s, sl_reg_addr_width s,
     sl_auto_inc_mode s, sl_auto_inc_wrap s, sl_writes_allowed s)"

lemma slave_ok_cong: "slave_cfg_of s' = slave_cfg_of s \<Longrightarrow> slave_ok s' h = slave_ok s h"
  by (simp add: slave_ok_def slave_cfg_of_def)

lemma slave_cfg_of_updates [simp]:
  "slave_cfg_of (s\<lparr>sl_phase := ph\<rparr>) = slave_cfg_of s"
  "slave_cfg_of (s\<lparr>sl_reg_ptr := r\<rparr>) = slave_cfg_of s"
  "slave_cfg_of (s\<lparr>sl_reg_addr_acc := a\<rparr>) = slave_cfg_of s"
  "slave_cfg_of (s\<lparr>sl_reg_addr_cnt := c\<rparr>) = slave_cfg_of s"
  "slave_cfg_of (reg_ptr_inc s) = slave_cfg_of s"
  by (simp_all add: slave_cfg_of_def reg_ptr_inc_def)

lemma reg_ptr_inc_simps [simp]:
  "sl_phase (reg_ptr_inc s) = sl_phase s" "sl_reg_addr_cnt (reg_ptr_inc s) = sl_reg_addr_cnt s"
  "sl_reg_addr_acc (reg_ptr_inc s) = sl_reg_addr_acc s" "sl_reg_addr_width (reg_ptr_inc s) = sl_reg_addr_width s"
  by (simp_all add: reg_ptr_inc_def)

lemma regmap_read_ok:
  assumes "slave_ok s h"
  shows "\<exists>byte s'. regmap_read s h = Some (byte, s') \<and> slave_cfg_of s' = slave_cfg_of s \<and> sl_phase s' = sl_phase s"
proof -
  obtain p blk where p: "sl_regmap s = Some p" "h p = Some blk" "length blk = unat (sl_regmap_len s)"
    using assms by (auto simp: slave_ok_def)
  show ?thesis
  proof (cases "sl_reg_ptr s \<ge> sl_regmap_len s")
    case False
    then have "unat (sl_reg_ptr s) < length blk" using p(3) by (simp add: word_le_nat_alt)
    with False p show ?thesis by (auto simp: regmap_read_def heap_load_def Let_def)
  qed (simp add: regmap_read_def p)
qed

text \<open>A write changes at most the one block, keeps its length, and is refused if writes are off.\<close>

lemma regmap_write_ok:
  assumes "slave_ok s h"
  shows "\<exists>s' h'. regmap_write s byte h = Some (s', h') \<and> slave_cfg_of s' = slave_cfg_of s \<and> sl_phase s' = sl_phase s \<and>
    slave_ok s' h' \<and> (\<forall>q. Some q \<noteq> sl_regmap s \<longrightarrow> h' q = h q) \<and> (\<not> sl_writes_allowed s \<longrightarrow> h' = h)"
proof -
  obtain p blk where p: "sl_regmap s = Some p" "h p = Some blk" "length blk = unat (sl_regmap_len s)"
    using assms by (auto simp: slave_ok_def)
  show ?thesis
  proof (cases "\<not> sl_writes_allowed s \<or> sl_reg_ptr s \<ge> sl_regmap_len s")
    case False
    let ?h = "h(p \<mapsto> blk[unat (sl_reg_ptr s) := byte])"
    let ?s = "if sl_auto_inc_mode s = 2 \<or> sl_auto_inc_mode s = 3 then reg_ptr_inc s else s"
    have "unat (sl_reg_ptr s) < length blk" using False p(3) by (simp add: word_le_nat_alt)
    then have "regmap_write s byte h = Some (?s, ?h)"
      using False p by (simp add: regmap_write_def heap_store_def store_at_def Let_def)
    moreover have "slave_ok ?s ?h" using p by (simp add: slave_ok_def reg_ptr_inc_def)
    ultimately show ?thesis using False p(1) by auto
  qed (use assms p in \<open>auto simp: regmap_write_def\<close>)
qed

lemma ev_addr_cfg:
  "ev_addr M sr1 sr2 s m = (s', m') \<Longrightarrow> slave_cfg_of s' = slave_cfg_of s"
  by (auto simp: ev_addr_def Let_def slave_cfg_of_def split: if_splits)

lemma ev_stopf_cfg: "ev_stopf M sr1 s m = (s', m') \<Longrightarrow> slave_cfg_of s' = slave_cfg_of s"
  by (auto simp: ev_stopf_def split: if_splits)

lemma ev_rxne_ok:
  assumes "slave_ok s h"
  shows "\<exists>s' h' m'. ev_rxne M sr1 dr s h m = Some (s', h', m') \<and> slave_cfg_of s' = slave_cfg_of s \<and> slave_ok s' h' \<and>
    (\<forall>q. Some q \<noteq> sl_regmap s \<longrightarrow> h' q = h q) \<and> (\<not> sl_writes_allowed s \<longrightarrow> h' = h)"
proof -
  note W = regmap_write_ok[OF assms, of "ucast dr"]
  show ?thesis
    using W assms
    by (cases "sl_phase s") (auto simp: ev_rxne_def Let_def slave_ok_def slave_cfg_of_def)
qed

lemma ev_isr_ok:
  assumes "slave_ok s h"
  shows "\<exists>s' h' m'. ev_isr M sr1 sr2 dr s h m = Some (s', h', m') \<and> slave_cfg_of s' = slave_cfg_of s \<and> slave_ok s' h' \<and>
    (\<forall>q. Some q \<noteq> sl_regmap s \<longrightarrow> h' q = h q) \<and> (\<not> sl_writes_allowed s \<longrightarrow> h' = h)"
proof -
  let ?m = "emit (Rd (I2C (sl_i2c s) I2C_SR1)) m"
  obtain s1 m1 where a: "ev_addr M sr1 sr2 s ?m = (s1, m1)" by fastforce
  note c1 = ev_addr_cfg[OF a]
  have ok1: "slave_ok s1 h" using assms slave_ok_cong[OF c1] by simp
  obtain s2 h2 m2 where r: "ev_rxne M sr1 dr s1 h m1 = Some (s2, h2, m2)" "slave_cfg_of s2 = slave_cfg_of s1" "slave_ok s2 h2"
    "\<forall>q. Some q \<noteq> sl_regmap s1 \<longrightarrow> h2 q = h q" "\<not> sl_writes_allowed s1 \<longrightarrow> h2 = h"
    using ev_rxne_ok[OF ok1, of M sr1 dr m1] by blast
  obtain byte s3 where rd: "regmap_read s2 h2 = Some (byte, s3)" "slave_cfg_of s3 = slave_cfg_of s2"
    using regmap_read_ok[OF r(3)] by blast
  obtain s4 m4 where t: "ev_txe M sr1 s2 h2 m2 = Some (s4, m4)" "slave_cfg_of s4 = slave_cfg_of s2"
    using rd by (cases "sl_phase s2 = I2C_PHASE_TX \<and> sr1 AND (i2cm M I2C_SR1_TXE OR i2cm M I2C_SR1_BTF) \<noteq> 0")
      (simp_all only: ev_txe_def if_True if_False bind.bind_lunit prod.case option.inject, auto)
  obtain s5 m5 where st: "ev_stopf M sr1 s4 m4 = (s5, m5)" by fastforce
  have c5: "slave_cfg_of s5 = slave_cfg_of s" using ev_stopf_cfg[OF st] t(2) r(2) c1 by simp
  then have "slave_ok s5 h2" using slave_ok_cong[of s5 s2] r(2,3) c1 by simp
  then show ?thesis
    using a r t st c1 c5 by (auto simp: ev_isr_def Let_def slave_cfg_of_def)
qed

subsection \<open>The device the DUT sees\<close>

text \<open>
  The abstract specification: a register-map device driven by bus events. The pointer is a
  natural number; while an address is being collected, the phase holds the number of bytes and
  their big-endian value so far.
\<close>

datatype bus_event = Addr_Write | Addr_Read | Rx_Byte u8 | Tx_Empty | Stop_Cond | Nack

datatype dev_phase = Dev_Idle | Dev_Address nat nat | Dev_Write | Dev_Read

record regdev =
  rd_width :: nat
  rd_inc_read :: bool
  rd_inc_write :: bool
  rd_wrap :: bool
  rd_writable :: bool
  rd_mem :: "u8 list"
  rd_ptr :: nat
  rd_phase :: dev_phase

definition dev_next :: "nat \<Rightarrow> bool \<Rightarrow> nat \<Rightarrow> nat" where
  "dev_next n wrap p = (if p + 1 < n then p + 1 else if wrap then 0 else p)"

definition dev_advance :: "bool \<Rightarrow> regdev \<Rightarrow> regdev" where
  "dev_advance inc d = (if inc then d\<lparr>rd_ptr := dev_next (length (rd_mem d)) (rd_wrap d) (rd_ptr d)\<rparr> else d)"

fun dev_step :: "bus_event \<Rightarrow> regdev \<Rightarrow> u8 option \<times> regdev" where
  "dev_step Addr_Write d =
     (None, if rd_width d = 0 then d\<lparr>rd_ptr := 0, rd_phase := Dev_Write\<rparr> else d\<lparr>rd_phase := Dev_Address 0 0\<rparr>)"
| "dev_step Addr_Read d = (None, d\<lparr>rd_phase := Dev_Read\<rparr>)"
| "dev_step (Rx_Byte b) d =
     (None,
      case rd_phase d of
        Dev_Address n a \<Rightarrow>
          (let a' = a * 256 + unat b
           in if n + 1 \<ge> rd_width d then d\<lparr>rd_ptr := a', rd_phase := Dev_Write\<rparr>
              else d\<lparr>rd_phase := Dev_Address (n + 1) a'\<rparr>)
      | Dev_Write \<Rightarrow>
          if rd_writable d \<and> rd_ptr d < length (rd_mem d)
          then dev_advance (rd_inc_write d) (d\<lparr>rd_mem := (rd_mem d)[rd_ptr d := b]\<rparr>) else d
      | _ \<Rightarrow> d)"
| "dev_step Tx_Empty d =
     (if rd_phase d = Dev_Read
      then if rd_ptr d < length (rd_mem d) then (Some (rd_mem d ! rd_ptr d), dev_advance (rd_inc_read d) d)
           else (Some 0, d)
      else (None, d))"
| "dev_step Stop_Cond d = (None, d\<lparr>rd_phase := Dev_Idle\<rparr>)"
| "dev_step Nack d = (None, d\<lparr>rd_phase := Dev_Idle\<rparr>)"

text \<open>The answers of the device to a sequence of events, and its final state.\<close>

fun dev_run :: "bus_event list \<Rightarrow> regdev \<Rightarrow> u8 list \<times> regdev" where
  "dev_run [] d = ([], d)"
| "dev_run (e # es) d =
     (case dev_step e d of (out, d') \<Rightarrow>
       case dev_run es d' of (outs, d'') \<Rightarrow> ((case out of None \<Rightarrow> [] | Some b \<Rightarrow> [b]) @ outs, d''))"

text \<open>
  How the hardware signals an event: one status flag (and TRA for the direction) and an entry of
  the event handler, or the error interrupt. The answer is what the handler stores to DR.
\<close>

definition bus_irq ::
    "cmsis \<Rightarrow> bus_event \<Rightarrow> i2c_slave_state \<Rightarrow> heap \<Rightarrow> mcu \<Rightarrow> (u8 list \<times> i2c_slave_state \<times> heap \<times> mcu) option" where
  "bus_irq M e s h m =
     do {
       (s', h', m') \<leftarrow>
         (case e of
            Addr_Write \<Rightarrow> ev_isr M (i2cm M I2C_SR1_ADDR) 0 0 s h m
          | Addr_Read \<Rightarrow> ev_isr M (i2cm M I2C_SR1_ADDR) (i2cm M I2C_SR2_TRA) 0 s h m
          | Rx_Byte b \<Rightarrow> ev_isr M (i2cm M I2C_SR1_RXNE) 0 (ucast b) s h m
          | Tx_Empty \<Rightarrow> ev_isr M (i2cm M I2C_SR1_TXE) 0 0 s h m
          | Stop_Cond \<Rightarrow> ev_isr M (i2cm M I2C_SR1_STOPF) 0 0 s h m
          | Nack \<Rightarrow> (case er_isr s m of (s, m) \<Rightarrow> Some (s, h, m)));
       Some (map ucast (writes_to (I2C (sl_i2c s) I2C_DR) (drop (length (trace m)) (trace m'))), s', h', m')
     }"

fun bus_run ::
    "cmsis \<Rightarrow> bus_event list \<Rightarrow> i2c_slave_state \<Rightarrow> heap \<Rightarrow> mcu \<Rightarrow> (u8 list \<times> i2c_slave_state \<times> heap \<times> mcu) option" where
  "bus_run M [] s h m = Some ([], s, h, m)"
| "bus_run M (e # es) s h m =
     do {
       (out, s, h, m) \<leftarrow> bus_irq M e s h m;
       (outs, s, h, m) \<leftarrow> bus_run M es s h m;
       Some (out @ outs, s, h, m)
     }"

text \<open>What the device header says of the flags: they are distinct nonzero bits.\<close>

definition i2c_flags :: "cmsis \<Rightarrow> bool" where
  "i2c_flags M \<longleftrightarrow>
     (let f = [i2cm M I2C_SR1_ADDR, i2cm M I2C_SR1_RXNE, i2cm M I2C_SR1_TXE, i2cm M I2C_SR1_BTF, i2cm M I2C_SR1_STOPF]
      in (\<forall>i<5. f ! i \<noteq> 0) \<and> (\<forall>i<5. \<forall>j<5. i \<noteq> j \<longrightarrow> f ! i AND f ! j = 0)) \<and> i2cm M I2C_SR2_TRA \<noteq> 0"

lemma i2c_flagsD:
  assumes "i2c_flags M"
  shows "i2cm M I2C_SR1_ADDR \<noteq> 0" "i2cm M I2C_SR1_RXNE \<noteq> 0" "i2cm M I2C_SR1_TXE \<noteq> 0" "i2cm M I2C_SR1_STOPF \<noteq> 0"
    "i2cm M I2C_SR2_TRA \<noteq> 0"
    "i2cm M I2C_SR1_ADDR AND i2cm M I2C_SR1_RXNE = 0" "i2cm M I2C_SR1_ADDR AND i2cm M I2C_SR1_STOPF = 0"
    "i2cm M I2C_SR1_ADDR AND (i2cm M I2C_SR1_TXE OR i2cm M I2C_SR1_BTF) = 0"
    "i2cm M I2C_SR1_RXNE AND i2cm M I2C_SR1_ADDR = 0" "i2cm M I2C_SR1_RXNE AND i2cm M I2C_SR1_STOPF = 0"
    "i2cm M I2C_SR1_RXNE AND (i2cm M I2C_SR1_TXE OR i2cm M I2C_SR1_BTF) = 0"
    "i2cm M I2C_SR1_TXE AND i2cm M I2C_SR1_ADDR = 0" "i2cm M I2C_SR1_TXE AND i2cm M I2C_SR1_RXNE = 0"
    "i2cm M I2C_SR1_TXE AND i2cm M I2C_SR1_STOPF = 0"
    "i2cm M I2C_SR1_TXE AND (i2cm M I2C_SR1_TXE OR i2cm M I2C_SR1_BTF) \<noteq> 0"
    "i2cm M I2C_SR1_STOPF AND i2cm M I2C_SR1_ADDR = 0" "i2cm M I2C_SR1_STOPF AND i2cm M I2C_SR1_RXNE = 0"
    "i2cm M I2C_SR1_STOPF AND (i2cm M I2C_SR1_TXE OR i2cm M I2C_SR1_BTF) = 0"
proof -
  define f where "f = [i2cm M I2C_SR1_ADDR, i2cm M I2C_SR1_RXNE, i2cm M I2C_SR1_TXE, i2cm M I2C_SR1_BTF, i2cm M I2C_SR1_STOPF]"
  have nz: "f ! i \<noteq> 0" if "i < 5" for i using assms that by (simp add: i2c_flags_def f_def Let_def)
  have dj: "f ! i AND f ! j = 0" if "i < 5" "j < 5" "i \<noteq> j" for i j
    using assms that by (simp add: i2c_flags_def f_def Let_def)
  note N = nz[of 0] nz[of 1] nz[of 2] nz[of 4]
  then show "i2cm M I2C_SR1_ADDR \<noteq> 0" "i2cm M I2C_SR1_RXNE \<noteq> 0" "i2cm M I2C_SR1_TXE \<noteq> 0" "i2cm M I2C_SR1_STOPF \<noteq> 0"
    by (simp_all add: f_def)
  show "i2cm M I2C_SR2_TRA \<noteq> 0" using assms by (simp add: i2c_flags_def)
  show "i2cm M I2C_SR1_ADDR AND i2cm M I2C_SR1_RXNE = 0" "i2cm M I2C_SR1_ADDR AND i2cm M I2C_SR1_STOPF = 0"
    "i2cm M I2C_SR1_ADDR AND (i2cm M I2C_SR1_TXE OR i2cm M I2C_SR1_BTF) = 0"
    using dj[of 0 1] dj[of 0 4] dj[of 0 2] dj[of 0 3] by (simp_all add: f_def bit.conj_disj_distrib)
  show "i2cm M I2C_SR1_RXNE AND i2cm M I2C_SR1_ADDR = 0" "i2cm M I2C_SR1_RXNE AND i2cm M I2C_SR1_STOPF = 0"
    "i2cm M I2C_SR1_RXNE AND (i2cm M I2C_SR1_TXE OR i2cm M I2C_SR1_BTF) = 0"
    using dj[of 1 0] dj[of 1 4] dj[of 1 2] dj[of 1 3] by (simp_all add: f_def bit.conj_disj_distrib)
  show "i2cm M I2C_SR1_TXE AND i2cm M I2C_SR1_ADDR = 0" "i2cm M I2C_SR1_TXE AND i2cm M I2C_SR1_RXNE = 0"
    "i2cm M I2C_SR1_TXE AND i2cm M I2C_SR1_STOPF = 0"
    "i2cm M I2C_SR1_TXE AND (i2cm M I2C_SR1_TXE OR i2cm M I2C_SR1_BTF) \<noteq> 0"
    using dj[of 2 0] dj[of 2 1] dj[of 2 4] N(3) by (simp_all add: f_def)
  show "i2cm M I2C_SR1_STOPF AND i2cm M I2C_SR1_ADDR = 0" "i2cm M I2C_SR1_STOPF AND i2cm M I2C_SR1_RXNE = 0"
    "i2cm M I2C_SR1_STOPF AND (i2cm M I2C_SR1_TXE OR i2cm M I2C_SR1_BTF) = 0"
    using dj[of 4 0] dj[of 4 1] dj[of 4 2] dj[of 4 3] by (simp_all add: f_def bit.conj_disj_distrib)
qed

subsection \<open>The driver implements the device\<close>

definition abs_phase :: "i2c_slave_state \<Rightarrow> dev_phase" where
  "abs_phase s = (case sl_phase s of
     I2C_PHASE_IDLE \<Rightarrow> Dev_Idle
   | I2C_PHASE_RX_REG_ADDR \<Rightarrow> Dev_Address (unat (sl_reg_addr_cnt s)) (unat (sl_reg_addr_acc s))
   | I2C_PHASE_RX_DATA \<Rightarrow> Dev_Write
   | I2C_PHASE_TX \<Rightarrow> Dev_Read)"

definition abs_mem :: "i2c_slave_state \<Rightarrow> heap \<Rightarrow> u8 list" where
  "abs_mem s h = (case sl_regmap s of None \<Rightarrow> [] | Some p \<Rightarrow> (case h p of None \<Rightarrow> [] | Some blk \<Rightarrow> blk))"

definition abs_dev :: "i2c_slave_state \<Rightarrow> heap \<Rightarrow> regdev" where
  "abs_dev s h =
     \<lparr>rd_width = (if sl_reg_addr_width s = I2C_SLAVE_REG_NONE then 0
                  else if sl_reg_addr_width s = I2C_SLAVE_REG_16 then 2 else 1),
      rd_inc_read = (sl_auto_inc_mode s = I2C_SLAVE_AUTO_INC_READ \<or> sl_auto_inc_mode s = I2C_SLAVE_AUTO_INC_BOTH),
      rd_inc_write = (sl_auto_inc_mode s = I2C_SLAVE_AUTO_INC_WRITE \<or> sl_auto_inc_mode s = I2C_SLAVE_AUTO_INC_BOTH),
      rd_wrap = sl_auto_inc_wrap s, rd_writable = sl_writes_allowed s,
      rd_mem = abs_mem s h, rd_ptr = unat (sl_reg_ptr s), rd_phase = abs_phase s\<rparr>"

lemma slave_ok_mem:
  assumes "slave_ok s h"
  obtains p where "sl_regmap s = Some p" "h p = Some (abs_mem s h)" "length (abs_mem s h) = unat (sl_regmap_len s)"
  using assms by (auto simp: slave_ok_def abs_mem_def)

lemma unat_reg_ptr_inc:
  assumes "sl_reg_ptr s < sl_regmap_len s"
  shows "unat (sl_reg_ptr (reg_ptr_inc s)) = dev_next (unat (sl_regmap_len s)) (sl_auto_inc_wrap s) (unat (sl_reg_ptr s))"
proof (cases "unat (sl_reg_ptr s) + 1 < unat (sl_regmap_len s)")
  case True
  have "unat (sl_reg_ptr s) + 1 < 65536" using less_trans[OF True] unat_u16_less[of "sl_regmap_len s"] by blast
  then have "unat (sl_reg_ptr s + 1) = unat (sl_reg_ptr s) + 1" by (simp add: unat_word_ariths)
  with True show ?thesis by (simp add: reg_ptr_inc_def dev_next_def)
qed (simp add: reg_ptr_inc_def dev_next_def)

lemma abs_dev_inc:
  assumes "sl_reg_ptr s < sl_regmap_len s" "length (abs_mem s h) = unat (sl_regmap_len s)"
  shows "abs_dev (if inc then reg_ptr_inc s else s) h = dev_advance inc (abs_dev s h)"
proof (cases inc)
  case True
  have "abs_phase (reg_ptr_inc s) = abs_phase s" unfolding abs_phase_def reg_ptr_inc_simps ..
  moreover have "abs_mem (reg_ptr_inc s) h = abs_mem s h"
    "sl_auto_inc_mode (reg_ptr_inc s) = sl_auto_inc_mode s" "sl_auto_inc_wrap (reg_ptr_inc s) = sl_auto_inc_wrap s"
    "sl_writes_allowed (reg_ptr_inc s) = sl_writes_allowed s"
    by (simp_all add: reg_ptr_inc_def abs_mem_def)
  ultimately show ?thesis
    using True assms(2) unat_reg_ptr_inc[OF assms(1)] by (simp add: abs_dev_def dev_advance_def)
qed (simp add: dev_advance_def)

lemma read_refines:
  assumes "slave_ok s h" "sl_phase s = I2C_PHASE_TX"
  shows "\<exists>byte s'. regmap_read s h = Some (byte, s') \<and> dev_step Tx_Empty (abs_dev s h) = (Some byte, abs_dev s' h) \<and>
    sl_i2c s' = sl_i2c s \<and> sl_phase s' = I2C_PHASE_TX"
proof -
  obtain p where p: "sl_regmap s = Some p" "h p = Some (abs_mem s h)" "length (abs_mem s h) = unat (sl_regmap_len s)"
    using slave_ok_mem[OF assms(1)] .
  have ph: "rd_phase (abs_dev s h) = Dev_Read" using assms(2) by (simp add: abs_dev_def abs_phase_def)
  show ?thesis
  proof (cases "sl_reg_ptr s < sl_regmap_len s")
    case True
    then have u: "unat (sl_reg_ptr s) < length (abs_mem s h)" using p(3) by (simp add: word_less_nat_alt)
    let ?inc = "sl_auto_inc_mode s = 1 \<or> sl_auto_inc_mode s = 3"
    let ?s = "if ?inc then reg_ptr_inc s else s"
    have "regmap_read s h = Some (abs_mem s h ! unat (sl_reg_ptr s), ?s)"
      using True p u by (simp add: regmap_read_def heap_load_def Let_def not_le[symmetric])
    moreover have "dev_step Tx_Empty (abs_dev s h) = (Some (abs_mem s h ! unat (sl_reg_ptr s)), abs_dev ?s h)"
      using ph u abs_dev_inc[OF True p(3), of ?inc] by (simp add: abs_dev_def)
    moreover have "sl_i2c ?s = sl_i2c s" by (simp add: reg_ptr_inc_def)
    ultimately show ?thesis using assms(2) by auto
  next
    case False
    then have "\<not> unat (sl_reg_ptr s) < length (abs_mem s h)" using p(3) by (simp add: word_less_nat_alt)
    then have "dev_step Tx_Empty (abs_dev s h) = (Some 0, abs_dev s h)" using ph by (simp add: abs_dev_def)
    moreover have "regmap_read s h = Some (0, s)" using False p(1) by (simp add: regmap_read_def not_less)
    ultimately show ?thesis using assms(2) by blast
  qed
qed

lemma write_refines:
  assumes "slave_ok s h" "sl_phase s = I2C_PHASE_RX_DATA"
  shows "\<exists>s' h'. regmap_write s b h = Some (s', h') \<and> dev_step (Rx_Byte b) (abs_dev s h) = (None, abs_dev s' h')"
proof -
  obtain p where p: "sl_regmap s = Some p" "h p = Some (abs_mem s h)" "length (abs_mem s h) = unat (sl_regmap_len s)"
    using slave_ok_mem[OF assms(1)] .
  have ph: "rd_phase (abs_dev s h) = Dev_Write" using assms(2) by (simp add: abs_dev_def abs_phase_def)
  show ?thesis
  proof (cases "sl_writes_allowed s \<and> sl_reg_ptr s < sl_regmap_len s")
    case True
    then have u: "unat (sl_reg_ptr s) < length (abs_mem s h)" using p(3) by (simp add: word_less_nat_alt)
    let ?inc = "sl_auto_inc_mode s = 2 \<or> sl_auto_inc_mode s = 3"
    let ?s = "if ?inc then reg_ptr_inc s else s" and ?h = "h(p \<mapsto> (abs_mem s h)[unat (sl_reg_ptr s) := b])"
    have mem: "abs_mem s ?h = (abs_mem s h)[unat (sl_reg_ptr s) := b]" using p(1) by (simp add: abs_mem_def)
    have d: "abs_dev s ?h = (abs_dev s h)\<lparr>rd_mem := (abs_mem s h)[unat (sl_reg_ptr s) := b]\<rparr>"
      by (simp add: abs_dev_def mem)
    have "regmap_write s b h = Some (?s, ?h)"
      using True p u by (simp add: regmap_write_def heap_store_def store_at_def Let_def not_le[symmetric])
    moreover have "abs_dev ?s ?h = dev_advance ?inc (abs_dev s ?h)"
      using True mem p(3) by (intro abs_dev_inc) simp_all
    moreover have "dev_step (Rx_Byte b) (abs_dev s h) = (None, dev_advance ?inc (abs_dev s ?h))"
      using ph u True unfolding d by (simp add: abs_dev_def)
    ultimately show ?thesis by metis
  next
    case False
    then have "\<not> (rd_writable (abs_dev s h) \<and> rd_ptr (abs_dev s h) < length (rd_mem (abs_dev s h)))"
      using p(3) by (simp add: abs_dev_def word_less_nat_alt)
    with False p(1) ph show ?thesis by (auto simp: regmap_write_def)
  qed
qed

text \<open>Collecting a register address: the 16-bit accumulator never loses a byte.\<close>

lemma addr_byte_value:
  assumes "unat (acc :: u16) < 256"
  shows "unat (push_bit 8 acc OR ucast (b :: u8)) = unat acc * 256 + unat b"
proof -
  have "push_bit 8 acc AND (ucast b :: u16) = 0"
    by (rule bit_word_eqI) (auto simp: bit_simps dest: bit_u8D)
  then have "push_bit 8 acc OR ucast b = push_bit 8 acc + (ucast b :: u16)"
    by (simp add: disjunctive_add_eq_or)
  moreover have "unat (push_bit 8 acc) = unat acc * 256"
    using assms by (simp add: push_bit_eq_mult unat_word_ariths)
  moreover have "unat acc * 256 + unat b < 65536" using assms unat_u8_less[of b] by linarith
  ultimately show ?thesis by (simp add: unat_word_ariths)
qed

definition addr_byte :: "u8 \<Rightarrow> i2c_slave_state \<Rightarrow> i2c_slave_state" where
  "addr_byte b s =
     (let s = s\<lparr>sl_reg_addr_acc := push_bit 8 (sl_reg_addr_acc s) OR ucast b, sl_reg_addr_cnt := sl_reg_addr_cnt s + 1\<rparr>
      in if sl_reg_addr_cnt s \<ge> (if sl_reg_addr_width s = I2C_SLAVE_REG_16 then 2 else 1)
         then s\<lparr>sl_reg_ptr := sl_reg_addr_acc s, sl_phase := I2C_PHASE_RX_DATA\<rparr> else s)"

lemma addr_byte_refines:
  assumes "phase_ok s" "sl_phase s = I2C_PHASE_RX_REG_ADDR"
  shows "dev_step (Rx_Byte b) (abs_dev s h) = (None, abs_dev (addr_byte b s) h)" "phase_ok (addr_byte b s)"
proof -
  have mem: "abs_mem (addr_byte b s) h = abs_mem s h" by (simp add: addr_byte_def abs_mem_def Let_def)
  have acc: "unat (push_bit 8 (sl_reg_addr_acc s) OR ucast b) = unat (sl_reg_addr_acc s) * 256 + unat b"
    using assms by (intro addr_byte_value) (auto simp: phase_ok_def)
  consider "sl_reg_addr_width s = 2" "sl_reg_addr_cnt s = 1" | "sl_reg_addr_width s = 2" "sl_reg_addr_cnt s = 0" "sl_reg_addr_acc s = 0"
    | "sl_reg_addr_width s \<noteq> 2" "sl_reg_addr_width s \<noteq> 0" "sl_reg_addr_cnt s = 0" "sl_reg_addr_acc s = 0"
    using assms unfolding phase_ok_def by auto
  then have "dev_step (Rx_Byte b) (abs_dev s h) = (None, abs_dev (addr_byte b s) h) \<and> phase_ok (addr_byte b s)"
  proof cases
    case 1
    then show ?thesis
      using assms(2) mem acc by (simp add: abs_dev_def abs_phase_def addr_byte_def phase_ok_def Let_def)
  next
    case 2
    have "\<not> (2 :: u8) \<le> 1" by (simp add: word_le_nat_alt)
    with 2 show ?thesis
      using assms(2) mem acc by (simp add: abs_dev_def abs_phase_def addr_byte_def phase_ok_def Let_def)
  next
    case 3
    then show ?thesis
      using assms(2) mem acc by (simp add: abs_dev_def abs_phase_def addr_byte_def phase_ok_def Let_def)
  qed
  then show "dev_step (Rx_Byte b) (abs_dev s h) = (None, abs_dev (addr_byte b s) h)" "phase_ok (addr_byte b s)" by simp_all
qed

text \<open>What the handler does on a single flag.\<close>

lemma ev_isr_flag:
  fixes s :: i2c_slave_state
  assumes "i2c_flags M"
  defines "r \<equiv> Rd (I2C (sl_i2c s) I2C_SR1)"
  shows "ev_isr M (i2cm M I2C_SR1_ADDR) (i2cm M I2C_SR2_TRA) 0 s h m =
      Some (s\<lparr>sl_phase := I2C_PHASE_TX\<rparr>, h, emit (Rd (I2C (sl_i2c s) I2C_SR2)) (emit r m))"
    and "ev_isr M (i2cm M I2C_SR1_ADDR) 0 0 s h m =
      Some (if sl_reg_addr_width s = 0
            then s\<lparr>sl_reg_addr_acc := 0, sl_reg_addr_cnt := 0, sl_reg_ptr := 0, sl_phase := I2C_PHASE_RX_DATA\<rparr>
            else s\<lparr>sl_reg_addr_acc := 0, sl_reg_addr_cnt := 0, sl_phase := I2C_PHASE_RX_REG_ADDR\<rparr>, h,
            emit (Rd (I2C (sl_i2c s) I2C_SR2)) (emit r m))"
    and "ev_isr M (i2cm M I2C_SR1_RXNE) 0 (ucast b) s h m =
      map_option (\<lambda>(s, h). (s, h, emit (Rd (I2C (sl_i2c s) I2C_DR)) (emit (Rd (I2C (sl_i2c s) I2C_SR1)) m)))
        (if sl_phase s = I2C_PHASE_RX_REG_ADDR then Some (addr_byte b s, h)
         else if sl_phase s = I2C_PHASE_RX_DATA then regmap_write s b h else Some (s, h))"
    and "sl_phase s = I2C_PHASE_TX \<Longrightarrow> ev_isr M (i2cm M I2C_SR1_TXE) 0 0 s h m =
      map_option (\<lambda>(byte, s'). (s', h, wr (I2C (sl_i2c s') I2C_DR) (ucast byte) (emit r m))) (regmap_read s h)"
    and "sl_phase s \<noteq> I2C_PHASE_TX \<Longrightarrow> ev_isr M (i2cm M I2C_SR1_TXE) 0 0 s h m = Some (s, h, emit r m)"
    and "ev_isr M (i2cm M I2C_SR1_STOPF) 0 0 s h m =
      Some (s\<lparr>sl_phase := I2C_PHASE_IDLE\<rparr>, h, reg_or (I2C (sl_i2c s) I2C_CR1) (i2cm M I2C_CR1_PE) (emit r m))"
proof -
  note F = i2c_flagsD[OF assms(1)]
  note D = ev_isr_def ev_addr_def ev_rxne_def ev_txe_def ev_stopf_def Let_def r_def
  show "ev_isr M (i2cm M I2C_SR1_ADDR) (i2cm M I2C_SR2_TRA) 0 s h m =
      Some (s\<lparr>sl_phase := I2C_PHASE_TX\<rparr>, h, emit (Rd (I2C (sl_i2c s) I2C_SR2)) (emit r m))"
    using F by (simp add: D)
  show "ev_isr M (i2cm M I2C_SR1_ADDR) 0 0 s h m =
      Some (if sl_reg_addr_width s = 0
            then s\<lparr>sl_reg_addr_acc := 0, sl_reg_addr_cnt := 0, sl_reg_ptr := 0, sl_phase := I2C_PHASE_RX_DATA\<rparr>
            else s\<lparr>sl_reg_addr_acc := 0, sl_reg_addr_cnt := 0, sl_phase := I2C_PHASE_RX_REG_ADDR\<rparr>, h,
            emit (Rd (I2C (sl_i2c s) I2C_SR2)) (emit r m))"
    using F by (simp add: D)
  show "sl_phase s \<noteq> I2C_PHASE_TX \<Longrightarrow> ev_isr M (i2cm M I2C_SR1_TXE) 0 0 s h m = Some (s, h, emit r m)"
    using F by (simp add: D)
  show "ev_isr M (i2cm M I2C_SR1_STOPF) 0 0 s h m =
      Some (s\<lparr>sl_phase := I2C_PHASE_IDLE\<rparr>, h, reg_or (I2C (sl_i2c s) I2C_CR1) (i2cm M I2C_CR1_PE) (emit r m))"
    using F by (simp add: D)
  show "ev_isr M (i2cm M I2C_SR1_TXE) 0 0 s h m =
      map_option (\<lambda>(byte, s'). (s', h, wr (I2C (sl_i2c s') I2C_DR) (ucast byte) (emit r m))) (regmap_read s h)"
    if "sl_phase s = I2C_PHASE_TX"
    using F that by (cases "regmap_read s h") (auto simp: D)
  have b: "ucast (ucast b :: u32) = b" by (rule ucast_byte_u32)
  have "(case regmap_write s b h of None \<Rightarrow> True | Some (s', h') \<Rightarrow> sl_i2c s' = sl_i2c s \<and> sl_phase s' = sl_phase s)"
    by (auto simp: regmap_write_def Let_def reg_ptr_inc_def split: option.splits bind_splits if_splits)
  then show "ev_isr M (i2cm M I2C_SR1_RXNE) 0 (ucast b) s h m =
      map_option (\<lambda>(s, h). (s, h, emit (Rd (I2C (sl_i2c s) I2C_DR)) (emit (Rd (I2C (sl_i2c s) I2C_SR1)) m)))
        (if sl_phase s = I2C_PHASE_RX_REG_ADDR then Some (addr_byte b s, h)
         else if sl_phase s = I2C_PHASE_RX_DATA then regmap_write s b h else Some (s, h))"
    using F by (cases "sl_phase s"; cases "regmap_write s b h") (auto simp: D b addr_byte_def)
qed

definition out_bytes :: "u8 option \<Rightarrow> u8 list" where
  "out_bytes x = (case x of None \<Rightarrow> [] | Some b \<Rightarrow> [b])"

lemma abs_dev_phase:
  "abs_dev (s\<lparr>sl_phase := I2C_PHASE_TX\<rparr>) h = (abs_dev s h)\<lparr>rd_phase := Dev_Read\<rparr>"
  "abs_dev (s\<lparr>sl_phase := I2C_PHASE_IDLE\<rparr>) h = (abs_dev s h)\<lparr>rd_phase := Dev_Idle\<rparr>"
  by (simp_all add: abs_dev_def abs_phase_def abs_mem_def)

lemma addr_write_refines:
  "dev_step Addr_Write (abs_dev s h) =
     (None, abs_dev (if sl_reg_addr_width s = 0
            then s\<lparr>sl_reg_addr_acc := 0, sl_reg_addr_cnt := 0, sl_reg_ptr := 0, sl_phase := I2C_PHASE_RX_DATA\<rparr>
            else s\<lparr>sl_reg_addr_acc := 0, sl_reg_addr_cnt := 0, sl_phase := I2C_PHASE_RX_REG_ADDR\<rparr>) h)"
  by (simp add: abs_dev_def abs_phase_def abs_mem_def)

lemma bus_irq_refines:
  assumes F: "i2c_flags M" and ok: "slave_ok s h" and ph: "phase_ok s"
  shows "\<exists>s' h' m'. bus_irq M e s h m = Some (out_bytes (fst (dev_step e (abs_dev s h))), s', h', m') \<and>
    snd (dev_step e (abs_dev s h)) = abs_dev s' h' \<and> phase_ok s'"
proof (cases e)
  case Addr_Write
  then show ?thesis
    using ev_isr_flag(2)[OF F, where s = s and h = h and m = m] addr_write_refines[of s h]
    by (auto simp: bus_irq_def out_bytes_def phase_ok_def simp del: dev_step.simps)
next
  case Addr_Read
  then show ?thesis
    using ev_isr_flag(1)[OF F, where s = s and h = h and m = m] by (auto simp: bus_irq_def out_bytes_def abs_dev_phase phase_ok_def)
next
  case (Rx_Byte b)
  consider "sl_phase s = I2C_PHASE_RX_REG_ADDR" | "sl_phase s = I2C_PHASE_RX_DATA"
    | "sl_phase s = I2C_PHASE_IDLE" | "sl_phase s = I2C_PHASE_TX" by (cases "sl_phase s")
  then show ?thesis
  proof cases
    case 1
    then show ?thesis
      using Rx_Byte ev_isr_flag(3)[OF F, where b = b and s = s and h = h and m = m] addr_byte_refines(1)[OF ph 1, of b h] addr_byte_refines(2)[OF ph 1, of b]
      by (simp add: bus_irq_def out_bytes_def del: dev_step.simps)
  next
    case 2
    obtain s' h' where w: "regmap_write s b h = Some (s', h')" "dev_step (Rx_Byte b) (abs_dev s h) = (None, abs_dev s' h')"
      using write_refines[OF ok 2] by blast
    moreover have "phase_ok s'"
      using regmap_write_ok[OF ok, of b] w(1) 2 by (auto simp: phase_ok_def)
    ultimately show ?thesis
      using Rx_Byte 2 ev_isr_flag(3)[OF F, where b = b and s = s and h = h and m = m] by (simp add: bus_irq_def out_bytes_def del: dev_step.simps)
  qed (use Rx_Byte ph ev_isr_flag(3)[OF F, where b = b and s = s and h = h and m = m] in
      \<open>simp_all add: bus_irq_def out_bytes_def abs_dev_def abs_phase_def\<close>)
next
  case Tx_Empty
  show ?thesis
  proof (cases "sl_phase s = I2C_PHASE_TX")
    case True
    obtain byte s' where r: "regmap_read s h = Some (byte, s')" "dev_step Tx_Empty (abs_dev s h) = (Some byte, abs_dev s' h)"
      "sl_i2c s' = sl_i2c s" "sl_phase s' = I2C_PHASE_TX" using read_refines[OF ok True] by blast
    have "ucast (ucast byte :: u32) = byte" by (rule ucast_byte_u32)
    with r show ?thesis
      using Tx_Empty ev_isr_flag(4)[OF F True, where h = h and m = m]
      by (simp add: bus_irq_def out_bytes_def phase_ok_def del: dev_step.simps)
  next
    case False
    then have "rd_phase (abs_dev s h) \<noteq> Dev_Read" by (cases "sl_phase s") (auto simp: abs_dev_def abs_phase_def)
    then show ?thesis
      using Tx_Empty ev_isr_flag(5)[OF F False, where h = h and m = m] ph by (simp add: bus_irq_def out_bytes_def)
  qed
next
  case Stop_Cond
  then show ?thesis
    using ev_isr_flag(6)[OF F, where s = s and h = h and m = m] by (auto simp: bus_irq_def out_bytes_def abs_dev_phase phase_ok_def)
next
  case Nack
  then show ?thesis by (auto simp: bus_irq_def er_isr_def out_bytes_def abs_dev_phase phase_ok_def Let_def)
qed

text \<open>Safety of one bus event follows from safety of the handlers.\<close>

lemma bus_irq_ok:
  assumes "slave_ok s h" "bus_irq M e s h m = Some (out, s', h', m')"
  shows "slave_ok s' h'"
proof (cases "e = Nack")
  case True
  then show ?thesis
    using assms slave_ok_cong[of "s\<lparr>sl_phase := I2C_PHASE_IDLE\<rparr>" s h]
    by (auto simp: bus_irq_def er_isr_def Let_def)
next
  case False
  then obtain sr1 sr2 dr m1 where "ev_isr M sr1 sr2 dr s h m = Some (s', h', m1)"
    using assms(2) by (cases e) (auto simp: bus_irq_def split: bind_splits)
  with ev_isr_ok[OF assms(1), of M sr1 sr2 dr m] show ?thesis by auto
qed

lemma bus_run_refines:
  assumes "i2c_flags M" "slave_ok s h" "phase_ok s"
  shows "\<exists>s' h' m'. bus_run M es s h m = Some (fst (dev_run es (abs_dev s h)), s', h', m') \<and>
    snd (dev_run es (abs_dev s h)) = abs_dev s' h' \<and> slave_ok s' h' \<and> phase_ok s'"
  using assms(2,3)
proof (induction es arbitrary: s h m)
  case (Cons e es)
  obtain s1 h1 m1 where step: "bus_irq M e s h m = Some (out_bytes (fst (dev_step e (abs_dev s h))), s1, h1, m1)"
    "snd (dev_step e (abs_dev s h)) = abs_dev s1 h1" "phase_ok s1"
    using bus_irq_refines[OF assms(1) Cons.prems] by blast
  have ok1: "slave_ok s1 h1" by (rule bus_irq_ok[OF Cons.prems(1) step(1)])
  obtain s2 h2 m2 where run: "bus_run M es s1 h1 m1 = Some (fst (dev_run es (abs_dev s1 h1)), s2, h2, m2)"
    "snd (dev_run es (abs_dev s1 h1)) = abs_dev s2 h2" "slave_ok s2 h2" "phase_ok s2"
    using Cons.IH[OF ok1 step(3)] by blast
  obtain o1 d1 where d: "dev_step e (abs_dev s h) = (o1, d1)" by fastforce
  obtain os d2 where ds: "dev_run es d1 = (os, d2)" by fastforce
  show ?case using step run d ds by (simp add: out_bytes_def)
qed simp

subsection \<open>Transactions\<close>

lemma dev_run_append:
  "dev_run (es @ fs) d = (case dev_run es d of (os, d') \<Rightarrow> case dev_run fs d' of (ps, d'') \<Rightarrow> (os @ ps, d''))"
  by (induction es arbitrary: d) (auto split: prod.splits)

text \<open>The bytes a read of \<open>n\<close> bytes returns, and where the pointer ends.\<close>

lemma dev_run_reads:
  assumes "rd_phase d = Dev_Read"
  shows "dev_run (replicate n Tx_Empty) d =
    (map (\<lambda>k. let p = ((if rd_inc_read d then dev_next (length (rd_mem d)) (rd_wrap d) else (\<lambda>p. p)) ^^ k) (rd_ptr d)
              in if rd_ptr d < length (rd_mem d) then rd_mem d ! p else 0) [0..<n],
     if rd_ptr d < length (rd_mem d) \<and> rd_inc_read d
     then d\<lparr>rd_ptr := (dev_next (length (rd_mem d)) (rd_wrap d) ^^ n) (rd_ptr d)\<rparr> else d)"
  using assms
proof (induction n arbitrary: d)
  case (Suc n)
  let ?next = "dev_next (length (rd_mem d)) (rd_wrap d)"
  have upt: "[0..<Suc n] = 0 # map Suc [0..<n]" by (simp add: upt_conv_Cons map_Suc_upt)
  show ?case
  proof (cases "rd_ptr d < length (rd_mem d)")
    case False
    then have "dev_step Tx_Empty d = (Some 0, d)" using Suc.prems by simp
    with Suc False show ?thesis by (simp add: upt Let_def o_def del: dev_step.simps upt_Suc)
  next
    case True
    let ?d = "dev_advance (rd_inc_read d) d"
    have step: "dev_step Tx_Empty d = (Some (rd_mem d ! rd_ptr d), ?d)" using Suc.prems True by simp
    have d: "rd_phase ?d = Dev_Read" "rd_mem ?d = rd_mem d" "rd_wrap ?d = rd_wrap d" "rd_inc_read ?d = rd_inc_read d"
      using Suc.prems by (simp_all add: dev_advance_def)
    have p: "rd_ptr ?d = (if rd_inc_read d then ?next (rd_ptr d) else rd_ptr d)" by (simp add: dev_advance_def)
    have lt: "rd_ptr ?d < length (rd_mem d)" using True by (auto simp: p dev_next_def)
    note IH = Suc.IH[OF d(1), unfolded d(2-4)]
    show ?thesis
      using step IH lt True p
      by (cases "rd_inc_read d")
         (auto simp: upt Let_def o_def funpow_swap1 dev_advance_def simp del: dev_step.simps upt_Suc)
  qed
qed simp

lemma dev_next_wrap: "p < n \<Longrightarrow> (dev_next n True ^^ k) p = (p + k) mod n"
proof (induction k)
  case (Suc k)
  have "dev_next n True q = (q + 1) mod n" if "q < n" for q
    using that by (cases "q + 1 = n") (auto simp: dev_next_def)
  moreover have "(p + k) mod n < n" using Suc.prems by simp
  ultimately show ?case using Suc by (simp add: mod_Suc_eq)
qed simp

lemma dev_next_stop: "p < n \<Longrightarrow> (dev_next n False ^^ k) p = min (p + k) (n - 1)"
  by (induction k) (auto simp: dev_next_def)

text \<open>Sending the register address.\<close>

definition be_value :: "u8 list \<Rightarrow> nat" where
  "be_value bs = foldl (\<lambda>a b. a * 256 + unat b) 0 bs"

lemma dev_run_address:
  assumes "length bs = rd_width d" "rd_width d \<le> 2"
  shows "dev_run (Addr_Write # map Rx_Byte bs) d = ([], d\<lparr>rd_ptr := be_value bs, rd_phase := Dev_Write\<rparr>)"
proof -
  consider "bs = []" "rd_width d = 0" | b where "bs = [b]" "rd_width d = 1" | b c where "bs = [b, c]" "rd_width d = 2"
    using assms by (auto simp: length_Suc_conv numeral_2_eq_2 le_Suc_eq)
  then show ?thesis by cases (simp_all add: be_value_def Let_def)
qed

lemma dev_run_writes:
  assumes "rd_phase d = Dev_Write" "rd_writable d" "rd_inc_write d" "rd_ptr d + length bs \<le> length (rd_mem d)"
  shows "fst (dev_run (map Rx_Byte bs) d) = [] \<and>
    (\<exists>p. snd (dev_run (map Rx_Byte bs) d) =
       d\<lparr>rd_mem := take (rd_ptr d) (rd_mem d) @ bs @ drop (rd_ptr d + length bs) (rd_mem d), rd_ptr := p\<rparr>)"
  using assms
proof (induction bs arbitrary: d)
  case Nil
  have "d = d\<lparr>rd_ptr := rd_ptr d\<rparr>" by simp
  then show ?case by (auto intro: exI[of _ "rd_ptr d"])
next
  case (Cons b bs)
  let ?n = "length (rd_mem d)"
  let ?d = "d\<lparr>rd_mem := (rd_mem d)[rd_ptr d := b], rd_ptr := dev_next ?n (rd_wrap d) (rd_ptr d)\<rparr>"
  have lt: "rd_ptr d < ?n" using Cons.prems(4) by simp
  then have step: "dev_step (Rx_Byte b) d = (None, ?d)" using Cons.prems by (simp add: dev_advance_def)
  show ?case
  proof (cases bs)
    case Nil
    have "d\<lparr>rd_mem := (rd_mem d)[rd_ptr d := b], rd_ptr := q\<rparr> =
        d\<lparr>rd_mem := take (rd_ptr d) (rd_mem d) @ b # drop (Suc (rd_ptr d)) (rd_mem d), rd_ptr := q\<rparr>" for q
      using lt by (simp add: upd_conv_take_nth_drop)
    then show ?thesis using step Nil by (auto simp del: dev_step.simps)
  next
    case more: (Cons c cs)
    have nx: "dev_next ?n (rd_wrap d) (rd_ptr d) = rd_ptr d + 1" using Cons.prems(4) more by (simp add: dev_next_def)
    have fit: "rd_ptr ?d + length bs \<le> length (rd_mem ?d)" using Cons.prems(4) nx by simp
    obtain p where "fst (dev_run (map Rx_Byte bs) ?d) = []"
      "snd (dev_run (map Rx_Byte bs) ?d) =
         ?d\<lparr>rd_mem := take (rd_ptr ?d) (rd_mem ?d) @ bs @ drop (rd_ptr ?d + length bs) (rd_mem ?d), rd_ptr := p\<rparr>"
      using Cons.IH[OF _ _ _ fit] Cons.prems by auto
    moreover have "take (Suc (rd_ptr d)) ((rd_mem d)[rd_ptr d := b]) = take (rd_ptr d) (rd_mem d) @ [b]"
      using lt by (rule take_Suc_update)
    ultimately show ?thesis
      using step nx by (cases "dev_run (map Rx_Byte bs) ?d") (auto simp del: dev_step.simps)
  qed
qed

lemma dev_run_nil [simp]: "dev_run (Addr_Read # es) d = dev_run es (d\<lparr>rd_phase := Dev_Read\<rparr>)"
  "dev_run (Stop_Cond # es) d = dev_run es (d\<lparr>rd_phase := Dev_Idle\<rparr>)"
  "dev_run (Nack # es) d = dev_run es (d\<lparr>rd_phase := Dev_Idle\<rparr>)"
  by (simp_all split: prod.splits)

text \<open>A read transaction: send the address, repeated start, read \<open>n\<close> bytes, refuse the last.\<close>

definition read_transaction :: "u8 list \<Rightarrow> nat \<Rightarrow> bus_event list" where
  "read_transaction addr n = (Addr_Write # map Rx_Byte addr) @ Addr_Read # replicate n Tx_Empty @ [Nack]"

definition write_transaction :: "u8 list \<Rightarrow> u8 list \<Rightarrow> bus_event list" where
  "write_transaction addr bs = (Addr_Write # map Rx_Byte addr) @ map Rx_Byte bs @ [Stop_Cond]"

lemma dev_read_transaction:
  assumes "length addr = rd_width d" "rd_width d \<le> 2" "rd_inc_read d"
    and "be_value addr < length (rd_mem d)"
  shows "fst (dev_run (read_transaction addr n) d) =
      map (\<lambda>k. rd_mem d ! (if rd_wrap d then (be_value addr + k) mod length (rd_mem d)
                            else min (be_value addr + k) (length (rd_mem d) - 1))) [0..<n]"
    and "rd_mem (snd (dev_run (read_transaction addr n) d)) = rd_mem d"
proof -
  let ?d = "d\<lparr>rd_ptr := be_value addr, rd_phase := Dev_Read\<rparr>"
  have ptr: "(dev_next (length (rd_mem d)) (rd_wrap d) ^^ k) (be_value addr) =
      (if rd_wrap d then (be_value addr + k) mod length (rd_mem d)
       else min (be_value addr + k) (length (rd_mem d) - 1))" for k
    using dev_next_wrap[OF assms(4), of k] dev_next_stop[OF assms(4), of k] by (cases "rd_wrap d") simp_all
  have "dev_run (replicate n Tx_Empty) ?d =
    (map (\<lambda>k. rd_mem d ! (if rd_wrap d then (be_value addr + k) mod length (rd_mem d)
                            else min (be_value addr + k) (length (rd_mem d) - 1))) [0..<n],
     ?d\<lparr>rd_ptr := (dev_next (length (rd_mem d)) (rd_wrap d) ^^ n) (be_value addr)\<rparr>)"
    using dev_run_reads[of ?d n] assms(3,4) by (simp add: ptr)
  then show "fst (dev_run (read_transaction addr n) d) =
      map (\<lambda>k. rd_mem d ! (if rd_wrap d then (be_value addr + k) mod length (rd_mem d)
                            else min (be_value addr + k) (length (rd_mem d) - 1))) [0..<n]"
    and "rd_mem (snd (dev_run (read_transaction addr n) d)) = rd_mem d"
    unfolding read_transaction_def dev_run_append dev_run_address[OF assms(1,2)] by (simp_all add: dev_run_append)
qed

lemma dev_write_transaction:
  assumes "length addr = rd_width d" "rd_width d \<le> 2" "rd_writable d" "rd_inc_write d"
    and "be_value addr + length bs \<le> length (rd_mem d)"
  shows "\<exists>p. dev_run (write_transaction addr bs) d =
    ([], d\<lparr>rd_mem := take (be_value addr) (rd_mem d) @ bs @ drop (be_value addr + length bs) (rd_mem d),
            rd_ptr := p, rd_phase := Dev_Idle\<rparr>)"
proof -
  let ?d = "d\<lparr>rd_ptr := be_value addr, rd_phase := Dev_Write\<rparr>"
  obtain p where "dev_run (map Rx_Byte bs) ?d = ([],
      ?d\<lparr>rd_mem := take (be_value addr) (rd_mem d) @ bs @ drop (be_value addr + length bs) (rd_mem d), rd_ptr := p\<rparr>)"
    using dev_run_writes[of ?d bs] assms(3-5) by (cases "dev_run (map Rx_Byte bs) ?d") auto
  then show ?thesis
    unfolding write_transaction_def dev_run_append dev_run_address[OF assms(1,2)]
    by (auto simp: dev_run_append intro!: exI[of _ p])
qed

text \<open>Reading back bytes that lie in the map from the address on.\<close>

lemma dev_read_back:
  assumes "length addr = rd_width d" "rd_width d \<le> 2" "rd_inc_read d"
    and mem: "rd_mem d = take (be_value addr) old @ bs @ drop (be_value addr + length bs) old"
    and fits: "be_value addr + length bs \<le> length old" "bs \<noteq> []"
  shows "fst (dev_run (read_transaction addr (length bs)) d) = bs"
proof -
  have len: "length (rd_mem d) = length old" using mem fits(1) by simp
  then have a: "be_value addr < length (rd_mem d)" using fits by (cases bs) auto
  have "rd_mem d ! (if rd_wrap d then (be_value addr + k) mod length (rd_mem d)
      else min (be_value addr + k) (length (rd_mem d) - 1)) = bs ! k" if "k < length bs" for k
    using that fits(1) len by (simp add: mem nth_append)
  then show ?thesis using dev_read_transaction(1)[OF assms(1-3) a, of "length bs"] by (intro nth_equalityI) simp_all
qed

text \<open>Without read increment the same register is read again and again.\<close>

lemma dev_read_repeats:
  assumes "length addr = rd_width d" "rd_width d \<le> 2" "\<not> rd_inc_read d" "be_value addr < length (rd_mem d)"
  shows "fst (dev_run (read_transaction addr n) d) = replicate n (rd_mem d ! be_value addr)"
proof -
  let ?d = "d\<lparr>rd_ptr := be_value addr, rd_phase := Dev_Read\<rparr>"
  have "((\<lambda>p. p) ^^ k) a = a" for k and a :: nat by (induction k) simp_all
  then have "dev_run (replicate n Tx_Empty) ?d = (replicate n (rd_mem d ! be_value addr), ?d)"
    using dev_run_reads[of ?d n] assms(3,4) by (simp add: map_replicate_const)
  then show ?thesis unfolding read_transaction_def dev_run_append dev_run_address[OF assms(1,2)] by (simp add: dev_run_append)
qed

text \<open>The collected register address stays in range under any combination of flags.\<close>

lemma ev_addr_phase: "phase_ok s \<Longrightarrow> ev_addr M sr1 sr2 s m = (s', m') \<Longrightarrow> phase_ok s'"
  by (auto simp: ev_addr_def phase_ok_def Let_def split: if_splits)

lemma regmap_write_phase: "phase_ok s \<Longrightarrow> regmap_write s b h = Some (s', h') \<Longrightarrow> phase_ok s'"
  by (auto simp: regmap_write_def phase_ok_def Let_def split: if_splits option.splits bind_splits)

lemma ev_rxne_phase:
  assumes "phase_ok s" "ev_rxne M sr1 dr s h m = Some (s', h', m')"
  shows "phase_ok s'"
proof (cases "sl_phase s = I2C_PHASE_RX_REG_ADDR \<and> sr1 AND i2cm M I2C_SR1_RXNE \<noteq> 0")
  case True
  then have "s' = addr_byte (ucast dr) s" using assms(2) by (auto simp: ev_rxne_def addr_byte_def Let_def split: if_splits)
  then show ?thesis using addr_byte_refines(2)[OF assms(1)] True by simp
next
  case False
  then show ?thesis using assms regmap_write_phase[OF assms(1)]
    by (auto simp: ev_rxne_def Let_def split: if_splits bind_splits)
qed

lemma ev_isr_phase:
  assumes "phase_ok s" "ev_isr M sr1 sr2 dr s h m = Some (s', h', m')"
  shows "phase_ok s'"
proof -
  let ?m = "emit (Rd (I2C (sl_i2c s) I2C_SR1)) m"
  obtain s1 m1 where a: "ev_addr M sr1 sr2 s ?m = (s1, m1)" by fastforce
  obtain s2 h2 m2 s4 m4 where r: "ev_rxne M sr1 dr s1 h m1 = Some (s2, h2, m2)" "ev_txe M sr1 s2 h2 m2 = Some (s4, m4)"
    "ev_stopf M sr1 s4 m4 = (s', m')"
    using assms(2) a by (auto simp: ev_isr_def Let_def split: bind_splits prod.splits)
  have "phase_ok s2" using ev_rxne_phase[OF ev_addr_phase[OF assms(1) a] r(1)] .
  then have "phase_ok s4" using r(2)
    by (auto simp: ev_txe_def regmap_read_def phase_ok_def Let_def split: if_splits bind_splits option.splits)
  then show ?thesis using r(3) by (auto simp: ev_stopf_def phase_ok_def split: if_splits)
qed

subsection \<open>Properties\<close>

text \<open>C32: whatever the status registers show, in whatever combination of flags, the event handler
  does not trap: it never follows a null or freed pointer and never leaves the register map. It
  keeps the configuration, touches no other heap block, and leaves the map alone unless the DUT
  may write.\<close>

theorem i2c_isr_memory_safe:
  assumes "slave_ok s h"
  shows "\<exists>s' h' m'. ev_isr M sr1 sr2 dr s h m = Some (s', h', m') \<and> slave_cfg_of s' = slave_cfg_of s \<and> slave_ok s' h' \<and>
    (\<forall>q. Some q \<noteq> sl_regmap s \<longrightarrow> h' q = h q) \<and> (\<not> sl_writes_allowed s \<longrightarrow> h' = h)"
  by (rule ev_isr_ok[OF assms])

definition example_slave :: "i2c_slave_state" where
  "example_slave = (i2c_slave_state_init I2C2)\<lparr>sl_initialized := True, sl_regmap := Some 5, sl_regmap_len := 4,
     sl_reg_addr_width := 1, sl_auto_inc_mode := 3, sl_auto_inc_wrap := True, sl_writes_allowed := True\<rparr>"

definition example_heap :: heap where
  "example_heap = [5 \<mapsto> [10, 11, 12, 13]]"

lemma example_slave_ok: "slave_ok example_slave example_heap" "phase_ok example_slave"
  by (auto simp: slave_ok_def phase_ok_def example_slave_def example_heap_def i2c_slave_state_init_def)

lemma example_i2c_flags: "i2c_flags example_masks"
proof -
  have lt5: "(\<forall>i<5. P i) \<longleftrightarrow> P 0 \<and> P 1 \<and> P 2 \<and> P 3 \<and> P (4::nat)" for P
    by (auto simp: less_Suc_eq numeral_eq_Suc)
  show ?thesis unfolding i2c_flags_def Let_def lt5 by (simp add: example_masks_def)
qed

theorem i2c_isr_memory_safe_witness:
  "\<exists>s' h' m'. ev_isr example_masks 0xFFFFFFFF 0 0x55 example_slave example_heap mcu_reset = Some (s', h', m') \<and> slave_ok s' h'"
  using i2c_isr_memory_safe[OF example_slave_ok(1), of example_masks "0xFFFFFFFF" 0 "0x55" mcu_reset] by blast

text \<open>C33: for every sequence of bus events the driver answers exactly as an abstract register-map device
  and ends in a state and memory that represent the device's; the 16-bit pointer and accumulator of
  the code lose nothing. The device has one register pointer, which a write transaction sets from
  the address bytes (or to 0 when the device has none) and every byte moves as configured. STOP and
  NACK end the transaction and leave the pointer where it is, so that a read without an address
  phase continues there; this is what the code does, and it differs from the comment on the
  driver's state and from the specification of streaming sensors, which is recorded as a divergence
  (\<open>i2c_pointer_survives_transactions\<close>).\<close>

theorem i2c_slave_refines_device:
  assumes "i2c_flags M" "slave_ok s h" "phase_ok s"
  shows "\<exists>s' h' m'. bus_run M es s h m = Some (fst (dev_run es (abs_dev s h)), s', h', m') \<and>
    snd (dev_run es (abs_dev s h)) = abs_dev s' h' \<and> slave_ok s' h' \<and> phase_ok s'"
  by (rule bus_run_refines[OF assms])

theorem i2c_slave_refines_device_witness:
  "\<exists>s' h' m'. bus_run example_masks [Addr_Write, Rx_Byte 2, Addr_Read, Tx_Empty, Tx_Empty, Tx_Empty] example_slave
     example_heap mcu_reset = Some ([12, 13, 10], s', h', m')"
proof -
  have "fst (dev_run [Addr_Write, Rx_Byte 2, Addr_Read, Tx_Empty, Tx_Empty, Tx_Empty] (abs_dev example_slave example_heap))
      = [12, 13, 10]"
    by (simp add: abs_dev_def abs_mem_def example_slave_def example_heap_def i2c_slave_state_init_def Let_def
        dev_advance_def dev_next_def)
  with i2c_slave_refines_device[OF example_i2c_flags example_slave_ok,
      of "[Addr_Write, Rx_Byte 2, Addr_Read, Tx_Empty, Tx_Empty, Tx_Empty]" mcu_reset]
  show ?thesis by metis
qed

text \<open>
  The divergence: on a streaming device with read increment two transactions that each read one byte
  return the first two registers, not register 0 twice.
\<close>

lemma i2c_pointer_survives_transactions:
  assumes "i2c_flags M" "slave_ok s h" "phase_ok s" "sl_reg_addr_width s = I2C_SLAVE_REG_NONE"
    and "sl_auto_inc_mode s = I2C_SLAVE_AUTO_INC_READ" "sl_reg_ptr s = 0" "2 \<le> unat (sl_regmap_len s)"
  shows "\<exists>s' h' m'. bus_run M [Addr_Read, Tx_Empty, Nack, Addr_Read, Tx_Empty, Nack] s h m =
    Some ([abs_mem s h ! 0, abs_mem s h ! 1], s', h', m')"
proof -
  obtain p where len: "length (abs_mem s h) = unat (sl_regmap_len s)" using slave_ok_mem[OF assms(2)] by metis
  have "fst (dev_run [Addr_Read, Tx_Empty, Nack, Addr_Read, Tx_Empty, Nack] (abs_dev s h)) = [abs_mem s h ! 0, abs_mem s h ! 1]"
    using assms(4-7) len by (simp add: abs_dev_def dev_advance_def dev_next_def)
  then show ?thesis using bus_run_refines[OF assms(1-3), of "[Addr_Read, Tx_Empty, Nack, Addr_Read, Tx_Empty, Nack]" m] by metis
qed

text \<open>What the DUT writes it reads back: a write transaction at a register address followed by a
  read transaction of as many bytes at that address returns the bytes written, for 8-bit and
  16-bit register addresses, and the rest of the map is unchanged.\<close>

theorem i2c_write_read_roundtrip:
  assumes "i2c_flags M" "slave_ok s h" "phase_ok s" "sl_writes_allowed s" "sl_auto_inc_mode s = I2C_SLAVE_AUTO_INC_BOTH"
    and "sl_reg_addr_width s = I2C_SLAVE_REG_8 \<and> length addr = 1 \<or> sl_reg_addr_width s = I2C_SLAVE_REG_16 \<and> length addr = 2"
    and "be_value addr + length bs \<le> unat (sl_regmap_len s)" "bs \<noteq> []"
  shows "\<exists>s' h' m'. bus_run M (write_transaction addr bs @ read_transaction addr (length bs)) s h m = Some (bs, s', h', m') \<and>
    abs_mem s' h' = take (be_value addr) (abs_mem s h) @ bs @ drop (be_value addr + length bs) (abs_mem s h)"
proof -
  let ?d = "abs_dev s h"
  obtain p where len: "length (abs_mem s h) = unat (sl_regmap_len s)" using slave_ok_mem[OF assms(2)] by metis
  have d: "length addr = rd_width ?d" "rd_width ?d \<le> 2" "rd_writable ?d" "rd_inc_write ?d"
    "rd_inc_read ?d" "be_value addr + length bs \<le> length (rd_mem ?d)"
    using assms(4-7) len by (auto simp: abs_dev_def)
  let ?mem = "take (be_value addr) (rd_mem ?d) @ bs @ drop (be_value addr + length bs) (rd_mem ?d)"
  obtain q where w: "dev_run (write_transaction addr bs) ?d = ([], ?d\<lparr>rd_mem := ?mem, rd_ptr := q, rd_phase := Dev_Idle\<rparr>)"
    using dev_write_transaction[OF d(1-4,6)] by blast
  let ?d1 = "?d\<lparr>rd_mem := ?mem, rd_ptr := q, rd_phase := Dev_Idle\<rparr>"
  have out: "fst (dev_run (read_transaction addr (length bs)) ?d1) = bs"
    by (rule dev_read_back[where old = "rd_mem ?d"]) (use d assms(8) in simp_all)
  have "be_value addr < length (rd_mem ?d1)" using d(6) assms(8) by (cases bs) auto
  note R = dev_read_transaction[of addr ?d1 "length bs", OF _ _ _ this]
  have mem: "rd_mem (snd (dev_run (read_transaction addr (length bs)) ?d1)) = ?mem" using R(2) d(1,2,5) by simp
  have "dev_run (write_transaction addr bs @ read_transaction addr (length bs)) ?d =
      (bs, snd (dev_run (read_transaction addr (length bs)) ?d1))"
    unfolding dev_run_append w using out by (cases "dev_run (read_transaction addr (length bs)) ?d1") simp
  with bus_run_refines[OF assms(1-3), of "write_transaction addr bs @ read_transaction addr (length bs)" m] mem
  show ?thesis by (auto simp: abs_dev_def)
qed

theorem i2c_write_read_roundtrip_witness:
  "\<exists>s' h' m'. bus_run example_masks (write_transaction [1] [0xAB, 0xCD] @ read_transaction [1] 2) example_slave
     example_heap mcu_reset = Some ([0xAB, 0xCD], s', h', m') \<and> abs_mem s' h' = [10, 0xAB, 0xCD, 13]"
proof -
  have hyp: "sl_writes_allowed example_slave" "sl_auto_inc_mode example_slave = 3"
    "sl_reg_addr_width example_slave = 1 \<and> length [1 :: u8] = 1 \<or>
     sl_reg_addr_width example_slave = 2 \<and> length [1 :: u8] = 2"
    "be_value [1] + length [0xAB, 0xCD :: u8] \<le> unat (sl_regmap_len example_slave)" "[0xAB, 0xCD :: u8] \<noteq> []"
    by (simp_all add: example_slave_def i2c_slave_state_init_def be_value_def)
  have two: "length [0xAB, 0xCD :: u8] = 2" by simp
  have mem: "take (be_value [1]) (abs_mem example_slave example_heap) @ [0xAB, 0xCD] @
      drop (be_value [1] + 2) (abs_mem example_slave example_heap) = [10, 0xAB, 0xCD, 13]"
    by (simp add: example_slave_def example_heap_def i2c_slave_state_init_def be_value_def abs_mem_def)
  from i2c_write_read_roundtrip[OF example_i2c_flags example_slave_ok hyp, of mcu_reset]
  show ?thesis unfolding two mem .
qed

end
