(* ===== verification/I2c_Sensor.thy ===== *)
theory I2c_Sensor
  imports Board I2c_Slave
begin

text \<open>
  \<^verbatim>\<open>simulate/i2c/src/i2c_sensor.c\<close>: simulated I2C register-map sensors, one per peripheral. A sensor
  owns a register map on the FreeRTOS heap; the slave driver holds a second pointer to it. The
  record \<open>i2c_dev\<close> is the static array of this file, the driver's, and the heap. \<open>pvPortMalloc\<close>
  is a parameter: from the requested size and the heap it gives a block number and the block's
  arbitrary initial content, or \<open>None\<close> for NULL. Freeing is removal from the heap, so a use after
  free, a double free or an access out of bounds is \<open>None\<close>, like a failed assertion.
\<close>

subsection \<open>State\<close>

record i2c_sensor_state =
  is_in_use :: bool
  is_periph :: u8
  is_scl_port :: u8
  is_scl_pin :: u8
  is_scl_af :: u8
  is_sda_port :: u8
  is_sda_pin :: u8
  is_sda_af :: u8
  is_clock_hz :: u32
  is_address_mode :: u8
  is_primary_addr :: u16
  is_secondary_addr :: u16
  is_flags :: u8
  is_reg_addr_width :: u8
  is_auto_inc_mode :: u8
  is_register_count :: u16
  is_response_delay_us :: u16
  is_clock_stretch_max_us :: u16
  is_regmap :: "nat option"

record i2c_dev =
  i2c_sensor_states :: "i2c_sensor_state list"
  i2c_drv :: "i2c_slave_state list"
  i2c_heap :: heap

type_synonym malloc = "u16 \<Rightarrow> heap \<Rightarrow> (nat \<times> u8 list) option"

definition i2c_state_zero :: i2c_sensor_state where
  "i2c_state_zero = \<lparr>is_in_use = False, is_periph = 0, is_scl_port = 0, is_scl_pin = 0, is_scl_af = 0,
     is_sda_port = 0, is_sda_pin = 0, is_sda_af = 0, is_clock_hz = 0, is_address_mode = 0, is_primary_addr = 0,
     is_secondary_addr = 0, is_flags = 0, is_reg_addr_width = 0, is_auto_inc_mode = 0, is_register_count = 0,
     is_response_delay_us = 0, is_clock_stretch_max_us = 0, is_regmap = None\<rparr>"

abbreviation (input) I2C_SENSOR_MAX_COUNT :: nat where "I2C_SENSOR_MAX_COUNT \<equiv> 3"
abbreviation (input) I2C_INTERNAL_ID_NONE :: u8 where "I2C_INTERNAL_ID_NONE \<equiv> 0xFF"
abbreviation (input) I2C_SENSOR_REGMAP_MAX :: u16 where "I2C_SENSOR_REGMAP_MAX \<equiv> 1024"
abbreviation (input) I2C_SENSOR_CLOCK_MIN_HZ :: u32 where "I2C_SENSOR_CLOCK_MIN_HZ \<equiv> 10000"
abbreviation (input) I2C_SENSOR_CLOCK_MAX_HZ :: u32 where "I2C_SENSOR_CLOCK_MAX_HZ \<equiv> 400000"
abbreviation (input) I2C_7BIT_RESERVED_LOW :: u16 where "I2C_7BIT_RESERVED_LOW \<equiv> 0x07"
abbreviation (input) I2C_7BIT_RESERVED_HIGH :: u16 where "I2C_7BIT_RESERVED_HIGH \<equiv> 0x78"
abbreviation (input) I2C_CFG_HAS_PRESET_YES :: u8 where "I2C_CFG_HAS_PRESET_YES \<equiv> 1"
abbreviation (input) I2C_CFG_HAS_PRESET_NO :: u8 where "I2C_CFG_HAS_PRESET_NO \<equiv> 0"
abbreviation (input) I2C_CFG_SIZE_NO_PRESET :: u16 where "I2C_CFG_SIZE_NO_PRESET \<equiv> 25"
abbreviation (input) I2C_CFG_SIZE_WITH_PRESET_HEADER :: u16 where "I2C_CFG_SIZE_WITH_PRESET_HEADER \<equiv> 29"
abbreviation (input) I2C_SET_OUTPUT_HEADER_SIZE :: u16 where "I2C_SET_OUTPUT_HEADER_SIZE \<equiv> 4"
abbreviation (input) I2C_FLAG_GENERAL_CALL_ENABLE :: u8 where "I2C_FLAG_GENERAL_CALL_ENABLE \<equiv> 0x01"
abbreviation (input) I2C_FLAG_SMBUS_MODE :: u8 where "I2C_FLAG_SMBUS_MODE \<equiv> 0x02"
abbreviation (input) I2C_FLAG_PEC_REQUIRED :: u8 where "I2C_FLAG_PEC_REQUIRED \<equiv> 0x04"
abbreviation (input) I2C_FLAG_AUTO_INC_WRAP :: u8 where "I2C_FLAG_AUTO_INC_WRAP \<equiv> 0x08"
abbreviation (input) I2C_FLAG_DUT_WRITES_ALLOWED :: u8 where "I2C_FLAG_DUT_WRITES_ALLOWED \<equiv> 0x10"
abbreviation (input) I2C_FLAG_INTERNAL_PULLUPS :: u8 where "I2C_FLAG_INTERNAL_PULLUPS \<equiv> 0x20"
abbreviation (input) I2C_FLAG_CLOCK_STRETCH_ENABLE :: u8 where "I2C_FLAG_CLOCK_STRETCH_ENABLE \<equiv> 0x40"
abbreviation (input) I2C_FLAG_RESERVED_MASK :: u8 where "I2C_FLAG_RESERVED_MASK \<equiv> 0x80"
abbreviation (input) I2C_CFG_OFFSET_ADDRESS_MODE :: nat where "I2C_CFG_OFFSET_ADDRESS_MODE \<equiv> 4"
abbreviation (input) I2C_CFG_OFFSET_PRIMARY_ADDR :: nat where "I2C_CFG_OFFSET_PRIMARY_ADDR \<equiv> 5"
abbreviation (input) I2C_CFG_OFFSET_SECONDARY_ADDR :: nat where "I2C_CFG_OFFSET_SECONDARY_ADDR \<equiv> 7"
abbreviation (input) I2C_CFG_OFFSET_FLAGS :: nat where "I2C_CFG_OFFSET_FLAGS \<equiv> 9"
abbreviation (input) I2C_CFG_OFFSET_SCL_PORT :: nat where "I2C_CFG_OFFSET_SCL_PORT \<equiv> 10"
abbreviation (input) I2C_CFG_OFFSET_SCL_PIN :: nat where "I2C_CFG_OFFSET_SCL_PIN \<equiv> 11"
abbreviation (input) I2C_CFG_OFFSET_SCL_AF :: nat where "I2C_CFG_OFFSET_SCL_AF \<equiv> 12"
abbreviation (input) I2C_CFG_OFFSET_SDA_PORT :: nat where "I2C_CFG_OFFSET_SDA_PORT \<equiv> 13"
abbreviation (input) I2C_CFG_OFFSET_SDA_PIN :: nat where "I2C_CFG_OFFSET_SDA_PIN \<equiv> 14"
abbreviation (input) I2C_CFG_OFFSET_SDA_AF :: nat where "I2C_CFG_OFFSET_SDA_AF \<equiv> 15"
abbreviation (input) I2C_CFG_OFFSET_REG_ADDR_WIDTH :: nat where "I2C_CFG_OFFSET_REG_ADDR_WIDTH \<equiv> 16"
abbreviation (input) I2C_CFG_OFFSET_AUTO_INC_MODE :: nat where "I2C_CFG_OFFSET_AUTO_INC_MODE \<equiv> 17"
abbreviation (input) I2C_CFG_OFFSET_REGISTER_COUNT :: nat where "I2C_CFG_OFFSET_REGISTER_COUNT \<equiv> 18"
abbreviation (input) I2C_CFG_OFFSET_RESPONSE_DELAY_US :: nat where "I2C_CFG_OFFSET_RESPONSE_DELAY_US \<equiv> 20"
abbreviation (input) I2C_CFG_OFFSET_CLOCK_STRETCH_MAX_US :: nat where "I2C_CFG_OFFSET_CLOCK_STRETCH_MAX_US \<equiv> 22"
abbreviation (input) I2C_CFG_OFFSET_HAS_PRESET :: nat where "I2C_CFG_OFFSET_HAS_PRESET \<equiv> 24"
abbreviation (input) I2C_CFG_OFFSET_PRESET_REG_START :: nat where "I2C_CFG_OFFSET_PRESET_REG_START \<equiv> 25"
abbreviation (input) I2C_CFG_OFFSET_PRESET_VALUES_LEN :: nat where "I2C_CFG_OFFSET_PRESET_VALUES_LEN \<equiv> 27"
abbreviation (input) I2C_CFG_OFFSET_PRESET_VALUES :: nat where "I2C_CFG_OFFSET_PRESET_VALUES \<equiv> 29"
abbreviation (input) I2C_SET_OUTPUT_OFFSET_VALUE_LEN :: nat where "I2C_SET_OUTPUT_OFFSET_VALUE_LEN \<equiv> 2"
abbreviation (input) I2C_SET_OUTPUT_OFFSET_VALUES :: nat where "I2C_SET_OUTPUT_OFFSET_VALUES \<equiv> 4"

subsection \<open>Memory\<close>

text \<open>\<^verbatim>\<open>memcpy(&block[off], src, n)\<close>: reading past the source or writing past the block is \<open>None\<close>.\<close>

definition heap_memcpy :: "nat \<Rightarrow> nat \<Rightarrow> u8 list \<Rightarrow> nat \<Rightarrow> heap \<Rightarrow> heap option" where
  "heap_memcpy p off src n h =
     (if n \<le> length src then do { blk \<leftarrow> h p; blk \<leftarrow> store_all off (take n src) blk; Some (h(p \<mapsto> blk)) } else None)"

text \<open>\<^verbatim>\<open>memset(block, 0, n)\<close>\<close>

definition heap_memset0 :: "nat \<Rightarrow> nat \<Rightarrow> heap \<Rightarrow> heap option" where
  "heap_memset0 p n h =
     do { blk \<leftarrow> h p; if n \<le> length blk then Some (h(p \<mapsto> replicate n 0 @ drop n blk)) else None }"

definition vPortFree :: "nat \<Rightarrow> heap \<Rightarrow> heap option" where
  "vPortFree p h = (case h p of None \<Rightarrow> None | Some _ \<Rightarrow> Some (h(p := None)))"

subsection \<open>Slots\<close>

definition i2c_alloc_slot :: "i2c_dev \<Rightarrow> u8" where
  "i2c_alloc_slot st =
     (case find_index (\<lambda>s. \<not> is_in_use s) (i2c_sensor_states st) of
        None \<Rightarrow> I2C_INTERNAL_ID_NONE | Some i \<Rightarrow> word_of_nat i)"

definition i2c_free_slot :: "u8 \<Rightarrow> i2c_dev \<Rightarrow> i2c_dev option" where
  "i2c_free_slot idx st =
     do {
       s \<leftarrow> fetch (unat idx) (i2c_sensor_states st);
       h \<leftarrow> (case is_regmap s of None \<Rightarrow> Some (i2c_heap st) | Some p \<Rightarrow> vPortFree p (i2c_heap st));
       Some (st\<lparr>i2c_sensor_states := (i2c_sensor_states st)[unat idx := i2c_state_zero], i2c_heap := h\<rparr>)
     }"

subsection \<open>Validation\<close>

text \<open>The chain of checks of \<open>validate_cfg\<close>, on the fields read from the payload.\<close>

definition i2c_check_addr :: "u8 \<Rightarrow> u16 \<Rightarrow> u16 \<Rightarrow> err_code" where
  "i2c_check_addr address_mode primary_addr secondary_addr =
     (if address_mode \<noteq> I2C_SLAVE_ADDR_7BIT \<and> address_mode \<noteq> I2C_SLAVE_ADDR_10BIT then ERR_I2C_BAD_ADDR_MODE
      else if address_mode = I2C_SLAVE_ADDR_10BIT \<and> secondary_addr \<noteq> 0 then ERR_I2C_BAD_ADDR_MODE
      else if address_mode = I2C_SLAVE_ADDR_7BIT
      then if primary_addr \<le> I2C_7BIT_RESERVED_LOW \<or> primary_addr \<ge> I2C_7BIT_RESERVED_HIGH then ERR_I2C_ADDR_RESERVED
           else if secondary_addr \<noteq> 0 \<and>
                   (secondary_addr \<le> I2C_7BIT_RESERVED_LOW \<or> secondary_addr \<ge> I2C_7BIT_RESERVED_HIGH)
           then ERR_I2C_ADDR_RESERVED else ERR_SUCCESS
      else if primary_addr = 0 \<or> primary_addr > I2C_10BIT_ADDR_MAX then ERR_I2C_ADDR_RESERVED
      else ERR_SUCCESS)"

definition i2c_check_fields :: "i2c_sensor_state \<Rightarrow> err_code" where
  "i2c_check_fields c =
     (if is_flags c AND I2C_FLAG_RESERVED_MASK \<noteq> 0 then ERR_INVALID_PARAMETER
      else let err = i2c_check_addr (is_address_mode c) (is_primary_addr c) (is_secondary_addr c)
           in if err \<noteq> ERR_SUCCESS then err
              else if is_clock_hz c < I2C_SENSOR_CLOCK_MIN_HZ \<or> is_clock_hz c > I2C_SENSOR_CLOCK_MAX_HZ
              then ERR_I2C_CLOCK_UNSUPPORTED
              else if is_register_count c = 0 \<or> is_register_count c > I2C_SENSOR_REGMAP_MAX
              then ERR_I2C_REGMAP_TOO_LARGE
              else if is_scl_port c > GPIO_PORT_MAX \<or> is_scl_pin c > GPIO_PIN_MAX \<or> is_scl_af c > GPIO_AF_MAX
              then ERR_INVALID_PARAMETER
              else if is_sda_port c > GPIO_PORT_MAX \<or> is_sda_pin c > GPIO_PIN_MAX \<or> is_sda_af c > GPIO_AF_MAX
              then ERR_INVALID_PARAMETER
              else if is_auto_inc_mode c > I2C_SLAVE_AUTO_INC_BOTH \<or> is_reg_addr_width c > I2C_SLAVE_REG_16
              then ERR_INVALID_PARAMETER
              else if is_flags c AND I2C_FLAG_PEC_REQUIRED \<noteq> 0 \<and> is_flags c AND I2C_FLAG_SMBUS_MODE = 0
              then ERR_I2C_SMBUS_REQUIRED
              else ERR_SUCCESS)"

definition i2c_validate_cfg :: "u8 list \<Rightarrow> u16 \<Rightarrow> i2c_sensor_state \<Rightarrow> (err_code + i2c_sensor_state) option" where
  "i2c_validate_cfg cfg cfg_len out =
     (if cfg_len < I2C_CFG_SIZE_NO_PRESET then Some (Inl ERR_MALFORMED_PAYLOAD)
      else do {
        clock_hz \<leftarrow> read_u32_le cfg;
        address_mode \<leftarrow> fetch I2C_CFG_OFFSET_ADDRESS_MODE cfg;
        primary_addr \<leftarrow> read_u16_le (drop I2C_CFG_OFFSET_PRIMARY_ADDR cfg);
        secondary_addr \<leftarrow> read_u16_le (drop I2C_CFG_OFFSET_SECONDARY_ADDR cfg);
        flags \<leftarrow> fetch I2C_CFG_OFFSET_FLAGS cfg;
        scl_port \<leftarrow> fetch I2C_CFG_OFFSET_SCL_PORT cfg;
        scl_pin \<leftarrow> fetch I2C_CFG_OFFSET_SCL_PIN cfg;
        scl_af \<leftarrow> fetch I2C_CFG_OFFSET_SCL_AF cfg;
        sda_port \<leftarrow> fetch I2C_CFG_OFFSET_SDA_PORT cfg;
        sda_pin \<leftarrow> fetch I2C_CFG_OFFSET_SDA_PIN cfg;
        sda_af \<leftarrow> fetch I2C_CFG_OFFSET_SDA_AF cfg;
        reg_addr_width \<leftarrow> fetch I2C_CFG_OFFSET_REG_ADDR_WIDTH cfg;
        auto_inc_mode \<leftarrow> fetch I2C_CFG_OFFSET_AUTO_INC_MODE cfg;
        register_count \<leftarrow> read_u16_le (drop I2C_CFG_OFFSET_REGISTER_COUNT cfg);
        response_delay_us \<leftarrow> read_u16_le (drop I2C_CFG_OFFSET_RESPONSE_DELAY_US cfg);
        clock_stretch_max_us \<leftarrow> read_u16_le (drop I2C_CFG_OFFSET_CLOCK_STRETCH_MAX_US cfg);
        let c = out\<lparr>is_clock_hz := clock_hz, is_address_mode := address_mode, is_primary_addr := primary_addr,
                    is_secondary_addr := secondary_addr, is_flags := flags, is_scl_port := scl_port,
                    is_scl_pin := scl_pin, is_scl_af := scl_af, is_sda_port := sda_port, is_sda_pin := sda_pin,
                    is_sda_af := sda_af, is_reg_addr_width := reg_addr_width, is_auto_inc_mode := auto_inc_mode,
                    is_register_count := register_count, is_response_delay_us := response_delay_us,
                    is_clock_stretch_max_us := clock_stretch_max_us\<rparr>;
        let err = i2c_check_fields c;
        Some (if err = ERR_SUCCESS then Inr c else Inl err)
      })"

text \<open>
  The optional preset block: an error, or the first register and the length of the values (zero
  when there is none). The length check is in 16 bits, the range check in 32.
\<close>

definition i2c_preset :: "u8 list \<Rightarrow> u16 \<Rightarrow> u16 \<Rightarrow> (err_code + u16 \<times> u16) option" where
  "i2c_preset cfg cfg_len register_count =
     do {
       has_preset \<leftarrow> fetch I2C_CFG_OFFSET_HAS_PRESET cfg;
       if has_preset = I2C_CFG_HAS_PRESET_YES
       then if cfg_len < I2C_CFG_SIZE_WITH_PRESET_HEADER then Some (Inl ERR_MALFORMED_PAYLOAD)
            else do {
              preset_reg_start \<leftarrow> read_u16_le (drop I2C_CFG_OFFSET_PRESET_REG_START cfg);
              preset_value_len \<leftarrow> read_u16_le (drop I2C_CFG_OFFSET_PRESET_VALUES_LEN cfg);
              if preset_value_len = 0 then Some (Inl ERR_INVALID_PARAMETER)
              else if cfg_len < I2C_CFG_SIZE_WITH_PRESET_HEADER + preset_value_len then Some (Inl ERR_MALFORMED_PAYLOAD)
              else if (ucast preset_reg_start + ucast preset_value_len :: u32) > ucast register_count
              then Some (Inl ERR_I2C_REGISTER_OOB)
              else Some (Inr (preset_reg_start, preset_value_len))
            }
       else if has_preset \<noteq> I2C_CFG_HAS_PRESET_NO then Some (Inl ERR_INVALID_PARAMETER)
       else Some (Inr (0, 0))
     }"

subsection \<open>Handlers\<close>

definition i2c_sensor_init :: "i2c_dev \<Rightarrow> i2c_dev" where
  "i2c_sensor_init st =
     st\<lparr>i2c_sensor_states := map (\<lambda>s. s\<lparr>is_in_use := False, is_regmap := None\<rparr>) (i2c_sensor_states st)\<rparr>"

definition i2c_af_config :: "gpio_pin \<Rightarrow> u8 \<Rightarrow> gpio_pull \<Rightarrow> gpio_af_config" where
  "i2c_af_config pin af pull = \<lparr>ac_pin = pin, ac_af = af, ac_speed = GPIO_SPEED_HIGH, ac_pull = pull,
     ac_output_type = GPIO_OUTPUT_OPEN_DRAIN\<rparr>"

definition i2c_slave_cfg_of :: "i2c_sensor_state \<Rightarrow> i2c_slave_cfg" where
  "i2c_slave_cfg_of s =
     \<lparr>sc_regmap = is_regmap s, sc_regmap_len = is_register_count s, sc_reg_addr_width = is_reg_addr_width s,
      sc_auto_inc_mode = is_auto_inc_mode s,
      sc_auto_inc_wrap = (is_flags s AND I2C_FLAG_AUTO_INC_WRAP \<noteq> 0),
      sc_writes_allowed = (is_flags s AND I2C_FLAG_DUT_WRITES_ALLOWED \<noteq> 0),
      sc_general_call = (is_flags s AND I2C_FLAG_GENERAL_CALL_ENABLE \<noteq> 0),
      sc_clock_stretch = (is_flags s AND I2C_FLAG_CLOCK_STRETCH_ENABLE \<noteq> 0)\<rparr>"

text \<open>Set-up from the pin configuration on; the slot \<open>idx\<close> already holds the checked fields.\<close>

definition i2c_open ::
    "cmsis \<Rightarrow> u8 \<Rightarrow> i2c_sensor_state \<Rightarrow> i2c_dev \<Rightarrow> board \<Rightarrow> (err_code \<times> u8 \<times> i2c_dev \<times> board) option" where
  "i2c_open M idx s st b =
     do {
       let periph = idx;
       let pull = (if is_flags s AND I2C_FLAG_INTERNAL_PULLUPS \<noteq> 0 then GPIO_PULL_UP else GPIO_PULL_NONE);
       scl_gpio \<leftarrow> gpio_make_pin (is_scl_port s) (is_scl_pin s);
       sda_gpio \<leftarrow> gpio_make_pin (is_sda_port s) (is_sda_pin s);
       let m = gpio_enable_clock M (is_scl_port s) (bmcu b);
       let m = gpio_enable_clock M (is_sda_port s) m;
       m \<leftarrow> gpio_configure_af (i2c_af_config scl_gpio (is_scl_af s) pull) m;
       m \<leftarrow> gpio_configure_af (i2c_af_config sda_gpio (is_sda_af s) pull) m;
       let (err, drv, m) = i2c_slave_init M periph (is_clock_hz s) (is_address_mode s) (is_primary_addr s)
                             (is_secondary_addr s) (i2c_slave_cfg_of s) (i2c_drv st) m;
       let st = st\<lparr>i2c_drv := drv\<rparr>;
       if err \<noteq> ERR_SUCCESS then do {
         m \<leftarrow> gpio_reset_to_defaults scl_gpio m;
         m \<leftarrow> gpio_reset_to_defaults sda_gpio m;
         st \<leftarrow> i2c_free_slot idx st;
         Some (err, PROTO_SENSOR_ID_NONE, st, b\<lparr>bmcu := m\<rparr>)
       } else do {
         let s = s\<lparr>is_in_use := True, is_periph := periph\<rparr>;
         let st = st\<lparr>i2c_sensor_states := (i2c_sensor_states st)[unat idx := s]\<rparr>;
         (sid, sm) \<leftarrow> sensor_manager_register PROTO_ID_I2C idx (bsm b);
         if sid = PROTO_SENSOR_ID_NONE then do {
           let (_, drv, m) = i2c_slave_deinit M periph (i2c_drv st) m;
           m \<leftarrow> gpio_reset_to_defaults scl_gpio m;
           m \<leftarrow> gpio_reset_to_defaults sda_gpio m;
           st \<leftarrow> i2c_free_slot idx (st\<lparr>i2c_drv := drv\<rparr>);
           Some (ERR_OUT_OF_RESOURCES, PROTO_SENSOR_ID_NONE, st, b\<lparr>bmcu := m, bsm := sm\<rparr>)
         } else Some (ERR_SUCCESS, sid, st, b\<lparr>bmcu := m, bsm := sm\<rparr>)
       }
     }"

definition i2c_sensor_setup ::
    "cmsis \<Rightarrow> malloc \<Rightarrow> u8 list \<Rightarrow> u16 \<Rightarrow> i2c_dev \<Rightarrow> board \<Rightarrow> (err_code \<times> u8 \<times> i2c_dev \<times> board) option" where
  "i2c_sensor_setup M pvPortMalloc cfg cfg_len st b =
     (let idx = i2c_alloc_slot st
      in if idx = I2C_INTERNAL_ID_NONE then Some (ERR_I2C_NO_FREE_PERIPHERAL, PROTO_SENSOR_ID_NONE, st, b)
         else do {
           s \<leftarrow> fetch (unat idx) (i2c_sensor_states st);
           v \<leftarrow> i2c_validate_cfg cfg cfg_len s;
           case v of
             Inl err \<Rightarrow> Some (err, PROTO_SENSOR_ID_NONE, st, b)
           | Inr s \<Rightarrow> do {
               let st = st\<lparr>i2c_sensor_states := (i2c_sensor_states st)[unat idx := s]\<rparr>;
               preset \<leftarrow> i2c_preset cfg cfg_len (is_register_count s);
               case preset of
                 Inl err \<Rightarrow> Some (err, PROTO_SENSOR_ID_NONE, st, b)
               | Inr (preset_reg_start, preset_value_len) \<Rightarrow>
                   (case pvPortMalloc (is_register_count s) (i2c_heap st) of
                      None \<Rightarrow>
                        Some (ERR_OUT_OF_RESOURCES, PROTO_SENSOR_ID_NONE,
                              st\<lparr>i2c_sensor_states := (i2c_sensor_states st)[unat idx := s\<lparr>is_regmap := None\<rparr>]\<rparr>, b)
                    | Some (p, blk) \<Rightarrow> do {
                        let s = s\<lparr>is_regmap := Some p\<rparr>;
                        h \<leftarrow> heap_memset0 p (unat (is_register_count s)) ((i2c_heap st)(p \<mapsto> blk));
                        h \<leftarrow> (if preset_value_len = 0 then Some h
                             else heap_memcpy p (unat preset_reg_start) (drop I2C_CFG_OFFSET_PRESET_VALUES cfg) (unat preset_value_len) h);
                        i2c_open M idx s
                          (st\<lparr>i2c_sensor_states := (i2c_sensor_states st)[unat idx := s], i2c_heap := h\<rparr>) b
                      })
             }
         })"

definition i2c_sensor_set_output :: "u8 \<Rightarrow> u8 list \<Rightarrow> u16 \<Rightarrow> i2c_dev \<Rightarrow> (err_code \<times> i2c_dev) option" where
  "i2c_sensor_set_output internal_id values values_len st =
     (if unat internal_id \<ge> I2C_SENSOR_MAX_COUNT then Some (ERR_INVALID_SENSOR_ID, st)
      else do {
        s \<leftarrow> fetch (unat internal_id) (i2c_sensor_states st);
        if \<not> is_in_use s then Some (ERR_INVALID_SENSOR_ID, st)
        else if values_len < I2C_SET_OUTPUT_HEADER_SIZE then Some (ERR_MALFORMED_PAYLOAD, st)
        else do {
          reg_start \<leftarrow> read_u16_le values;
          write_len \<leftarrow> read_u16_le (drop I2C_SET_OUTPUT_OFFSET_VALUE_LEN values);
          if write_len = 0 then Some (ERR_INVALID_PARAMETER, st)
          else if values_len < I2C_SET_OUTPUT_HEADER_SIZE + write_len then Some (ERR_MALFORMED_PAYLOAD, st)
          else if reg_start > is_register_count s \<or> write_len > is_register_count s - reg_start
          then Some (ERR_I2C_REGISTER_OOB, st)
          else do {
            p \<leftarrow> is_regmap s;
            h \<leftarrow> heap_memcpy p (unat reg_start) (drop I2C_SET_OUTPUT_OFFSET_VALUES values) (unat write_len) (i2c_heap st);
            Some (ERR_SUCCESS, st\<lparr>i2c_heap := h\<rparr>)
          }
        }
      })"

definition i2c_sensor_stop :: "cmsis \<Rightarrow> u8 \<Rightarrow> i2c_dev \<Rightarrow> board \<Rightarrow> (err_code \<times> i2c_dev \<times> board) option" where
  "i2c_sensor_stop M internal_id st b =
     (if unat internal_id \<ge> I2C_SENSOR_MAX_COUNT then Some (ERR_INVALID_SENSOR_ID, st, b)
      else do {
        s \<leftarrow> fetch (unat internal_id) (i2c_sensor_states st);
        if \<not> is_in_use s then Some (ERR_INVALID_SENSOR_ID, st, b)
        else do {
          _ \<leftarrow> is_regmap s;
          let (_, drv, m) = i2c_slave_deinit M (is_periph s) (i2c_drv st) (bmcu b);
          scl_gpio \<leftarrow> gpio_make_pin (is_scl_port s) (is_scl_pin s);
          m \<leftarrow> gpio_reset_to_defaults scl_gpio m;
          sda_gpio \<leftarrow> gpio_make_pin (is_sda_port s) (is_sda_pin s);
          m \<leftarrow> gpio_reset_to_defaults sda_gpio m;
          st \<leftarrow> i2c_free_slot internal_id (st\<lparr>i2c_drv := drv\<rparr>);
          Some (ERR_SUCCESS, st, b\<lparr>bmcu := m\<rparr>)
        }
      })"

subsection \<open>Invariant\<close>

text \<open>What FreeRTOS documents of \<open>pvPortMalloc\<close>: the block is new and has the requested size.\<close>

definition malloc_spec :: "malloc \<Rightarrow> bool" where
  "malloc_spec pvPortMalloc \<longleftrightarrow>
     (\<forall>n h p blk. pvPortMalloc n h = Some (p, blk) \<longrightarrow> h p = None \<and> length blk = unat n)"

definition i2c_pins_ok :: "i2c_sensor_state \<Rightarrow> bool" where
  "i2c_pins_ok s \<longleftrightarrow> pin_pos (is_scl_port s) (is_scl_pin s) \<and> pin_pos (is_sda_port s) (is_sda_pin s)"

text \<open>
  A used slot and the driver's entry of its peripheral share one live block of the configured
  size; an unused slot has no register map, and the driver's entry is not initialised.
\<close>

definition i2c_slot_ok :: "nat \<Rightarrow> i2c_sensor_state \<Rightarrow> i2c_slave_state \<Rightarrow> heap \<Rightarrow> bool" where
  "i2c_slot_ok i s d h \<longleftrightarrow>
     (if is_in_use s
      then unat (is_periph s) = i \<and> i2c_pins_ok s \<and> sl_initialized d \<and> is_regmap s \<noteq> None \<and>
           sl_regmap d = is_regmap s \<and> sl_regmap_len d = is_register_count s \<and> slave_ok d h \<and> phase_ok d \<and>
           unat (is_register_count s) \<le> 1024
      else is_regmap s = None \<and> \<not> sl_initialized d)"

definition i2c_blocks :: "i2c_dev \<Rightarrow> nat set" where
  "i2c_blocks st = {p. \<exists>i<3. is_regmap (i2c_sensor_states st ! i) = Some p}"

definition i2c_inv :: "i2c_dev \<Rightarrow> bool" where
  "i2c_inv st \<longleftrightarrow> length (i2c_sensor_states st) = 3 \<and> length (i2c_drv st) = 3 \<and>
     (\<forall>i<3. i2c_slot_ok i (i2c_sensor_states st ! i) (i2c_drv st ! i) (i2c_heap st)) \<and>
     (\<forall>i<3. \<forall>j<3. \<forall>p. is_regmap (i2c_sensor_states st ! i) = Some p \<and>
        is_regmap (i2c_sensor_states st ! j) = Some p \<longrightarrow> i = j) \<and>
     dom (i2c_heap st) = i2c_blocks st"

lemma i2c_invD:
  assumes "i2c_inv st"
  shows "length (i2c_sensor_states st) = 3" "length (i2c_drv st) = 3"
    and "i < 3 \<Longrightarrow> i2c_slot_ok i (i2c_sensor_states st ! i) (i2c_drv st ! i) (i2c_heap st)"
    and "i < 3 \<Longrightarrow> j < 3 \<Longrightarrow> is_regmap (i2c_sensor_states st ! i) = Some p \<Longrightarrow>
           is_regmap (i2c_sensor_states st ! j) = Some p \<Longrightarrow> i = j"
    and "dom (i2c_heap st) = i2c_blocks st"
  using assms unfolding i2c_inv_def by blast+

text \<open>The slots the dispatcher can reach.\<close>

definition i2c_live :: "i2c_dev \<Rightarrow> i2c_sensor_state option list" where
  "i2c_live st = map (\<lambda>s. if is_in_use s then Some s else None) (i2c_sensor_states st)"

text \<open>A slot that comes into use with a new block, and one that is cleared with its block freed.\<close>

lemma slave_ok_other: "slave_ok d h \<Longrightarrow> sl_regmap d \<noteq> Some p \<Longrightarrow> slave_ok d (h(p := x))"
  by (auto simp: slave_ok_def)

lemma i2c_slot_ok_other:
  "i2c_slot_ok i s d h \<Longrightarrow> is_regmap s \<noteq> Some p \<Longrightarrow> i2c_slot_ok i s d (h(p := x))"
  using slave_ok_other[of d h p x] by (auto simp: i2c_slot_ok_def split: if_splits)

lemma i2c_inv_store:
  assumes inv: "i2c_inv st" and k: "k < 3" "\<not> is_in_use (i2c_sensor_states st ! k)"
    and s: "is_in_use s" "is_regmap s = Some p" and p: "i2c_heap st p = None"
    and ok: "i2c_slot_ok k s d ((i2c_heap st)(p \<mapsto> blk))"
  shows "i2c_inv \<lparr>i2c_sensor_states = (i2c_sensor_states st)[k := s], i2c_drv = (i2c_drv st)[k := d],
                  i2c_heap = (i2c_heap st)(p \<mapsto> blk)\<rparr>"
proof -
  note D = i2c_invD[OF inv]
  have old: "is_regmap (i2c_sensor_states st ! k) = None" using D(3)[OF k(1)] k(2) by (simp add: i2c_slot_ok_def)
  have fresh: "is_regmap (i2c_sensor_states st ! i) \<noteq> Some p" if "i < 3" for i
    using D(5) p that unfolding i2c_blocks_def by blast
  have nth: "(i2c_sensor_states st)[k := s] ! i = (if i = k then s else i2c_sensor_states st ! i)"
    "(i2c_drv st)[k := d] ! i = (if i = k then d else i2c_drv st ! i)" if "i < 3" for i
    using that D(1,2) by (simp_all add: nth_list_update)
  have "i2c_slot_ok i ((i2c_sensor_states st)[k := s] ! i) ((i2c_drv st)[k := d] ! i) ((i2c_heap st)(p \<mapsto> blk))"
    if "i < 3" for i
    unfolding nth[OF that] using ok i2c_slot_ok_other[OF D(3)[OF that] fresh[OF that]] by simp
  moreover have "i = j" if "i < 3" "j < 3" "is_regmap ((i2c_sensor_states st)[k := s] ! i) = Some q"
      "is_regmap ((i2c_sensor_states st)[k := s] ! j) = Some q" for i j q
    using that(3,4) D(4)[OF that(1,2)] fresh[OF that(1)] fresh[OF that(2)] s(2)
    unfolding nth[OF that(1)] nth[OF that(2)] by (auto split: if_splits)
  moreover have "{q. \<exists>i<3. is_regmap ((i2c_sensor_states st)[k := s] ! i) = Some q} = insert p (i2c_blocks st)"
  proof (intro set_eqI iffI; clarsimp)
    fix q i assume "i < 3" "is_regmap ((i2c_sensor_states st)[k := s] ! i) = Some q" "q \<notin> i2c_blocks st"
    then show "q = p" using s(2) nth(1)[of i] by (auto simp: i2c_blocks_def split: if_splits)
  next
    fix q assume "q = p \<or> q \<in> i2c_blocks st"
    then show "\<exists>i<3. is_regmap ((i2c_sensor_states st)[k := s] ! i) = Some q"
    proof
      assume "q = p" with k(1) s(2) nth(1)[OF k(1)] show ?thesis by auto
    next
      assume "q \<in> i2c_blocks st"
      then obtain i where i: "i < 3" "is_regmap (i2c_sensor_states st ! i) = Some q" by (auto simp: i2c_blocks_def)
      then have "i \<noteq> k" using old by auto
      with i nth(1)[OF i(1)] show ?thesis by auto
    qed
  qed
  ultimately show ?thesis using D(1,2,5) unfolding i2c_inv_def i2c_blocks_def by auto
qed

lemma i2c_inv_clear:
  assumes inv: "i2c_inv st" and k: "k < 3" "is_regmap (i2c_sensor_states st ! k) = Some p" and d: "\<not> sl_initialized d"
  shows "i2c_inv \<lparr>i2c_sensor_states = (i2c_sensor_states st)[k := i2c_state_zero], i2c_drv = (i2c_drv st)[k := d],
                  i2c_heap = (i2c_heap st)(p := None)\<rparr>"
proof -
  note D = i2c_invD[OF inv]
  have others: "is_regmap (i2c_sensor_states st ! i) \<noteq> Some p" if "i < 3" "i \<noteq> k" for i
    using D(4)[OF that(1) k(1)] k(2) that(2) by blast
  have nth: "(i2c_sensor_states st)[k := i2c_state_zero] ! i = (if i = k then i2c_state_zero else i2c_sensor_states st ! i)"
    "(i2c_drv st)[k := d] ! i = (if i = k then d else i2c_drv st ! i)" if "i < 3" for i
    using that D(1,2) by (simp_all add: nth_list_update)
  have zero: "is_regmap i2c_state_zero = None" "\<not> is_in_use i2c_state_zero" by (simp_all add: i2c_state_zero_def)
  have "i2c_slot_ok i ((i2c_sensor_states st)[k := i2c_state_zero] ! i) ((i2c_drv st)[k := d] ! i) ((i2c_heap st)(p := None))"
    if "i < 3" for i
    unfolding nth[OF that] using i2c_slot_ok_other[OF D(3)[OF that] others[OF that]] zero d
    by (cases "i = k") (simp_all add: i2c_slot_ok_def)
  moreover have "i = j" if "i < 3" "j < 3" "is_regmap ((i2c_sensor_states st)[k := i2c_state_zero] ! i) = Some q"
      "is_regmap ((i2c_sensor_states st)[k := i2c_state_zero] ! j) = Some q" for i j q
    using that(3,4) D(4)[OF that(1,2)] zero unfolding nth[OF that(1)] nth[OF that(2)] by (auto split: if_splits)
  moreover
  have "{q. \<exists>i<3. is_regmap ((i2c_sensor_states st)[k := i2c_state_zero] ! i) = Some q} = i2c_blocks st - {p}"
  proof -
    have A: "(\<exists>i<3. is_regmap ((i2c_sensor_states st)[k := i2c_state_zero] ! i) = Some q) \<longleftrightarrow>
        (\<exists>i<3. i \<noteq> k \<and> is_regmap (i2c_sensor_states st ! i) = Some q)" for q
      using nth(1) zero(1) by (metis option.distinct(1))
    have B: "(\<exists>i<3. i \<noteq> k \<and> is_regmap (i2c_sensor_states st ! i) = Some q) \<longleftrightarrow> q \<in> i2c_blocks st - {p}" for q
    proof
      assume "\<exists>i<3. i \<noteq> k \<and> is_regmap (i2c_sensor_states st ! i) = Some q"
      then show "q \<in> i2c_blocks st - {p}" using others unfolding i2c_blocks_def by blast
    next
      assume "q \<in> i2c_blocks st - {p}"
      then obtain i where i: "i < 3" "is_regmap (i2c_sensor_states st ! i) = Some q" "q \<noteq> p"
        unfolding i2c_blocks_def by blast
      then have "i \<noteq> k" using k(2) by auto
      with i show "\<exists>i<3. i \<noteq> k \<and> is_regmap (i2c_sensor_states st ! i) = Some q" by blast
    qed
    show ?thesis unfolding A B by auto
  qed
  then have "dom ((i2c_heap st)(p := None)) = {q. \<exists>i<3. is_regmap ((i2c_sensor_states st)[k := i2c_state_zero] ! i) = Some q}"
    using D(5) by (simp add: dom_fun_upd)
  ultimately show ?thesis
    using D(1,2) unfolding i2c_inv_def i2c_blocks_def i2c_dev.select_convs length_list_update by blast
qed

lemma i2c_inv_scratch:
  assumes inv: "i2c_inv st" and k: "\<not> is_in_use (i2c_sensor_states st ! k)" "k < 3"
    and s: "\<not> is_in_use s" "is_regmap s = None" and d: "\<not> sl_initialized d"
  shows "i2c_inv \<lparr>i2c_sensor_states = (i2c_sensor_states st)[k := s], i2c_drv = (i2c_drv st)[k := d], i2c_heap = i2c_heap st\<rparr>"
proof -
  note D = i2c_invD[OF inv]
  have old: "is_regmap (i2c_sensor_states st ! k) = None" using D(3)[OF k(2)] k(1) by (simp add: i2c_slot_ok_def)
  have nth: "(i2c_sensor_states st)[k := s] ! i = (if i = k then s else i2c_sensor_states st ! i)"
    "(i2c_drv st)[k := d] ! i = (if i = k then d else i2c_drv st ! i)" if "i < 3" for i
    using that D(1,2) by (simp_all add: nth_list_update)
  have rm: "is_regmap ((i2c_sensor_states st)[k := s] ! i) = is_regmap (i2c_sensor_states st ! i)" if "i < 3" for i
    unfolding nth[OF that] using old s by simp
  have "i2c_slot_ok i ((i2c_sensor_states st)[k := s] ! i) ((i2c_drv st)[k := d] ! i) (i2c_heap st)" if "i < 3" for i
    unfolding nth[OF that] using D(3)[OF that] s d by (auto simp: i2c_slot_ok_def)
  moreover have "i = j" if "i < 3" "j < 3" "is_regmap ((i2c_sensor_states st)[k := s] ! i) = Some q"
      "is_regmap ((i2c_sensor_states st)[k := s] ! j) = Some q" for i j q
    using that(3,4) D(4)[OF that(1,2)] unfolding rm[OF that(1)] rm[OF that(2)] by blast
  moreover have "i2c_blocks \<lparr>i2c_sensor_states = (i2c_sensor_states st)[k := s], i2c_drv = (i2c_drv st)[k := d],
      i2c_heap = i2c_heap st\<rparr> = i2c_blocks st"
    using rm unfolding i2c_blocks_def by auto
  ultimately show ?thesis using D(1,2,5) unfolding i2c_inv_def by auto
qed

text \<open>Overwriting a block in place keeps everything.\<close>

lemma i2c_inv_heap:
  assumes inv: "i2c_inv st" and p: "i2c_heap st p = Some blk" "length blk' = length blk"
  shows "i2c_inv (st\<lparr>i2c_heap := (i2c_heap st)(p \<mapsto> blk')\<rparr>)"
proof -
  note D = i2c_invD[OF inv]
  have "slave_ok d ((i2c_heap st)(p \<mapsto> blk'))" if "slave_ok d (i2c_heap st)" for d
    using that p by (auto simp: slave_ok_def)
  then have "i2c_slot_ok i (i2c_sensor_states st ! i) (i2c_drv st ! i) ((i2c_heap st)(p \<mapsto> blk'))" if "i < 3" for i
    using D(3)[OF that] by (auto simp: i2c_slot_ok_def split: if_splits)
  moreover have "dom ((i2c_heap st)(p \<mapsto> blk')) = i2c_blocks st" using D(5) p(1) by auto
  ultimately show ?thesis using D(1,2,4) by (auto simp: i2c_inv_def i2c_blocks_def)
qed

lemma heap_memcpy_ok:
  assumes "h p = Some blk" "off + n \<le> length blk" "n \<le> length src"
  shows "heap_memcpy p off src n h = Some (h(p \<mapsto> take off blk @ take n src @ drop (off + n) blk))"
proof -
  have blk: "take off blk @ take n (drop off blk) @ drop (off + n) blk = blk"
    by (metis append_take_drop_id drop_drop add.commute)
  have "store_all (length (take off blk)) (take n src) (take off blk @ take n (drop off blk) @ drop (off + n) blk)
      = Some (take off blk @ take n src @ drop (off + n) blk)"
    using assms by (intro store_all_append) simp
  then have "store_all off (take n src) blk = Some (take off blk @ take n src @ drop (off + n) blk)"
    using assms(2) unfolding blk by (simp add: min_absorb2)
  with assms show ?thesis by (simp add: heap_memcpy_def)
qed

subsection \<open>Validation\<close>

lemma i2c_validate_total:
  assumes "unat cfg_len \<le> length cfg"
  shows "\<exists>v. i2c_validate_cfg cfg cfg_len s = Some v"
proof (cases "cfg_len < 25")
  case False
  then have l: "25 \<le> length cfg" using assms by (simp add: word_less_nat_alt)
  have "\<exists>v. read_u16_le (drop k cfg) = Some v" if "k + 2 \<le> 25" for k
    using l that by (intro read_u16_le_Some) simp
  then have "\<exists>v. read_u16_le (drop 5 cfg) = Some v" "\<exists>v. read_u16_le (drop 7 cfg) = Some v"
    "\<exists>v. read_u16_le (drop 18 cfg) = Some v" "\<exists>v. read_u16_le (drop 20 cfg) = Some v"
    "\<exists>v. read_u16_le (drop 22 cfg) = Some v" by simp_all
  moreover have "\<exists>v. read_u32_le cfg = Some v" using l by (intro read_u32_le_Some) simp
  ultimately show ?thesis using l by (auto simp: i2c_validate_cfg_def Let_def)
qed (simp add: i2c_validate_cfg_def)

lemma i2c_validate_cases:
  assumes "i2c_validate_cfg cfg cfg_len s = Some v"
  shows "case v of
      Inl e \<Rightarrow> e \<noteq> ERR_SUCCESS
    | Inr c \<Rightarrow> i2c_check_fields c = ERR_SUCCESS \<and> is_in_use c = is_in_use s \<and> is_regmap c = is_regmap s \<and>
        \<not> cfg_len < I2C_CFG_SIZE_NO_PRESET"
  using assms by (auto simp: i2c_validate_cfg_def Let_def split: if_splits bind_splits)

text \<open>Checked fields are in range, and the driver accepts them.\<close>

lemma i2c_check_fields_ok:
  assumes "i2c_check_fields s = ERR_SUCCESS"
  shows "i2c_pins_ok s" "is_scl_af s \<le> GPIO_AF_MAX" "is_sda_af s \<le> GPIO_AF_MAX"
    and "is_register_count s \<noteq> 0" "unat (is_register_count s) \<le> 1024"
proof -
  show "i2c_pins_ok s" "is_scl_af s \<le> GPIO_AF_MAX" "is_sda_af s \<le> GPIO_AF_MAX" "is_register_count s \<noteq> 0"
    using assms by (auto simp: i2c_check_fields_def i2c_pins_ok_def pin_pos_def Let_def not_less split: if_splits)
  have "is_register_count s \<le> 1024" using assms by (auto simp: i2c_check_fields_def Let_def not_less split: if_splits)
  then show "unat (is_register_count s) \<le> 1024" by (simp add: word_le_nat_alt)
qed

lemma i2c_check_addr_ok:
  assumes "i2c_check_addr mode a1 a2 = ERR_SUCCESS"
  shows "mode \<le> 1" and "if mode = 0 then a1 \<le> 0x7F \<and> (a2 = 0 \<or> a2 \<le> 0x7F) else a1 \<noteq> 0 \<and> a1 \<le> 0x3FF \<and> a2 = 0"
proof -
  have low: "x \<le> 0x7F" if "\<not> (0x78 :: u16) \<le> x" for x using that by (simp add: word_le_nat_alt)
  show "mode \<le> 1" using assms by (auto simp: i2c_check_addr_def word_le_nat_alt split: if_splits)
  show "if mode = 0 then a1 \<le> 0x7F \<and> (a2 = 0 \<or> a2 \<le> 0x7F) else a1 \<noteq> 0 \<and> a1 \<le> 0x3FF \<and> a2 = 0"
    using assms low[of a1] low[of a2] by (auto simp: i2c_check_addr_def not_less split: if_splits)
qed

lemma i2c_driver_accepts:
  assumes "i2c_check_fields s = ERR_SUCCESS" "is_regmap s = Some p" "unat periph < 3"
  shows "cfg_valid periph (is_clock_hz s) (is_address_mode s) (is_primary_addr s) (is_secondary_addr s) (i2c_slave_cfg_of s)"
proof -
  have addr: "i2c_check_addr (is_address_mode s) (is_primary_addr s) (is_secondary_addr s) = ERR_SUCCESS"
    using assms(1) by (auto simp: i2c_check_fields_def Let_def split: if_splits)
  have clk: "10000 \<le> is_clock_hz s" "is_clock_hz s \<le> 400000" and w: "is_reg_addr_width s \<le> 2" "is_auto_inc_mode s \<le> 3"
    using assms(1) by (auto simp: i2c_check_fields_def Let_def not_less split: if_splits)
  have "is_clock_hz s \<noteq> 0" using clk(1) by auto
  moreover have "\<not> periph \<ge> 3" using assms(3) by (simp add: word_le_nat_alt)
  ultimately show ?thesis
    using i2c_check_addr_ok[OF addr] clk w assms(2) i2c_check_fields_ok(4)[OF assms(1)]
    by (auto simp: cfg_valid_def i2c_slave_cfg_of_def not_less split: if_splits)
qed

lemma i2c_preset_total:
  assumes "unat cfg_len \<le> length cfg" "\<not> cfg_len < 25"
  shows "\<exists>v. i2c_preset cfg cfg_len n = Some v"
proof -
  have l: "25 \<le> length cfg" using assms by (simp add: word_less_nat_alt)
  have "\<exists>v. read_u16_le (drop k cfg) = Some v" if "k + 2 \<le> 29" "\<not> cfg_len < 29" for k
    using assms(1) that by (intro read_u16_le_Some) (simp add: word_less_nat_alt)
  then have "\<not> cfg_len < 29 \<Longrightarrow> \<exists>v. read_u16_le (drop 25 cfg) = Some v" "\<not> cfg_len < 29 \<Longrightarrow> \<exists>v. read_u16_le (drop 27 cfg) = Some v"
    by simp_all
  then show ?thesis using l by (auto simp: i2c_preset_def)
qed

lemma i2c_preset_error: "i2c_preset cfg cfg_len n = Some (Inl e) \<Longrightarrow> e \<noteq> ERR_SUCCESS"
  by (auto simp: i2c_preset_def split: if_splits bind_splits)

text \<open>
  The 16-bit length check of the preset cannot be fooled by wrap-around: a length large enough
  to wrap is refused by the range check.
\<close>

lemma i2c_preset_ok:
  assumes "i2c_preset cfg cfg_len n = Some (Inr (start, len))" "unat n \<le> 1024" "unat cfg_len \<le> length cfg"
  shows "len = 0 \<or> unat start + unat len \<le> unat n \<and> 29 + unat len \<le> length cfg"
proof (cases "len = 0")
  case False
  then have chk: "\<not> cfg_len < 29 + len" "\<not> (ucast start + ucast len :: u32) > ucast n"
    using assms(1) by (auto simp: i2c_preset_def split: if_splits bind_splits)
  have u: "unat (ucast (x :: u16) :: u32) = unat x" for x
    using less_trans[OF unat_u16_less, of "2 ^ 32" x] by (simp add: unsigned_ucast_eq take_bit_nat_eq_self_iff)
  have "unat start + unat len < 4294967296" using unat_u16_less[of start] unat_u16_less[of len] by linarith
  then have "unat (ucast start + ucast len :: u32) = unat start + unat len" by (simp add: unat_word_ariths u)
  then have le: "unat start + unat len \<le> unat n" using chk(2) by (simp add: word_less_nat_alt u)
  then have "unat (29 :: u16) + unat len < 65536" using assms(2) by simp
  from u16_header_fits[OF chk(1) this] le assms(3) show ?thesis by simp
qed simp

subsection \<open>Set-up\<close>

lemma i2c_slave_init_ok:
  assumes "cfg_valid periph clk mode a1 a2 cfg" "\<not> sl_initialized (states ! unat periph)"
  shows "\<exists>d m'. i2c_slave_init M periph clk mode a1 a2 cfg states m = (ERR_SUCCESS, states[unat periph := d], m') \<and>
    sl_initialized d \<and> sl_regmap d = sc_regmap cfg \<and> sl_regmap_len d = sc_regmap_len cfg \<and> sl_phase d = I2C_PHASE_IDLE"
proof -
  have init: "i2c_slave_init M periph clk mode a1 a2 cfg states m = (ERR_SUCCESS, states[unat periph := d], m') \<Longrightarrow>
    sl_initialized d \<and> sl_regmap d = sc_regmap cfg \<and> sl_regmap_len d = sc_regmap_len cfg \<and> sl_phase d = I2C_PHASE_IDLE \<Longrightarrow>
    ?thesis" for d m' by blast
  show ?thesis by (rule init, simp only: i2c_slave_init_def Let_def assms not_True_eq_False not_False_eq_True if_False) simp
qed

lemma i2c_slave_deinit_ok:
  assumes "unat periph < 3"
  shows "\<exists>d m'. i2c_slave_deinit M periph states m = (ERR_SUCCESS, states[unat periph := d], m') \<and> \<not> sl_initialized d"
proof -
  have "\<not> periph \<ge> 3" using assms by (simp add: word_le_nat_alt)
  then have deinit: "i2c_slave_deinit M periph states m = (ERR_SUCCESS, states[unat periph := (states ! unat periph)
      \<lparr>sl_initialized := False, sl_regmap := None, sl_regmap_len := 0, sl_phase := I2C_PHASE_IDLE\<rparr>],
      snd (snd (i2c_slave_deinit M periph states m)))"
    by (simp add: i2c_slave_deinit_def Let_def)
  show ?thesis by (subst deinit) auto
qed

lemma i2c_alloc_slot_cases:
  assumes "length (i2c_sensor_states st) = 3"
  shows "i2c_alloc_slot st = 0xFF \<or>
    i2c_alloc_slot st \<noteq> 0xFF \<and> unat (i2c_alloc_slot st) < 3 \<and>
    \<not> is_in_use (i2c_sensor_states st ! unat (i2c_alloc_slot st))"
proof (cases "find_index (\<lambda>s. \<not> is_in_use s) (i2c_sensor_states st)")
  case (Some i)
  then have i: "i < 3" "\<not> is_in_use (i2c_sensor_states st ! i)" using assms find_index_less find_index_hit by fastforce+
  then have "unat (word_of_nat i :: u8) = i" by (intro unat_word_of_nat_small) simp
  moreover from this i(1) have "word_of_nat i \<noteq> (0xFF :: u8)" by auto
  ultimately show ?thesis using i Some by (simp add: i2c_alloc_slot_def)
qed (simp add: i2c_alloc_slot_def)

definition i2c_setup_post :: "i2c_dev \<Rightarrow> board \<Rightarrow> err_code \<Rightarrow> u8 \<Rightarrow> i2c_dev \<Rightarrow> board \<Rightarrow> bool" where
  "i2c_setup_post st b err sid st' b' \<longleftrightarrow> i2c_inv st' \<and> board_inv b' \<and> btimers b' = btimers b \<and>
     (if err = ERR_SUCCESS
      then \<exists>idx s p. unat idx < I2C_SENSOR_MAX_COUNT \<and> i2c_live st ! unat idx = None \<and>
        i2c_live st' = (i2c_live st)[unat idx := Some s] \<and>
        is_regmap s = Some p \<and> i2c_heap st p = None \<and> (\<exists>blk. i2c_heap st' = (i2c_heap st)(p \<mapsto> blk)) \<and>
        sid \<noteq> PROTO_SENSOR_ID_NONE \<and> sm_table (bsm b) sid = None \<and>
        sm_table (bsm b') = (sm_table (bsm b))(sid \<mapsto> (PROTO_ID_I2C, idx))
      else sid = PROTO_SENSOR_ID_NONE \<and> i2c_live st' = i2c_live st \<and> i2c_heap st' = i2c_heap st \<and> bsm b' = bsm b)"

lemma i2c_setup_postI:
  assumes "i2c_inv st'" "board_inv b'" "btimers b' = btimers b" "unat idx < 3" "i2c_live st ! unat idx = None"
    and "i2c_live st' = (i2c_live st)[unat idx := Some s]" "is_regmap s = Some p" "i2c_heap st p = None"
    and "i2c_heap st' = (i2c_heap st)(p \<mapsto> blk)" "sid \<noteq> PROTO_SENSOR_ID_NONE" "sm_table (bsm b) sid = None"
    and "sm_table (bsm b') = (sm_table (bsm b))(sid \<mapsto> (PROTO_ID_I2C, idx))"
  shows "i2c_setup_post st b ERR_SUCCESS sid st' b'"
  unfolding i2c_setup_post_def using assms by (simp only: if_True simp_thms) blast

lemma i2c_live_scratch:
  assumes "\<not> is_in_use s" "\<not> is_in_use (i2c_sensor_states st ! k)"
  shows "map (\<lambda>s. if is_in_use s then Some s else None) ((i2c_sensor_states st)[k := s]) = i2c_live st"
  using assms by (cases "k < length (i2c_sensor_states st)")
    (auto simp: i2c_live_def map_update list_eq_iff_nth_eq nth_list_update)

text \<open>The tail of set-up, from a consistent state in which only the slot and its block are new.\<close>

lemma i2c_open_result:
  assumes inv: "i2c_inv st" and bi: "board_inv b" and idx: "unat idx < 3" "\<not> is_in_use (i2c_sensor_states st ! unat idx)"
    and chk: "i2c_check_fields s = ERR_SUCCESS" and s: "\<not> is_in_use s" "is_regmap s = Some p"
    and p: "i2c_heap st p = None" "length blk = unat (is_register_count s)"
    and st1: "st1 = st\<lparr>i2c_sensor_states := (i2c_sensor_states st)[unat idx := s], i2c_heap := (i2c_heap st)(p \<mapsto> blk)\<rparr>"
  shows "\<exists>err sid st' b'. i2c_open M idx s st1 b = Some (err, sid, st', b') \<and> i2c_setup_post st b err sid st' b' \<and>
    (err = ERR_SUCCESS \<longrightarrow> i2c_heap st' = (i2c_heap st)(p \<mapsto> blk))"
proof -
  note D = i2c_invD[OF inv] and F = i2c_check_fields_ok[OF chk]
  have S: "sm_inv (bsm b)" using bi by (simp add: board_inv_def)
  let ?pull = "if is_flags s AND 0x20 \<noteq> 0 then GPIO_PULL_UP else GPIO_PULL_NONE"
  have make: "\<exists>g. gpio_make_pin port pin = Some g \<and> gpio_pin_ok g" if "pin_pos port pin" for port pin
    using gpio_make_pin_Some_iff[of port pin] gpio_make_pin_ok that unfolding pin_pos_def by blast
  obtain scl where scl: "gpio_make_pin (is_scl_port s) (is_scl_pin s) = Some scl" "gpio_pin_ok scl"
    using make F(1) unfolding i2c_pins_ok_def by blast
  obtain sda where sda: "gpio_make_pin (is_sda_port s) (is_sda_pin s) = Some sda" "gpio_pin_ok sda"
    using make F(1) unfolding i2c_pins_ok_def by blast
  let ?m0 = "gpio_enable_clock M (is_sda_port s) (gpio_enable_clock M (is_scl_port s) (bmcu b))"
  obtain m1 where m1: "gpio_configure_af (i2c_af_config scl (is_scl_af s) ?pull) ?m0 = Some m1"
    using gpio_configure_total(2)[of "i2c_af_config scl (is_scl_af s) ?pull"] scl(2) F(2) by (auto simp: i2c_af_config_def)
  obtain m2 where m2: "gpio_configure_af (i2c_af_config sda (is_sda_af s) ?pull) m1 = Some m2"
    using gpio_configure_total(2)[of "i2c_af_config sda (is_sda_af s) ?pull"] sda(2) F(3) by (auto simp: i2c_af_config_def)
  have drv: "i2c_drv st1 = i2c_drv st" using st1 by simp
  have free: "\<not> sl_initialized (i2c_drv st ! unat idx)" using D(3)[OF idx(1)] idx(2) by (simp add: i2c_slot_ok_def)
  obtain d m3 where init: "i2c_slave_init M idx (is_clock_hz s) (is_address_mode s) (is_primary_addr s) (is_secondary_addr s)
      (i2c_slave_cfg_of s) (i2c_drv st) m2 = (ERR_SUCCESS, (i2c_drv st)[unat idx := d], m3)"
    and d: "sl_initialized d" "sl_regmap d = Some p" "sl_regmap_len d = is_register_count s" "sl_phase d = I2C_PHASE_IDLE"
    using i2c_slave_init_ok[OF i2c_driver_accepts[OF chk s(2) idx(1)] free, of M m2] s(2) by (auto simp: i2c_slave_cfg_of_def)
  obtain sid sm where reg: "sensor_manager_register PROTO_ID_I2C idx (bsm b) = Some (sid, sm)"
    using register_total[of PROTO_ID_I2C idx "bsm b"] by auto
  let ?s = "s\<lparr>is_in_use := True, is_periph := idx\<rparr>"
  show ?thesis
  proof (cases "sid = 0")
    case False
    note A = register_accepted[OF S reg False]
    let ?st = "\<lparr>i2c_sensor_states = (i2c_sensor_states st)[unat idx := ?s], i2c_drv = (i2c_drv st)[unat idx := d],
                i2c_heap = (i2c_heap st)(p \<mapsto> blk)\<rparr>"
    have "i2c_open M idx s st1 b = Some (ERR_SUCCESS, sid, ?st, b\<lparr>bmcu := m3, bsm := sm\<rparr>)"
      using False by (simp add: i2c_open_def scl sda m1 m2 drv init reg Let_def st1)
    moreover have "i2c_inv ?st"
      by (rule i2c_inv_store[OF inv idx]) (use s p d F(1,5) in \<open>auto simp: i2c_slot_ok_def i2c_pins_ok_def slave_ok_def phase_ok_def\<close>)
    moreover have "i2c_live ?st = (i2c_live st)[unat idx := Some ?s]" by (simp add: i2c_live_def map_update)
    moreover have "i2c_live st ! unat idx = None" using idx D(1) by (simp add: i2c_live_def)
    ultimately have "i2c_setup_post st b ERR_SUCCESS sid ?st (b\<lparr>bmcu := m3, bsm := sm\<rparr>)"
      by (intro i2c_setup_postI[where idx = idx and s = ?s and p = p and blk = blk])
        (use A False s(2) p(1) bi idx(1) in \<open>simp_all add: board_inv_def\<close>)
    with \<open>i2c_open M idx s st1 b = Some (ERR_SUCCESS, sid, ?st, b\<lparr>bmcu := m3, bsm := sm\<rparr>)\<close> show ?thesis by auto
  next
    case True
    have sm: "sm = bsm b" using register_refused[OF S] reg True by simp
    obtain d' m4 where deinit: "i2c_slave_deinit M idx ((i2c_drv st)[unat idx := d]) m3
        = (ERR_SUCCESS, (i2c_drv st)[unat idx := d'], m4)" "\<not> sl_initialized d'"
      using i2c_slave_deinit_ok[OF idx(1), of M "(i2c_drv st)[unat idx := d]" m3] by auto
    obtain m5 where m5: "gpio_reset_to_defaults scl m4 = Some m5" using gpio_total(1)[OF scl(2)] by blast
    obtain m6 where m6: "gpio_reset_to_defaults sda m5 = Some m6" using gpio_total(1)[OF sda(2)] by blast
    let ?st = "\<lparr>i2c_sensor_states = (i2c_sensor_states st)[unat idx := i2c_state_zero], i2c_drv = (i2c_drv st)[unat idx := d'],
                i2c_heap = i2c_heap st\<rparr>"
    have heap: "((i2c_heap st)(p \<mapsto> blk))(p := None) = i2c_heap st" using p(1) by (simp add: fun_upd_idem)
    have free: "i2c_free_slot idx (st\<lparr>i2c_heap := (i2c_heap st)(p \<mapsto> blk), i2c_sensor_states := (i2c_sensor_states st)
        [unat idx := ?s], i2c_drv := (i2c_drv st)[unat idx := d']\<rparr>) = Some ?st"
      using idx(1) D(1) s(2) heap by (simp add: i2c_free_slot_def vPortFree_def)
    have "i2c_open M idx s st1 b = Some (ERR_OUT_OF_RESOURCES, 0, ?st, b\<lparr>bmcu := m6, bsm := sm\<rparr>)"
      using True deinit free by (simp add: i2c_open_def scl sda m1 m2 m5 m6 drv init reg Let_def st1)
    moreover have "i2c_inv ?st"
      by (rule i2c_inv_scratch[OF inv idx(2,1)]) (use deinit(2) in \<open>auto simp: i2c_state_zero_def\<close>)
    moreover have "i2c_live ?st = i2c_live st"
      using i2c_live_scratch[of i2c_state_zero st "unat idx"] idx(2) by (simp add: i2c_live_def i2c_state_zero_def)
    ultimately show ?thesis using bi sm by (simp add: i2c_setup_post_def board_inv_def)
  qed
qed

text \<open>A slot written by a refused set-up stays unused, so the refusal is invisible.\<close>

lemma i2c_setup_post_refused:
  assumes inv: "i2c_inv st" and bi: "board_inv b" and k: "k < 3" "\<not> is_in_use (i2c_sensor_states st ! k)"
    and s: "\<not> is_in_use s" "is_regmap s = None" and err: "err \<noteq> ERR_SUCCESS"
  shows "i2c_setup_post st b err PROTO_SENSOR_ID_NONE (st\<lparr>i2c_sensor_states := (i2c_sensor_states st)[k := s]\<rparr>) b"
proof -
  note D = i2c_invD[OF inv]
  have d: "\<not> sl_initialized (i2c_drv st ! k)" using D(3)[OF k(1)] k(2) by (simp add: i2c_slot_ok_def)
  have "i2c_inv (st\<lparr>i2c_sensor_states := (i2c_sensor_states st)[k := s]\<rparr>)"
    using i2c_inv_scratch[OF inv k(2,1) s d] by (cases st) simp
  moreover have "i2c_live (st\<lparr>i2c_sensor_states := (i2c_sensor_states st)[k := s]\<rparr>) = i2c_live st"
    using i2c_live_scratch[OF s(1) k(2)] by (simp add: i2c_live_def)
  ultimately show ?thesis using err bi by (simp add: i2c_setup_post_def)
qed

lemma i2c_setup_post_same: "i2c_inv st \<Longrightarrow> board_inv b \<Longrightarrow> err \<noteq> ERR_SUCCESS \<Longrightarrow> i2c_setup_post st b err PROTO_SENSOR_ID_NONE st b"
  by (simp add: i2c_setup_post_def)

text \<open>The image a set-up stores: zeros, with the preset values over them.\<close>

definition i2c_image :: "nat \<Rightarrow> nat \<Rightarrow> u8 list \<Rightarrow> u8 list" where
  "i2c_image n start vals = take start (replicate n 0) @ vals @ drop (start + length vals) (replicate n 0)"

lemma i2c_fill_block:
  assumes blk: "length blk = n" and v: "len = 0 \<or> unat start + unat len \<le> n \<and> unat len \<le> length src"
  shows "(do { h \<leftarrow> heap_memset0 p n (h(p \<mapsto> blk));
              if len = 0 then Some h else heap_memcpy p (unat start) src (unat len) h })
    = Some (h(p \<mapsto> if len = 0 then replicate n 0 else i2c_image n (unat start) (take (unat len) src)))"
proof -
  have set: "heap_memset0 p n (h(p \<mapsto> blk)) = Some (h(p \<mapsto> replicate n 0))" using blk by (simp add: heap_memset0_def)
  show ?thesis
  proof (cases "len = 0")
    case False
    then have "unat start + unat len \<le> length (replicate n (0 :: u8))" "unat len \<le> length src" using v by auto
    from heap_memcpy_ok[where h = "h(p \<mapsto> replicate n 0)" and p = p, OF _ this] this False show ?thesis
      by (simp add: set i2c_image_def min_absorb2)
  qed (simp add: set)
qed

lemma length_i2c_image: "start + length vals \<le> n \<Longrightarrow> length (i2c_image n start vals) = n"
  by (simp add: i2c_image_def)

lemma i2c_check_fields_regmap [simp]: "i2c_check_fields (s\<lparr>is_regmap := r\<rparr>) = i2c_check_fields s"
  by (cases s) (simp only: i2c_check_fields_def i2c_sensor_state.simps)

text \<open>Set-up once the fields and the preset have been checked.\<close>

lemma i2c_setup_checked:
  assumes inv: "i2c_inv st" and bi: "board_inv b" and malloc: "malloc_spec pvPortMalloc"
    and idx: "i2c_alloc_slot st = idx" "idx \<noteq> 0xFF" "unat idx < 3" "\<not> is_in_use (i2c_sensor_states st ! unat idx)"
    and v: "i2c_validate_cfg cfg cfg_len (i2c_sensor_states st ! unat idx) = Some (Inr s)"
    and w: "i2c_preset cfg cfg_len (is_register_count s) = Some (Inr (start, len))"
    and s: "i2c_check_fields s = ERR_SUCCESS" "\<not> is_in_use s"
    and ok: "len = 0 \<or> unat start + unat len \<le> unat (is_register_count s) \<and> unat len \<le> length (drop 29 cfg)"
  shows "\<exists>err sid st' b'. i2c_sensor_setup M pvPortMalloc cfg cfg_len st b = Some (err, sid, st', b') \<and>
    i2c_setup_post st b err sid st' b'"
proof -
  have f: "fetch (unat idx) (i2c_sensor_states st) = Some (i2c_sensor_states st ! unat idx)"
    using idx(3) i2c_invD(1)[OF inv] by simp
  note su = i2c_sensor_setup_def[of M pvPortMalloc cfg cfg_len st b, unfolded idx(1)]
  let ?n = "unat (is_register_count s)"
  show ?thesis
  proof (cases "pvPortMalloc (is_register_count s) (i2c_heap st)")
    case None
    then have "i2c_sensor_setup M pvPortMalloc cfg cfg_len st b = Some (ERR_OUT_OF_RESOURCES, 0,
        st\<lparr>i2c_sensor_states := (i2c_sensor_states st)[unat idx := s\<lparr>is_regmap := None\<rparr>]\<rparr>, b)"
      using v w f idx(2) by (simp add: su)
    with i2c_setup_post_refused[OF inv bi idx(3,4), of "s\<lparr>is_regmap := None\<rparr>"] s(2) show ?thesis by auto
  next
    case (Some r)
    obtain p blk where r: "r = (p, blk)" by force
    then have p: "i2c_heap st p = None" "length blk = ?n" using malloc Some unfolding malloc_spec_def by auto
    define img where "img = (if len = 0 then replicate ?n 0 else i2c_image ?n (unat start) (take (unat len) (drop 29 cfg)))"
    let ?s = "s\<lparr>is_regmap := Some p\<rparr>"
    let ?st1 = "st\<lparr>i2c_sensor_states := (i2c_sensor_states st)[unat idx := ?s], i2c_heap := (i2c_heap st)(p \<mapsto> img)\<rparr>"
    obtain h0 where h0: "heap_memset0 p ?n ((i2c_heap st)(p \<mapsto> blk)) = Some h0"
      "(if len = 0 then Some h0 else heap_memcpy p (unat start) (drop 29 cfg) (unat len) h0) = Some ((i2c_heap st)(p \<mapsto> img))"
      using i2c_fill_block[OF p(2) ok, of p "i2c_heap st", folded img_def] by (auto split: bind_splits)
    have "i2c_sensor_setup M pvPortMalloc cfg cfg_len st b = i2c_open M idx ?s ?st1 b"
      using v w f idx(2) Some r h0 by (simp add: su Let_def)
    moreover have "length img = unat (is_register_count ?s)" using ok by (auto simp: img_def length_i2c_image)
    ultimately show ?thesis using i2c_open_result[OF inv bi idx(3,4), of ?s p img ?st1 M] s p(1) by auto
  qed
qed

lemma i2c_setup_result:
  assumes inv: "i2c_inv st" and bi: "board_inv b" and len: "unat cfg_len \<le> length cfg" and malloc: "malloc_spec pvPortMalloc"
  shows "\<exists>err sid st' b'. i2c_sensor_setup M pvPortMalloc cfg cfg_len st b = Some (err, sid, st', b') \<and>
    i2c_setup_post st b err sid st' b'"
proof (cases "i2c_alloc_slot st = 0xFF")
  case True
  then have "i2c_sensor_setup M pvPortMalloc cfg cfg_len st b = Some (ERR_I2C_NO_FREE_PERIPHERAL, 0, st, b)"
    by (simp add: i2c_sensor_setup_def)
  with i2c_setup_post_same[OF inv bi] show ?thesis by auto
next
  case False
  note D = i2c_invD[OF inv]
  define idx where "idx = i2c_alloc_slot st"
  have idx: "idx \<noteq> 0xFF" "unat idx < 3" "\<not> is_in_use (i2c_sensor_states st ! unat idx)"
    using i2c_alloc_slot_cases[OF D(1)] False by (auto simp: idx_def)
  note su = i2c_sensor_setup_def[of M pvPortMalloc cfg cfg_len st b, folded idx_def]
  have old: "is_regmap (i2c_sensor_states st ! unat idx) = None" using D(3)[OF idx(2)] idx(3) by (simp add: i2c_slot_ok_def)
  have f: "fetch (unat idx) (i2c_sensor_states st) = Some (i2c_sensor_states st ! unat idx)" using idx(2) D(1) by simp
  obtain v where v: "i2c_validate_cfg cfg cfg_len (i2c_sensor_states st ! unat idx) = Some v"
    using i2c_validate_total[OF len] by blast
  note refused = i2c_setup_post_refused[OF inv bi idx(2,3)]
  show ?thesis
  proof (cases v)
    case (Inl e)
    then have "e \<noteq> ERR_SUCCESS" using i2c_validate_cases[OF v] by simp
    moreover have "i2c_sensor_setup M pvPortMalloc cfg cfg_len st b = Some (e, 0, st, b)"
      using v Inl f idx(1) by (simp add: su)
    ultimately show ?thesis using i2c_setup_post_same[OF inv bi] by auto
  next
    case (Inr s)
    then have s: "i2c_check_fields s = ERR_SUCCESS" "\<not> is_in_use s" "is_regmap s = None" "\<not> cfg_len < 25"
      using i2c_validate_cases[OF v] idx(3) old by auto
    note F = i2c_check_fields_ok[OF s(1)]
    obtain w where w: "i2c_preset cfg cfg_len (is_register_count s) = Some w" using i2c_preset_total[OF len s(4)] by blast
    show ?thesis
    proof (cases w)
      case (Inl e)
      then have "e \<noteq> ERR_SUCCESS" using i2c_preset_error w by simp
      moreover have "i2c_sensor_setup M pvPortMalloc cfg cfg_len st b
          = Some (e, 0, st\<lparr>i2c_sensor_states := (i2c_sensor_states st)[unat idx := s]\<rparr>, b)"
        using v w Inl \<open>v = Inr s\<close> f idx(1) by (simp add: su)
      ultimately show ?thesis using refused[OF s(2,3)] by auto
    next
      case (Inr pre)
      obtain start len' where pre: "pre = (start, len')" by force
      have ok: "len' = 0 \<or> unat start + unat len' \<le> unat (is_register_count s) \<and> unat len' \<le> length (drop 29 cfg)"
        using i2c_preset_ok[of cfg cfg_len "is_register_count s" start len'] w Inr pre F(5) len by auto
      show ?thesis
        using i2c_setup_checked[OF inv bi malloc idx_def[symmetric] idx _ _ s(1,2) ok, of cfg_len M] v w \<open>v = Inr s\<close> Inr pre by simp
    qed
  qed
qed

subsection \<open>Output and stop\<close>

lemma i2c_live_nth: "k < length (i2c_sensor_states st) \<Longrightarrow>
  i2c_live st ! k = (if is_in_use (i2c_sensor_states st ! k) then Some (i2c_sensor_states st ! k) else None)"
  by (simp add: i2c_live_def)

lemma i2c_live_slot:
  assumes inv: "i2c_inv st" and k: "unat k < 3" "i2c_live st ! unat k = Some s"
  shows "fetch (unat k) (i2c_sensor_states st) = Some s" "is_in_use s" "i2c_slot_ok (unat k) s (i2c_drv st ! unat k) (i2c_heap st)"
proof -
  have "unat k < length (i2c_sensor_states st)" using i2c_invD(1)[OF inv] k(1) by simp
  then show "fetch (unat k) (i2c_sensor_states st) = Some s" "is_in_use s"
    "i2c_slot_ok (unat k) s (i2c_drv st ! unat k) (i2c_heap st)"
    using i2c_invD(3)[OF inv k(1)] k(2) by (simp_all add: i2c_live_nth split: if_splits)
qed

text \<open>The register map of a live sensor: its block, and the driver's view of it.\<close>

lemma i2c_live_block:
  assumes "i2c_inv st" "unat k < 3" "i2c_live st ! unat k = Some s"
  obtains p blk where "is_regmap s = Some p" "i2c_heap st p = Some blk" "length blk = unat (is_register_count s)"
    "sl_regmap (i2c_drv st ! unat k) = Some p" "slave_ok (i2c_drv st ! unat k) (i2c_heap st)" "phase_ok (i2c_drv st ! unat k)"
    "unat (is_register_count s) \<le> 1024"
proof -
  have S: "is_regmap s \<noteq> None" "sl_regmap (i2c_drv st ! unat k) = is_regmap s"
    "sl_regmap_len (i2c_drv st ! unat k) = is_register_count s" "slave_ok (i2c_drv st ! unat k) (i2c_heap st)"
    "phase_ok (i2c_drv st ! unat k)" "unat (is_register_count s) \<le> 1024"
    using i2c_live_slot(2,3)[OF assms] by (simp_all add: i2c_slot_ok_def)
  then obtain p where p: "is_regmap s = Some p" by blast
  then obtain blk where "i2c_heap st p = Some blk" "length blk = unat (is_register_count s)"
    using S(2-4) by (auto simp: slave_ok_def)
  with that p S show thesis by metis
qed

lemma i2c_set_output_dead:
  assumes "i2c_inv st" "unat k < 3 \<Longrightarrow> i2c_live st ! unat k = None"
  shows "i2c_sensor_set_output k values values_len st = Some (ERR_INVALID_SENSOR_ID, st)"
  using i2c_invD(1)[OF assms(1)] assms(2) by (cases "unat k < 3") (simp_all add: i2c_sensor_set_output_def i2c_live_nth split: if_splits)

text \<open>The range checks of \<open>set_output\<close> imply that the copy stays inside both arrays.\<close>

lemma i2c_set_output_bounds:
  assumes "\<not> values_len < 4 + n" "\<not> (start > count \<or> n > count - start)" "unat count \<le> 1024" "unat values_len \<le> length values"
  shows "unat start + unat n \<le> unat (count :: u16)" "unat n \<le> length (drop 4 values)"
proof -
  have "start \<le> count" "n \<le> count - start" using assms(2) by auto
  then show le: "unat start + unat n \<le> unat count" by (simp add: word_le_nat_alt unat_sub)
  then have "unat (4 :: u16) + unat n < 65536" using assms(3) by simp
  from u16_header_fits[OF assms(1) this] assms(4) show "unat n \<le> length (drop 4 values)" by simp
qed

lemma i2c_set_output_result:
  assumes inv: "i2c_inv st" and k: "unat k < 3" "i2c_live st ! unat k = Some s"
    and len: "unat values_len \<le> length values"
  shows "\<exists>err st'. i2c_sensor_set_output k values values_len st = Some (err, st') \<and> i2c_inv st' \<and>
    i2c_live st' = i2c_live st \<and> i2c_drv st' = i2c_drv st \<and>
    (if err = ERR_SUCCESS
     then \<exists>start n p blk. read_u16_le values = Some start \<and> read_u16_le (drop 2 values) = Some n \<and> n \<noteq> 0 \<and>
       unat start + unat n \<le> unat (is_register_count s) \<and> unat n \<le> length (drop 4 values) \<and> is_regmap s = Some p \<and> i2c_heap st p = Some blk \<and>
       i2c_heap st' = (i2c_heap st)(p \<mapsto> take (unat start) blk @ take (unat n) (drop 4 values) @ drop (unat start + unat n) blk)
     else st' = st)"
proof -
  note S = i2c_live_slot[OF inv k]
  obtain p blk where p: "is_regmap s = Some p" "i2c_heap st p = Some blk" "length blk = unat (is_register_count s)"
    and count: "unat (is_register_count s) \<le> 1024"
    using i2c_live_block[OF inv k] .
  note su = i2c_sensor_set_output_def[of k "values" values_len st]
  have k3: "\<not> unat k \<ge> 3" using k(1) by simp
  show ?thesis
  proof (cases "values_len < 4")
    case True
    then have "i2c_sensor_set_output k values values_len st = Some (ERR_MALFORMED_PAYLOAD, st)" using S k3 by (simp add: su)
    with inv show ?thesis by auto
  next
    case False
    then have l: "4 \<le> length values" using len by (simp add: word_less_nat_alt)
    obtain start where start: "read_u16_le values = Some start" using read_u16_le_Some[of "values"] l by auto
    have "2 \<le> length (drop 2 values)" using l by simp
    then obtain n where n: "read_u16_le (drop 2 values) = Some n" using read_u16_le_Some by blast
    consider (zero) "n = 0" | (short) "n \<noteq> 0" "values_len < 4 + n"
      | (oob) "n \<noteq> 0" "\<not> values_len < 4 + n" "start > is_register_count s \<or> n > is_register_count s - start"
      | (ok) "n \<noteq> 0" "\<not> values_len < 4 + n" "\<not> (start > is_register_count s \<or> n > is_register_count s - start)" by blast
    then show ?thesis
    proof cases
      case ok
      note B = i2c_set_output_bounds[OF ok(2,3) count len]
      let ?blk = "take (unat start) blk @ take (unat n) (drop 4 values) @ drop (unat start + unat n) blk"
      have cpy: "heap_memcpy p (unat start) (drop 4 values) (unat n) (i2c_heap st) = Some ((i2c_heap st)(p \<mapsto> ?blk))"
        using B p(3) by (intro heap_memcpy_ok[where h = "i2c_heap st" and p = p and blk = blk]) (simp_all add: p(2))
      have "i2c_sensor_set_output k values values_len st = Some (ERR_SUCCESS, st\<lparr>i2c_heap := (i2c_heap st)(p \<mapsto> ?blk)\<rparr>)"
        using S k3 False start n p(1) cpy ok by (simp add: su)
      moreover have "i2c_inv (st\<lparr>i2c_heap := (i2c_heap st)(p \<mapsto> ?blk)\<rparr>)"
        using B p(3) by (intro i2c_inv_heap[OF inv p(2)]) simp
      moreover have "i2c_live (st\<lparr>i2c_heap := (i2c_heap st)(p \<mapsto> ?blk)\<rparr>) = i2c_live st" by (simp add: i2c_live_def)
      ultimately show ?thesis using start n ok(1) B p by (intro exI[of _ ERR_SUCCESS] exI[of _ "st\<lparr>i2c_heap := (i2c_heap st)(p \<mapsto> ?blk)\<rparr>"]) auto
    next
      case zero
      then have "i2c_sensor_set_output k values values_len st = Some (ERR_INVALID_PARAMETER, st)" using S k3 False start n by (simp add: su)
      with inv show ?thesis by auto
    next
      case short
      then have "i2c_sensor_set_output k values values_len st = Some (ERR_MALFORMED_PAYLOAD, st)" using S k3 False start n by (simp add: su)
      with inv show ?thesis by auto
    next
      case oob
      then have "i2c_sensor_set_output k values values_len st = Some (ERR_I2C_REGISTER_OOB, st)" using S k3 False start n by (simp add: su)
      with inv show ?thesis by auto
    qed
  qed
qed

lemma i2c_stop_dead:
  assumes "i2c_inv st" "unat k < 3 \<Longrightarrow> i2c_live st ! unat k = None"
  shows "i2c_sensor_stop M k st b = Some (ERR_INVALID_SENSOR_ID, st, b)"
  using i2c_invD(1)[OF assms(1)] assms(2) by (cases "unat k < 3") (simp_all add: i2c_sensor_stop_def i2c_live_nth split: if_splits)

lemma i2c_stop_live:
  assumes inv: "i2c_inv st" and k: "unat k < 3" "i2c_live st ! unat k = Some s" "is_regmap s = Some p"
  shows "\<exists>st' b'. i2c_sensor_stop M k st b = Some (ERR_SUCCESS, st', b') \<and> i2c_inv st' \<and>
    i2c_live st' = (i2c_live st)[unat k := None] \<and> i2c_heap st' = (i2c_heap st)(p := None) \<and>
    \<not> sl_initialized (i2c_drv st' ! unat k) \<and> bsm b' = bsm b \<and> btimers b' = btimers b"
proof -
  note D = i2c_invD[OF inv] and S = i2c_live_slot[OF inv k(1,2)]
  obtain q blk where "is_regmap s = Some q" "i2c_heap st q = Some blk" using i2c_live_block[OF inv k(1,2)] .
  then have blk: "i2c_heap st p = Some blk" using k(3) by simp
  have pins: "i2c_pins_ok s" and periph: "is_periph s = k"
    using S(2,3) by (simp_all add: i2c_slot_ok_def word_unat_eq_iff)
  obtain scl where scl: "gpio_make_pin (is_scl_port s) (is_scl_pin s) = Some scl" "gpio_pin_ok scl"
    using gpio_make_pin_Some_iff gpio_make_pin_ok pins unfolding i2c_pins_ok_def pin_pos_def by blast
  obtain sda where sda: "gpio_make_pin (is_sda_port s) (is_sda_pin s) = Some sda" "gpio_pin_ok sda"
    using gpio_make_pin_Some_iff gpio_make_pin_ok pins unfolding i2c_pins_ok_def pin_pos_def by blast
  obtain d m1 where m1: "i2c_slave_deinit M k (i2c_drv st) (bmcu b) = (ERR_SUCCESS, (i2c_drv st)[unat k := d], m1)"
    "\<not> sl_initialized d" using i2c_slave_deinit_ok[OF k(1)] by blast
  obtain m2 where m2: "gpio_reset_to_defaults scl m1 = Some m2" using gpio_total(1)[OF scl(2)] by blast
  obtain m3 where m3: "gpio_reset_to_defaults sda m2 = Some m3" using gpio_total(1)[OF sda(2)] by blast
  let ?st = "\<lparr>i2c_sensor_states = (i2c_sensor_states st)[unat k := i2c_state_zero], i2c_drv = (i2c_drv st)[unat k := d],
              i2c_heap = (i2c_heap st)(p := None)\<rparr>"
  have st: "i2c_sensor_states st ! unat k = s" using S(1) D(1) k(1) by simp
  have free: "i2c_free_slot k (st\<lparr>i2c_drv := (i2c_drv st)[unat k := d]\<rparr>) = Some ?st"
    using S(1) k(3) blk by (simp add: i2c_free_slot_def vPortFree_def)
  have "i2c_sensor_stop M k st b = Some (ERR_SUCCESS, ?st, b\<lparr>bmcu := m3\<rparr>)"
    using k(1,3) S(1,2) periph scl(1) sda(1) m1(1) m2 m3 free by (simp add: i2c_sensor_stop_def)
  moreover have "i2c_inv ?st" using i2c_inv_clear[OF inv k(1) _ m1(2)] st k(3) by simp
  moreover have "i2c_live ?st = (i2c_live st)[unat k := None]" by (simp add: i2c_live_def map_update i2c_state_zero_def)
  moreover have "\<not> sl_initialized (i2c_drv ?st ! unat k)" using m1(2) k(1) D(2) by simp
  ultimately show ?thesis by (intro exI[of _ ?st] exI[of _ "b\<lparr>bmcu := m3\<rparr>"]) simp
qed

text \<open>The state at start-up: the arrays are zero, the driver's has the addresses of the peripherals.\<close>

definition i2c_dev_start :: i2c_dev where
  "i2c_dev_start = i2c_sensor_init \<lparr>i2c_sensor_states = replicate I2C_SENSOR_MAX_COUNT i2c_state_zero,
     i2c_drv = i2c_slave_states, i2c_heap = Map.empty\<rparr>"

lemma i2c_inv_start: "i2c_inv i2c_dev_start" "i2c_live i2c_dev_start = replicate 3 None"
proof -
  have states: "i2c_sensor_states i2c_dev_start = replicate 3 (i2c_state_zero\<lparr>is_in_use := False, is_regmap := None\<rparr>)"
    by (simp add: i2c_dev_start_def i2c_sensor_init_def)
  then have zero: "\<not> is_in_use (i2c_sensor_states i2c_dev_start ! i)" "is_regmap (i2c_sensor_states i2c_dev_start ! i) = None"
    if "i < 3" for i using that by simp_all
  have drv: "i2c_drv i2c_dev_start = map i2c_slave_state_init [I2C1, I2C2, I2C3]"
    by (simp add: i2c_dev_start_def i2c_sensor_init_def i2c_slave_states_def)
  then have "\<not> sl_initialized (i2c_drv i2c_dev_start ! i)" if "i < 3" for i
    using that nth_map[of i "[I2C1, I2C2, I2C3]" i2c_slave_state_init] by (simp add: i2c_slave_state_init_def)
  with zero have "i2c_slot_ok i (i2c_sensor_states i2c_dev_start ! i) (i2c_drv i2c_dev_start ! i) (i2c_heap i2c_dev_start)"
    if "i < 3" for i using that by (simp add: i2c_slot_ok_def)
  moreover have "i2c_heap i2c_dev_start = Map.empty" by (simp add: i2c_dev_start_def i2c_sensor_init_def)
  ultimately show "i2c_inv i2c_dev_start" using zero states drv by (simp add: i2c_inv_def i2c_blocks_def)
  show "i2c_live i2c_dev_start = replicate 3 None"
    by (simp add: i2c_live_def i2c_dev_start_def i2c_sensor_init_def i2c_state_zero_def)
qed

subsection \<open>Interrupts\<close>

text \<open>A handler changes the run-time fields of its own entry and the content of its own block.\<close>

lemma i2c_inv_irq:
  assumes inv: "i2c_inv st" and k: "k < 3" "sl_initialized (i2c_drv st ! k)"
    and s: "slave_cfg_of s = slave_cfg_of (i2c_drv st ! k)" "slave_ok s h" "phase_ok s"
    and h: "\<forall>q. Some q \<noteq> sl_regmap (i2c_drv st ! k) \<longrightarrow> h q = i2c_heap st q"
  shows "i2c_inv (st\<lparr>i2c_drv := (i2c_drv st)[k := s], i2c_heap := h\<rparr>)"
proof -
  note D = i2c_invD[OF inv]
  have use: "is_in_use (i2c_sensor_states st ! k)" using D(3)[OF k(1)] k(2) by (auto simp: i2c_slot_ok_def split: if_splits)
  then have K: "sl_regmap (i2c_drv st ! k) = is_regmap (i2c_sensor_states st ! k)" using D(3)[OF k(1)] by (simp add: i2c_slot_ok_def)
  have same: "sl_initialized s" "sl_regmap s = sl_regmap (i2c_drv st ! k)" "sl_regmap_len s = sl_regmap_len (i2c_drv st ! k)"
    using s(1) k(2) by (simp_all add: slave_cfg_of_def)
  obtain p blk where p: "sl_regmap s = Some p" "h p = Some blk" using s(2) by (auto simp: slave_ok_def)
  have "i2c_slot_ok i (i2c_sensor_states st ! i) ((i2c_drv st)[k := s] ! i) h" if i: "i < 3" for i
  proof (cases "i = k")
    case True
    then show ?thesis using D(2) D(3)[OF k(1)] k(1) use same s(2,3) by (simp add: i2c_slot_ok_def)
  next
    case False
    have "is_regmap (i2c_sensor_states st ! i) \<noteq> Some p" using D(4)[OF i k(1)] False p(1) same(2) K by auto
    then have "slave_ok (i2c_drv st ! i) h" if "slave_ok (i2c_drv st ! i) (i2c_heap st)" "sl_regmap (i2c_drv st ! i) = is_regmap (i2c_sensor_states st ! i)"
      using that h p(1) same(2) by (auto simp: slave_ok_def)
    then show ?thesis using False D(3)[OF i] by (auto simp: i2c_slot_ok_def split: if_splits)
  qed
  moreover have "dom h = dom (i2c_heap st)"
  proof (intro set_eqI)
    fix q
    have "p \<in> i2c_blocks st" using K p(1) same(2) k(1) by (auto simp: i2c_blocks_def)
    then have "i2c_heap st p \<noteq> None" using D(5) by auto
    then show "q \<in> dom h \<longleftrightarrow> q \<in> dom (i2c_heap st)" using h p same(2) by (cases "q = p") (auto simp: dom_def)
  qed
  ultimately show ?thesis using inv D(2) by (simp add: i2c_inv_def i2c_blocks_def)
qed

lemma i2c_irq_ok:
  assumes inv: "i2c_inv st" and k: "k < 3" "sl_initialized (i2c_drv st ! k)"
  shows "\<exists>drv h m'. I2C_EV_IRQHandler M k sr1 sr2 dr (i2c_drv st) (i2c_heap st) m = Some (drv, h, m') \<and>
      i2c_inv (st\<lparr>i2c_drv := drv, i2c_heap := h\<rparr>)"
    and "\<exists>drv m'. I2C_ER_IRQHandler k (i2c_drv st) m = (drv, m') \<and> i2c_inv (st\<lparr>i2c_drv := drv\<rparr>)"
proof -
  have S: "slave_ok (i2c_drv st ! k) (i2c_heap st)" "phase_ok (i2c_drv st ! k)"
    using i2c_invD(3)[OF inv k(1)] k(2) by (auto simp: i2c_slot_ok_def split: if_splits)
  obtain s h m' where r: "ev_isr M sr1 sr2 dr (i2c_drv st ! k) (i2c_heap st) m = Some (s, h, m')" "slave_cfg_of s = slave_cfg_of (i2c_drv st ! k)"
    "slave_ok s h" "\<forall>q. Some q \<noteq> sl_regmap (i2c_drv st ! k) \<longrightarrow> h q = i2c_heap st q"
    using ev_isr_ok[OF S(1), of M sr1 sr2 dr m] by blast
  then show "\<exists>drv h m'. I2C_EV_IRQHandler M k sr1 sr2 dr (i2c_drv st) (i2c_heap st) m = Some (drv, h, m') \<and>
      i2c_inv (st\<lparr>i2c_drv := drv, i2c_heap := h\<rparr>)"
    using i2c_inv_irq[OF inv k r(2,3) ev_isr_phase[OF S(2) r(1)] r(4)] by (simp add: I2C_EV_IRQHandler_def)
  obtain s m' where e: "er_isr (i2c_drv st ! k) m = (s, m')" "s = (i2c_drv st ! k)\<lparr>sl_phase := I2C_PHASE_IDLE\<rparr>" by (simp add: er_isr_def Let_def)
  then have "i2c_inv (st\<lparr>i2c_drv := (i2c_drv st)[k := s], i2c_heap := i2c_heap st\<rparr>)"
    using slave_ok_cong[of s "i2c_drv st ! k" "i2c_heap st"] S(1) by (intro i2c_inv_irq[OF inv k]) (simp_all add: phase_ok_def)
  then show "\<exists>drv m'. I2C_ER_IRQHandler k (i2c_drv st) m = (drv, m') \<and> i2c_inv (st\<lparr>i2c_drv := drv\<rparr>)"
    using e(1) by (simp add: I2C_ER_IRQHandler_def)
qed

subsection \<open>Properties\<close>

text \<open>C34: setting up an I2C sensor never traps, whatever bytes the host sends and whether or not
  the heap is exhausted. On success the sensor owns a new heap block shared with the driver and
  a new sensor id; on every error no block is kept, no slot comes into use and no id is given.
  The invariant (one live block per used slot, none leaked, the driver active exactly on used
  slots) is kept.\<close>

theorem i2c_setup_sound:
  assumes "i2c_inv st" "board_inv b" "unat cfg_len \<le> length cfg" "malloc_spec pvPortMalloc"
  shows "\<exists>err sid st' b'. i2c_sensor_setup M pvPortMalloc cfg cfg_len st b = Some (err, sid, st', b') \<and>
    i2c_setup_post st b err sid st' b'"
  by (rule i2c_setup_result[OF assms])

text \<open>An allocator: the least address not in use among the first few, filled with a pattern.\<close>

definition example_malloc :: malloc where
  "example_malloc n h = (case find_index (\<lambda>p. h p = None) [0..<8] of None \<Rightarrow> None | Some p \<Rightarrow> Some (p, replicate (unat n) 0xA5))"

lemma example_malloc_spec: "malloc_spec example_malloc"
proof -
  have "h p = None" if "find_index (\<lambda>p. h p = None) [0..<8] = Some p" for h :: heap and p
    using find_index_hit[OF that] find_index_less[OF that] by simp
  then show ?thesis by (auto simp: malloc_spec_def example_malloc_def split: option.splits)
qed

text \<open>A configuration: 100 kHz, address 0x42, 8-bit register addresses, auto-increment, 4 registers.\<close>

definition example_i2c_cfg :: "u8 list" where
  "example_i2c_cfg = [0xA0, 0x86, 1, 0, 0, 0x42, 0, 0, 0, 0x18, 1, 6, 4, 1, 7, 4, 1, 3, 4, 0, 0, 0, 0, 0, 0]"

lemma example_i2c_cfg_valid:
  "i2c_validate_cfg example_i2c_cfg 25 s = Some (Inr (s\<lparr>is_clock_hz := 100000, is_address_mode := 0,
     is_primary_addr := 0x42, is_secondary_addr := 0, is_flags := 0x18, is_scl_port := 1, is_scl_pin := 6, is_scl_af := 4,
     is_sda_port := 1, is_sda_pin := 7, is_sda_af := 4, is_reg_addr_width := 1, is_auto_inc_mode := 3,
     is_register_count := 4, is_response_delay_us := 0, is_clock_stretch_max_us := 0\<rparr>))"
  by (simp add: i2c_validate_cfg_def example_i2c_cfg_def fetch_def i2c_check_fields_def i2c_check_addr_def)

theorem i2c_setup_sound_witness:
  "\<exists>err sid st' b'. i2c_sensor_setup example_masks example_malloc example_i2c_cfg 25 i2c_dev_start (board_start example_masks)
     = Some (err, sid, st', b') \<and> i2c_setup_post i2c_dev_start (board_start example_masks) err sid st' b'"
proof -
  have "unat (25 :: u16) \<le> length example_i2c_cfg" by (simp add: example_i2c_cfg_def)
  from i2c_setup_sound[OF i2c_inv_start(1) board_inv_start this example_malloc_spec] show ?thesis .
qed

text \<open>The address bytes a transaction on the device begins with.\<close>

definition addr_bytes :: "i2c_slave_state \<Rightarrow> nat" where
  "addr_bytes d = (if sl_reg_addr_width d = I2C_SLAVE_REG_NONE then 0 else if sl_reg_addr_width d = I2C_SLAVE_REG_16 then 2 else 1)"


definition example_i2c_sensor :: i2c_sensor_state where
  "example_i2c_sensor = i2c_state_zero\<lparr>is_in_use := True, is_periph := 1, is_scl_port := 1, is_scl_pin := 10,
     is_sda_port := 1, is_sda_pin := 11, is_register_count := 4, is_regmap := Some 5\<rparr>"

definition example_i2c_dev :: i2c_dev where
  "example_i2c_dev = \<lparr>i2c_sensor_states = (i2c_sensor_states i2c_dev_start)[1 := example_i2c_sensor],
     i2c_drv = (i2c_drv i2c_dev_start)[1 := example_slave], i2c_heap = (i2c_heap i2c_dev_start)(5 \<mapsto> [10, 11, 12, 13])\<rparr>"

lemma example_i2c_dev_ok: "i2c_inv example_i2c_dev" "i2c_live example_i2c_dev ! unat (1 :: u8) = Some example_i2c_sensor"
proof -
  have start: "i2c_heap i2c_dev_start = Map.empty" "length (i2c_sensor_states i2c_dev_start) = 3"
    by (simp_all add: i2c_dev_start_def i2c_sensor_init_def)
  have "\<not> is_in_use (i2c_sensor_states i2c_dev_start ! 1)"
    by (simp add: i2c_dev_start_def i2c_sensor_init_def numeral_3_eq_3)
  then show "i2c_inv example_i2c_dev" unfolding example_i2c_dev_def
    by (intro i2c_inv_store[OF i2c_inv_start(1)])
      (auto simp: start i2c_slot_ok_def slave_ok_def phase_ok_def example_i2c_sensor_def example_slave_def
        i2c_slave_state_init_def i2c_state_zero_def i2c_pins_ok_def pin_pos_def)
  show "i2c_live example_i2c_dev ! unat (1 :: u8) = Some example_i2c_sensor"
    using start(2) by (simp add: i2c_live_nth example_i2c_dev_def example_i2c_sensor_def)
qed


end
