(* ===== verification/Spi_Slave_Sensor.thy ===== *)
theory Spi_Slave_Sensor
  imports Board Spi_Bus
begin

text \<open>
  \<^verbatim>\<open>simulate/spi_slave/src/spi_slave_sensor.c\<close>: simulated SPI sensors, one per SPI peripheral, that
  answer the DUT from a response buffer in the slave driver.
\<close>

subsection \<open>State\<close>

record spi_slave_sensor_state =
  ps_in_use :: bool
  ps_periph :: u8
  ps_miso_pin :: gpio_pin
  ps_sck_pin :: gpio_pin
  ps_nss_pin :: gpio_pin
  ps_mosi_pin :: gpio_pin
  ps_mosi_enabled :: bool

type_synonym sps_dev = "spi_slave_sensor_state list"

definition sps_state_zero :: spi_slave_sensor_state where
  "sps_state_zero = \<lparr>ps_in_use = False, ps_periph = 0, ps_miso_pin = gpio_pin_zero, ps_sck_pin = gpio_pin_zero,
     ps_nss_pin = gpio_pin_zero, ps_mosi_pin = gpio_pin_zero, ps_mosi_enabled = False\<rparr>"

abbreviation (input) SPI_SLAVE_CFG_MIN_SIZE :: u16 where "SPI_SLAVE_CFG_MIN_SIZE \<equiv> 16"
abbreviation (input) SPI_SLAVE_SET_OUTPUT_MIN_SIZE :: u16 where "SPI_SLAVE_SET_OUTPUT_MIN_SIZE \<equiv> 2"
abbreviation (input) SPI_SLAVE_MOSI_PORT_DISABLED :: u8 where "SPI_SLAVE_MOSI_PORT_DISABLED \<equiv> 0xFF"
abbreviation (input) SPI_SLAVE_CFG_OFFSET_SPI_PERIPH :: nat where "SPI_SLAVE_CFG_OFFSET_SPI_PERIPH \<equiv> 0"
abbreviation (input) SPI_SLAVE_CFG_OFFSET_SPI_MODE :: nat where "SPI_SLAVE_CFG_OFFSET_SPI_MODE \<equiv> 1"
abbreviation (input) SPI_SLAVE_CFG_OFFSET_MISO_PORT :: nat where "SPI_SLAVE_CFG_OFFSET_MISO_PORT \<equiv> 2"
abbreviation (input) SPI_SLAVE_CFG_OFFSET_MISO_PIN :: nat where "SPI_SLAVE_CFG_OFFSET_MISO_PIN \<equiv> 3"
abbreviation (input) SPI_SLAVE_CFG_OFFSET_MISO_AF :: nat where "SPI_SLAVE_CFG_OFFSET_MISO_AF \<equiv> 4"
abbreviation (input) SPI_SLAVE_CFG_OFFSET_SCK_PORT :: nat where "SPI_SLAVE_CFG_OFFSET_SCK_PORT \<equiv> 5"
abbreviation (input) SPI_SLAVE_CFG_OFFSET_SCK_PIN :: nat where "SPI_SLAVE_CFG_OFFSET_SCK_PIN \<equiv> 6"
abbreviation (input) SPI_SLAVE_CFG_OFFSET_SCK_AF :: nat where "SPI_SLAVE_CFG_OFFSET_SCK_AF \<equiv> 7"
abbreviation (input) SPI_SLAVE_CFG_OFFSET_NSS_PORT :: nat where "SPI_SLAVE_CFG_OFFSET_NSS_PORT \<equiv> 8"
abbreviation (input) SPI_SLAVE_CFG_OFFSET_NSS_PIN :: nat where "SPI_SLAVE_CFG_OFFSET_NSS_PIN \<equiv> 9"
abbreviation (input) SPI_SLAVE_CFG_OFFSET_NSS_AF :: nat where "SPI_SLAVE_CFG_OFFSET_NSS_AF \<equiv> 10"
abbreviation (input) SPI_SLAVE_CFG_OFFSET_MOSI_PORT :: nat where "SPI_SLAVE_CFG_OFFSET_MOSI_PORT \<equiv> 11"
abbreviation (input) SPI_SLAVE_CFG_OFFSET_MOSI_PIN :: nat where "SPI_SLAVE_CFG_OFFSET_MOSI_PIN \<equiv> 12"
abbreviation (input) SPI_SLAVE_CFG_OFFSET_MOSI_AF :: nat where "SPI_SLAVE_CFG_OFFSET_MOSI_AF \<equiv> 13"
abbreviation (input) SPI_SLAVE_CFG_OFFSET_TX_BUF_LEN :: nat where "SPI_SLAVE_CFG_OFFSET_TX_BUF_LEN \<equiv> 14"
abbreviation (input) SPI_SLAVE_CFG_OFFSET_TX_BUF :: nat where "SPI_SLAVE_CFG_OFFSET_TX_BUF \<equiv> 16"
abbreviation (input) SPI_SLAVE_SET_OUTPUT_OFFSET_TX_BUF :: nat where "SPI_SLAVE_SET_OUTPUT_OFFSET_TX_BUF \<equiv> 2"

subsection \<open>Configuration\<close>

record sps_cfg =
  pf_periph :: u8
  pf_mode :: u8
  pf_miso_port :: u8
  pf_miso_pin :: u8
  pf_miso_af :: u8
  pf_sck_port :: u8
  pf_sck_pin :: u8
  pf_sck_af :: u8
  pf_nss_port :: u8
  pf_nss_pin :: u8
  pf_nss_af :: u8
  pf_mosi_port :: u8
  pf_mosi_pin :: u8
  pf_mosi_af :: u8
  pf_tx_buf_len :: u16

definition sps_read_cfg :: "u8 list \<Rightarrow> sps_cfg option" where
  "sps_read_cfg cfg =
     do {
       spi_periph \<leftarrow> fetch SPI_SLAVE_CFG_OFFSET_SPI_PERIPH cfg;
       spi_mode \<leftarrow> fetch SPI_SLAVE_CFG_OFFSET_SPI_MODE cfg;
       miso_port \<leftarrow> fetch SPI_SLAVE_CFG_OFFSET_MISO_PORT cfg;
       miso_pin \<leftarrow> fetch SPI_SLAVE_CFG_OFFSET_MISO_PIN cfg;
       miso_af \<leftarrow> fetch SPI_SLAVE_CFG_OFFSET_MISO_AF cfg;
       sck_port \<leftarrow> fetch SPI_SLAVE_CFG_OFFSET_SCK_PORT cfg;
       sck_pin \<leftarrow> fetch SPI_SLAVE_CFG_OFFSET_SCK_PIN cfg;
       sck_af \<leftarrow> fetch SPI_SLAVE_CFG_OFFSET_SCK_AF cfg;
       nss_port \<leftarrow> fetch SPI_SLAVE_CFG_OFFSET_NSS_PORT cfg;
       nss_pin \<leftarrow> fetch SPI_SLAVE_CFG_OFFSET_NSS_PIN cfg;
       nss_af \<leftarrow> fetch SPI_SLAVE_CFG_OFFSET_NSS_AF cfg;
       mosi_port \<leftarrow> fetch SPI_SLAVE_CFG_OFFSET_MOSI_PORT cfg;
       mosi_pin \<leftarrow> fetch SPI_SLAVE_CFG_OFFSET_MOSI_PIN cfg;
       mosi_af \<leftarrow> fetch SPI_SLAVE_CFG_OFFSET_MOSI_AF cfg;
       tx_buf_len \<leftarrow> read_u16_le (drop SPI_SLAVE_CFG_OFFSET_TX_BUF_LEN cfg);
       Some \<lparr>pf_periph = spi_periph, pf_mode = spi_mode, pf_miso_port = miso_port, pf_miso_pin = miso_pin, pf_miso_af = miso_af,
         pf_sck_port = sck_port, pf_sck_pin = sck_pin, pf_sck_af = sck_af, pf_nss_port = nss_port, pf_nss_pin = nss_pin,
         pf_nss_af = nss_af, pf_mosi_port = mosi_port, pf_mosi_pin = mosi_pin, pf_mosi_af = mosi_af, pf_tx_buf_len = tx_buf_len\<rparr>
     }"

definition pf_mosi_en :: "sps_cfg \<Rightarrow> bool" where
  "pf_mosi_en c \<longleftrightarrow> pf_mosi_port c \<noteq> SPI_SLAVE_MOSI_PORT_DISABLED"

definition sps_cfg_invalid :: "sps_cfg \<Rightarrow> bool" where
  "sps_cfg_invalid c \<longleftrightarrow>
     pf_periph c \<ge> SPI_PERIPH_COUNT \<or> pf_mode c > SPI_MODE_MAX \<or>
     pf_miso_port c > GPIO_PORT_MAX \<or> pf_miso_pin c > GPIO_PIN_MAX \<or> pf_miso_af c = 0 \<or> pf_miso_af c > GPIO_AF_MAX \<or>
     pf_sck_port c > GPIO_PORT_MAX \<or> pf_sck_pin c > GPIO_PIN_MAX \<or> pf_sck_af c = 0 \<or> pf_sck_af c > GPIO_AF_MAX \<or>
     pf_nss_port c > GPIO_PORT_MAX \<or> pf_nss_pin c > GPIO_PIN_MAX \<or> pf_nss_af c = 0 \<or> pf_nss_af c > GPIO_AF_MAX \<or>
     (pf_mosi_en c \<and> (pf_mosi_port c > GPIO_PORT_MAX \<or> pf_mosi_pin c > GPIO_PIN_MAX \<or>
                      pf_mosi_af c = 0 \<or> pf_mosi_af c > GPIO_AF_MAX)) \<or>
     pf_tx_buf_len c = 0 \<or> pf_tx_buf_len c > ucast SPI_SLAVE_TX_BUF_MAX"

subsection \<open>Handlers\<close>

definition sensor_teardown :: "cmsis \<Rightarrow> nat \<Rightarrow> spi_bus \<Rightarrow> sps_dev \<Rightarrow> mcu \<Rightarrow> (spi_bus \<times> sps_dev \<times> mcu) option" where
  "sensor_teardown M k bus d m =
     do {
       s \<leftarrow> fetch k d;
       let (_, sl, slaves, m) = spi_slave_deinit M (ps_periph s) (sb_slots bus) (sb_slaves bus) m;
       m \<leftarrow> spi_pins_reset (ps_miso_pin s) (ps_sck_pin s) (ps_nss_pin s) (ps_mosi_pin s) (ps_mosi_enabled s) m;
       Some (bus\<lparr>sb_slots := sl, sb_slaves := slaves\<rparr>, d[k := s\<lparr>ps_in_use := False\<rparr>], m)
     }"

definition spi_slave_sensor_init :: "sps_dev \<Rightarrow> sps_dev" where
  "spi_slave_sensor_init d = replicate 2 sps_state_zero"

definition sps_pins_configure ::
    "cmsis \<Rightarrow> sps_cfg \<Rightarrow> mcu \<Rightarrow> (gpio_pin \<times> gpio_pin \<times> gpio_pin \<times> gpio_pin \<times> mcu) option" where
  "sps_pins_configure M c m =
     do {
       miso \<leftarrow> gpio_make_pin (pf_miso_port c) (pf_miso_pin c);
       sck \<leftarrow> gpio_make_pin (pf_sck_port c) (pf_sck_pin c);
       nss \<leftarrow> gpio_make_pin (pf_nss_port c) (pf_nss_pin c);
       m \<leftarrow> gpio_configure_af (spi_af_config miso (pf_miso_af c)) (gpio_enable_clock M (pf_miso_port c) m);
       m \<leftarrow> gpio_configure_af (spi_af_config sck (pf_sck_af c)) (gpio_enable_clock M (pf_sck_port c) m);
       m \<leftarrow> gpio_configure_af (spi_af_config nss (pf_nss_af c)) (gpio_enable_clock M (pf_nss_port c) m);
       (mosi, m) \<leftarrow>
         (if pf_mosi_en c then do {
            mosi \<leftarrow> gpio_make_pin (pf_mosi_port c) (pf_mosi_pin c);
            m \<leftarrow> gpio_configure_af (spi_af_config mosi (pf_mosi_af c)) (gpio_enable_clock M (pf_mosi_port c) m);
            Some (mosi, m)
          } else Some (gpio_pin_zero, m));
       Some (miso, sck, nss, mosi, m)
     }"

text \<open>Set-up once the configuration has been accepted and the slot is free.\<close>

definition sps_open ::
    "cmsis \<Rightarrow> sps_cfg \<Rightarrow> u8 list \<Rightarrow> spi_bus \<Rightarrow> sps_dev \<Rightarrow> board \<Rightarrow> (err_code \<times> u8 \<times> spi_bus \<times> sps_dev \<times> board) option" where
  "sps_open M c tx_data bus d b =
     do {
       let k = unat (pf_periph c);
       (miso, sck, nss, mosi, m) \<leftarrow> sps_pins_configure M c (bmcu b);
       case spi_slave_init M (pf_periph c) (pf_mode c) (sb_slots bus) (sb_slaves bus) m of (err, sl, slaves, m) \<Rightarrow>
         if err \<noteq> ERR_SUCCESS
         then do {
           m \<leftarrow> spi_pins_reset miso sck nss mosi (pf_mosi_en c) m;
           Some (err, PROTO_SENSOR_ID_NONE, bus\<lparr>sb_slots := sl, sb_slaves := slaves\<rparr>, d, b\<lparr>bmcu := m\<rparr>)
         }
         else do {
           (err, slaves, m) \<leftarrow> spi_slave_set_tx M (pf_periph c) tx_data (ucast (pf_tx_buf_len c)) slaves m;
           if err \<noteq> ERR_SUCCESS
           then do {
             let (_, sl, slaves, m) = spi_slave_deinit M (pf_periph c) sl slaves m;
             m \<leftarrow> spi_pins_reset miso sck nss mosi (pf_mosi_en c) m;
             Some (err, PROTO_SENSOR_ID_NONE, bus\<lparr>sb_slots := sl, sb_slaves := slaves\<rparr>, d, b\<lparr>bmcu := m\<rparr>)
           }
           else do {
             let bus = bus\<lparr>sb_slots := sl, sb_slaves := slaves\<rparr>;
             let d = d[k := \<lparr>ps_in_use = True, ps_periph = pf_periph c, ps_miso_pin = miso, ps_sck_pin = sck,
                             ps_nss_pin = nss, ps_mosi_pin = mosi, ps_mosi_enabled = pf_mosi_en c\<rparr>];
             (sid, sm) \<leftarrow> sensor_manager_register PROTO_ID_SPI (pf_periph c) (bsm b);
             if sid = PROTO_SENSOR_ID_NONE
             then do {
               (bus, d, m) \<leftarrow> sensor_teardown M k bus d m;
               Some (ERR_OUT_OF_RESOURCES, PROTO_SENSOR_ID_NONE, bus, d, b\<lparr>bmcu := m, bsm := sm\<rparr>)
             }
             else Some (ERR_SUCCESS, sid, bus, d, b\<lparr>bmcu := m, bsm := sm\<rparr>)
           }
         }
     }"

definition spi_slave_sensor_setup ::
    "cmsis \<Rightarrow> u8 list \<Rightarrow> u16 \<Rightarrow> spi_bus \<Rightarrow> sps_dev \<Rightarrow> board \<Rightarrow> (err_code \<times> u8 \<times> spi_bus \<times> sps_dev \<times> board) option" where
  "spi_slave_sensor_setup M cfg cfg_len bus d b =
     (if cfg_len < SPI_SLAVE_CFG_MIN_SIZE then Some (ERR_MALFORMED_PAYLOAD, PROTO_SENSOR_ID_NONE, bus, d, b)
      else do {
        c \<leftarrow> sps_read_cfg cfg;
        if cfg_len < SPI_SLAVE_CFG_MIN_SIZE + pf_tx_buf_len c then Some (ERR_MALFORMED_PAYLOAD, PROTO_SENSOR_ID_NONE, bus, d, b)
        else if sps_cfg_invalid c then Some (ERR_INVALID_PARAMETER, PROTO_SENSOR_ID_NONE, bus, d, b)
        else do {
          s \<leftarrow> fetch (unat (pf_periph c)) d;
          if ps_in_use s then Some (ERR_PERIPHERAL_BUSY, PROTO_SENSOR_ID_NONE, bus, d, b)
          else sps_open M c (drop SPI_SLAVE_CFG_OFFSET_TX_BUF cfg) bus d b
        }
      })"

definition spi_slave_sensor_set_output ::
    "cmsis \<Rightarrow> u8 \<Rightarrow> u8 list \<Rightarrow> u16 \<Rightarrow> spi_bus \<Rightarrow> sps_dev \<Rightarrow> mcu \<Rightarrow> (err_code \<times> spi_bus \<times> mcu) option" where
  "spi_slave_sensor_set_output M internal_id values values_len bus d m =
     (if internal_id \<ge> SPI_PERIPH_COUNT then Some (ERR_INVALID_SENSOR_ID, bus, m)
      else do {
        s \<leftarrow> fetch (unat internal_id) d;
        if \<not> ps_in_use s then Some (ERR_INVALID_SENSOR_ID, bus, m)
        else if values_len < SPI_SLAVE_SET_OUTPUT_MIN_SIZE then Some (ERR_MALFORMED_PAYLOAD, bus, m)
        else do {
          tx_buf_len \<leftarrow> read_u16_le values;
          if values_len < SPI_SLAVE_SET_OUTPUT_MIN_SIZE + tx_buf_len then Some (ERR_MALFORMED_PAYLOAD, bus, m)
          else if tx_buf_len = 0 \<or> tx_buf_len > ucast SPI_SLAVE_TX_BUF_MAX then Some (ERR_INVALID_PARAMETER, bus, m)
          else do {
            (err, slaves, m) \<leftarrow> spi_slave_set_tx M (ps_periph s) (drop SPI_SLAVE_SET_OUTPUT_OFFSET_TX_BUF values) (ucast tx_buf_len) (sb_slaves bus) m;
            Some (err, bus\<lparr>sb_slaves := slaves\<rparr>, m)
          }
        }
      })"

definition spi_slave_sensor_stop ::
    "cmsis \<Rightarrow> u8 \<Rightarrow> spi_bus \<Rightarrow> sps_dev \<Rightarrow> mcu \<Rightarrow> (err_code \<times> spi_bus \<times> sps_dev \<times> mcu) option" where
  "spi_slave_sensor_stop M internal_id bus d m =
     (if internal_id \<ge> SPI_PERIPH_COUNT then Some (ERR_INVALID_SENSOR_ID, bus, d, m)
      else do {
        s \<leftarrow> fetch (unat internal_id) d;
        if \<not> ps_in_use s then Some (ERR_INVALID_SENSOR_ID, bus, d, m)
        else do {
          (bus, d, m) \<leftarrow> sensor_teardown M (unat internal_id) bus d m;
          Some (ERR_SUCCESS, bus, d, m)
        }
      })"

subsection \<open>Invariant\<close>

text \<open>A slot is in use exactly when the slave driver serves its peripheral; its pins are valid.\<close>

definition sps_slot_ok :: "nat \<Rightarrow> spi_slave_sensor_state \<Rightarrow> bool" where
  "sps_slot_ok k s \<longleftrightarrow> unat (ps_periph s) = k \<and> gpio_pin_ok (ps_miso_pin s) \<and> gpio_pin_ok (ps_sck_pin s) \<and>
     gpio_pin_ok (ps_nss_pin s) \<and> (ps_mosi_enabled s \<longrightarrow> gpio_pin_ok (ps_mosi_pin s))"

definition sps_inv :: "spi_bus \<Rightarrow> sps_dev \<Rightarrow> bool" where
  "sps_inv bus d \<longleftrightarrow> length d = 2 \<and>
     (\<forall>k<2. ps_in_use (d ! k) = ss_initialized (sb_slaves bus ! k) \<and> (ps_in_use (d ! k) \<longrightarrow> sps_slot_ok k (d ! k)))"

lemma sps_invD:
  assumes "sps_inv bus d"
  shows "length d = 2" "k < 2 \<Longrightarrow> ps_in_use (d ! k) = ss_initialized (sb_slaves bus ! k)"
    and "k < 2 \<Longrightarrow> ps_in_use (d ! k) \<Longrightarrow> sps_slot_ok k (d ! k)"
  using assms unfolding sps_inv_def by blast+

definition sps_live :: "sps_dev \<Rightarrow> u8 set" where
  "sps_live d = {i. unat i < 2 \<and> ps_in_use (d ! unat i)}"

text \<open>The other SPI users leave the slave driver's flags alone.\<close>

lemma sps_inv_frame:
  "sps_inv bus d \<Longrightarrow> \<forall>k<2. ss_initialized (sb_slaves bus' ! k) = ss_initialized (sb_slaves bus ! k) \<Longrightarrow> sps_inv bus' d"
  by (simp add: sps_inv_def)

lemma sps_live_update:
  assumes "length d = 2" "unat i < 2"
  shows "sps_live (d[unat i := s]) = (if ps_in_use s then insert i (sps_live d) else sps_live d - {i})"
proof -
  have "d[unat i := s] ! unat j = (if j = i then s else d ! unat j)" if "unat j < 2" for j
    using that assms by (simp add: nth_list_update word_unat_eq_iff)
  then have "j \<in> sps_live (d[unat i := s]) \<longleftrightarrow> j \<in> (if ps_in_use s then insert i (sps_live d) else sps_live d - {i})" for j
    using assms(2) by (cases "unat j < 2") (auto simp: sps_live_def)
  then show ?thesis by blast
qed

text \<open>A peripheral changes hands together with its slot.\<close>

lemma sps_inv_update:
  assumes "sps_inv bus d" "spi_bus_inv bus" "k < 2" "ps_in_use s = ss_initialized ss" "ps_in_use s \<longrightarrow> sps_slot_ok k s"
    and "sb_slaves bus' = (sb_slaves bus)[k := ss]"
  shows "sps_inv bus' (d[k := s])"
proof -
  note D = sps_invD[OF assms(1)] and B = spi_bus_invD(3)[OF assms(2)]
  have "ps_in_use (d[k := s] ! j) = ss_initialized (sb_slaves bus' ! j) \<and> (ps_in_use (d[k := s] ! j) \<longrightarrow> sps_slot_ok j (d[k := s] ! j))"
    if "j < 2" for j
    using D(2,3)[OF that] D(1) B that assms(3-6) by (cases "j = k") simp_all
  then show ?thesis using D(1) by (simp add: sps_inv_def)
qed

subsection \<open>Handlers keep it\<close>

lemma sps_cfg_valid:
  assumes "\<not> sps_cfg_invalid c"
  shows "unat (pf_periph c) < 2" "pf_mode c \<le> 3" "pf_tx_buf_len c \<noteq> 0" "unat (pf_tx_buf_len c) \<le> 64"
    "\<And>m. \<exists>miso sck nss mosi m'. sps_pins_configure M c m = Some (miso, sck, nss, mosi, m') \<and>
       gpio_pin_ok miso \<and> gpio_pin_ok sck \<and> gpio_pin_ok nss \<and> (pf_mosi_en c \<longrightarrow> gpio_pin_ok mosi)"
proof -
  have v: "\<not> pf_periph c \<ge> 2" "pf_mode c \<le> 3" "pf_miso_port c \<le> 5" "pf_miso_pin c \<le> 15" "pf_miso_af c \<le> 15"
    "pf_sck_port c \<le> 5" "pf_sck_pin c \<le> 15" "pf_sck_af c \<le> 15" "pf_nss_port c \<le> 5" "pf_nss_pin c \<le> 15" "pf_nss_af c \<le> 15"
    "pf_mosi_en c \<longrightarrow> pf_mosi_port c \<le> 5 \<and> pf_mosi_pin c \<le> 15 \<and> pf_mosi_af c \<le> 15" "pf_tx_buf_len c \<noteq> 0" "\<not> pf_tx_buf_len c > 64"
    using assms unfolding sps_cfg_invalid_def by (auto simp: not_less)
  show "unat (pf_periph c) < 2" using v(1) by (simp add: spi_periph_less)
  show "pf_mode c \<le> 3" "pf_tx_buf_len c \<noteq> 0" by fact+
  show "unat (pf_tx_buf_len c) \<le> 64" using v(14) by (simp add: word_less_nat_alt)
  fix m
  obtain miso where miso: "gpio_make_pin (pf_miso_port c) (pf_miso_pin c) = Some miso" "gpio_pin_ok miso" using gpio_make_pin_pos v(3,4) .
  obtain sck where sck: "gpio_make_pin (pf_sck_port c) (pf_sck_pin c) = Some sck" "gpio_pin_ok sck" using gpio_make_pin_pos v(6,7) .
  obtain nss where nss: "gpio_make_pin (pf_nss_port c) (pf_nss_pin c) = Some nss" "gpio_pin_ok nss" using gpio_make_pin_pos v(9,10) .
  obtain m1 where m1: "gpio_configure_af (spi_af_config miso (pf_miso_af c)) (gpio_enable_clock M (pf_miso_port c) m) = Some m1"
    using spi_af_total miso(2) v(5) .
  obtain m2 where m2: "gpio_configure_af (spi_af_config sck (pf_sck_af c)) (gpio_enable_clock M (pf_sck_port c) m1) = Some m2"
    using spi_af_total sck(2) v(8) .
  obtain m3 where m3: "gpio_configure_af (spi_af_config nss (pf_nss_af c)) (gpio_enable_clock M (pf_nss_port c) m2) = Some m3"
    using spi_af_total nss(2) v(11) .
  show "\<exists>miso sck nss mosi m'. sps_pins_configure M c m = Some (miso, sck, nss, mosi, m') \<and>
       gpio_pin_ok miso \<and> gpio_pin_ok sck \<and> gpio_pin_ok nss \<and> (pf_mosi_en c \<longrightarrow> gpio_pin_ok mosi)"
  proof (cases "pf_mosi_en c")
    case True
    then obtain mosi where mosi: "gpio_make_pin (pf_mosi_port c) (pf_mosi_pin c) = Some mosi" "gpio_pin_ok mosi"
      using gpio_make_pin_pos v(12) by blast
    obtain m4 where m4: "gpio_configure_af (spi_af_config mosi (pf_mosi_af c)) (gpio_enable_clock M (pf_mosi_port c) m3) = Some m4"
      using spi_af_total mosi(2) v(12) True by blast
    show ?thesis using miso sck nss mosi m1 m2 m3 m4 True by (simp add: sps_pins_configure_def)
  next
    case False
    show ?thesis using miso sck nss m1 m2 m3 False by (simp add: sps_pins_configure_def)
  qed
qed

definition sps_setup_post ::
    "spi_bus \<Rightarrow> sps_dev \<Rightarrow> board \<Rightarrow> err_code \<Rightarrow> u8 \<Rightarrow> spi_bus \<Rightarrow> sps_dev \<Rightarrow> board \<Rightarrow> bool" where
  "sps_setup_post bus d b err sid bus' d' b' \<longleftrightarrow>
     spi_bus_inv bus' \<and> sps_inv bus' d' \<and> board_inv b' \<and> btimers b' = btimers b \<and> sb_masters bus' = sb_masters bus \<and>
     (if err = ERR_SUCCESS
      then \<exists>i. i \<notin> sps_live d \<and> \<not> sp_in_use (sb_slots bus ! unat i) \<and> sps_live d' = insert i (sps_live d) \<and>
        sid \<noteq> PROTO_SENSOR_ID_NONE \<and> sm_table (bsm b) sid = None \<and>
        sm_table (bsm b') = (sm_table (bsm b))(sid \<mapsto> (PROTO_ID_SPI, i))
      else sid = PROTO_SENSOR_ID_NONE \<and> sps_live d' = sps_live d \<and> bsm b' = bsm b)"

lemma sps_setup_post_same:
  "spi_bus_inv bus \<Longrightarrow> sps_inv bus d \<Longrightarrow> board_inv b \<Longrightarrow> err \<noteq> ERR_SUCCESS \<Longrightarrow>
   sps_setup_post bus d b err PROTO_SENSOR_ID_NONE bus d (b\<lparr>bmcu := m\<rparr>)"
  by (simp add: sps_setup_post_def board_inv_def)

lemma sps_setup_postI:
  assumes "spi_bus_inv bus'" "sps_inv bus' d'" "board_inv b'" "btimers b' = btimers b" "sb_masters bus' = sb_masters bus"
    and "i \<notin> sps_live d" "\<not> sp_in_use (sb_slots bus ! unat i)" "sps_live d' = insert i (sps_live d)" "sid \<noteq> 0" "sm_table (bsm b) sid = None"
    and "sm_table (bsm b') = (sm_table (bsm b))(sid \<mapsto> (PROTO_ID_SPI, i))"
  shows "sps_setup_post bus d b ERR_SUCCESS sid bus' d' b'"
  unfolding sps_setup_post_def using assms by (simp only: if_True simp_thms) blast

lemma sensor_teardown_ok:
  assumes B: "spi_bus_inv bus" and inv: "sps_inv bus d" and k: "k < 2" "ps_in_use (d ! k)"
  shows "\<exists>bus' m'. sensor_teardown M k bus d m = Some (bus', d[k := (d ! k)\<lparr>ps_in_use := False\<rparr>], m') \<and> spi_bus_inv bus' \<and>
    sps_inv bus' (d[k := (d ! k)\<lparr>ps_in_use := False\<rparr>]) \<and> sb_masters bus' = sb_masters bus \<and>
    \<not> sp_in_use (sb_slots bus' ! k)"
proof -
  let ?s = "d ! k"
  note D = spi_bus_invD[OF B] and S = sps_invD(3)[OF inv k, unfolded sps_slot_ok_def]
  have f: "fetch k d = Some ?s" using sps_invD(1)[OF inv] k(1) by simp
  have per: "unat (ps_periph ?s) < 2" using S k(1) by simp
  define sl where "sl = (sb_slots bus ! k)\<lparr>sp_in_use := False, sp_isr_fn := None, sp_isr_ctx := None\<rparr>"
  define ss where "ss = (sb_slaves bus ! k)\<lparr>ss_initialized := False, ss_tx_len := 0, ss_tx_idx := 0\<rparr>"
  obtain m1 where m1: "spi_slave_deinit M (ps_periph ?s) (sb_slots bus) (sb_slaves bus) m =
      (ERR_SUCCESS, (sb_slots bus)[k := sl], (sb_slaves bus)[k := ss], m1)"
    using slave_deinit_ok[OF per, of M "sb_slots bus" "sb_slaves bus" m] S by (auto simp: sl_def ss_def)
  obtain m2 where m2: "spi_pins_reset (ps_miso_pin ?s) (ps_sck_pin ?s) (ps_nss_pin ?s) (ps_mosi_pin ?s) (ps_mosi_enabled ?s) m1 = Some m2"
    using spi_pins_reset_total S by blast
  let ?bus = "bus\<lparr>sb_slots := (sb_slots bus)[k := sl], sb_slaves := (sb_slaves bus)[k := ss]\<rparr>"
  have "sensor_teardown M k bus d m = Some (?bus, d[k := ?s\<lparr>ps_in_use := False\<rparr>], m2)"
    using f m1 m2 by (simp add: sensor_teardown_def)
  moreover have init: "ss_initialized (sb_slaves bus ! k)" using sps_invD(2)[OF inv k(1)] k(2) by simp
  have "spi_slot_ok k sl (sb_masters bus ! k) ss"
    using D(4)[OF k(1)] init by (auto simp: spi_slot_ok_def sl_def ss_def split: if_splits spi_role.splits)
  then have "spi_bus_inv ?bus" using spi_bus_inv_update[OF B k(1), of sl "sb_masters bus ! k" ss] by (cases bus) simp
  moreover have "sps_inv ?bus (d[k := ?s\<lparr>ps_in_use := False\<rparr>])"
    by (rule sps_inv_update[OF inv B k(1), where ss = ss]) (simp_all add: ss_def)
  moreover have "\<not> sp_in_use (sb_slots ?bus ! k)" using D(1) k(1) by (simp add: sl_def)
  ultimately show ?thesis by (intro exI[of _ ?bus] exI[of _ m2]) simp
qed

lemma sps_open_result:
  assumes B: "spi_bus_inv bus" and inv: "sps_inv bus d" and bi: "board_inv b" and c: "\<not> sps_cfg_invalid c"
    and free: "\<not> ps_in_use (d ! unat (pf_periph c))" and len: "unat (pf_tx_buf_len c) \<le> length tx_data"
  shows "\<exists>err sid bus' d' b'. sps_open M c tx_data bus d b = Some (err, sid, bus', d', b') \<and> sps_setup_post bus d b err sid bus' d' b'"
proof -
  define k where "k = unat (pf_periph c)"
  note V = sps_cfg_valid(1-4)[OF c] sps_cfg_valid(5)[OF c, where M = M] and D = spi_bus_invD[OF B]
  have k: "k < 2" using V(1) by (simp add: k_def)
  have S: "sm_inv (bsm b)" using bi by (simp add: board_inv_def)
  obtain miso sck nss mosi m1 where cfg: "sps_pins_configure M c (bmcu b) = Some (miso, sck, nss, mosi, m1)"
    and pins: "gpio_pin_ok miso" "gpio_pin_ok sck" "gpio_pin_ok nss" "pf_mosi_en c \<longrightarrow> gpio_pin_ok mosi" using V(5) by blast
  have slave_off: "\<not> ss_initialized (sb_slaves bus ! k)" using sps_invD(2)[OF inv k] free by (simp add: k_def)
  show ?thesis
  proof (cases "sp_in_use (sb_slots bus ! k)")
    case True
    have init: "spi_slave_init M (pf_periph c) (pf_mode c) (sb_slots bus) (sb_slaves bus) m1 = (ERR_PERIPHERAL_BUSY, sb_slots bus, sb_slaves bus, m1)"
      using slave_init_cases[OF V(1,2), of M "sb_slots bus" "sb_slaves bus" m1] True by (simp add: k_def)
    obtain m2 where "spi_pins_reset miso sck nss mosi (pf_mosi_en c) m1 = Some m2" using spi_pins_reset_total pins by blast
    then have "sps_open M c tx_data bus d b = Some (ERR_PERIPHERAL_BUSY, 0, bus, d, b\<lparr>bmcu := m2\<rparr>)"
      using cfg init by (simp add: sps_open_def)
    with sps_setup_post_same[OF B inv bi] show ?thesis by auto
  next
    case False
    define sl where "sl = \<lparr>sp_in_use = True, sp_role = SPI_ROLE_SLAVE, sp_isr_fn = Some ISR_spi_slave_isr, sp_isr_ctx = Some k\<rparr>"
    define s1 where "s1 = (sb_slaves bus ! k)\<lparr>ss_tx_idx := 0, ss_initialized := True\<rparr>"
    obtain m2 where init: "spi_slave_init M (pf_periph c) (pf_mode c) (sb_slots bus) (sb_slaves bus) m1 =
        (ERR_SUCCESS, (sb_slots bus)[k := sl], (sb_slaves bus)[k := s1], m2)"
      using slave_init_cases[OF V(1,2), of M "sb_slots bus" "sb_slaves bus" m1] False by (auto simp: k_def sl_def s1_def)
    have old: "length (ss_tx_buf (sb_slaves bus ! k)) = 64" "\<not> ms_initialized (sb_masters bus ! k)" "\<not> ms_busy (sb_masters bus ! k)"
      using D(4)[OF k] False by (auto simp: spi_slot_ok_def)
    have n: "unat (ucast (pf_tx_buf_len c) :: u8) = unat (pf_tx_buf_len c)"
      using V(4) by (simp add: unsigned_ucast_eq take_bit_nat_eq_self_iff)
    then have nz: "(ucast (pf_tx_buf_len c) :: u8) \<noteq> 0" using V(3) by (metis unat_eq_zero)
    have len64: "length (ss_tx_buf s1) = 64" using old(1) by (simp add: s1_def)
    obtain s2 m3 where tx: "spi_slave_set_tx M (pf_periph c) tx_data (ucast (pf_tx_buf_len c)) ((sb_slaves bus)[k := s1]) m2 =
        Some (ERR_SUCCESS, (sb_slaves bus)[k := s2], m3)" "ss_initialized s2" "length (ss_tx_buf s2) = 64" "unat (ss_tx_len s2) \<le> 64"
      using slave_set_tx_ok[OF V(1), of "(sb_slaves bus)[k := s1]" "ucast (pf_tx_buf_len c)" tx_data M m2] nz n len V(4) D(3) k len64
      by (fastforce simp: k_def[symmetric] s1_def)
    obtain sid sm where reg: "sensor_manager_register PROTO_ID_SPI (pf_periph c) (bsm b) = Some (sid, sm)"
      using register_total[of PROTO_ID_SPI "pf_periph c" "bsm b"] by auto
    define s where "s = \<lparr>ps_in_use = True, ps_periph = pf_periph c, ps_miso_pin = miso, ps_sck_pin = sck,
                             ps_nss_pin = nss, ps_mosi_pin = mosi, ps_mosi_enabled = pf_mosi_en c\<rparr>"
    let ?bus = "bus\<lparr>sb_slots := (sb_slots bus)[k := sl], sb_slaves := (sb_slaves bus)[k := s2]\<rparr>"
    have "spi_slot_ok k sl (sb_masters bus ! k) s2" using tx(2-4) old by (simp add: spi_slot_ok_def sl_def)
    then have B': "spi_bus_inv ?bus" using spi_bus_inv_update[OF B k, of sl "sb_masters bus ! k" s2] by (cases bus) simp
    have inv': "sps_inv ?bus (d[k := s])"
      by (rule sps_inv_update[OF inv B k, where ss = s2]) (use tx(2) pins in \<open>simp_all add: s_def sps_slot_ok_def k_def\<close>)
    have notlive: "pf_periph c \<notin> sps_live d" using free by (simp add: sps_live_def)
    have live: "sps_live (d[k := s]) = insert (pf_periph c) (sps_live d)"
      using sps_live_update[of d "pf_periph c" s] sps_invD(1)[OF inv] V(1) by (simp add: k_def s_def)
    show ?thesis
    proof (cases "sid = 0")
      case False
      note A = register_accepted[OF S reg False]
      have "sps_open M c tx_data bus d b = Some (ERR_SUCCESS, sid, ?bus, d[k := s], b\<lparr>bmcu := m3, bsm := sm\<rparr>)"
        using cfg init tx(1) reg False by (simp add: sps_open_def k_def[symmetric] s_def[symmetric])
      moreover have "sps_setup_post bus d b ERR_SUCCESS sid ?bus (d[k := s]) (b\<lparr>bmcu := m3, bsm := sm\<rparr>)"
        by (rule sps_setup_postI[where i = "pf_periph c"])
          (use B' inv' A bi notlive live \<open>\<not> sp_in_use (sb_slots bus ! k)\<close> False in \<open>simp_all add: board_inv_def k_def\<close>)
      ultimately show ?thesis by blast
    next
      case True
      have sm: "sm = bsm b" using register_refused[OF S] reg True by simp
      have use: "ps_in_use (d[k := s] ! k)" using k sps_invD(1)[OF inv] by (simp add: s_def)
      obtain bus2 m4 where td: "sensor_teardown M k ?bus (d[k := s]) m3 =
          Some (bus2, d[k := s, k := (d[k := s] ! k)\<lparr>ps_in_use := False\<rparr>], m4)"
        "spi_bus_inv bus2" "sps_inv bus2 (d[k := s, k := (d[k := s] ! k)\<lparr>ps_in_use := False\<rparr>])" "sb_masters bus2 = sb_masters ?bus"
        using sensor_teardown_ok[OF B' inv' k use] by blast
      let ?d = "d[k := s, k := (d[k := s] ! k)\<lparr>ps_in_use := False\<rparr>]"
      have "sps_open M c tx_data bus d b = Some (ERR_OUT_OF_RESOURCES, 0, bus2, ?d, b\<lparr>bmcu := m4, bsm := sm\<rparr>)"
        using cfg init tx(1) reg True td(1) by (simp add: sps_open_def k_def[symmetric] s_def[symmetric])
      moreover have "sps_live ?d = sps_live d"
        using sps_live_update[of d "pf_periph c"] sps_invD(1)[OF inv] V(1) notlive by (simp add: k_def)
      ultimately show ?thesis using td(2-4) bi sm by (simp add: sps_setup_post_def board_inv_def)
    qed
  qed
qed

lemma sps_read_cfg_total:
  assumes "16 \<le> length cfg"
  shows "\<exists>c. sps_read_cfg cfg = Some c"
proof -
  have "\<exists>v. read_u16_le (drop 14 cfg) = Some v" using assms by (intro read_u16_le_Some) simp
  moreover have "cfg \<noteq> []" using assms by auto
  ultimately show ?thesis using assms by (auto simp: sps_read_cfg_def)
qed

lemma sps_setup_result:
  assumes B: "spi_bus_inv bus" and inv: "sps_inv bus d" and bi: "board_inv b" and len: "unat cfg_len \<le> length cfg"
  shows "\<exists>err sid bus' d' b'. spi_slave_sensor_setup M cfg cfg_len bus d b = Some (err, sid, bus', d', b') \<and>
    sps_setup_post bus d b err sid bus' d' b'"
proof -
  note su = spi_slave_sensor_setup_def[of M cfg cfg_len bus d b]
  have refuse: ?thesis if "spi_slave_sensor_setup M cfg cfg_len bus d b = Some (err, 0, bus, d, b)" "err \<noteq> ERR_SUCCESS" for err
    using that sps_setup_post_same[OF B inv bi that(2), of "bmcu b"] by auto
  show ?thesis
  proof (cases "cfg_len < 16")
    case True then show ?thesis by (intro refuse[of ERR_MALFORMED_PAYLOAD]) (simp_all add: su)
  next
    case False
    then have "16 \<le> length cfg" using len by (simp add: word_less_nat_alt)
    then obtain c where c: "sps_read_cfg cfg = Some c" using sps_read_cfg_total by blast
    consider (short) "cfg_len < 16 + pf_tx_buf_len c" | (bad) "\<not> cfg_len < 16 + pf_tx_buf_len c" "sps_cfg_invalid c"
      | (ok) "\<not> cfg_len < 16 + pf_tx_buf_len c" "\<not> sps_cfg_invalid c" by blast
    then show ?thesis
    proof cases
      case short then show ?thesis using False c by (intro refuse[of ERR_MALFORMED_PAYLOAD]) (simp_all add: su)
    next
      case bad then show ?thesis using False c by (intro refuse[of ERR_INVALID_PARAMETER]) (simp_all add: su)
    next
      case ok
      note V = sps_cfg_valid(1-4)[OF ok(2)]
      have f: "fetch (unat (pf_periph c)) d = Some (d ! unat (pf_periph c))" using V(1) sps_invD(1)[OF inv] by simp
      have "unat (16 :: u16) + unat (pf_tx_buf_len c) < 65536" using V(4) by simp
      from u16_header_fits[OF ok(1) this] len have tx: "unat (pf_tx_buf_len c) \<le> length (drop 16 cfg)" by simp
      show ?thesis
      proof (cases "ps_in_use (d ! unat (pf_periph c))")
        case True then show ?thesis using False c ok f by (intro refuse[of ERR_PERIPHERAL_BUSY]) (simp_all add: su)
      next
        case free: False
        have "spi_slave_sensor_setup M cfg cfg_len bus d b = sps_open M c (drop 16 cfg) bus d b" using False c ok f free by (simp add: su)
        then show ?thesis using sps_open_result[OF B inv bi ok(2) free tx, of M] by simp
      qed
    qed
  qed
qed

text \<open>A live sensor has its peripheral, initialised as a slave.\<close>

lemma sps_live_slot:
  assumes "spi_bus_inv bus" "sps_inv bus d" "i \<in> sps_live d"
  shows "\<not> 2 \<le> i" "fetch (unat i) d = Some (d ! unat i)" "ps_in_use (d ! unat i)" "ps_periph (d ! unat i) = i" "unat i < 2"
    "ss_initialized (sb_slaves bus ! unat i)" "length (ss_tx_buf (sb_slaves bus ! unat i)) = 64"
proof -
  show i: "unat i < 2" "ps_in_use (d ! unat i)" using assms(3) by (simp_all add: sps_live_def)
  show "\<not> 2 \<le> i" using i(1) by (simp add: spi_periph_less)
  show "fetch (unat i) d = Some (d ! unat i)" using i(1) sps_invD(1)[OF assms(2)] by simp
  show "ps_periph (d ! unat i) = i" using sps_invD(3)[OF assms(2) i] by (simp add: sps_slot_ok_def word_unat_eq_iff)
  show "ss_initialized (sb_slaves bus ! unat i)" using sps_invD(2)[OF assms(2) i(1)] i(2) by simp
  show "length (ss_tx_buf (sb_slaves bus ! unat i)) = 64" using spi_bus_invD(4)[OF assms(1) i(1)] by (simp add: spi_slot_ok_def)
qed

lemma sps_dead:
  assumes "sps_inv bus d" "i \<notin> sps_live d"
  shows "spi_slave_sensor_set_output M i values n bus d m = Some (ERR_INVALID_SENSOR_ID, bus, m)"
    and "spi_slave_sensor_stop M i bus d m = Some (ERR_INVALID_SENSOR_ID, bus, d, m)"
  using assms sps_invD(1)[OF assms(1)] spi_periph_less[of i]
  by (auto simp: spi_slave_sensor_set_output_def spi_slave_sensor_stop_def sps_live_def)

lemma sps_set_output_result:
  assumes B: "spi_bus_inv bus" and inv: "sps_inv bus d" and i: "i \<in> sps_live d" and len: "unat values_len \<le> length values"
  shows "\<exists>err bus' m'. spi_slave_sensor_set_output M i values values_len bus d m = Some (err, bus', m') \<and> spi_bus_inv bus' \<and>
    sps_inv bus' d \<and> sb_masters bus' = sb_masters bus \<and> sb_slots bus' = sb_slots bus \<and>
    (if err = ERR_SUCCESS
     then \<exists>n. read_u16_le values = Some n \<and> n \<noteq> 0 \<and> unat n \<le> 64 \<and> unat n \<le> length (drop 2 values) \<and>
       spi_slave_set_tx M i (drop 2 values) (ucast n) (sb_slaves bus) m = Some (ERR_SUCCESS, sb_slaves bus', m')
     else bus' = bus \<and> m' = m)"
proof -
  note L = sps_live_slot[OF B inv i] and su = spi_slave_sensor_set_output_def[of M i "values" values_len bus d m]
  have refuse: ?thesis if "spi_slave_sensor_set_output M i values values_len bus d m = Some (err, bus, m)" "err \<noteq> ERR_SUCCESS" for err
    using that B inv by auto
  show ?thesis
  proof (cases "values_len < 2")
    case True then show ?thesis using L by (intro refuse[of ERR_MALFORMED_PAYLOAD]) (simp_all add: su)
  next
    case False
    then have "2 \<le> length values" using len by (simp add: word_less_nat_alt)
    then obtain n where n: "read_u16_le values = Some n" using read_u16_le_Some by blast
    consider (short) "values_len < 2 + n" | (bad) "\<not> values_len < 2 + n" "n = 0 \<or> n > 64"
      | (ok) "\<not> values_len < 2 + n" "\<not> (n = 0 \<or> n > 64)" by blast
    then show ?thesis
    proof cases
      case short then show ?thesis using False n L by (intro refuse[of ERR_MALFORMED_PAYLOAD]) (simp_all add: su)
    next
      case bad then show ?thesis using False n L by (intro refuse[of ERR_INVALID_PARAMETER]) (auto simp: su)
    next
      case ok
      have n64: "unat n \<le> 64" "n \<noteq> 0" using ok(2) by (auto simp: word_less_nat_alt)
      then have "unat (2 :: u16) + unat n < 65536" by simp
      from u16_header_fits[OF ok(1) this] len have tx: "unat n \<le> length (drop 2 values)" by simp
      have u: "unat (ucast n :: u8) = unat n" using n64(1) by (simp add: unsigned_ucast_eq take_bit_nat_eq_self_iff)
      then have nz: "(ucast n :: u8) \<noteq> 0" using n64(2) by (metis unat_eq_zero)
      obtain s m' where set: "spi_slave_set_tx M i (drop 2 values) (ucast n) (sb_slaves bus) m = Some (ERR_SUCCESS, (sb_slaves bus)[unat i := s], m')"
        "ss_initialized s" "length (ss_tx_buf s) = 64" "unat (ss_tx_len s) \<le> 64"
        using slave_set_tx_ok[OF L(5-7), of "ucast n" "drop 2 values" M m] nz u n64 tx by auto
      let ?bus = "bus\<lparr>sb_slaves := (sb_slaves bus)[unat i := s]\<rparr>"
      have "spi_slave_sensor_set_output M i values values_len bus d m = Some (ERR_SUCCESS, ?bus, m')"
        using False n L ok set(1) by (simp add: su)
      moreover have "spi_slot_ok (unat i) (sb_slots bus ! unat i) (sb_masters bus ! unat i) s"
        using spi_bus_invD(4)[OF B L(5)] set(2-4) L(6) by (simp add: spi_slot_ok_def split: spi_role.splits if_splits)
      then have "spi_bus_inv ?bus"
        using spi_bus_inv_update[OF B L(5), of "sb_slots bus ! unat i" "sb_masters bus ! unat i" s] by (cases bus) simp
      moreover have "sps_inv ?bus d"
        by (rule sps_inv_frame[OF inv]) (use set(2) L spi_bus_invD(3)[OF B] in \<open>auto simp: nth_list_update\<close>)
      ultimately show ?thesis using n n64 tx set(1) by (intro exI[of _ ERR_SUCCESS] exI[of _ ?bus] exI[of _ m']) simp
    qed
  qed
qed

lemma sps_stop_result:
  assumes B: "spi_bus_inv bus" and inv: "sps_inv bus d" and i: "i \<in> sps_live d"
  shows "\<exists>bus' d' m'. spi_slave_sensor_stop M i bus d m = Some (ERR_SUCCESS, bus', d', m') \<and> spi_bus_inv bus' \<and> sps_inv bus' d' \<and>
    sb_masters bus' = sb_masters bus \<and> sps_live d' = sps_live d - {i} \<and> \<not> sp_in_use (sb_slots bus' ! unat i)"
proof -
  note L = sps_live_slot[OF B inv i]
  let ?d = "d[unat i := (d ! unat i)\<lparr>ps_in_use := False\<rparr>]"
  obtain bus' m' where td: "sensor_teardown M (unat i) bus d m = Some (bus', ?d, m')" "spi_bus_inv bus'" "sps_inv bus' ?d"
    "sb_masters bus' = sb_masters bus" "\<not> sp_in_use (sb_slots bus' ! unat i)"
    using sensor_teardown_ok[OF B inv L(5,3)] by blast
  then have "spi_slave_sensor_stop M i bus d m = Some (ERR_SUCCESS, bus', ?d, m')" using L by (simp add: spi_slave_sensor_stop_def)
  moreover have "sps_live ?d = sps_live d - {i}" using sps_live_update[of d i] sps_invD(1)[OF inv] L(5) by simp
  ultimately show ?thesis using td by blast
qed

end
