(* ===== verification/Firmware.thy ===== *)
theory Firmware
  imports Protocol_Encoder Pwm_Sensor Digital_Out I2c_Sensor Dac_Sensor Spi_Slave_Sensor
begin

text \<open>
  The firmware as one state: the static variables of every module the command dispatcher reaches.
  Each backend's three entry points are lifted to this state, and the contract the dispatcher relies
  on is the locale \<open>sensor_backend\<close>, interpreted on all five backends.
\<close>

subsection \<open>State\<close>

record firmware =
  fw_board :: board
  fw_uart :: uart
  fw_i2c :: i2c_dev
  fw_dout :: digital_out
  fw_pwm :: pwm_sensor
  fw_bus :: spi_bus
  fw_dac :: dac_dev
  fw_sps :: sps_dev

text \<open>
  What the code outside the repository contributes to the handling of one command: the register
  masks, the kernel's answers, the allocator, the content of the stack frame the encoder uses, and
  the SPI interrupts that occur during the two waits a set-up may contain.
\<close>

record env =
  ev_masks :: cmsis
  ev_rtos :: rtos
  ev_malloc :: malloc
  ev_junk :: "u8 list"
  ev_irqs1 :: "(nat \<times> u32) list"
  ev_irqs2 :: "(nat \<times> u32) list"

definition env_ok :: "env \<Rightarrow> bool" where
  "env_ok E \<longleftrightarrow> malloc_spec (ev_malloc E) \<and> length (ev_junk E) = 10 \<and>
     (\<forall>irq\<in>set (ev_irqs1 E). fst irq < 2) \<and> (\<forall>irq\<in>set (ev_irqs2 E). fst irq < 2) \<and> sem_spec (ev_rtos E) \<and> timer_spec (ev_rtos E)"

subsection \<open>The backends on the firmware state\<close>

definition fw_i2c_setup :: "env \<Rightarrow> u8 list \<Rightarrow> u16 \<Rightarrow> firmware \<Rightarrow> (err_code \<times> u8 \<times> firmware) option" where
  "fw_i2c_setup E cfg cfg_len w =
     do {
       (err, sid, st, b) \<leftarrow> i2c_sensor_setup (ev_masks E) (ev_malloc E) cfg cfg_len (fw_i2c w) (fw_board w);
       Some (err, sid, w\<lparr>fw_i2c := st, fw_board := b\<rparr>)
     }"

definition fw_i2c_set_output :: "env \<Rightarrow> u8 \<Rightarrow> u8 list \<Rightarrow> u16 \<Rightarrow> firmware \<Rightarrow> (err_code \<times> firmware) option" where
  "fw_i2c_set_output E i vals vals_len w =
     do { (err, st) \<leftarrow> i2c_sensor_set_output i vals vals_len (fw_i2c w); Some (err, w\<lparr>fw_i2c := st\<rparr>) }"

definition fw_i2c_stop :: "env \<Rightarrow> u8 \<Rightarrow> firmware \<Rightarrow> (err_code \<times> firmware) option" where
  "fw_i2c_stop E i w =
     do {
       (err, st, b) \<leftarrow> i2c_sensor_stop (ev_masks E) i (fw_i2c w) (fw_board w);
       Some (err, w\<lparr>fw_i2c := st, fw_board := b\<rparr>)
     }"

definition fw_dout_setup :: "env \<Rightarrow> u8 list \<Rightarrow> u16 \<Rightarrow> firmware \<Rightarrow> (err_code \<times> u8 \<times> firmware) option" where
  "fw_dout_setup E cfg cfg_len w =
     do {
       (err, sid, st, b) \<leftarrow> digital_out_sensor_setup (ev_masks E) cfg cfg_len (fw_dout w) (fw_board w);
       Some (err, sid, w\<lparr>fw_dout := st, fw_board := b\<rparr>)
     }"

definition fw_dout_set_output :: "env \<Rightarrow> u8 \<Rightarrow> u8 list \<Rightarrow> u16 \<Rightarrow> firmware \<Rightarrow> (err_code \<times> firmware) option" where
  "fw_dout_set_output E i vals vals_len w =
     do {
       (err, st, b) \<leftarrow> digital_out_sensor_set_output (ev_masks E) (ev_rtos E) i vals vals_len (fw_dout w) (fw_board w);
       Some (err, w\<lparr>fw_dout := st, fw_board := b\<rparr>)
     }"

definition fw_dout_stop :: "env \<Rightarrow> u8 \<Rightarrow> firmware \<Rightarrow> (err_code \<times> firmware) option" where
  "fw_dout_stop E i w =
     do { (err, st, b) \<leftarrow> digital_out_sensor_stop i (fw_dout w) (fw_board w); Some (err, w\<lparr>fw_dout := st, fw_board := b\<rparr>) }"

definition fw_pwm_setup :: "env \<Rightarrow> u8 list \<Rightarrow> u16 \<Rightarrow> firmware \<Rightarrow> (err_code \<times> u8 \<times> firmware) option" where
  "fw_pwm_setup E cfg cfg_len w =
     do {
       (err, sid, st, b) \<leftarrow> pwm_sensor_setup (ev_masks E) cfg cfg_len (fw_pwm w) (fw_board w);
       Some (err, sid, w\<lparr>fw_pwm := st, fw_board := b\<rparr>)
     }"

definition fw_pwm_set_output :: "env \<Rightarrow> u8 \<Rightarrow> u8 list \<Rightarrow> u16 \<Rightarrow> firmware \<Rightarrow> (err_code \<times> firmware) option" where
  "fw_pwm_set_output E i vals vals_len w =
     do { (err, b) \<leftarrow> pwm_sensor_set_output i vals vals_len (fw_pwm w) (fw_board w); Some (err, w\<lparr>fw_board := b\<rparr>) }"

definition fw_pwm_stop :: "env \<Rightarrow> u8 \<Rightarrow> firmware \<Rightarrow> (err_code \<times> firmware) option" where
  "fw_pwm_stop E i w =
     do {
       (err, st, b) \<leftarrow> pwm_sensor_stop (ev_masks E) i (fw_pwm w) (fw_board w);
       Some (err, w\<lparr>fw_pwm := st, fw_board := b\<rparr>)
     }"

definition fw_dac_setup :: "env \<Rightarrow> u8 list \<Rightarrow> u16 \<Rightarrow> firmware \<Rightarrow> (err_code \<times> u8 \<times> firmware) option" where
  "fw_dac_setup E cfg cfg_len w =
     do {
       (err, sid, bus, d, b) \<leftarrow> dac_sensor_setup (ev_masks E) (ev_rtos E) (ev_irqs1 E) (ev_irqs2 E) cfg cfg_len
          (fw_bus w) (fw_dac w) (fw_board w);
       Some (err, sid, w\<lparr>fw_bus := bus, fw_dac := d, fw_board := b\<rparr>)
     }"

definition fw_dac_set_output :: "env \<Rightarrow> u8 \<Rightarrow> u8 list \<Rightarrow> u16 \<Rightarrow> firmware \<Rightarrow> (err_code \<times> firmware) option" where
  "fw_dac_set_output E i vals vals_len w =
     do {
       (err, bus, d, m) \<leftarrow> dac_sensor_set_output (ev_masks E) (ev_rtos E) (ev_irqs1 E) i vals vals_len
          (fw_bus w) (fw_dac w) (bmcu (fw_board w));
       Some (err, w\<lparr>fw_bus := bus, fw_dac := d, fw_board := (fw_board w)\<lparr>bmcu := m\<rparr>\<rparr>)
     }"

definition fw_dac_stop :: "env \<Rightarrow> u8 \<Rightarrow> firmware \<Rightarrow> (err_code \<times> firmware) option" where
  "fw_dac_stop E i w =
     do {
       (err, bus, d, m) \<leftarrow> dac_sensor_stop (ev_masks E) i (fw_bus w) (fw_dac w) (bmcu (fw_board w));
       Some (err, w\<lparr>fw_bus := bus, fw_dac := d, fw_board := (fw_board w)\<lparr>bmcu := m\<rparr>\<rparr>)
     }"

definition fw_spi_setup :: "env \<Rightarrow> u8 list \<Rightarrow> u16 \<Rightarrow> firmware \<Rightarrow> (err_code \<times> u8 \<times> firmware) option" where
  "fw_spi_setup E cfg cfg_len w =
     do {
       (err, sid, bus, d, b) \<leftarrow> spi_slave_sensor_setup (ev_masks E) cfg cfg_len (fw_bus w) (fw_sps w) (fw_board w);
       Some (err, sid, w\<lparr>fw_bus := bus, fw_sps := d, fw_board := b\<rparr>)
     }"

definition fw_spi_set_output :: "env \<Rightarrow> u8 \<Rightarrow> u8 list \<Rightarrow> u16 \<Rightarrow> firmware \<Rightarrow> (err_code \<times> firmware) option" where
  "fw_spi_set_output E i vals vals_len w =
     do {
       (err, bus, m) \<leftarrow> spi_slave_sensor_set_output (ev_masks E) i vals vals_len (fw_bus w) (fw_sps w) (bmcu (fw_board w));
       Some (err, w\<lparr>fw_bus := bus, fw_board := (fw_board w)\<lparr>bmcu := m\<rparr>\<rparr>)
     }"

definition fw_spi_stop :: "env \<Rightarrow> u8 \<Rightarrow> firmware \<Rightarrow> (err_code \<times> firmware) option" where
  "fw_spi_stop E i w =
     do {
       (err, bus, d, m) \<leftarrow> spi_slave_sensor_stop (ev_masks E) i (fw_bus w) (fw_sps w) (bmcu (fw_board w));
       Some (err, w\<lparr>fw_bus := bus, fw_sps := d, fw_board := (fw_board w)\<lparr>bmcu := m\<rparr>\<rparr>)
     }"

subsection \<open>Invariant\<close>

definition i2c_ids :: "i2c_dev \<Rightarrow> u8 set" where
  "i2c_ids st = {i. unat i < 3 \<and> i2c_live st ! unat i \<noteq> None}"

definition dout_ids :: "digital_out \<Rightarrow> u8 set" where
  "dout_ids st = {i. unat i < 8 \<and> do_in_use (do_states st ! unat i)}"

definition pwm_ids :: "pwm_sensor \<Rightarrow> u8 set" where
  "pwm_ids st = {i. unat i < 28 \<and> pw_in_use (pw_states st ! unat i)}"

text \<open>The live sensors of all backends, as the sensor table names them.\<close>

definition fw_ids :: "u8 \<Rightarrow> firmware \<Rightarrow> u8 set" where
  "fw_ids p w =
     (if p = PROTO_ID_I2C then i2c_ids (fw_i2c w) else if p = PROTO_ID_SPI then sps_live (fw_sps w)
      else if p = PROTO_ID_DIGITAL_OUT then dout_ids (fw_dout w) else if p = PROTO_ID_DAC then dac_live (fw_dac w)
      else if p = PROTO_ID_PWM then pwm_ids (fw_pwm w) else {})"

definition fw_live :: "firmware \<Rightarrow> (u8 \<times> u8) set" where
  "fw_live w = {(p, i). i \<in> fw_ids p w}"

lemma fw_live_insert:
  assumes "fw_ids p w' = insert i (fw_ids p w)" "\<And>q. q \<noteq> p \<Longrightarrow> fw_ids q w' = fw_ids q w"
  shows "fw_live w' = insert (p, i) (fw_live w)"
proof -
  have "x \<in> fw_ids q w' \<longleftrightarrow> (q, x) = (p, i) \<or> x \<in> fw_ids q w" for q x using assms by (cases "q = p") auto
  then show ?thesis by (auto simp: fw_live_def)
qed

lemma fw_live_remove:
  assumes "fw_ids p w' = fw_ids p w - {i}" "\<And>q. q \<noteq> p \<Longrightarrow> fw_ids q w' = fw_ids q w"
  shows "fw_live w' = fw_live w - {(p, i)}"
proof -
  have "x \<in> fw_ids q w' \<longleftrightarrow> (q, x) \<noteq> (p, i) \<and> x \<in> fw_ids q w" for q x using assms by (cases "q = p") auto
  then show ?thesis by (auto simp: fw_live_def)
qed

lemma fw_live_same: "(\<And>q. fw_ids q w' = fw_ids q w) \<Longrightarrow> fw_live w' = fw_live w"
  by (simp add: fw_live_def)

abbreviation fw_table :: "firmware \<Rightarrow> u8 \<Rightarrow> (u8 \<times> u8) option" where
  "fw_table w \<equiv> sm_table (bsm (fw_board w))"

text \<open>Every backend's invariant, on the state they share.\<close>

definition fw_core :: "firmware \<Rightarrow> bool" where
  "fw_core w \<longleftrightarrow> uart_inv (fw_uart w) \<and> i2c_inv (fw_i2c w) \<and> do_inv (fw_dout w) (fw_board w) \<and>
     pwm_inv (fw_pwm w) (fw_board w) \<and> spi_bus_inv (fw_bus w) \<and> dac_inv (fw_bus w) (fw_dac w) \<and>
     dac_settled (fw_dac w) \<and> sps_inv (fw_bus w) (fw_sps w)"

lemma fw_coreD:
  assumes "fw_core w"
  shows "uart_inv (fw_uart w)" "i2c_inv (fw_i2c w)" "do_inv (fw_dout w) (fw_board w)" "pwm_inv (fw_pwm w) (fw_board w)"
    "spi_bus_inv (fw_bus w)" "dac_inv (fw_bus w) (fw_dac w)" "dac_settled (fw_dac w)" "sps_inv (fw_bus w) (fw_sps w)"
    "board_inv (fw_board w)"
  using assms by (simp_all add: fw_core_def do_inv_def)

subsection \<open>The contract of a backend\<close>

text \<open>The sensor table and the live slots agree: every id names one live slot, and none is named twice or not at all.\<close>

definition table_sync :: "(u8 \<Rightarrow> (u8 \<times> u8) option) \<Rightarrow> (u8 \<times> u8) set \<Rightarrow> bool" where
  "table_sync T L \<longleftrightarrow> inj_on T (dom T) \<and> ran T = L"

lemma table_sync_add:
  assumes "table_sync T L" "T sid = None" "v \<notin> L"
  shows "table_sync (T(sid \<mapsto> v)) (insert v L)"
proof -
  have "T x \<noteq> Some v" for x using assms by (auto simp: table_sync_def ran_def)
  then have "inj_on (T(sid \<mapsto> v)) (dom (T(sid \<mapsto> v)))"
    using assms(1) by (auto simp: table_sync_def inj_on_def dom_def)
  then show ?thesis using assms by (auto simp: table_sync_def ran_map_upd)
qed

lemma table_sync_remove:
  assumes "table_sync T L" "T sid = Some v"
  shows "table_sync (T(sid := None)) (L - {v})"
proof -
  have uniq: "x = sid" if "T x = Some v" for x
    using assms that unfolding table_sync_def inj_on_def by (metis domI)
  have "inj_on (T(sid := None)) (dom (T(sid := None)))"
    using assms(1) by (auto simp: table_sync_def inj_on_def dom_def)
  moreover have "y \<in> ran (T(sid := None)) \<longleftrightarrow> y \<in> L - {v}" for y
  proof -
    have "y \<in> L \<longleftrightarrow> (\<exists>x. T x = Some y)" using assms(1) by (auto simp: table_sync_def ran_def)
    moreover have "y \<in> ran (T(sid := None)) \<longleftrightarrow> (\<exists>x. x \<noteq> sid \<and> T x = Some y)" by (auto simp: ran_def)
    ultimately show ?thesis using uniq assms(2) by (metis Diff_iff option.inject singletonD singletonI)
  qed
  ultimately show ?thesis unfolding table_sync_def by blast
qed

text \<open>
  What the dispatcher relies on: a set-up call returns, and adds exactly one live slot with a fresh
  sensor id or nothing; an output call leaves slots and table alone; stopping a live slot succeeds
  and removes exactly it. \<open>link\<close> is the part of the state no backend touches.
\<close>

locale sensor_backend =
  fixes pid :: u8
    and core :: "'w \<Rightarrow> bool"
    and live :: "'w \<Rightarrow> (u8 \<times> u8) set"
    and table :: "'w \<Rightarrow> u8 \<Rightarrow> (u8 \<times> u8) option"
    and link :: "'w \<Rightarrow> 'u"
    and ok :: "'e \<Rightarrow> bool"
    and setup_fn :: "'e \<Rightarrow> u8 list \<Rightarrow> u16 \<Rightarrow> 'w \<Rightarrow> (err_code \<times> u8 \<times> 'w) option"
    and output_fn :: "'e \<Rightarrow> u8 \<Rightarrow> u8 list \<Rightarrow> u16 \<Rightarrow> 'w \<Rightarrow> (err_code \<times> 'w) option"
    and stop_fn :: "'e \<Rightarrow> u8 \<Rightarrow> 'w \<Rightarrow> (err_code \<times> 'w) option"
  assumes setup_law: "core w \<Longrightarrow> ok e \<Longrightarrow> unat n \<le> length cfg \<Longrightarrow>
      \<exists>err sid w'. setup_fn e cfg n w = Some (err, sid, w') \<and> core w' \<and> link w' = link w \<and>
        (if err = ERR_SUCCESS
         then sid \<noteq> PROTO_SENSOR_ID_NONE \<and> table w sid = None \<and>
           (\<exists>i. (pid, i) \<notin> live w \<and> live w' = insert (pid, i) (live w) \<and> table w' = (table w)(sid \<mapsto> (pid, i)))
         else sid = PROTO_SENSOR_ID_NONE \<and> live w' = live w \<and> table w' = table w)"
    and output_law: "core w \<Longrightarrow> ok e \<Longrightarrow> unat n \<le> length vals \<Longrightarrow> (pid, i) \<in> live w \<Longrightarrow>
      \<exists>err w'. output_fn e i vals n w = Some (err, w') \<and> core w' \<and> link w' = link w \<and> live w' = live w \<and> table w' = table w"
    and stop_law: "core w \<Longrightarrow> ok e \<Longrightarrow> (pid, i) \<in> live w \<Longrightarrow>
      \<exists>w'. stop_fn e i w = Some (ERR_SUCCESS, w') \<and> core w' \<and> link w' = link w \<and> live w' = live w - {(pid, i)} \<and> table w' = table w"
begin

lemma setup_synced:
  assumes "core w" "ok e" "unat n \<le> length cfg" "table_sync (table w) (live w)"
  shows "\<exists>err sid w'. setup_fn e cfg n w = Some (err, sid, w') \<and> core w' \<and> table_sync (table w') (live w') \<and>
    link w' = link w \<and>
    (if err = ERR_SUCCESS
     then sid \<noteq> PROTO_SENSOR_ID_NONE \<and> table w sid = None \<and>
       (\<exists>i. (pid, i) \<notin> ran (table w) \<and> table w' = (table w)(sid \<mapsto> (pid, i)))
     else sid = PROTO_SENSOR_ID_NONE \<and> table w' = table w)"
proof -
  obtain err sid w' where r: "setup_fn e cfg n w = Some (err, sid, w')" "core w'" "link w' = link w"
    "if err = ERR_SUCCESS
     then sid \<noteq> PROTO_SENSOR_ID_NONE \<and> table w sid = None \<and>
       (\<exists>i. (pid, i) \<notin> live w \<and> live w' = insert (pid, i) (live w) \<and> table w' = (table w)(sid \<mapsto> (pid, i)))
     else sid = PROTO_SENSOR_ID_NONE \<and> live w' = live w \<and> table w' = table w"
    using setup_law[OF assms(1-3)] by blast
  have "ran (table w) = live w" using assms(4) by (simp add: table_sync_def)
  moreover have "table_sync (table w') (live w')" using r(4) table_sync_add[OF assms(4)] assms(4) by (auto split: if_splits)
  ultimately show ?thesis using r by (auto split: if_splits)
qed

lemma output_synced:
  assumes "core w" "ok e" "unat n \<le> length vals" "table_sync (table w) (live w)" "table w sid = Some (pid, i)"
  shows "\<exists>err w'. output_fn e i vals n w = Some (err, w') \<and> core w' \<and> table_sync (table w') (live w') \<and> link w' = link w \<and>
    table w' = table w"
proof -
  have "(pid, i) \<in> live w" using assms(4,5) by (auto simp: table_sync_def ran_def)
  from output_law[OF assms(1-3) this] assms(4) show ?thesis by auto
qed

lemma stop_synced:
  assumes "core w" "ok e" "table_sync (table w) (live w)" "table w sid = Some (pid, i)"
  shows "\<exists>w'. stop_fn e i w = Some (ERR_SUCCESS, w') \<and> core w' \<and> link w' = link w \<and> table w' = table w \<and>
    table_sync ((table w)(sid := None)) (live w')"
proof -
  have "(pid, i) \<in> live w" using assms(3,4) by (auto simp: table_sync_def ran_def)
  from stop_law[OF assms(1,2) this] table_sync_remove[OF assms(3,4)] show ?thesis by auto
qed

end

subsection \<open>The five backends keep the contract\<close>

lemma pwm_inv_board:
  assumes "pwm_inv st b" "board_inv b'" "map pwm_use (btimers b') = map pwm_use (btimers b)"
  shows "pwm_inv st b'"
proof -
  have "length (btimers b) = 7" "length (btimers b') = 7"
    using assms(1,2) by (simp_all add: pwm_inv_def board_inv_def timers_inv_def)
  then have "pwm_use (btimers b' ! t) = pwm_use (btimers b ! t)" if "t < 7" for t
    using arg_cong[OF assms(3), of "\<lambda>xs. xs ! t"] that by simp
  moreover have "(case timer_use e of Pwm _ _ n \<Rightarrow> n = u | _ \<Rightarrow> u = 0) \<longleftrightarrow>
      (case pwm_use e of Some (_, _, n) \<Rightarrow> n = u | None \<Rightarrow> u = 0)" for e and u :: nat
    by (simp add: pwm_use_def split: timer_use.split)
  ultimately show ?thesis using assms(1,2) by (simp add: pwm_inv_def)
qed

lemma do_inv_board: "do_inv st b \<Longrightarrow> board_inv b' \<Longrightarrow> do_inv st b'"
  by (simp add: do_inv_def)

lemma dac_inv_masters: "dac_inv bus d \<Longrightarrow> sb_masters bus' = sb_masters bus \<Longrightarrow> dac_inv bus' d"
  by (simp add: dac_inv_def)

text \<open>A change of the board that keeps the PWM timers is invisible to the other backends.\<close>

lemma fw_core_board:
  assumes "fw_core w" "board_inv b'" "map pwm_use (btimers b') = map pwm_use (btimers (fw_board w))"
  shows "do_inv (fw_dout w) b'" "pwm_inv (fw_pwm w) b'"
  using fw_coreD[OF assms(1)] do_inv_board pwm_inv_board assms(2,3) by blast+

lemma i2c_ids_set: "length (i2c_live st) = 3 \<Longrightarrow> unat i < 3 \<Longrightarrow> i2c_live st' = (i2c_live st)[unat i := v] \<Longrightarrow>
    i2c_ids st' = (if v = None then i2c_ids st - {i} else insert i (i2c_ids st))"
  by (auto simp: i2c_ids_def nth_list_update word_unat_eq_iff)

lemma length_i2c_live: "i2c_inv st \<Longrightarrow> length (i2c_live st) = 3"
  by (simp add: i2c_live_def i2c_invD(1))

text \<open>The contract, collected from what a backend call did to its own slots.\<close>

lemma setup_contract_ok:
  assumes "f e cfg n w = Some (ERR_SUCCESS, sid, w')" "fw_core w'" "fw_uart w' = fw_uart w"
    and "sid \<noteq> PROTO_SENSOR_ID_NONE" "fw_table w sid = None" "fw_table w' = (fw_table w)(sid \<mapsto> (p, i))"
    and "i \<notin> fw_ids p w" "fw_ids p w' = insert i (fw_ids p w)" "\<And>q. q \<noteq> p \<Longrightarrow> fw_ids q w' = fw_ids q w"
  shows "\<exists>err sid w'. f e cfg n w = Some (err, sid, w') \<and> fw_core w' \<and> fw_uart w' = fw_uart w \<and>
    (if err = ERR_SUCCESS
     then sid \<noteq> PROTO_SENSOR_ID_NONE \<and> fw_table w sid = None \<and>
       (\<exists>i. (p, i) \<notin> fw_live w \<and> fw_live w' = insert (p, i) (fw_live w) \<and> fw_table w' = (fw_table w)(sid \<mapsto> (p, i)))
     else sid = PROTO_SENSOR_ID_NONE \<and> fw_live w' = fw_live w \<and> fw_table w' = fw_table w)"
proof -
  have "(p, i) \<notin> fw_live w" "fw_live w' = insert (p, i) (fw_live w)"
    using assms(7) fw_live_insert[OF assms(8,9)] by (simp_all add: fw_live_def)
  with assms(1-6) show ?thesis by (intro exI[of _ ERR_SUCCESS] exI[of _ sid] exI[of _ w']) auto
qed

lemma setup_contract_refused:
  assumes "f e cfg n w = Some (err, sid, w')" "err \<noteq> ERR_SUCCESS" "fw_core w'" "fw_uart w' = fw_uart w"
    and "sid = PROTO_SENSOR_ID_NONE" "bsm (fw_board w') = bsm (fw_board w)" "\<And>q. fw_ids q w' = fw_ids q w"
  shows "\<exists>err sid w'. f e cfg n w = Some (err, sid, w') \<and> fw_core w' \<and> fw_uart w' = fw_uart w \<and>
    (if err = ERR_SUCCESS
     then sid \<noteq> PROTO_SENSOR_ID_NONE \<and> fw_table w sid = None \<and>
       (\<exists>i. (p, i) \<notin> fw_live w \<and> fw_live w' = insert (p, i) (fw_live w) \<and> fw_table w' = (fw_table w)(sid \<mapsto> (p, i)))
     else sid = PROTO_SENSOR_ID_NONE \<and> fw_live w' = fw_live w \<and> fw_table w' = fw_table w)"
  using assms(1-6) fw_live_same[OF assms(7)] by (intro exI[of _ err] exI[of _ sid] exI[of _ w']) simp

interpretation i2c_backend: sensor_backend PROTO_ID_I2C fw_core fw_live fw_table fw_uart env_ok fw_i2c_setup fw_i2c_set_output fw_i2c_stop
proof (unfold_locales, goal_cases)
  case A: (1 w e n cfg)
  note C = fw_coreD[OF A(1)] and L = length_i2c_live[OF fw_coreD(2)[OF A(1)]]
  have "malloc_spec (ev_malloc e)" using A(2) by (simp add: env_ok_def)
  then obtain err sid st b where r: "i2c_sensor_setup (ev_masks e) (ev_malloc e) cfg n (fw_i2c w) (fw_board w) = Some (err, sid, st, b)"
    and P: "i2c_setup_post (fw_i2c w) (fw_board w) err sid st b" using i2c_setup_result[OF C(2,9) A(3)] by blast
  let ?w = "w\<lparr>fw_i2c := st, fw_board := b\<rparr>"
  have call: "fw_i2c_setup e cfg n w = Some (err, sid, ?w)" using r by (simp add: fw_i2c_setup_def)
  have "board_inv b" "btimers b = btimers (fw_board w)" "i2c_inv st" using P by (simp_all add: i2c_setup_post_def)
  then have core: "fw_core ?w" using C fw_core_board[OF A(1), of b] by (simp add: fw_core_def)
  show ?case
  proof (cases "err = ERR_SUCCESS")
    case True
    then obtain idx s where i: "unat idx < 3" "i2c_live (fw_i2c w) ! unat idx = None" "i2c_live st = (i2c_live (fw_i2c w))[unat idx := Some s]"
      "sid \<noteq> 0" "fw_table w sid = None" "sm_table (bsm b) = (fw_table w)(sid \<mapsto> (PROTO_ID_I2C, idx))"
      using P by (auto simp: i2c_setup_post_def)
    have "i2c_ids st = insert idx (i2c_ids (fw_i2c w))" using i2c_ids_set[OF L i(1,3)] by simp
    then show ?thesis using call core i True
      by (intro setup_contract_ok[where f = fw_i2c_setup and w' = ?w and i = idx]) (simp_all add: fw_ids_def i2c_ids_def)
  next
    case False
    then show ?thesis using call core P
      by (intro setup_contract_refused[where f = fw_i2c_setup and w' = ?w]) (simp_all add: i2c_setup_post_def fw_ids_def i2c_ids_def)
  qed
next
  case A: (2 w e n vals i)
  note C = fw_coreD[OF A(1)]
  obtain s where s: "unat i < 3" "i2c_live (fw_i2c w) ! unat i = Some s" using A(4) by (auto simp: fw_live_def fw_ids_def i2c_ids_def)
  obtain err st where r: "i2c_sensor_set_output i vals n (fw_i2c w) = Some (err, st)" "i2c_inv st" "i2c_live st = i2c_live (fw_i2c w)"
    using i2c_set_output_result[OF C(2) s A(3)] by blast
  have "fw_live (w\<lparr>fw_i2c := st\<rparr>) = fw_live w" using r(3) by (intro fw_live_same) (simp add: fw_ids_def i2c_ids_def)
  with r C show ?case by (simp add: fw_i2c_set_output_def fw_core_def)
next
  case A: (3 w e i)
  note C = fw_coreD[OF A(1)] and L = length_i2c_live[OF fw_coreD(2)[OF A(1)]]
  obtain s where s: "unat i < 3" "i2c_live (fw_i2c w) ! unat i = Some s" using A(3) by (auto simp: fw_live_def fw_ids_def i2c_ids_def)
  obtain p blk where "is_regmap s = Some p" "i2c_heap (fw_i2c w) p = Some blk" using i2c_live_block[OF C(2) s] .
  then obtain st b where r: "i2c_sensor_stop (ev_masks e) i (fw_i2c w) (fw_board w) = Some (ERR_SUCCESS, st, b)" "i2c_inv st"
    "i2c_live st = (i2c_live (fw_i2c w))[unat i := None]" "bsm b = bsm (fw_board w)" "btimers b = btimers (fw_board w)"
    using i2c_stop_live[OF C(2) s] by blast
  let ?w = "w\<lparr>fw_i2c := st, fw_board := b\<rparr>"
  have "board_inv b" using C(9) r(4,5) by (simp add: board_inv_def)
  then have "fw_core ?w" using C r(2,5) fw_core_board[OF A(1), of b] by (simp add: fw_core_def)
  moreover have "fw_live ?w = fw_live w - {(PROTO_ID_I2C, i)}"
    by (rule fw_live_remove) (use i2c_ids_set[OF L s(1) r(3)] in \<open>simp_all add: fw_ids_def\<close>)
  ultimately show ?case using r(1,4) by (simp add: fw_i2c_stop_def)
qed

lemma dout_ids_live: "length (do_states st) = 8 \<Longrightarrow> dout_ids st = {i. unat i < 8 \<and> live_slots st ! unat i \<noteq> None}"
  by (auto simp: dout_ids_def live_slots_nth split: if_splits)

lemma dout_ids_set:
  assumes "length (do_states st) = 8" "length (do_states st') = 8" "unat i < 8" "live_slots st' = (live_slots st)[unat i := Some s]"
  shows "dout_ids st' = insert i (dout_ids st)"
proof -
  have "length (live_slots st) = 8" using assms(1) by (simp add: live_slots_def)
  then show ?thesis
    unfolding dout_ids_live[OF assms(1)] dout_ids_live[OF assms(2)] assms(4) using assms(3)
    by (auto simp: nth_list_update word_unat_eq_iff)
qed

lemma dout_ids_clear:
  assumes "length (do_states st) = 8" "unat i < 8"
  shows "dout_ids \<lparr>do_states = (do_states st)[unat i := do_state_zero], do_pin_owned = x, do_timers = y\<rparr> = dout_ids st - {i}"
  using assms by (auto simp: dout_ids_def nth_list_update word_unat_eq_iff do_state_zero_def)

interpretation dout_backend: sensor_backend PROTO_ID_DIGITAL_OUT fw_core fw_live fw_table fw_uart env_ok
  fw_dout_setup fw_dout_set_output fw_dout_stop
proof (unfold_locales, goal_cases)
  case A: (1 w e n cfg)
  note C = fw_coreD[OF A(1)]
  obtain err sid st b where r: "digital_out_sensor_setup (ev_masks e) cfg n (fw_dout w) (fw_board w) = Some (err, sid, st, b)"
    and P: "do_setup_post cfg (fw_dout w) (fw_board w) err sid st b" using do_setup_result[OF C(3) A(3)] by blast
  let ?w = "w\<lparr>fw_dout := st, fw_board := b\<rparr>"
  have call: "fw_dout_setup e cfg n w = Some (err, sid, ?w)" using r by (simp add: fw_dout_setup_def)
  have D: "do_inv st b" "map pwm_use (btimers b) = map pwm_use (btimers (fw_board w))" using P by (simp_all add: do_setup_post_def)
  then have core: "fw_core ?w" using C fw_core_board(2)[OF A(1), of b] by (simp add: fw_core_def do_inv_def)
  have L: "length (do_states (fw_dout w)) = 8" "length (do_states st) = 8" using C(3) D(1) by (simp_all add: do_inv_def)
  show ?case
  proof (cases "err = ERR_SUCCESS")
    case True
    then obtain idx s where i: "live_slots (fw_dout w) ! unat idx = None" "unat idx < 8" "live_slots st = (live_slots (fw_dout w))[unat idx := Some s]"
      "sid \<noteq> 0" "fw_table w sid = None" "sm_table (bsm b) = (fw_table w)(sid \<mapsto> (PROTO_ID_DIGITAL_OUT, idx))"
      using P by (auto simp: do_setup_post_def)
    have "idx \<notin> dout_ids (fw_dout w)" using i(1) dout_ids_live[OF L(1)] by simp
    moreover have "dout_ids st = insert idx (dout_ids (fw_dout w))" by (rule dout_ids_set[OF L i(2,3)])
    ultimately show ?thesis using call core i(4-6) True
      by (intro setup_contract_ok[where f = fw_dout_setup and w' = ?w and i = idx]) (simp_all add: fw_ids_def)
  next
    case False
    then have "dout_ids st = dout_ids (fw_dout w)" using P dout_ids_live[OF L(1)] dout_ids_live[OF L(2)] by (simp add: do_setup_post_def)
    then show ?thesis using call core P False
      by (intro setup_contract_refused[where f = fw_dout_setup and w' = ?w]) (simp_all add: do_setup_post_def fw_ids_def)
  qed
next
  case A: (2 w e n vals i)
  note C = fw_coreD[OF A(1)]
  have i: "unat i < 8" using A(4) by (simp add: fw_live_def fw_ids_def dout_ids_def)
  obtain err st m where r: "digital_out_sensor_set_output (ev_masks e) (ev_rtos e) i vals n (fw_dout w) (fw_board w) =
      Some (err, st, (fw_board w)\<lparr>bmcu := m\<rparr>)" "do_inv st ((fw_board w)\<lparr>bmcu := m\<rparr>)"
    "\<forall>j. do_in_use (do_states st ! j) = do_in_use (do_states (fw_dout w) ! j)"
    using do_set_output_frame[OF C(3) i A(3)] A(2) unfolding env_ok_def by blast
  let ?w = "w\<lparr>fw_dout := st, fw_board := (fw_board w)\<lparr>bmcu := m\<rparr>\<rparr>"
  have "fw_live ?w = fw_live w" using r(3) by (intro fw_live_same) (simp add: fw_ids_def dout_ids_def)
  moreover have "fw_core ?w" using C r(2) fw_core_board(2)[OF A(1), of "(fw_board w)\<lparr>bmcu := m\<rparr>"] by (simp add: fw_core_def do_inv_def)
  ultimately show ?case using r(1) by (simp add: fw_dout_set_output_def)
next
  case A: (3 w e i)
  note C = fw_coreD[OF A(1)]
  have i: "unat i < 8" "do_in_use (do_states (fw_dout w) ! unat i)" using A(3) by (simp_all add: fw_live_def fw_ids_def dout_ids_def)
  have L: "length (do_states (fw_dout w)) = 8" using C(3) by (simp add: do_inv_def)
  obtain st b where r: "digital_out_sensor_stop i (fw_dout w) (fw_board w) = Some (ERR_SUCCESS, st, b)"
    "st = \<lparr>do_states = (do_states (fw_dout w))[unat i := do_state_zero],
       do_pin_owned = free_pin (do_gpio_port (do_states (fw_dout w) ! unat i)) (gp_pin (do_gpio_pin (do_states (fw_dout w) ! unat i)))
         (do_pin_owned (fw_dout w)),
       do_timers = (case do_sw_timer (do_states (fw_dout w) ! unat i) of None \<Rightarrow> do_timers (fw_dout w) | Some h \<Rightarrow> (do_timers (fw_dout w))(h := None))\<rparr>"
    "board_inv b" "bsm b = bsm (fw_board w)" "map pwm_use (btimers b) = map pwm_use (btimers (fw_board w))"
    using do_stop_live[OF C(3) i(1) refl i(2)] by auto
  let ?w = "w\<lparr>fw_dout := st, fw_board := b\<rparr>"
  have "do_inv st b" using do_inv_clear[OF C(3) i do_pin_of_def r(3)] by (simp add: r(2))
  then have "fw_core ?w" using C r(3,5) fw_core_board(2)[OF A(1), of b] by (simp add: fw_core_def)
  moreover have "fw_live ?w = fw_live w - {(PROTO_ID_DIGITAL_OUT, i)}"
    by (rule fw_live_remove) (use dout_ids_clear[OF L i(1)] in \<open>simp_all add: fw_ids_def r(2)\<close>)
  ultimately show ?case using r(1,4) by (simp add: fw_dout_stop_def)
qed

lemma pwm_ids_set:
  assumes "length (pw_states st) = 28" "unat i < 28"
  shows "pwm_ids \<lparr>pw_states = (pw_states st)[unat i := s], pw_pin_owned = x\<rparr> = (if pw_in_use s then insert i (pwm_ids st) else pwm_ids st - {i})"
  using assms by (auto simp: pwm_ids_def nth_list_update word_unat_eq_iff)

lemma pwm_output_total:
  assumes inv: "pwm_inv st b" and k: "unat i < 28" "pw_in_use (pw_states st ! unat i)" and len: "unat n \<le> length vals"
  shows "\<exists>err m. pwm_sensor_set_output i vals n st b = Some (err, b\<lparr>bmcu := m\<rparr>)"
proof -
  have f: "fetch (unat i) (pw_states st) = Some (pw_states st ! unat i)" using inv k(1) by (simp add: pwm_inv_def)
  show ?thesis
  proof (cases "n < 2")
    case True then show ?thesis using k f by (simp add: pwm_sensor_set_output_def exI[of _ "bmcu b"])
  next
    case False
    then have "2 \<le> length vals" using len by (simp add: word_less_nat_alt)
    then obtain d where d: "read_u16_le vals = Some d" using read_u16_le_Some by blast
    show ?thesis
    proof (cases "d > 10000")
      case True then show ?thesis using k f d False by (simp add: pwm_sensor_set_output_def exI[of _ "bmcu b"])
    next
      case le: False
      then have "d \<le> 10000" by simp
      from pwm_set_output_result[OF inv k False d this] show ?thesis by blast
    qed
  qed
qed

interpretation pwm_backend: sensor_backend PROTO_ID_PWM fw_core fw_live fw_table fw_uart env_ok
  fw_pwm_setup fw_pwm_set_output fw_pwm_stop
proof (unfold_locales, goal_cases)
  case A: (1 w e n cfg)
  note C = fw_coreD[OF A(1)]
  obtain err sid st b where r: "pwm_sensor_setup (ev_masks e) cfg n (fw_pwm w) (fw_board w) = Some (err, sid, st, b)"
    using pwm_setup_total[OF C(4) A(3)] by (metis prod_cases4)
  let ?w = "w\<lparr>fw_pwm := st, fw_board := b\<rparr>"
  have call: "fw_pwm_setup e cfg n w = Some (err, sid, ?w)" using r by (simp add: fw_pwm_setup_def)
  from pwm_setup_outcome[OF C(4) A(3) r] show ?case
  proof
    assume "err \<noteq> ERR_SUCCESS \<and> sid = 0 \<and> st = fw_pwm w \<and> btimers b = btimers (fw_board w) \<and> bsm b = bsm (fw_board w)"
    then have R: "err \<noteq> ERR_SUCCESS" "sid = 0" "st = fw_pwm w" "btimers b = btimers (fw_board w)" "bsm b = bsm (fw_board w)" by simp_all
    then have "board_inv b" using C(9) by (simp add: board_inv_def)
    then have "fw_core ?w" using R C fw_core_board[OF A(1), of b] by (simp add: fw_core_def)
    then show ?case using R call by (intro setup_contract_refused[where f = fw_pwm_setup and w' = ?w]) (simp_all add: fw_ids_def)
  next
    assume "err = ERR_SUCCESS \<and> (\<exists>c pin arr. pwm_setup_ok (ev_masks e) cfg (fw_pwm w) (fw_board w) c pin arr sid st b)"
    then obtain c pin arr where ok: "err = ERR_SUCCESS" "pwm_setup_ok (ev_masks e) cfg (fw_pwm w) (fw_board w) c pin arr sid st b" by blast
    have inv: "pwm_inv st b" by (rule pwm_setup_inv[OF C(4) ok(2)])
    then have core: "fw_core ?w" using C do_inv_board[OF C(3), of b] by (simp add: fw_core_def pwm_inv_def)
    let ?idx = "slot_for (pc_timer_raw c) (pc_channel c)"
    have c: "\<not> pwm_cfg_invalid c" "sid \<noteq> 0" "\<not> pw_in_use (pw_states (fw_pwm w) ! unat ?idx)"
      "sensor_manager_register PROTO_ID_PWM ?idx (bsm (fw_board w)) = Some (sid, bsm b)"
      "st = \<lparr>pw_states = (pw_states (fw_pwm w))[unat ?idx := pwm_entry c pin],
        pw_pin_owned = claim_pin (pc_port c) (pc_pin c) (pw_pin_owned (fw_pwm w))\<rparr>"
      using ok(2) by (simp_all add: pwm_setup_ok_def)
    have "sm_inv (bsm (fw_board w))" using C(9) by (simp add: board_inv_def)
    note R = register_accepted(2,3)[OF this c(4,2)]
    have "length (pw_states (fw_pwm w)) = 28" using pwm_inv_lengths[OF C(4)] by simp
    then have "pwm_ids st = insert ?idx (pwm_ids (fw_pwm w))"
      using pwm_ids_set[OF _ pwm_slot_index(1)[OF c(1)]] c(5) by (simp add: pwm_entry_def)
    moreover have "?idx \<notin> pwm_ids (fw_pwm w)" using c(3) by (simp add: pwm_ids_def)
    ultimately show ?case using call ok(1) core c(2) R
      by (intro setup_contract_ok[where f = fw_pwm_setup and w' = ?w and i = ?idx]) (simp_all add: fw_ids_def)
  qed
next
  case A: (2 w e n vals i)
  note C = fw_coreD[OF A(1)]
  have i: "unat i < 28" "pw_in_use (pw_states (fw_pwm w) ! unat i)" using A(4) by (simp_all add: fw_live_def fw_ids_def pwm_ids_def)
  obtain err m where r: "pwm_sensor_set_output i vals n (fw_pwm w) (fw_board w) = Some (err, (fw_board w)\<lparr>bmcu := m\<rparr>)"
    using pwm_output_total[OF C(4) i A(3)] by blast
  let ?w = "w\<lparr>fw_board := (fw_board w)\<lparr>bmcu := m\<rparr>\<rparr>"
  have "board_inv (fw_board ?w)" using C(9) by (simp add: board_inv_def)
  then have "fw_core ?w" using C fw_core_board[OF A(1), of "fw_board ?w"] by (simp add: fw_core_def)
  moreover have "fw_live ?w = fw_live w" by (rule fw_live_same) (simp add: fw_ids_def)
  ultimately show ?case using r by (simp add: fw_pwm_set_output_def)
next
  case A: (3 w e i)
  note C = fw_coreD[OF A(1)]
  have i: "unat i < 28" "pw_in_use (pw_states (fw_pwm w) ! unat i)" using A(3) by (simp_all add: fw_live_def fw_ids_def pwm_ids_def)
  obtain st b where r: "pwm_sensor_stop (ev_masks e) i (fw_pwm w) (fw_board w) = Some (ERR_SUCCESS, st, b)" "bsm b = bsm (fw_board w)"
    "\<exists>x. st = \<lparr>pw_states = (pw_states (fw_pwm w))[unat i := pwm_state_zero], pw_pin_owned = x\<rparr>"
    using pwm_stop_result[OF C(4) i, of "ev_masks e"] by auto
  let ?w = "w\<lparr>fw_pwm := st, fw_board := b\<rparr>"
  have inv: "pwm_inv st b" by (rule pwm_stop_inv[OF C(4) i(1) r(1)])
  then have "fw_core ?w" using C do_inv_board[OF C(3), of b] by (simp add: fw_core_def pwm_inv_def)
  moreover have "length (pw_states (fw_pwm w)) = 28" using pwm_inv_lengths[OF C(4)] by simp
  then have "pwm_ids st = pwm_ids (fw_pwm w) - {i}" using r(3) pwm_ids_set[OF _ i(1)] by (auto simp: pwm_state_zero_def)
  then have "fw_live ?w = fw_live w - {(PROTO_ID_PWM, i)}" by (intro fw_live_remove) (simp_all add: fw_ids_def)
  ultimately show ?case using r(1,2) by (simp add: fw_pwm_stop_def)
qed

lemma board_mcu_inv: "board_inv b \<Longrightarrow> board_inv (b\<lparr>bmcu := m\<rparr>)"
  by (simp add: board_inv_def)

interpretation dac_backend: sensor_backend PROTO_ID_DAC fw_core fw_live fw_table fw_uart env_ok
  fw_dac_setup fw_dac_set_output fw_dac_stop
proof (unfold_locales, goal_cases)
  case A: (1 w e n cfg)
  note C = fw_coreD[OF A(1)]
  have E: "\<forall>irq\<in>set (ev_irqs1 e). fst irq < 2" "\<forall>irq\<in>set (ev_irqs2 e). fst irq < 2" "sem_spec (ev_rtos e)"
    using A(2) by (simp_all add: env_ok_def)
  obtain err sid bus d b where r: "dac_sensor_setup (ev_masks e) (ev_rtos e) (ev_irqs1 e) (ev_irqs2 e) cfg n (fw_bus w) (fw_dac w) (fw_board w) =
      Some (err, sid, bus, d, b)" and P: "dac_setup_post (fw_bus w) (fw_dac w) (fw_board w) err sid bus d b"
    using dac_setup_result[OF C(5-7,9) A(3) E] by blast
  let ?w = "w\<lparr>fw_bus := bus, fw_dac := d, fw_board := b\<rparr>"
  have call: "fw_dac_setup e cfg n w = Some (err, sid, ?w)" using r by (simp add: fw_dac_setup_def)
  have "board_inv b" "btimers b = btimers (fw_board w)" "sps_inv bus (fw_sps w)"
    using P sps_inv_frame[OF C(8)] by (simp_all add: dac_setup_post_def)
  then have core: "fw_core ?w" using C P fw_core_board[OF A(1), of b] by (simp add: fw_core_def dac_setup_post_def)
  show ?case
  proof (cases "err = ERR_SUCCESS")
    case True
    then obtain i where i: "i \<notin> dac_live (fw_dac w)" "dac_live d = insert i (dac_live (fw_dac w))" "sid \<noteq> 0" "fw_table w sid = None"
      "sm_table (bsm b) = (fw_table w)(sid \<mapsto> (PROTO_ID_DAC, i))"
      using P by (auto simp: dac_setup_post_def)
    then show ?thesis using call core True
      by (intro setup_contract_ok[where f = fw_dac_setup and w' = ?w and i = i]) (simp_all add: fw_ids_def)
  next
    case False
    then show ?thesis using call core P
      by (intro setup_contract_refused[where f = fw_dac_setup and w' = ?w]) (simp_all add: dac_setup_post_def fw_ids_def)
  qed
next
  case A: (2 w e n vals i)
  note C = fw_coreD[OF A(1)]
  have E: "\<forall>irq\<in>set (ev_irqs1 e). fst irq < 2" and i: "i \<in> dac_live (fw_dac w)"
    using A(2,4) by (simp_all add: env_ok_def fw_live_def fw_ids_def)
  obtain err bus d m where r: "dac_sensor_set_output (ev_masks e) (ev_rtos e) (ev_irqs1 e) i vals n (fw_bus w) (fw_dac w) (bmcu (fw_board w)) =
      Some (err, bus, d, m)" "spi_bus_inv bus" "dac_inv bus d" "dac_settled d" "dac_live d = dac_live (fw_dac w)"
    "\<forall>j<2. ss_initialized (sb_slaves bus ! j) = ss_initialized (sb_slaves (fw_bus w) ! j)"
    using dac_set_output_result[OF C(5-7) i A(3) E] by blast
  let ?w = "w\<lparr>fw_bus := bus, fw_dac := d, fw_board := (fw_board w)\<lparr>bmcu := m\<rparr>\<rparr>"
  have "fw_core ?w" using C r(2-4) sps_inv_frame[OF C(8) r(6)] fw_core_board[OF A(1), of "fw_board ?w"] board_mcu_inv[OF C(9)]
    by (simp add: fw_core_def)
  moreover have "fw_live ?w = fw_live w" using r(5) by (intro fw_live_same) (simp add: fw_ids_def)
  ultimately show ?case using r(1) by (simp add: fw_dac_set_output_def)
next
  case A: (3 w e i)
  note C = fw_coreD[OF A(1)]
  have i: "i \<in> dac_live (fw_dac w)" using A(3) by (simp add: fw_live_def fw_ids_def)
  obtain bus d m where r: "dac_sensor_stop (ev_masks e) i (fw_bus w) (fw_dac w) (bmcu (fw_board w)) = Some (ERR_SUCCESS, bus, d, m)"
    "spi_bus_inv bus" "dac_inv bus d" "dac_settled d" "dac_live d = dac_live (fw_dac w) - {i}"
    "\<forall>j<2. ss_initialized (sb_slaves bus ! j) = ss_initialized (sb_slaves (fw_bus w) ! j)"
    using dac_stop_result[OF C(5-7) i] by blast
  let ?w = "w\<lparr>fw_bus := bus, fw_dac := d, fw_board := (fw_board w)\<lparr>bmcu := m\<rparr>\<rparr>"
  have "fw_core ?w" using C r(2-4) sps_inv_frame[OF C(8) r(6)] fw_core_board[OF A(1), of "fw_board ?w"] board_mcu_inv[OF C(9)]
    by (simp add: fw_core_def)
  moreover have "fw_live ?w = fw_live w - {(PROTO_ID_DAC, i)}" using r(5) by (intro fw_live_remove) (simp_all add: fw_ids_def)
  ultimately show ?case using r(1) by (simp add: fw_dac_stop_def)
qed

interpretation spi_backend: sensor_backend PROTO_ID_SPI fw_core fw_live fw_table fw_uart env_ok
  fw_spi_setup fw_spi_set_output fw_spi_stop
proof (unfold_locales, goal_cases)
  case A: (1 w e n cfg)
  note C = fw_coreD[OF A(1)]
  obtain err sid bus d b where r: "spi_slave_sensor_setup (ev_masks e) cfg n (fw_bus w) (fw_sps w) (fw_board w) = Some (err, sid, bus, d, b)"
    and P: "sps_setup_post (fw_bus w) (fw_sps w) (fw_board w) err sid bus d b" using sps_setup_result[OF C(5,8,9) A(3)] by blast
  let ?w = "w\<lparr>fw_bus := bus, fw_sps := d, fw_board := b\<rparr>"
  have call: "fw_spi_setup e cfg n w = Some (err, sid, ?w)" using r by (simp add: fw_spi_setup_def)
  have "board_inv b" "btimers b = btimers (fw_board w)" "dac_inv bus (fw_dac w)"
    using P dac_inv_masters[OF C(6), of bus] by (simp_all add: sps_setup_post_def)
  then have core: "fw_core ?w" using C P fw_core_board[OF A(1), of b] by (simp add: fw_core_def sps_setup_post_def)
  show ?case
  proof (cases "err = ERR_SUCCESS")
    case True
    then obtain i where i: "i \<notin> sps_live (fw_sps w)" "sps_live d = insert i (sps_live (fw_sps w))" "sid \<noteq> 0" "fw_table w sid = None"
      "sm_table (bsm b) = (fw_table w)(sid \<mapsto> (PROTO_ID_SPI, i))"
      using P by (auto simp: sps_setup_post_def)
    then show ?thesis using call core True
      by (intro setup_contract_ok[where f = fw_spi_setup and w' = ?w and i = i]) (simp_all add: fw_ids_def)
  next
    case False
    then show ?thesis using call core P
      by (intro setup_contract_refused[where f = fw_spi_setup and w' = ?w]) (simp_all add: sps_setup_post_def fw_ids_def)
  qed
next
  case A: (2 w e n vals i)
  note C = fw_coreD[OF A(1)]
  have i: "i \<in> sps_live (fw_sps w)" using A(4) by (simp add: fw_live_def fw_ids_def)
  obtain err bus m where r: "spi_slave_sensor_set_output (ev_masks e) i vals n (fw_bus w) (fw_sps w) (bmcu (fw_board w)) = Some (err, bus, m)"
    "spi_bus_inv bus" "sps_inv bus (fw_sps w)" "sb_masters bus = sb_masters (fw_bus w)"
    using sps_set_output_result[OF C(5,8) i A(3)] by blast
  let ?w = "w\<lparr>fw_bus := bus, fw_board := (fw_board w)\<lparr>bmcu := m\<rparr>\<rparr>"
  have "fw_core ?w" using C r(2,3) dac_inv_masters[OF C(6) r(4)] fw_core_board[OF A(1), of "fw_board ?w"] board_mcu_inv[OF C(9)]
    by (simp add: fw_core_def)
  moreover have "fw_live ?w = fw_live w" by (intro fw_live_same) (simp add: fw_ids_def)
  ultimately show ?case using r(1) by (simp add: fw_spi_set_output_def)
next
  case A: (3 w e i)
  note C = fw_coreD[OF A(1)]
  have i: "i \<in> sps_live (fw_sps w)" using A(3) by (simp add: fw_live_def fw_ids_def)
  obtain bus d m where r: "spi_slave_sensor_stop (ev_masks e) i (fw_bus w) (fw_sps w) (bmcu (fw_board w)) = Some (ERR_SUCCESS, bus, d, m)"
    "spi_bus_inv bus" "sps_inv bus d" "sps_live d = sps_live (fw_sps w) - {i}" "sb_masters bus = sb_masters (fw_bus w)"
    using sps_stop_result[OF C(5,8) i] by blast
  let ?w = "w\<lparr>fw_bus := bus, fw_sps := d, fw_board := (fw_board w)\<lparr>bmcu := m\<rparr>\<rparr>"
  have "fw_core ?w" using C r(2,3) dac_inv_masters[OF C(6) r(5)] fw_core_board[OF A(1), of "fw_board ?w"] board_mcu_inv[OF C(9)]
    by (simp add: fw_core_def)
  moreover have "fw_live ?w = fw_live w - {(PROTO_ID_SPI, i)}" using r(4) by (intro fw_live_remove) (simp_all add: fw_ids_def)
  ultimately show ?case using r(1) by (simp add: fw_spi_stop_def)
qed

end
