(* ===== verification/Host_Payload.thy ===== *)
theory Host_Payload
  imports Host Firmware
begin

text \<open>
  \<^verbatim>\<open>src/bbb/protocol/pwm.py\<close>, \<^verbatim>\<open>digital_io.py\<close>, \<^verbatim>\<open>dac.py\<close>, \<^verbatim>\<open>i2c.py\<close>: the configuration classes of
  the host library and the packers that write the backend-specific part of a payload. A
  configuration is a record; \<open>_post_init\<close> is the check that its constructor runs. The lemmas
  compare what the packers write with what the firmware's backends read at the other end.
\<close>

subsection \<open>Enumerations (constants.py)\<close>

datatype py_enum =
    DigitalPort | DigitalOutputType | DigitalSpeed | DigitalPull | DigitalLevel | DigitalTimerKind
  | HwTimerId | PwmChannel | DacChannel | DacReference | SpiPeripheral | SpiMode

fun enum_members :: "py_enum \<Rightarrow> int list" where
  "enum_members DigitalPort = [0, 1, 2, 3, 4, 5]"
| "enum_members DigitalOutputType = [0, 1]"
| "enum_members DigitalSpeed = [0, 1, 2, 3]"
| "enum_members DigitalPull = [0, 1, 2]"
| "enum_members DigitalLevel = [0, 1]"
| "enum_members DigitalTimerKind = [0, 1]"
| "enum_members HwTimerId = [0, 1, 2, 3, 4, 5, 6]"
| "enum_members PwmChannel = [1, 2, 3, 4]"
| "enum_members DacChannel = [0, 1, 2, 3, 4, 5, 6, 7]"
| "enum_members DacReference = [0, 1, 2]"
| "enum_members SpiPeripheral = [0, 1]"
| "enum_members SpiMode = [0, 1, 2, 3]"

text \<open>
  An argument of a constructor is a plain integer or a member of an enumeration;
  \<^verbatim>\<open>isinstance\<close> tells them apart although \<^verbatim>\<open>int()\<close> accepts both.
\<close>

datatype py_arg = PyInt int | PyEnum py_enum int

fun py_int :: "py_arg \<Rightarrow> int" where
  "py_int (PyInt v) = v"
| "py_int (PyEnum _ v) = v"

fun isinstance :: "py_arg \<Rightarrow> py_enum \<Rightarrow> bool" where
  "isinstance (PyInt _) _ = False"
| "isinstance (PyEnum e v) c = (e = c \<and> v \<in> set (enum_members e))"

subsection \<open>struct.pack\<close>

text \<open>
  The little-endian formats without padding: one format character and its argument per field,
  \<^verbatim>\<open>B\<close>, \<^verbatim>\<open>H\<close> and \<^verbatim>\<open>I\<close>. An argument out of range raises \<^verbatim>\<open>struct.error\<close>.
\<close>

datatype struct_field = SB int | SH int | SI int

fun pack_field :: "struct_field \<Rightarrow> py_error + u8 list" where
  "pack_field (SB v) = (if 0 \<le> v \<and> v < 2 ^ 8 then Inr [word_of_int v] else Inl StructError)"
| "pack_field (SH v) = (if 0 \<le> v \<and> v < 2 ^ 16 then Inr (u16_le (word_of_int v)) else Inl StructError)"
| "pack_field (SI v) = (if 0 \<le> v \<and> v < 2 ^ 32 then Inr (u32_le (word_of_int v)) else Inl StructError)"

fun struct_pack :: "struct_field list \<Rightarrow> py_error + u8 list" where
  "struct_pack [] = Inr []"
| "struct_pack (f # fs) =
     (case pack_field f of
        Inl e \<Rightarrow> Inl e
      | Inr bs \<Rightarrow> (case struct_pack fs of Inl e \<Rightarrow> Inl e | Inr cs \<Rightarrow> Inr (bs @ cs)))"

subsection \<open>PWM (pwm.py)\<close>

record PwmConfig =
  wc_port :: py_arg
  wc_pin :: int
  wc_af :: int
  wc_timer :: py_arg
  wc_channel :: py_arg
  wc_freq_hz :: int
  wc_duty_pct_x100 :: int

definition pwm_config_post_init :: "PwmConfig \<Rightarrow> py_error + unit" where
  "pwm_config_post_init c =
     (if \<not> (0 \<le> wc_pin c \<and> wc_pin c \<le> 15) then Inl ValueError
      else if \<not> (1 \<le> wc_af c \<and> wc_af c \<le> 15) then Inl ValueError
      else if \<not> isinstance (wc_port c) DigitalPort then Inl ValueError
      else if \<not> isinstance (wc_timer c) HwTimerId then Inl ValueError
      else if \<not> isinstance (wc_channel c) PwmChannel then Inl ValueError
      else if \<not> (1 \<le> wc_freq_hz c \<and> wc_freq_hz c \<le> 1000000) then Inl ValueError
      else if \<not> (0 \<le> wc_duty_pct_x100 c \<and> wc_duty_pct_x100 c \<le> 10000) then Inl ValueError
      else Inr ())"

definition pack_pwm_cfg :: "PwmConfig \<Rightarrow> py_error + u8 list" where
  "pack_pwm_cfg c =
     struct_pack [SB (py_int (wc_port c)), SB (wc_pin c), SB (wc_af c), SB (py_int (wc_timer c)),
       SB (py_int (wc_channel c)), SI (wc_freq_hz c), SH (wc_duty_pct_x100 c)]"

definition pack_pwm_set_output :: "int \<Rightarrow> py_error + u8 list" where
  "pack_pwm_set_output duty =
     (if \<not> (0 \<le> duty \<and> duty \<le> 10000) then Inl ValueError else struct_pack [SH duty])"

subsection \<open>Digital output (digital_io.py)\<close>

record DigitalOutConfig =
  oc_port :: py_arg
  oc_pin_no :: int
  oc_initial_level :: py_arg
  oc_type :: py_arg
  oc_slew :: py_arg
  oc_pull_sel :: py_arg
  oc_timer_kind :: py_arg
  oc_timer_id :: py_arg

definition digital_out_config_post_init :: "DigitalOutConfig \<Rightarrow> py_error + unit" where
  "digital_out_config_post_init c =
     (if \<not> (0 \<le> oc_pin_no c \<and> oc_pin_no c \<le> 15) then Inl ValueError
      else if \<not> list_all (\<lambda>(v, e). isinstance v e)
                  [(oc_port c, DigitalPort), (oc_initial_level c, DigitalLevel), (oc_type c, DigitalOutputType),
                   (oc_slew c, DigitalSpeed), (oc_pull_sel c, DigitalPull), (oc_timer_kind c, DigitalTimerKind),
                   (oc_timer_id c, HwTimerId)]
      then Inl ValueError else Inr ())"

definition pack_digital_out_cfg :: "DigitalOutConfig \<Rightarrow> py_error + u8 list" where
  "pack_digital_out_cfg c =
     struct_pack [SB (py_int (oc_port c)), SB (oc_pin_no c), SB (py_int (oc_initial_level c)), SB (py_int (oc_type c)),
       SB (py_int (oc_slew c)), SB (py_int (oc_pull_sel c)), SB (py_int (oc_timer_kind c)), SB (py_int (oc_timer_id c))]"

definition pack_digital_out_set_output :: "py_arg \<Rightarrow> int \<Rightarrow> py_error + u8 list" where
  "pack_digital_out_set_output level pulse_us =
     (if \<not> isinstance level DigitalLevel then Inl ValueError
      else if pulse_us < 0 \<or> pulse_us > 0xFFFFFFFF then Inl ValueError
      else struct_pack [SB (py_int level), SI pulse_us])"

subsection \<open>DAC (dac.py)\<close>

record DacConfig =
  ac_spi_periph :: py_arg
  ac_spi_clock_hz :: int
  ac_mosi_port :: py_arg
  ac_mosi_pin :: int
  ac_mosi_af :: int
  ac_sck_port :: py_arg
  ac_sck_pin :: int
  ac_sck_af :: int
  ac_cs_port :: py_arg
  ac_cs_pin :: int
  ac_channel :: py_arg
  ac_ldac_port :: "py_arg option"
  ac_ldac_pin :: int
  ac_reference :: py_arg
  ac_spi_mode :: py_arg
  ac_initial_value :: int

definition dac_config_post_init :: "DacConfig \<Rightarrow> py_error + unit" where
  "dac_config_post_init c =
     (if \<not> list_all (\<lambda>v. 0 \<le> v \<and> v \<le> 15) [ac_mosi_pin c, ac_sck_pin c, ac_cs_pin c] then Inl ValueError
      else if \<not> list_all (\<lambda>v. 1 \<le> v \<and> v \<le> 15) [ac_mosi_af c, ac_sck_af c] then Inl ValueError
      else if ac_ldac_port c \<noteq> None \<and> \<not> (0 \<le> ac_ldac_pin c \<and> ac_ldac_pin c \<le> 15) then Inl ValueError
      else if \<not> (0 \<le> ac_initial_value c \<and> ac_initial_value c \<le> 0xFFFF) then Inl ValueError
      else if \<not> list_all (\<lambda>(v, e). isinstance v e)
                  [(ac_spi_periph c, SpiPeripheral), (ac_mosi_port c, DigitalPort), (ac_sck_port c, DigitalPort),
                   (ac_cs_port c, DigitalPort), (ac_channel c, DacChannel), (ac_reference c, DacReference),
                   (ac_spi_mode c, SpiMode)]
      then Inl ValueError
      else if (case ac_ldac_port c of None \<Rightarrow> False | Some p \<Rightarrow> \<not> isinstance p DigitalPort) then Inl ValueError
      else Inr ())"

definition pack_dac_cfg :: "DacConfig \<Rightarrow> py_error + u8 list" where
  "pack_dac_cfg c =
     (let ldac_port_byte = (case ac_ldac_port c of Some p \<Rightarrow> py_int p | None \<Rightarrow> 0xFF);
          ldac_pin_byte = (if ac_ldac_port c \<noteq> None then ac_ldac_pin c else 0)
      in struct_pack [SB (py_int (ac_spi_periph c)), SI (ac_spi_clock_hz c), SB (py_int (ac_mosi_port c)),
           SB (ac_mosi_pin c), SB (ac_mosi_af c), SB (py_int (ac_sck_port c)), SB (ac_sck_pin c), SB (ac_sck_af c),
           SB (py_int (ac_cs_port c)), SB (ac_cs_pin c), SB ldac_port_byte, SB ldac_pin_byte,
           SB (py_int (ac_channel c)), SB (py_int (ac_reference c)), SB (py_int (ac_spi_mode c)),
           SH (ac_initial_value c)])"

definition pack_dac_set_output :: "int \<Rightarrow> py_error + u8 list" where
  "pack_dac_set_output v = (if \<not> (0 \<le> v \<and> v \<le> 0xFFFF) then Inl ValueError else struct_pack [SH v])"

subsection \<open>I2C (i2c.py)\<close>

record I2cSensorConfig =
  xc_clock_hz :: int
  xc_address_mode :: int
  xc_primary_addr :: int
  xc_secondary_addr :: int
  xc_flags :: int
  xc_reg_addr_width :: int
  xc_reg_addr_endian :: int
  xc_auto_inc_mode :: int
  xc_register_count :: int
  xc_response_delay_us :: int
  xc_clock_stretch_max_us :: int
  xc_preset_reg_start :: "int option"
  xc_preset_values :: "u8 list option"

definition i2c_config_post_init :: "I2cSensorConfig \<Rightarrow> py_error + unit" where
  "i2c_config_post_init c =
     (if (xc_preset_values c \<noteq> None) \<noteq> (xc_preset_reg_start c \<noteq> None) then Inl ValueError else Inr ())"

text \<open>
  Without a start the second \<^verbatim>\<open>struct.pack\<close> gets \<^verbatim>\<open>None\<close> and raises; the constructor excludes it.
\<close>

definition pack_i2c_cfg :: "I2cSensorConfig \<Rightarrow> py_error + u8 list" where
  "pack_i2c_cfg c =
     (case struct_pack [SI (xc_clock_hz c), SB (xc_address_mode c), SH (xc_primary_addr c), SH (xc_secondary_addr c),
         SB (xc_flags c), SB (xc_reg_addr_width c), SB (xc_reg_addr_endian c), SB (xc_auto_inc_mode c),
         SH (xc_register_count c), SH (xc_response_delay_us c), SH (xc_clock_stretch_max_us c),
         SB (if xc_preset_values c \<noteq> None then 1 else 0)] of
        Inl e \<Rightarrow> Inl e
      | Inr fixed \<Rightarrow>
          (case xc_preset_values c of
             None \<Rightarrow> Inr fixed
           | Some preset_values \<Rightarrow>
               (case xc_preset_reg_start c of
                  None \<Rightarrow> Inl StructError
                | Some preset_reg_start \<Rightarrow>
                    (case struct_pack [SH preset_reg_start, SH (int (length preset_values))] of
                       Inl e \<Rightarrow> Inl e
                     | Inr preset_header \<Rightarrow> Inr (fixed @ preset_header @ preset_values)))))"

definition pack_i2c_set_output :: "int \<Rightarrow> u8 list \<Rightarrow> py_error + u8 list" where
  "pack_i2c_set_output reg_start vals =
     (if vals = [] then Inl ValueError
      else case struct_pack [SH reg_start, SH (int (length vals))] of Inl e \<Rightarrow> Inl e | Inr h \<Rightarrow> Inr (h @ vals))"

subsection \<open>What the packers write\<close>

lemma struct_pack_Inr [simp]:
  "struct_pack (f # fs) = Inr bs \<longleftrightarrow> (\<exists>b c. pack_field f = Inr b \<and> struct_pack fs = Inr c \<and> bs = b @ c)"
  by (auto split: sum.splits)

lemma uint_word_of_int_u8 [simp]: "0 \<le> v \<Longrightarrow> v < 256 \<Longrightarrow> uint (word_of_int v :: u8) = v"
  and uint_word_of_int_u16 [simp]: "0 \<le> v \<Longrightarrow> v < 65536 \<Longrightarrow> uint (word_of_int v :: u16) = v"
  and uint_word_of_int_u32 [simp]: "0 \<le> v \<Longrightarrow> v < 4294967296 \<Longrightarrow> uint (word_of_int v :: u32) = v"
  by (simp_all add: uint_word_of_int)

lemma isinstance_member: "isinstance v e \<Longrightarrow> py_int v \<in> set (enum_members e)"
  by (cases v) auto

text \<open>A member of an enumeration is between zero and the largest member.\<close>

lemma isinstance_bounds:
  assumes "isinstance v e" "\<forall>x \<in> set (enum_members e). a \<le> x \<and> x \<le> b"
  shows "a \<le> py_int v" "py_int v \<le> b"
  using isinstance_member[OF assms(1)] assms(2) by auto

lemmas enum_bounds =
  isinstance_bounds[where e = DigitalPort and a = 0 and b = 5, simplified]
  isinstance_bounds[where e = DigitalOutputType and a = 0 and b = 1, simplified]
  isinstance_bounds[where e = DigitalSpeed and a = 0 and b = 3, simplified]
  isinstance_bounds[where e = DigitalPull and a = 0 and b = 2, simplified]
  isinstance_bounds[where e = DigitalLevel and a = 0 and b = 1, simplified]
  isinstance_bounds[where e = DigitalTimerKind and a = 0 and b = 1, simplified]
  isinstance_bounds[where e = HwTimerId and a = 0 and b = 6, simplified]
  isinstance_bounds[where e = PwmChannel and a = 1 and b = 4, simplified]
  isinstance_bounds[where e = DacChannel and a = 0 and b = 7, simplified]
  isinstance_bounds[where e = DacReference and a = 0 and b = 2, simplified]
  isinstance_bounds[where e = SpiPeripheral and a = 0 and b = 1, simplified]
  isinstance_bounds[where e = SpiMode and a = 0 and b = 3, simplified]

text \<open>The bytes of a multi-byte field, and reading them back.\<close>

lemma u16_le_read [simp]: "u16_le v = [a, b] \<Longrightarrow> read_u16_le (a # b # rest) = Some v"
  using read_u16_le_u16_le[of v rest] by simp

lemma u32_le_read [simp]: "u32_le v = [a, b, c, d] \<Longrightarrow> read_u32_le (a # b # c # d # rest) = Some v"
  using read_u32_le_u32_le[of v rest] by simp

lemma u16_le_bytes: obtains a b where "u16_le v = [a, b]"
  by (simp add: u16_le_def)

lemma u32_le_bytes: obtains a b c d where "u32_le v = [a, b, c, d]"
  by (simp add: u32_le_def)

definition pwm_cfg_of :: "PwmConfig \<Rightarrow> pwm_cfg" where
  "pwm_cfg_of c = \<lparr>pc_port = word_of_int (py_int (wc_port c)), pc_pin = word_of_int (wc_pin c), pc_af = word_of_int (wc_af c),
     pc_timer_raw = word_of_int (py_int (wc_timer c)), pc_channel = word_of_int (py_int (wc_channel c)),
     pc_freq_hz = word_of_int (wc_freq_hz c), pc_duty = word_of_int (wc_duty_pct_x100 c)\<rparr>"

lemma pwm_payload:
  assumes "pwm_config_post_init c = Inr ()"
  shows "\<exists>bs. pack_pwm_cfg c = Inr bs \<and> length bs = 11 \<and> pwm_read_cfg bs = Some (pwm_cfg_of c) \<and> \<not> pwm_cfg_invalid (pwm_cfg_of c)"
proof -
  note c = assms[unfolded pwm_config_post_init_def]
  obtain f0 f1 f2 f3 where f: "u32_le (word_of_int (wc_freq_hz c)) = [f0, f1, f2, f3]" by (rule u32_le_bytes)
  obtain d0 d1 where d: "u16_le (word_of_int (wc_duty_pct_x100 c)) = [d0, d1]" by (rule u16_le_bytes)
  have b: "0 \<le> py_int (wc_port c)" "py_int (wc_port c) \<le> 5" "0 \<le> py_int (wc_timer c)" "py_int (wc_timer c) \<le> 6"
    "1 \<le> py_int (wc_channel c)" "py_int (wc_channel c) \<le> 4"
    using c by (auto split: if_splits dest: enum_bounds)
  have r: "0 \<le> wc_pin c" "wc_pin c \<le> 15" "1 \<le> wc_af c" "wc_af c \<le> 15" "1 \<le> wc_freq_hz c" "wc_freq_hz c \<le> 1000000"
    "0 \<le> wc_duty_pct_x100 c" "wc_duty_pct_x100 c \<le> 10000"
    using c by (auto split: if_splits)
  have "\<not> pwm_cfg_invalid (pwm_cfg_of c)"
    using b r by (simp add: pwm_cfg_invalid_def pwm_cfg_of_def word_less_def word_uint_eq_iff)
  then show ?thesis using b r f d
    by (simp add: pack_pwm_cfg_def pwm_read_cfg_def pwm_cfg_of_def del: read_u16_le.simps read_u32_le.simps)
qed

definition dac_cfg_of :: "DacConfig \<Rightarrow> dac_cfg" where
  "dac_cfg_of c = \<lparr>cf_periph = word_of_int (py_int (ac_spi_periph c)), cf_clock_hz = word_of_int (ac_spi_clock_hz c),
     cf_mosi_port = word_of_int (py_int (ac_mosi_port c)), cf_mosi_pin = word_of_int (ac_mosi_pin c), cf_mosi_af = word_of_int (ac_mosi_af c),
     cf_sck_port = word_of_int (py_int (ac_sck_port c)), cf_sck_pin = word_of_int (ac_sck_pin c), cf_sck_af = word_of_int (ac_sck_af c),
     cf_cs_port = word_of_int (py_int (ac_cs_port c)), cf_cs_pin = word_of_int (ac_cs_pin c),
     cf_ldac_port = (case ac_ldac_port c of None \<Rightarrow> DAC_LDAC_PORT_DISABLED | Some p \<Rightarrow> word_of_int (py_int p)),
     cf_ldac_pin = (case ac_ldac_port c of None \<Rightarrow> 0 | Some p \<Rightarrow> word_of_int (ac_ldac_pin c)),
     cf_channel = word_of_int (py_int (ac_channel c)), cf_reference = word_of_int (py_int (ac_reference c)),
     cf_spi_mode = word_of_int (py_int (ac_spi_mode c)), cf_initial_value = word_of_int (ac_initial_value c)\<rparr>"

text \<open>What the constructor of \<open>DacConfig\<close> guarantees of the numbers that go into the payload.\<close>

lemma dac_config_ranges:
  assumes "dac_config_post_init c = Inr ()"
  shows "0 \<le> py_int (ac_spi_periph c)" "py_int (ac_spi_periph c) \<le> 1" "0 \<le> py_int (ac_mosi_port c)" "py_int (ac_mosi_port c) \<le> 5"
    "0 \<le> py_int (ac_sck_port c)" "py_int (ac_sck_port c) \<le> 5" "0 \<le> py_int (ac_cs_port c)" "py_int (ac_cs_port c) \<le> 5"
    "0 \<le> py_int (ac_channel c)" "py_int (ac_channel c) \<le> 7" "0 \<le> py_int (ac_reference c)" "py_int (ac_reference c) \<le> 2"
    "0 \<le> py_int (ac_spi_mode c)" "py_int (ac_spi_mode c) \<le> 3"
    "0 \<le> ac_mosi_pin c" "ac_mosi_pin c \<le> 15" "1 \<le> ac_mosi_af c" "ac_mosi_af c \<le> 15"
    "0 \<le> ac_sck_pin c" "ac_sck_pin c \<le> 15" "1 \<le> ac_sck_af c" "ac_sck_af c \<le> 15" "0 \<le> ac_cs_pin c" "ac_cs_pin c \<le> 15"
    "0 \<le> ac_initial_value c" "ac_initial_value c \<le> 0xFFFF"
    and "\<And>p. ac_ldac_port c = Some p \<Longrightarrow> 0 \<le> py_int p \<and> py_int p \<le> 5 \<and> 0 \<le> ac_ldac_pin c \<and> ac_ldac_pin c \<le> 15"
  using assms by (auto simp: dac_config_post_init_def split: if_splits option.splits dest: enum_bounds)

lemma dac_payload:
  assumes "dac_config_post_init c = Inr ()" "0 \<le> ac_spi_clock_hz c" "ac_spi_clock_hz c < 2 ^ 32"
  shows "\<exists>bs. pack_dac_cfg c = Inr bs \<and> length bs = 20 \<and> dac_read_cfg bs = Some (dac_cfg_of c) \<and>
    (dac_cfg_invalid (dac_cfg_of c) \<longleftrightarrow> ac_spi_clock_hz c = 0)"
proof -
  note R = dac_config_ranges[OF assms(1)]
  obtain f0 f1 f2 f3 where f: "u32_le (word_of_int (ac_spi_clock_hz c)) = [f0, f1, f2, f3]" by (rule u32_le_bytes)
  obtain d0 d1 where d: "u16_le (word_of_int (ac_initial_value c)) = [d0, d1]" by (rule u16_le_bytes)
  have "dac_cfg_invalid (dac_cfg_of c) \<longleftrightarrow> ac_spi_clock_hz c = 0"
    using R assms(2,3) by (cases "ac_ldac_port c") (simp_all add: dac_cfg_invalid_def dac_cfg_of_def cf_ldac_en_def word_less_def word_le_def word_uint_eq_iff)
  moreover have "\<exists>bs. pack_dac_cfg c = Inr bs \<and> length bs = 20 \<and> dac_read_cfg bs = Some (dac_cfg_of c)"
    using R assms(2,3) f d
    by (cases "ac_ldac_port c") (simp_all add: pack_dac_cfg_def dac_read_cfg_def dac_cfg_of_def del: read_u16_le.simps read_u32_le.simps)
  ultimately show ?thesis by blast
qed

text \<open>
  A digital output: the slot and the pin configuration the firmware derives from the payload. Only a
  pin that is already driven is refused.
\<close>

definition dout_slot_of :: "DigitalOutConfig \<Rightarrow> digital_out_state \<Rightarrow> digital_out_state" where
  "dout_slot_of c s = s\<lparr>do_gpio_port := word_of_int (py_int (oc_port c)),
     do_gpio_pin := \<lparr>gp_port = gpio_port_handle (word_of_int (py_int (oc_port c))), gp_pin = word_of_int (oc_pin_no c)\<rparr>,
     do_timer_kind := word_of_int (py_int (oc_timer_kind c)), do_timer_id := word_of_int (py_int (oc_timer_id c))\<rparr>"

definition dout_pins_of :: "DigitalOutConfig \<Rightarrow> gpio_output_config" where
  "dout_pins_of c = \<lparr>oc_pin = \<lparr>gp_port = gpio_port_handle (word_of_int (py_int (oc_port c))), gp_pin = word_of_int (oc_pin_no c)\<rparr>,
     oc_output_type = output_type_of (word_of_int (py_int (oc_type c))), oc_speed = speed_of (word_of_int (py_int (oc_slew c))),
     oc_pull = pull_of (word_of_int (py_int (oc_pull_sel c)))\<rparr>"

lemma digital_out_payload:
  assumes "digital_out_config_post_init c = Inr ()"
  shows "\<exists>bs. pack_digital_out_cfg c = Inr bs \<and> length bs = 8 \<and> (\<forall>s owned. validate_cfg bs 8 s owned =
    Some (if pin_is_owned (word_of_int (py_int (oc_port c))) (word_of_int (oc_pin_no c)) owned then Inl ERR_PIN_CONFLICT
          else Inr (dout_slot_of c s, dout_pins_of c, word_of_int (py_int (oc_initial_level c)))))"
proof -
  have b: "0 \<le> py_int (oc_port c)" "py_int (oc_port c) \<le> 5" "0 \<le> py_int (oc_initial_level c)" "py_int (oc_initial_level c) \<le> 1"
    "0 \<le> py_int (oc_type c)" "py_int (oc_type c) \<le> 1" "0 \<le> py_int (oc_slew c)" "py_int (oc_slew c) \<le> 3"
    "0 \<le> py_int (oc_pull_sel c)" "py_int (oc_pull_sel c) \<le> 2" "0 \<le> py_int (oc_timer_kind c)" "py_int (oc_timer_kind c) \<le> 1"
    "0 \<le> py_int (oc_timer_id c)" "py_int (oc_timer_id c) \<le> 6" "0 \<le> oc_pin_no c" "oc_pin_no c \<le> 15"
    using assms by (auto simp: digital_out_config_post_init_def split: if_splits dest: enum_bounds)
  then show ?thesis
    by (simp add: pack_digital_out_cfg_def validate_cfg_def gpio_make_pin_def dout_slot_of_def dout_pins_of_def word_less_def word_le_def)
qed

subsection \<open>Output values\<close>

lemma pwm_output_payload:
  "pack_pwm_set_output duty = Inr bs \<Longrightarrow> length bs = 2 \<and> read_u16_le bs = Some (word_of_int duty) \<and> (word_of_int duty :: u16) \<le> PWM_DUTY_MAX"
  by (auto simp: pack_pwm_set_output_def u16_le_def u16_halves word_le_def split: if_splits)

lemma dac_output_payload: "pack_dac_set_output v = Inr bs \<Longrightarrow> length bs = 2 \<and> read_u16_le bs = Some (word_of_int v)"
  by (auto simp: pack_dac_set_output_def u16_le_def u16_halves split: if_splits)

lemma digital_out_output_payload:
  assumes "pack_digital_out_set_output level pulse_us = Inr bs"
  shows "length bs = 5 \<and> fetch 0 bs = Some (word_of_int (py_int level)) \<and> read_u32_le (drop 1 bs) = Some (word_of_int pulse_us) \<and>
    (word_of_int (py_int level) :: u8) \<le> DIGITAL_OUT_LEVEL_HIGH"
proof -
  have l: "0 \<le> py_int level" "py_int level \<le> 1"
    using assms by (auto simp: pack_digital_out_set_output_def split: if_splits dest: enum_bounds)
  then have "bs = word_of_int (py_int level) # u32_le (word_of_int pulse_us)"
    using assms by (auto simp: pack_digital_out_set_output_def split: if_splits)
  then show ?thesis using l read_u32_le_u32_le[of "word_of_int pulse_us" "[]"] by (simp add: word_le_def) (simp add: u32_le_def)
qed

lemma i2c_output_payload:
  assumes "pack_i2c_set_output reg_start vals = Inr bs"
  shows "vals \<noteq> [] \<and> length bs = 4 + length vals \<and> read_u16_le bs = Some (word_of_int reg_start) \<and>
    read_u16_le (drop 2 bs) = Some (word_of_nat (length vals)) \<and> drop 4 bs = vals"
proof -
  obtain a b where r: "u16_le (word_of_int reg_start) = [a, b]" by (rule u16_le_bytes)
  obtain c d where n: "u16_le (word_of_nat (length vals)) = [c, d]" by (rule u16_le_bytes)
  have "bs = [a, b, c, d] @ vals" "vals \<noteq> []"
    using assms r n by (auto simp: pack_i2c_set_output_def split: if_splits sum.splits)
  then show ?thesis using r n by (simp del: read_u16_le.simps)
qed

subsection \<open>I2C set-up\<close>

text \<open>
  The library writes twenty bytes where the firmware expects the pins of the bus in between and
  twenty-five in total.
\<close>

lemma i2c_cfg_length: "pack_i2c_cfg c = Inr bs \<Longrightarrow> length bs = (case xc_preset_values c of None \<Rightarrow> 20 | Some v \<Rightarrow> 24 + length v)"
  by (auto simp: pack_i2c_cfg_def u16_le_def u32_le_def split: sum.splits option.splits if_splits)

lemma i2c_cfg_misread:
  assumes "pack_i2c_cfg c = Inr bs"
  shows "fetch 10 bs = Some (word_of_int (xc_reg_addr_width c))" "fetch 11 bs = Some (word_of_int (xc_reg_addr_endian c))"
    "fetch 12 bs = Some (word_of_int (xc_auto_inc_mode c))" "read_u16_le (drop 13 bs) = Some (word_of_int (xc_register_count c))"
proof -
  obtain f0 f1 f2 f3 where f: "u32_le (word_of_int (xc_clock_hz c)) = [f0, f1, f2, f3]" by (rule u32_le_bytes)
  obtain p0 p1 where p: "u16_le (word_of_int (xc_primary_addr c)) = [p0, p1]" by (rule u16_le_bytes)
  obtain q0 q1 where q: "u16_le (word_of_int (xc_secondary_addr c)) = [q0, q1]" by (rule u16_le_bytes)
  obtain r0 r1 where r: "u16_le (word_of_int (xc_register_count c)) = [r0, r1]" by (rule u16_le_bytes)
  have "\<exists>rest. bs = u32_le (word_of_int (xc_clock_hz c)) @ word_of_int (xc_address_mode c) #
    u16_le (word_of_int (xc_primary_addr c)) @ u16_le (word_of_int (xc_secondary_addr c)) @ word_of_int (xc_flags c) #
    word_of_int (xc_reg_addr_width c) # word_of_int (xc_reg_addr_endian c) # word_of_int (xc_auto_inc_mode c) #
    u16_le (word_of_int (xc_register_count c)) @ rest"
    using assms by (auto simp: pack_i2c_cfg_def split: sum.splits option.splits if_splits)
  then obtain rest where "bs = [f0, f1, f2, f3, word_of_int (xc_address_mode c), p0, p1, q0, q1, word_of_int (xc_flags c),
    word_of_int (xc_reg_addr_width c), word_of_int (xc_reg_addr_endian c), word_of_int (xc_auto_inc_mode c), r0, r1] @ rest"
    unfolding f p q r by auto
  then show "fetch 10 bs = Some (word_of_int (xc_reg_addr_width c))" "fetch 11 bs = Some (word_of_int (xc_reg_addr_endian c))"
    "fetch 12 bs = Some (word_of_int (xc_auto_inc_mode c))" "read_u16_le (drop 13 bs) = Some (word_of_int (xc_register_count c))"
    using r by (simp_all del: read_u16_le.simps)
qed

subsection \<open>Properties\<close>



text \<open>C7: the host library cannot set up an I2C sensor. Every payload it packs for a configuration
  without preset values is refused by the firmware in every state, and the state is unchanged: the
  library's layout lacks the pins of the bus and is five bytes short of what the backend requires.\<close>

theorem host_i2c_setup_refused:
  assumes "i2c_config_post_init c = Inr ()" "pack_i2c_cfg c = Inr bs" "xc_preset_values c = None" "i2c_inv st"
  shows "i2c_sensor_setup M pvPortMalloc bs (word_of_nat (length bs)) st b =
    Some (if list_all is_in_use (i2c_sensor_states st) then ERR_I2C_NO_FREE_PERIPHERAL else ERR_MALFORMED_PAYLOAD,
          PROTO_SENSOR_ID_NONE, st, b)"
proof -
  have n: "length bs = 20" using i2c_cfg_length[OF assms(2)] assms(3) by simp
  have len: "length (i2c_sensor_states st) = 3" by (rule i2c_invD(1)[OF assms(4)])
  have none: "find_index (\<lambda>s. \<not> is_in_use s) (i2c_sensor_states st) = None \<longleftrightarrow> list_all is_in_use (i2c_sensor_states st)"
    by (simp add: find_index_None_iff list_all_iff)
  show ?thesis
  proof (cases "list_all is_in_use (i2c_sensor_states st)")
    case True
    then show ?thesis using none by (simp add: i2c_sensor_setup_def i2c_alloc_slot_def)
  next
    case False
    then obtain i where i: "find_index (\<lambda>s. \<not> is_in_use s) (i2c_sensor_states st) = Some i" using none by fastforce
    then have "i2c_alloc_slot st = word_of_nat i" "i = 0 \<or> i = 1 \<or> i = 2"
      using find_index_less[OF i] len by (auto simp: i2c_alloc_slot_def)
    then show ?thesis using False i2c_alloc_slot_cases[OF len] n len by (auto simp: i2c_sensor_setup_def i2c_validate_cfg_def)
  qed
qed

theorem host_i2c_setup_refused_witness:
  "\<exists>bs. pack_i2c_cfg \<lparr>xc_clock_hz = 100000, xc_address_mode = 0, xc_primary_addr = 0x48, xc_secondary_addr = 0, xc_flags = 0,
       xc_reg_addr_width = 1, xc_reg_addr_endian = 0, xc_auto_inc_mode = 3, xc_register_count = 4, xc_response_delay_us = 0,
       xc_clock_stretch_max_us = 0, xc_preset_reg_start = None, xc_preset_values = None\<rparr> = Inr bs \<and>
     i2c_sensor_setup example_masks example_malloc bs (word_of_nat (length bs)) i2c_dev_start (board_start example_masks) =
       Some (ERR_MALFORMED_PAYLOAD, PROTO_SENSOR_ID_NONE, i2c_dev_start, board_start example_masks)"
proof -
  let ?c = "\<lparr>xc_clock_hz = 100000, xc_address_mode = 0, xc_primary_addr = 0x48, xc_secondary_addr = 0, xc_flags = 0,
       xc_reg_addr_width = 1, xc_reg_addr_endian = 0, xc_auto_inc_mode = 3, xc_register_count = 4, xc_response_delay_us = 0,
       xc_clock_stretch_max_us = 0, xc_preset_reg_start = None, xc_preset_values = None\<rparr>"
  have c: "i2c_config_post_init ?c = Inr ()" "xc_preset_values ?c = None" by (simp_all add: i2c_config_post_init_def)
  obtain bs where bs: "pack_i2c_cfg ?c = Inr bs" by (simp add: pack_i2c_cfg_def)
  have "\<not> list_all is_in_use (i2c_sensor_states i2c_dev_start)"
    by (simp add: i2c_dev_start_def i2c_sensor_init_def numeral_3_eq_3)
  then show ?thesis using bs host_i2c_setup_refused[OF c(1) bs c(2) i2c_inv_start(1), of example_masks example_malloc "board_start example_masks"]
    by simp
qed

end
