(* ===== verification/Dispatcher.thy ===== *)
theory Dispatcher
  imports Firmware
begin

text \<open>
  \<^verbatim>\<open>command/src/dispatcher.c\<close>: the handlers of the host's commands on the firmware state, and
  \<open>host_step\<close>, the specification of what a command does to the table of sensors as the host sees it.
\<close>

abbreviation (input) CMD_SETUP_OFFSET_PROTOCOL_ID :: nat where "CMD_SETUP_OFFSET_PROTOCOL_ID \<equiv> 0"
abbreviation (input) CMD_SETUP_OFFSET_CFG :: nat where "CMD_SETUP_OFFSET_CFG \<equiv> 1"
abbreviation (input) CMD_SET_OUTPUT_OFFSET_SENSOR_ID :: nat where "CMD_SET_OUTPUT_OFFSET_SENSOR_ID \<equiv> 0"
abbreviation (input) CMD_SET_OUTPUT_OFFSET_VALUE :: nat where "CMD_SET_OUTPUT_OFFSET_VALUE \<equiv> 1"
abbreviation (input) CMD_STOP_OFFSET_SENSOR_ID :: nat where "CMD_STOP_OFFSET_SENSOR_ID \<equiv> 0"
abbreviation (input) CMD_SETUP_HEADER_SIZE :: u16 where "CMD_SETUP_HEADER_SIZE \<equiv> 1"
abbreviation (input) CMD_SET_OUTPUT_HEADER_SIZE :: u16 where "CMD_SET_OUTPUT_HEADER_SIZE \<equiv> 1"
abbreviation (input) CMD_STOP_PAYLOAD_SIZE :: u16 where "CMD_STOP_PAYLOAD_SIZE \<equiv> 1"

subsection \<open>Handlers\<close>

text \<open>\<^verbatim>\<open>protocol_send_ack\<close> with its result dropped, as every handler calls it.\<close>

definition send_ack :: "env \<Rightarrow> u8 \<Rightarrow> err_code \<Rightarrow> u8 \<Rightarrow> u8 \<Rightarrow> firmware \<Rightarrow> firmware option" where
  "send_ack E cmd_type err sensor_id sq w =
     do {
       (_, m, u) \<leftarrow> protocol_send_ack (ev_masks E) (ev_junk E) cmd_type err sensor_id sq (bmcu (fw_board w)) (fw_uart w);
       Some (w\<lparr>fw_uart := u, fw_board := (fw_board w)\<lparr>bmcu := m\<rparr>\<rparr>)
     }"

text \<open>The switches over the protocol id: the backend that is called, \<open>None\<close> in the default case.\<close>

definition setup_of :: "u8 \<Rightarrow> (env \<Rightarrow> u8 list \<Rightarrow> u16 \<Rightarrow> firmware \<Rightarrow> (err_code \<times> u8 \<times> firmware) option) option" where
  "setup_of protocol_id =
     (if protocol_id = PROTO_ID_I2C then Some fw_i2c_setup
      else if protocol_id = PROTO_ID_DIGITAL_OUT then Some fw_dout_setup
      else if protocol_id = PROTO_ID_PWM then Some fw_pwm_setup
      else if protocol_id = PROTO_ID_DAC then Some fw_dac_setup
      else if protocol_id = PROTO_ID_SPI then Some fw_spi_setup
      else None)"

definition set_output_of :: "u8 \<Rightarrow> (env \<Rightarrow> u8 \<Rightarrow> u8 list \<Rightarrow> u16 \<Rightarrow> firmware \<Rightarrow> (err_code \<times> firmware) option) option" where
  "set_output_of protocol_id =
     (if protocol_id = PROTO_ID_I2C then Some fw_i2c_set_output
      else if protocol_id = PROTO_ID_DIGITAL_OUT then Some fw_dout_set_output
      else if protocol_id = PROTO_ID_PWM then Some fw_pwm_set_output
      else if protocol_id = PROTO_ID_DAC then Some fw_dac_set_output
      else if protocol_id = PROTO_ID_SPI then Some fw_spi_set_output
      else None)"

definition stop_of :: "u8 \<Rightarrow> (env \<Rightarrow> u8 \<Rightarrow> firmware \<Rightarrow> (err_code \<times> firmware) option) option" where
  "stop_of protocol_id =
     (if protocol_id = PROTO_ID_I2C then Some fw_i2c_stop
      else if protocol_id = PROTO_ID_DIGITAL_OUT then Some fw_dout_stop
      else if protocol_id = PROTO_ID_PWM then Some fw_pwm_stop
      else if protocol_id = PROTO_ID_DAC then Some fw_dac_stop
      else if protocol_id = PROTO_ID_SPI then Some fw_spi_stop
      else None)"

definition handle_sync :: "env \<Rightarrow> parsed_frame \<Rightarrow> firmware \<Rightarrow> firmware option" where
  "handle_sync E f w = send_ack E PROTO_TYPE_CMD_SYNC ERR_SUCCESS PROTO_SENSOR_ID_NONE (frame_seq f) w"

definition handle_setup :: "env \<Rightarrow> parsed_frame \<Rightarrow> firmware \<Rightarrow> firmware option" where
  "handle_setup E f w =
     (if frame_len f < CMD_SETUP_HEADER_SIZE
      then send_ack E PROTO_TYPE_CMD_SETUP_SENSOR ERR_MALFORMED_PAYLOAD PROTO_SENSOR_ID_NONE (frame_seq f) w
      else do {
        protocol_id \<leftarrow> fetch CMD_SETUP_OFFSET_PROTOCOL_ID (frame_payload f);
        let cfg = drop CMD_SETUP_OFFSET_CFG (frame_payload f);
        let cfg_len = frame_len f - CMD_SETUP_HEADER_SIZE;
        case setup_of protocol_id of
          None \<Rightarrow> send_ack E PROTO_TYPE_CMD_SETUP_SENSOR ERR_UNSUPPORTED PROTO_SENSOR_ID_NONE (frame_seq f) w
        | Some sensor_setup \<Rightarrow> do {
            (err, sensor_id, w) \<leftarrow> sensor_setup E cfg cfg_len w;
            let sensor_id = (if err \<noteq> ERR_SUCCESS then PROTO_SENSOR_ID_NONE else sensor_id);
            send_ack E PROTO_TYPE_CMD_SETUP_SENSOR err sensor_id (frame_seq f) w
          }
      })"

definition handle_set_output :: "env \<Rightarrow> parsed_frame \<Rightarrow> firmware \<Rightarrow> firmware option" where
  "handle_set_output E f w =
     (if frame_len f < CMD_SET_OUTPUT_HEADER_SIZE
      then send_ack E PROTO_TYPE_CMD_SET_OUTPUT ERR_MALFORMED_PAYLOAD PROTO_SENSOR_ID_NONE (frame_seq f) w
      else do {
        sensor_id \<leftarrow> fetch CMD_SET_OUTPUT_OFFSET_SENSOR_ID (frame_payload f);
        let vals = drop CMD_SET_OUTPUT_OFFSET_VALUE (frame_payload f);
        let vals_len = frame_len f - CMD_SET_OUTPUT_HEADER_SIZE;
        case sensor_manager_lookup sensor_id (bsm (fw_board w)) of
          None \<Rightarrow> send_ack E PROTO_TYPE_CMD_SET_OUTPUT ERR_INVALID_SENSOR_ID sensor_id (frame_seq f) w
        | Some slot_idx \<Rightarrow> do {
            slot \<leftarrow> fetch slot_idx (slots (bsm (fw_board w)));
            (err, w) \<leftarrow> (case set_output_of (slot_protocol_id slot) of
                           None \<Rightarrow> Some (ERR_INVALID_PARAMETER, w)
                         | Some sensor_set_output \<Rightarrow> sensor_set_output E (slot_internal_id slot) vals vals_len w);
            send_ack E PROTO_TYPE_CMD_SET_OUTPUT err sensor_id (frame_seq f) w
          }
      })"

definition handle_stop :: "env \<Rightarrow> parsed_frame \<Rightarrow> firmware \<Rightarrow> firmware option" where
  "handle_stop E f w =
     (if frame_len f < CMD_STOP_PAYLOAD_SIZE
      then send_ack E PROTO_TYPE_CMD_STOP_SENSOR ERR_MALFORMED_PAYLOAD PROTO_SENSOR_ID_NONE (frame_seq f) w
      else do {
        sensor_id \<leftarrow> fetch CMD_STOP_OFFSET_SENSOR_ID (frame_payload f);
        case sensor_manager_lookup sensor_id (bsm (fw_board w)) of
          None \<Rightarrow> send_ack E PROTO_TYPE_CMD_STOP_SENSOR ERR_INVALID_SENSOR_ID sensor_id (frame_seq f) w
        | Some slot_idx \<Rightarrow> do {
            slot \<leftarrow> fetch slot_idx (slots (bsm (fw_board w)));
            (err, w) \<leftarrow> (case stop_of (slot_protocol_id slot) of
                           None \<Rightarrow> Some (ERR_INVALID_PARAMETER, w)
                         | Some sensor_stop \<Rightarrow> sensor_stop E (slot_internal_id slot) w);
            let w = (if err = ERR_SUCCESS
                     then w\<lparr>fw_board := (fw_board w)\<lparr>bsm := sensor_manager_release sensor_id (bsm (fw_board w))\<rparr>\<rparr> else w);
            send_ack E PROTO_TYPE_CMD_STOP_SENSOR err sensor_id (frame_seq f) w
          }
      })"

definition dispatcher_init :: "cmsis \<Rightarrow> firmware \<Rightarrow> firmware" where
  "dispatcher_init M w =
     (let w = w\<lparr>fw_board := (fw_board w)\<lparr>bsm := sensor_manager_init (bsm (fw_board w))\<rparr>\<rparr>;
          w = w\<lparr>fw_board := (fw_board w)\<lparr>btimers := hw_timer_init M\<rparr>\<rparr>;
          w = w\<lparr>fw_i2c := i2c_sensor_init (fw_i2c w)\<rparr>;
          w = w\<lparr>fw_dout := digital_out_sensor_init (fw_dout w)\<rparr>;
          w = w\<lparr>fw_pwm := pwm_sensor_init (fw_pwm w)\<rparr>;
          w = w\<lparr>fw_dac := dac_sensor_init (fw_dac w)\<rparr>
      in w\<lparr>fw_sps := spi_slave_sensor_init (fw_sps w)\<rparr>)"

definition dispatcher_handle :: "env \<Rightarrow> parsed_frame \<Rightarrow> firmware \<Rightarrow> firmware option" where
  "dispatcher_handle E f w =
     (if frame_type f = PROTO_TYPE_CMD_SYNC then handle_sync E f w
      else if frame_type f = PROTO_TYPE_CMD_SETUP_SENSOR then handle_setup E f w
      else if frame_type f = PROTO_TYPE_CMD_SET_OUTPUT then handle_set_output E f w
      else if frame_type f = PROTO_TYPE_CMD_STOP_SENSOR then handle_stop E f w
      else if frame_type f = PROTO_TYPE_CMD_SCENARIO
      then send_ack E (frame_type f) ERR_NOT_IMPLEMENTED PROTO_SENSOR_ID_NONE (frame_seq f) w
      else send_ack E (frame_type f) ERR_UNKNOWN_CMD PROTO_SENSOR_ID_NONE (frame_seq f) w)"

subsection \<open>What the host sees\<close>

text \<open>
  The specification of a command: the table of sensors before, the frame, the error code and sensor
  id of the acknowledgement, and the table after.
\<close>

definition host_step ::
    "(u8 \<Rightarrow> (u8 \<times> u8) option) \<Rightarrow> frame \<Rightarrow> err_code \<Rightarrow> u8 \<Rightarrow> (u8 \<Rightarrow> (u8 \<times> u8) option) \<Rightarrow> bool" where
  "host_step T f err sid T' \<longleftrightarrow>
     (case f of (ty, _, pl) \<Rightarrow>
        if ty = PROTO_TYPE_CMD_SETUP_SENSOR
        then (if pl = [] then err = ERR_MALFORMED_PAYLOAD \<and> sid = PROTO_SENSOR_ID_NONE \<and> T' = T
              else if hd pl \<notin> {PROTO_ID_I2C, PROTO_ID_SPI, PROTO_ID_DIGITAL_OUT, PROTO_ID_DAC, PROTO_ID_PWM}
              then err = ERR_UNSUPPORTED \<and> sid = PROTO_SENSOR_ID_NONE \<and> T' = T
              else if err = ERR_SUCCESS
              then sid \<noteq> PROTO_SENSOR_ID_NONE \<and> T sid = None \<and> (\<exists>i. (hd pl, i) \<notin> ran T \<and> T' = T(sid \<mapsto> (hd pl, i)))
              else sid = PROTO_SENSOR_ID_NONE \<and> T' = T)
        else if ty = PROTO_TYPE_CMD_SET_OUTPUT
        then T' = T \<and> (if pl = [] then err = ERR_MALFORMED_PAYLOAD \<and> sid = PROTO_SENSOR_ID_NONE
                       else sid = hd pl \<and> (T (hd pl) = None \<longrightarrow> err = ERR_INVALID_SENSOR_ID))
        else if ty = PROTO_TYPE_CMD_STOP_SENSOR
        then (if pl = [] then err = ERR_MALFORMED_PAYLOAD \<and> sid = PROTO_SENSOR_ID_NONE \<and> T' = T
              else sid = hd pl \<and> (if T (hd pl) = None then err = ERR_INVALID_SENSOR_ID \<and> T' = T
                                   else err = ERR_SUCCESS \<and> T' = T(hd pl := None)))
        else T' = T \<and> sid = PROTO_SENSOR_ID_NONE \<and>
             err = (if ty = PROTO_TYPE_CMD_SYNC then ERR_SUCCESS
                    else if ty = PROTO_TYPE_CMD_SCENARIO then ERR_NOT_IMPLEMENTED else ERR_UNKNOWN_CMD))"

text \<open>A frame as the parser hands it over, and the invariant of the firmware between commands.\<close>

definition frame_ok :: "parsed_frame \<Rightarrow> bool" where
  "frame_ok f \<longleftrightarrow> length (frame_payload f) = PROTO_MAX_PAYLOAD \<and> unat (frame_len f) \<le> PROTO_MAX_PAYLOAD"

text \<open>The payload of a parsed frame, as the handlers test and read it.\<close>

lemma frame_of_parts:
  assumes "frame_ok f"
  shows "frame_of f = (frame_type f, frame_seq f, take (unat (frame_len f)) (frame_payload f))"
    "frame_payload f \<noteq> []" "hd (frame_payload f) = frame_payload f ! 0"
proof -
  have "frame_payload f \<noteq> []" using assms by (auto simp: frame_ok_def)
  then show "frame_of f = (frame_type f, frame_seq f, take (unat (frame_len f)) (frame_payload f))"
    "frame_payload f \<noteq> []" "hd (frame_payload f) = frame_payload f ! 0"
    by (simp_all add: frame_of_def hd_conv_nth)
qed

definition fw_inv :: "firmware \<Rightarrow> bool" where
  "fw_inv w \<longleftrightarrow> fw_core w \<and> table_sync (fw_table w) (fw_live w)"

text \<open>What a handler promises: the specified step, and one acknowledgement of it at the end of the transmit queue.\<close>

definition handled :: "parsed_frame \<Rightarrow> firmware \<Rightarrow> err_code \<Rightarrow> u8 \<Rightarrow> firmware \<Rightarrow> bool" where
  "handled f w err sid w' \<longleftrightarrow> fw_inv w' \<and> host_step (fw_table w) (frame_of f) err sid (fw_table w') \<and>
     rx_contents (fw_uart w') = rx_contents (fw_uart w) \<and>
     tx_contents (fw_uart w') = tx_contents (fw_uart w) @ take (511 - length (tx_contents (fw_uart w)))
       (encode_frame (ack_frame (frame_type f) err sid (frame_seq f)))"

subsection \<open>Every handler meets the specification\<close>

lemma sm_table_lookup:
  "sm_table sm sid = None \<longleftrightarrow> sensor_manager_lookup sid sm = None"
  "sm_table sm sid = Some (p, i) \<Longrightarrow> \<exists>k. sensor_manager_lookup sid sm = Some k \<and> k < length (slots sm) \<and>
     slot_protocol_id (slots sm ! k) = p \<and> slot_internal_id (slots sm ! k) = i"
  by (auto simp: sm_table_def sensor_manager_lookup_def dest: find_index_less split: if_splits)

lemma send_ack_uart:
  assumes "uart_inv (fw_uart w)" "length (ev_junk E) = 10"
  shows "\<exists>u m. send_ack E ty err sid sq w = Some (w\<lparr>fw_uart := u, fw_board := (fw_board w)\<lparr>bmcu := m\<rparr>\<rparr>) \<and> uart_inv u \<and>
    rx_contents u = rx_contents (fw_uart w) \<and>
    tx_contents u = tx_contents (fw_uart w) @ take (511 - length (tx_contents (fw_uart w))) (encode_frame (ack_frame ty err sid sq))"
proof -
  let ?b = "bmcu (fw_board w)" and ?u = "fw_uart w"
  obtain e m u where r: "push_frame (ev_masks E) (encode_frame (ack_frame ty err sid sq)) 10 ?b ?u = (e, m, u)" by (metis prod_cases3)
  then have s: "protocol_send_ack (ev_masks E) (ev_junk E) ty err sid sq ?b ?u = Some (e, m, u)"
    using protocol_send_ack_push[OF assms(2)] by simp
  have "rx_contents u = rx_contents ?u"
    using r uart_tx_push_rx[of "take 10 (encode_frame (ack_frame ty err sid sq))" 0 ?u]
    by (auto simp: push_frame_def uart_tx_push_def Let_def split: prod.splits if_splits)
  then show ?thesis using s protocol_send_ack_spec(1,2)[OF assms s] by (auto simp: send_ack_def)
qed

lemma send_ack_handled:
  assumes inv: "fw_inv w1" and junk: "length (ev_junk E) = 10" and u: "fw_uart w1 = fw_uart w"
    and host: "host_step (fw_table w) (frame_of f) err sid (fw_table w1)" and ty: "frame_type f = ty"
  shows "\<exists>w'. send_ack E ty err sid (frame_seq f) w1 = Some w' \<and> handled f w err sid w'"
proof -
  have core: "fw_core w1" and sync: "table_sync (fw_table w1) (fw_live w1)" using inv by (simp_all add: fw_inv_def)
  note C = fw_coreD[OF core]
  obtain u' m where s: "send_ack E ty err sid (frame_seq f) w1 = Some (w1\<lparr>fw_uart := u', fw_board := (fw_board w1)\<lparr>bmcu := m\<rparr>\<rparr>)" "uart_inv u'"
    "rx_contents u' = rx_contents (fw_uart w1)" "tx_contents u' = tx_contents (fw_uart w1) @
       take (511 - length (tx_contents (fw_uart w1))) (encode_frame (ack_frame ty err sid (frame_seq f)))"
    using send_ack_uart[OF C(1) junk] by blast
  let ?w = "w1\<lparr>fw_uart := u', fw_board := (fw_board w1)\<lparr>bmcu := m\<rparr>\<rparr>"
  have "fw_core ?w" using C s(2) fw_core_board[OF core, of "fw_board ?w"] board_mcu_inv[OF C(9)] by (simp add: fw_core_def)
  moreover have "fw_live ?w = fw_live w1" by (rule fw_live_same) (simp add: fw_ids_def)
  ultimately have "fw_inv ?w" using sync by (simp add: fw_inv_def)
  then show ?thesis using s host u ty by (simp add: handled_def)
qed

text \<open>The contract of the backend a protocol id selects.\<close>

lemma setup_of_synced:
  assumes "fw_inv w" "env_ok E" "unat n \<le> length cfg" "setup_of p = Some g"
  shows "\<exists>err sid w'. g E cfg n w = Some (err, sid, w') \<and> fw_inv w' \<and> fw_uart w' = fw_uart w \<and>
    (if err = ERR_SUCCESS
     then sid \<noteq> PROTO_SENSOR_ID_NONE \<and> fw_table w sid = None \<and> (\<exists>i. (p, i) \<notin> ran (fw_table w) \<and> fw_table w' = (fw_table w)(sid \<mapsto> (p, i)))
     else sid = PROTO_SENSOR_ID_NONE \<and> fw_table w' = fw_table w)"
proof -
  have core: "fw_core w" and sync: "table_sync (fw_table w) (fw_live w)" using assms(1) by (simp_all add: fw_inv_def)
  consider "p = 1" "g = fw_i2c_setup" | "p = 3" "g = fw_dout_setup" | "p = 6" "g = fw_pwm_setup" | "p = 5" "g = fw_dac_setup" | "p = 2" "g = fw_spi_setup"
    using assms(4) by (auto simp: setup_of_def split: if_splits)
  then show ?thesis unfolding fw_inv_def
    by cases (simp_all only: conj_assoc i2c_backend.setup_synced[OF core assms(2,3) sync] dout_backend.setup_synced[OF core assms(2,3) sync]
      pwm_backend.setup_synced[OF core assms(2,3) sync] dac_backend.setup_synced[OF core assms(2,3) sync]
      spi_backend.setup_synced[OF core assms(2,3) sync])
qed

lemma set_output_of_synced:
  assumes "fw_inv w" "env_ok E" "unat n \<le> length vals" "fw_table w sid = Some (p, i)"
  shows "\<exists>g err w'. set_output_of p = Some g \<and> g E i vals n w = Some (err, w') \<and> fw_inv w' \<and> fw_uart w' = fw_uart w \<and> fw_table w' = fw_table w"
proof -
  have core: "fw_core w" and sync: "table_sync (fw_table w) (fw_live w)" using assms(1) by (simp_all add: fw_inv_def)
  have "i \<in> fw_ids p w" using sync assms(4) by (auto simp: table_sync_def ran_def fw_live_def)
  then consider "p = 1" | "p = 3" | "p = 6" | "p = 5" | "p = 2" by (auto simp: fw_ids_def split: if_splits)
  then show ?thesis
  proof cases
    case 1 with i2c_backend.output_synced[OF core assms(2,3) sync] assms(4) show ?thesis by (simp add: fw_inv_def set_output_of_def conj_assoc)
  next
    case 2 with dout_backend.output_synced[OF core assms(2,3) sync] assms(4) show ?thesis by (simp add: fw_inv_def set_output_of_def conj_assoc)
  next
    case 3 with pwm_backend.output_synced[OF core assms(2,3) sync] assms(4) show ?thesis by (simp add: fw_inv_def set_output_of_def conj_assoc)
  next
    case 4 with dac_backend.output_synced[OF core assms(2,3) sync] assms(4) show ?thesis by (simp add: fw_inv_def set_output_of_def conj_assoc)
  next
    case 5 with spi_backend.output_synced[OF core assms(2,3) sync] assms(4) show ?thesis by (simp add: fw_inv_def set_output_of_def conj_assoc)
  qed
qed

lemma stop_of_synced:
  assumes "fw_inv w" "env_ok E" "fw_table w sid = Some (p, i)"
  shows "\<exists>g w'. stop_of p = Some g \<and> g E i w = Some (ERR_SUCCESS, w') \<and> fw_core w' \<and> fw_uart w' = fw_uart w \<and> fw_table w' = fw_table w \<and>
    table_sync ((fw_table w)(sid := None)) (fw_live w')"
proof -
  have core: "fw_core w" and sync: "table_sync (fw_table w) (fw_live w)" using assms(1) by (simp_all add: fw_inv_def)
  have "i \<in> fw_ids p w" using sync assms(3) by (auto simp: table_sync_def ran_def fw_live_def)
  then consider "p = 1" | "p = 3" | "p = 6" | "p = 5" | "p = 2" by (auto simp: fw_ids_def split: if_splits)
  then show ?thesis
  proof cases
    case 1 with i2c_backend.stop_synced[OF core assms(2) sync] assms(3) show ?thesis by (simp add: stop_of_def)
  next
    case 2 with dout_backend.stop_synced[OF core assms(2) sync] assms(3) show ?thesis by (simp add: stop_of_def)
  next
    case 3 with pwm_backend.stop_synced[OF core assms(2) sync] assms(3) show ?thesis by (simp add: stop_of_def)
  next
    case 4 with dac_backend.stop_synced[OF core assms(2) sync] assms(3) show ?thesis by (simp add: stop_of_def)
  next
    case 5 with spi_backend.stop_synced[OF core assms(2) sync] assms(3) show ?thesis by (simp add: stop_of_def)
  qed
qed

lemma handle_setup_ok:
  assumes inv: "fw_inv w" and env: "env_ok E" and f: "frame_ok f" "frame_type f = PROTO_TYPE_CMD_SETUP_SENSOR"
  shows "\<exists>err sid w'. handle_setup E f w = Some w' \<and> handled f w err sid w'"
proof -
  have junk: "length (ev_junk E) = 10" using env by (simp add: env_ok_def)
  have len: "length (frame_payload f) = 256" "unat (frame_len f) \<le> 256" using f(1) by (simp_all add: frame_ok_def)
  note ack = send_ack_handled[OF _ junk _ _ f(2)]
  let ?p = "frame_payload f ! 0"
  have pl: "fetch 0 (frame_payload f) = Some ?p" using len(1) by simp
  show ?thesis
  proof (cases "frame_len f = 0")
    case True
    then have "host_step (fw_table w) (frame_of f) ERR_MALFORMED_PAYLOAD 0 (fw_table w)" using f(2) by (simp add: host_step_def frame_of_parts[OF f(1)])
    from ack[OF inv refl this] show ?thesis using True by (auto simp: handle_setup_def)
  next
    case False
    then have nz: "\<not> frame_len f < 1" "unat (frame_len f) \<noteq> 0" by (auto simp: word_less_nat_alt unat_eq_zero)
    have cfg: "unat (frame_len f - 1) \<le> length (drop 1 (frame_payload f))" using len nz by (simp add: unat_sub word_le_nat_alt)
    show ?thesis
    proof (cases "setup_of ?p")
      case None
      then have "?p \<notin> {1, 2, 3, 5, 6}" by (auto simp: setup_of_def split: if_splits)
      then have "host_step (fw_table w) (frame_of f) ERR_UNSUPPORTED 0 (fw_table w)" using f(2) nz by (simp add: host_step_def frame_of_parts[OF f(1)])
      from ack[OF inv refl this] show ?thesis using None nz pl by (auto simp: handle_setup_def)
    next
      case (Some g)
      then have p: "?p \<in> {1, 2, 3, 5, 6}" by (auto simp: setup_of_def split: if_splits)
      obtain err sid w1 where r: "g E (drop 1 (frame_payload f)) (frame_len f - 1) w = Some (err, sid, w1)" "fw_inv w1" "fw_uart w1 = fw_uart w"
        "if err = ERR_SUCCESS
         then sid \<noteq> 0 \<and> fw_table w sid = None \<and> (\<exists>i. (?p, i) \<notin> ran (fw_table w) \<and> fw_table w1 = (fw_table w)(sid \<mapsto> (?p, i)))
         else sid = 0 \<and> fw_table w1 = fw_table w"
        using setup_of_synced[OF inv env cfg Some] by blast
      have sid: "(if err \<noteq> ERR_SUCCESS then 0 else sid) = sid" using r(4) by (simp split: if_splits)
      have "host_step (fw_table w) (frame_of f) err sid (fw_table w1)" using r(4) p f(2) nz by (auto simp: host_step_def frame_of_parts[OF f(1)] Let_def)
      from ack[OF r(2,3) this] show ?thesis using Some nz pl r(1) sid by (auto simp: handle_setup_def)
    qed
  qed
qed

lemma handle_set_output_ok:
  assumes inv: "fw_inv w" and env: "env_ok E" and f: "frame_ok f" "frame_type f = PROTO_TYPE_CMD_SET_OUTPUT"
  shows "\<exists>err sid w'. handle_set_output E f w = Some w' \<and> handled f w err sid w'"
proof -
  have junk: "length (ev_junk E) = 10" using env by (simp add: env_ok_def)
  have len: "length (frame_payload f) = 256" "unat (frame_len f) \<le> 256" using f(1) by (simp_all add: frame_ok_def)
  note ack = send_ack_handled[OF _ junk _ _ f(2)]
  let ?p = "frame_payload f ! 0"
  have pl: "fetch 0 (frame_payload f) = Some ?p" using len(1) by simp
  show ?thesis
  proof (cases "frame_len f = 0")
    case True
    then have "host_step (fw_table w) (frame_of f) ERR_MALFORMED_PAYLOAD 0 (fw_table w)" using f(2) by (simp add: host_step_def frame_of_parts[OF f(1)])
    from ack[OF inv refl this] show ?thesis using True by (auto simp: handle_set_output_def)
  next
    case False
    then have nz: "\<not> frame_len f < 1" "unat (frame_len f) \<noteq> 0" by (auto simp: word_less_nat_alt unat_eq_zero)
    have vals: "unat (frame_len f - 1) \<le> length (drop 1 (frame_payload f))" using len nz by (simp add: unat_sub word_le_nat_alt)
    show ?thesis
    proof (cases "fw_table w ?p")
      case None
      then have look: "sensor_manager_lookup ?p (bsm (fw_board w)) = None" by (simp add: sm_table_lookup(1))
      have "host_step (fw_table w) (frame_of f) ERR_INVALID_SENSOR_ID ?p (fw_table w)" using f(2) nz by (simp add: host_step_def frame_of_parts[OF f(1)])
      from ack[OF inv refl this] look nz pl show ?thesis by (auto simp: handle_set_output_def)
    next
      case (Some v)
      obtain p i where v: "v = (p, i)" by fastforce
      obtain k where k: "sensor_manager_lookup ?p (bsm (fw_board w)) = Some k" "k < length (slots (bsm (fw_board w)))"
        "slot_protocol_id (slots (bsm (fw_board w)) ! k) = p" "slot_internal_id (slots (bsm (fw_board w)) ! k) = i"
        using sm_table_lookup(2)[OF Some[unfolded v]] by blast
      obtain g err w1 where r: "set_output_of p = Some g" "g E i (drop 1 (frame_payload f)) (frame_len f - 1) w = Some (err, w1)" "fw_inv w1"
        "fw_uart w1 = fw_uart w" "fw_table w1 = fw_table w"
        using set_output_of_synced[OF inv env vals Some[unfolded v]] by blast
      have "host_step (fw_table w) (frame_of f) err ?p (fw_table w1)" using r(5) Some f(2) nz by (simp add: host_step_def frame_of_parts[OF f(1)])
      from ack[OF r(3,4) this] show ?thesis using nz pl k r(1,2) by (auto simp: handle_set_output_def)
    qed
  qed
qed

lemma handle_stop_ok:
  assumes inv: "fw_inv w" and env: "env_ok E" and f: "frame_ok f" "frame_type f = PROTO_TYPE_CMD_STOP_SENSOR"
  shows "\<exists>err sid w'. handle_stop E f w = Some w' \<and> handled f w err sid w'"
proof -
  have junk: "length (ev_junk E) = 10" using env by (simp add: env_ok_def)
  have len: "length (frame_payload f) = 256" using f(1) by (simp add: frame_ok_def)
  note ack = send_ack_handled[OF _ junk _ _ f(2)]
  let ?p = "frame_payload f ! 0"
  have pl: "fetch 0 (frame_payload f) = Some ?p" using len by simp
  show ?thesis
  proof (cases "frame_len f = 0")
    case True
    then have "host_step (fw_table w) (frame_of f) ERR_MALFORMED_PAYLOAD 0 (fw_table w)" using f(2) by (simp add: host_step_def frame_of_parts[OF f(1)])
    from ack[OF inv refl this] show ?thesis using True by (auto simp: handle_stop_def)
  next
    case False
    then have nz: "\<not> frame_len f < 1" "unat (frame_len f) \<noteq> 0" by (auto simp: word_less_nat_alt unat_eq_zero)
    show ?thesis
    proof (cases "fw_table w ?p")
      case None
      then have look: "sensor_manager_lookup ?p (bsm (fw_board w)) = None" by (simp add: sm_table_lookup(1))
      have "host_step (fw_table w) (frame_of f) ERR_INVALID_SENSOR_ID ?p (fw_table w)" using None f(2) nz by (simp add: host_step_def frame_of_parts[OF f(1)])
      from ack[OF inv refl this] look nz pl show ?thesis by (auto simp: handle_stop_def)
    next
      case (Some v)
      obtain p i where v: "v = (p, i)" by fastforce
      obtain k where k: "sensor_manager_lookup ?p (bsm (fw_board w)) = Some k" "k < length (slots (bsm (fw_board w)))"
        "slot_protocol_id (slots (bsm (fw_board w)) ! k) = p" "slot_internal_id (slots (bsm (fw_board w)) ! k) = i"
        using sm_table_lookup(2)[OF Some[unfolded v]] by blast
      obtain g w1 where r: "stop_of p = Some g" "g E i w = Some (ERR_SUCCESS, w1)" "fw_core w1" "fw_uart w1 = fw_uart w" "fw_table w1 = fw_table w"
        "table_sync ((fw_table w)(?p := None)) (fw_live w1)"
        using stop_of_synced[OF inv env Some[unfolded v]] by blast
      define sm where "sm = sensor_manager_release ?p (bsm (fw_board w1))"
      let ?w = "w1\<lparr>fw_board := (fw_board w1)\<lparr>bsm := sm\<rparr>\<rparr>"
      have S: "sm_inv (bsm (fw_board w1))" using fw_coreD(9)[OF r(3)] by (simp add: board_inv_def)
      have tab: "fw_table ?w = (fw_table w)(?p := None)" using release_table[OF S] r(5) by (simp add: sm_def)
      have "board_inv (fw_board ?w)" using fw_coreD(9)[OF r(3)] release_inv[OF S] by (simp add: board_inv_def sm_def)
      then have "fw_core ?w" using fw_coreD[OF r(3)] fw_core_board[OF r(3), of "fw_board ?w"] by (simp add: fw_core_def)
      moreover have "fw_live ?w = fw_live w1" by (rule fw_live_same) (simp add: fw_ids_def)
      ultimately have inv1: "fw_inv ?w" using r(6) tab by (simp add: fw_inv_def)
      have "host_step (fw_table w) (frame_of f) ERR_SUCCESS ?p (fw_table ?w)" using tab Some f(2) nz by (simp add: host_step_def frame_of_parts[OF f(1)])
      from ack[OF inv1 _ this] r(4) obtain w2 where "send_ack E PROTO_TYPE_CMD_STOP_SENSOR ERR_SUCCESS ?p (frame_seq f) ?w = Some w2"
        "handled f w ERR_SUCCESS ?p w2" by auto
      then show ?thesis using nz pl k r(1,2) by (auto simp: handle_stop_def sm_def)
    qed
  qed
qed

lemma dispatcher_handle_ok:
  assumes inv: "fw_inv w" and env: "env_ok E" and f: "frame_ok f"
  shows "\<exists>err sid w'. dispatcher_handle E f w = Some w' \<and> handled f w err sid w'"
proof -
  have junk: "length (ev_junk E) = 10" using env by (simp add: env_ok_def)
  note ack = send_ack_handled[OF inv junk refl]
  consider (set_up) "frame_type f = 1" | (out) "frame_type f = 2" | (stop) "frame_type f = 3" | (sync) "frame_type f = 5"
    | (other) "frame_type f \<notin> {1, 2, 3, 5}" by auto
  then show ?thesis
  proof cases
    case set_up with handle_setup_ok[OF inv env f] show ?thesis by (simp add: dispatcher_handle_def)
  next
    case out with handle_set_output_ok[OF inv env f] show ?thesis by (simp add: dispatcher_handle_def)
  next
    case stop with handle_stop_ok[OF inv env f] show ?thesis by (simp add: dispatcher_handle_def)
  next
    case sync
    then have "host_step (fw_table w) (frame_of f) ERR_SUCCESS 0 (fw_table w)" by (simp add: host_step_def frame_of_parts[OF f(1)])
    from ack[OF this sync] sync show ?thesis by (auto simp: dispatcher_handle_def handle_sync_def)
  next
    case other
    let ?e = "if frame_type f = 4 then ERR_NOT_IMPLEMENTED else ERR_UNKNOWN_CMD"
    have "host_step (fw_table w) (frame_of f) ?e 0 (fw_table w)" using other by (simp add: host_step_def frame_of_parts[OF f(1)])
    from ack[OF this refl] other show ?thesis by (auto simp: dispatcher_handle_def split: if_splits)
  qed
qed

end
