(* ===== verification/Clock.thy ===== *)
theory Clock
  imports Mcu
begin

text \<open>
  \<^verbatim>\<open>app/src/clock.c\<close>: the switch of the system clock to the PLL. The build option \<^verbatim>\<open>USE_HSE\<close> is an
  argument. Each busy-wait loop takes the list of values its register read returns, one per
  iteration; when the list ends before the flag is seen, the code is still in that loop: the result
  \<open>Inl\<close> is the machine while waiting, \<open>Inr\<close> the machine after return.
\<close>

abbreviation (input) CLOCK_PLL_N :: u32 where "CLOCK_PLL_N \<equiv> 168"
abbreviation (input) CLOCK_PLL_P_REGVAL :: u32 where "CLOCK_PLL_P_REGVAL \<equiv> 1"
abbreviation (input) CLOCK_PLL_Q :: u32 where "CLOCK_PLL_Q \<equiv> 7"
abbreviation (input) CLOCK_PLL_M_HSE :: u32 where "CLOCK_PLL_M_HSE \<equiv> 4"
abbreviation (input) CLOCK_PLL_M_HSI :: u32 where "CLOCK_PLL_M_HSI \<equiv> 8"

fun poll :: "reg \<Rightarrow> (u32 \<Rightarrow> bool) \<Rightarrow> u32 list \<Rightarrow> mcu \<Rightarrow> mcu + mcu" where
  "poll r ready [] m = Inl m"
| "poll r ready (v # vs) m = (let m = emit (Rd r) m in if ready v then Inr m else poll r ready vs m)"

definition clock_pllcfgr :: "cmsis \<Rightarrow> bool \<Rightarrow> u32" where
  "clock_pllcfgr M use_hse =
     push_bit (PLLN_Pos M) CLOCK_PLL_N OR push_bit (PLLP_Pos M) CLOCK_PLL_P_REGVAL OR push_bit (PLLQ_Pos M) CLOCK_PLL_Q OR
     (if use_hse then push_bit (PLLM_Pos M) CLOCK_PLL_M_HSE OR clkm M RCC_PLLCFGR_PLLSRC_HSE
      else push_bit (PLLM_Pos M) CLOCK_PLL_M_HSI OR clkm M RCC_PLLCFGR_PLLSRC_HSI)"

definition clock_init :: "cmsis \<Rightarrow> bool \<Rightarrow> u32 list \<Rightarrow> u32 list \<Rightarrow> u32 list \<Rightarrow> mcu \<Rightarrow> mcu + mcu" where
  "clock_init M use_hse hse_reads pll_reads sws_reads m =
     (let m = reg_or RCC_APB1ENR (clkm M RCC_APB1ENR_PWREN) m;
          m = reg_or PWR_CR (clkm M PWR_CR_VOS_1) m
      in case (if use_hse
               then poll RCC_CR (\<lambda>v. v AND clkm M RCC_CR_HSERDY \<noteq> 0) hse_reads (reg_or RCC_CR (clkm M RCC_CR_HSEON) m)
               else Inr m) of
           Inl m \<Rightarrow> Inl m
         | Inr m \<Rightarrow>
             (let m = wr FLASH_ACR (clkm M FLASH_ACR_LATENCY_2WS OR clkm M FLASH_ACR_ICEN OR clkm M FLASH_ACR_DCEN OR
                        clkm M FLASH_ACR_PRFTEN) m;
                  m = wr RCC_PLLCFGR (clock_pllcfgr M use_hse) m;
                  m = reg_or RCC_CR (clkm M RCC_CR_PLLON) m
              in case poll RCC_CR (\<lambda>v. v AND clkm M RCC_CR_PLLRDY \<noteq> 0) pll_reads m of
                   Inl m \<Rightarrow> Inl m
                 | Inr m \<Rightarrow>
                     (let m = reg_or RCC_CFGR (clkm M RCC_CFGR_PPRE1_DIV2) m;
                          m = reg_or RCC_CFGR (clkm M RCC_CFGR_SW_PLL) m
                      in case poll RCC_CFGR (\<lambda>v. v AND clkm M RCC_CFGR_SWS = clkm M RCC_CFGR_SWS_PLL) sws_reads m of
                           Inl m \<Rightarrow> Inl m
                         | Inr m \<Rightarrow> Inr (emit SystemCoreClockUpdate m))))"

subsection \<open>Waiting\<close>

definition machine_of :: "mcu + mcu \<Rightarrow> mcu" where
  "machine_of r = (case r of Inl m \<Rightarrow> m | Inr m \<Rightarrow> m)"

lemma machine_of_simps [simp]: "machine_of (Inl m) = m" "machine_of (Inr m) = m"
  by (simp_all add: machine_of_def)

text \<open>A wait changes no register and only reads; it returns exactly when the flag is read.\<close>

lemma poll_reads:
  obtains n where "poll r ready vs m = (if list_ex ready vs then Inr else Inl) (m\<lparr>trace := trace m @ replicate n (Rd r)\<rparr>)"
    "list_ex ready vs \<longrightarrow> 0 < n"
proof (induction vs arbitrary: m thesis)
  case Nil
  from Nil[of 0] show ?case by simp
next
  case (Cons v vs)
  show ?case
  proof (cases "ready v")
    case True
    with Cons.prems[of 1] show ?thesis by (simp add: emit_def)
  next
    case False
    obtain n where "poll r ready vs (emit (Rd r) m) =
        (if list_ex ready vs then Inr else Inl) ((emit (Rd r) m)\<lparr>trace := trace (emit (Rd r) m) @ replicate n (Rd r)\<rparr>)"
      using Cons.IH by blast
    with False Cons.prems[of "Suc n"] show ?thesis by (simp add: emit_def)
  qed
qed

lemma first_occurrence:
  assumes "xs @ ys = pre @ z # post" "z \<notin> set xs"
  shows "\<exists>zs. pre = xs @ zs \<and> ys = zs @ z # post"
  using assms by (induction xs arbitrary: pre) (auto simp: Cons_eq_append_conv)

subsection \<open>Frequencies\<close>

text \<open>
  The PLL as the reference manual describes it: PLLM divides the source, PLLN multiplies, PLLP and
  PLLQ divide the VCO for the system clock (by 2, 4, 6, 8) and for USB.
\<close>

definition pll_vco :: "cmsis \<Rightarrow> nat \<Rightarrow> u32 \<Rightarrow> nat" where
  "pll_vco M src v = src div unat (take_bit 6 (drop_bit (PLLM_Pos M) v)) * unat (take_bit 9 (drop_bit (PLLN_Pos M) v))"

definition pll_sysclk :: "cmsis \<Rightarrow> nat \<Rightarrow> u32 \<Rightarrow> nat" where
  "pll_sysclk M src v = pll_vco M src v div (2 * (unat (take_bit 2 (drop_bit (PLLP_Pos M) v)) + 1))"

definition pll_usb :: "cmsis \<Rightarrow> nat \<Rightarrow> u32 \<Rightarrow> nat" where
  "pll_usb M src v = pll_vco M src v div unat (take_bit 4 (drop_bit (PLLQ_Pos M) v))"

text \<open>The layout of PLLCFGR in the device header.\<close>

definition pll_layout :: "cmsis \<Rightarrow> bool" where
  "pll_layout M \<longleftrightarrow> PLLM_Pos M = 0 \<and> PLLN_Pos M = 6 \<and> PLLP_Pos M = 16 \<and> PLLQ_Pos M = 24 \<and>
     clkm M RCC_PLLCFGR_PLLSRC_HSE = 0x400000 \<and> clkm M RCC_PLLCFGR_PLLSRC_HSI = 0"

abbreviation (input) SYSTEM_CLOCK_HZ :: nat where "SYSTEM_CLOCK_HZ \<equiv> 84000000"

lemma pll_frequencies:
  assumes "pll_layout M"
  shows "pll_sysclk M (if use_hse then 8000000 else 16000000) (clock_pllcfgr M use_hse) = SYSTEM_CLOCK_HZ"
    and "pll_usb M (if use_hse then 8000000 else 16000000) (clock_pllcfgr M use_hse) = 48000000"
proof -
  have v: "clock_pllcfgr M use_hse = (if use_hse then 0x7412A04 else 0x7012A08)"
    using assms by (simp add: clock_pllcfgr_def pll_layout_def push_bit_eq_mult)
  have f: "take_bit 6 (drop_bit 0 (0x7412A04 :: u32)) = 4" "take_bit 9 (drop_bit 6 (0x7412A04 :: u32)) = 168"
    "take_bit 2 (drop_bit 16 (0x7412A04 :: u32)) = 1" "take_bit 4 (drop_bit 24 (0x7412A04 :: u32)) = 7"
    "take_bit 6 (drop_bit 0 (0x7012A08 :: u32)) = 8" "take_bit 9 (drop_bit 6 (0x7012A08 :: u32)) = 168"
    "take_bit 2 (drop_bit 16 (0x7012A08 :: u32)) = 1" "take_bit 4 (drop_bit 24 (0x7012A08 :: u32)) = 7"
    by (simp_all add: take_bit_eq_mod drop_bit_eq_div)
  show "pll_sysclk M (if use_hse then 8000000 else 16000000) (clock_pllcfgr M use_hse) = SYSTEM_CLOCK_HZ"
    "pll_usb M (if use_hse then 8000000 else 16000000) (clock_pllcfgr M use_hse) = 48000000"
    using assms f by (simp_all add: v pll_sysclk_def pll_usb_def pll_vco_def pll_layout_def)
qed

subsection \<open>Properties\<close>

text \<open>The flags of the three waits.\<close>

definition hse_ok :: "cmsis \<Rightarrow> u32 \<Rightarrow> bool" where "hse_ok M v \<longleftrightarrow> v AND clkm M RCC_CR_HSERDY \<noteq> 0"
definition pll_ok :: "cmsis \<Rightarrow> u32 \<Rightarrow> bool" where "pll_ok M v \<longleftrightarrow> v AND clkm M RCC_CR_PLLRDY \<noteq> 0"
definition sws_ok :: "cmsis \<Rightarrow> u32 \<Rightarrow> bool" where "sws_ok M v \<longleftrightarrow> v AND clkm M RCC_CFGR_SWS = clkm M RCC_CFGR_SWS_PLL"

text \<open>
  The PLL has been started with configuration \<open>cfg\<close>: it was stored to PLLCFGR, only then was the PLL
  switched on, and after that RCC\_CR has been read.
\<close>

definition pll_started :: "cmsis \<Rightarrow> u32 \<Rightarrow> hw_event list \<Rightarrow> bool" where
  "pll_started M cfg es \<longleftrightarrow> (\<exists>p q x r. es = p @ [Wr RCC_PLLCFGR cfg] @ q @ [Wr RCC_CR x] @ r \<and>
     x AND clkm M RCC_CR_PLLON = clkm M RCC_CR_PLLON \<and> Rd RCC_CR \<in> set r \<and> writes_to RCC_PLLCFGR (p @ q @ r) = [])"

abbreviation (input) flash_setting :: "cmsis \<Rightarrow> u32" where
  "flash_setting M \<equiv> clkm M FLASH_ACR_LATENCY_2WS OR clkm M FLASH_ACR_ICEN OR clkm M FLASH_ACR_DCEN OR clkm M FLASH_ACR_PRFTEN"

lemma writes_to_reads [simp]: "writes_to q (replicate n (Rd r)) = []"
  by (induction n) simp_all

lemma pll_started_extend: "pll_started M cfg es \<Longrightarrow> writes_to RCC_PLLCFGR fs = [] \<Longrightarrow> pll_started M cfg (es @ fs)"
proof -
  assume "writes_to RCC_PLLCFGR fs = []" "pll_started M cfg es"
  then obtain p q x r where "es = p @ [Wr RCC_PLLCFGR cfg] @ q @ [Wr RCC_CR x] @ r" "x AND clkm M RCC_CR_PLLON = clkm M RCC_CR_PLLON"
    "Rd RCC_CR \<in> set r" "writes_to RCC_PLLCFGR (p @ q @ r) = []" unfolding pll_started_def by blast
  with \<open>writes_to RCC_PLLCFGR fs = []\<close> show ?thesis unfolding pll_started_def
    by (intro exI[of _ p] exI[of _ q] exI[of _ x] exI[of _ "r @ fs"]) simp
qed

text \<open>The accesses of a run that has not reached the switch, and of one that has.\<close>

lemma clock_init_trace:
  defines "c m \<equiv> regs m RCC_CFGR"
  assumes r: "r = clock_init M use_hse hse_reads pll_reads sws_reads m"
  obtains (before) es where "trace (machine_of r) = trace m @ es" "\<forall>v. Wr RCC_CFGR v \<notin> set es" "isl r"
      "\<not> ((use_hse \<longrightarrow> list_ex (hse_ok M) hse_reads) \<and> list_ex (pll_ok M) pll_reads)"
  | (switched) es fs where
      "trace (machine_of r) = trace m @ es @ [Wr RCC_CFGR (c m OR clkm M RCC_CFGR_PPRE1_DIV2),
         Wr RCC_CFGR (c m OR clkm M RCC_CFGR_PPRE1_DIV2 OR clkm M RCC_CFGR_SW_PLL)] @ fs"
      "\<forall>v. Wr RCC_CFGR v \<notin> set es" "\<forall>v. Wr RCC_CFGR v \<notin> set fs" "isl r \<longleftrightarrow> \<not> list_ex (sws_ok M) sws_reads"
      "use_hse \<longrightarrow> list_ex (hse_ok M) hse_reads" "list_ex (pll_ok M) pll_reads"
      "writes_to FLASH_ACR es = [flash_setting M]" "pll_started M (clock_pllcfgr M use_hse) es"
proof -
  let ?m0 = "reg_or PWR_CR (clkm M PWR_CR_VOS_1) (reg_or RCC_APB1ENR (clkm M RCC_APB1ENR_PWREN) m)"
  let ?hse = "list_ex (hse_ok M) hse_reads" and ?pll = "list_ex (pll_ok M) pll_reads" and ?sws = "list_ex (sws_ok M) sws_reads"
  let ?start = "if use_hse then poll RCC_CR (hse_ok M) hse_reads (reg_or RCC_CR (clkm M RCC_CR_HSEON) ?m0) else Inr ?m0"
  have def: "r = (case ?start of Inl m \<Rightarrow> Inl m
    | Inr m \<Rightarrow> (case poll RCC_CR (pll_ok M) pll_reads (reg_or RCC_CR (clkm M RCC_CR_PLLON) (wr RCC_PLLCFGR (clock_pllcfgr M use_hse) (wr FLASH_ACR (flash_setting M) m))) of
        Inl m \<Rightarrow> Inl m
      | Inr m \<Rightarrow> (case poll RCC_CFGR (sws_ok M) sws_reads (reg_or RCC_CFGR (clkm M RCC_CFGR_SW_PLL) (reg_or RCC_CFGR (clkm M RCC_CFGR_PPRE1_DIV2) m)) of
          Inl m \<Rightarrow> Inl m | Inr m \<Rightarrow> Inr (emit SystemCoreClockUpdate m))))"
    unfolding r by (simp only: clock_init_def Let_def hse_ok_def[abs_def] pll_ok_def[abs_def] sws_ok_def[abs_def])
  obtain m1 es1 where start: "?start = (if use_hse \<longrightarrow> ?hse then Inr else Inl) m1" "trace m1 = trace m @ es1" "regs m1 RCC_CFGR = c m"
    "\<forall>q. q \<notin> {RCC_APB1ENR, PWR_CR, RCC_CR} \<longrightarrow> writes_to q es1 = []" "\<forall>v. Wr RCC_CFGR v \<notin> set es1"
    by (rule poll_reads[of RCC_CR "hse_ok M" hse_reads "reg_or RCC_CR (clkm M RCC_CR_HSEON) ?m0"]) (cases use_hse; auto simp: c_def)
  let ?m2 = "reg_or RCC_CR (clkm M RCC_CR_PLLON) (wr RCC_PLLCFGR (clock_pllcfgr M use_hse) (wr FLASH_ACR (flash_setting M) m1))"
  obtain k where pll: "poll RCC_CR (pll_ok M) pll_reads ?m2 = (if ?pll then Inr else Inl) (?m2\<lparr>trace := trace ?m2 @ replicate k (Rd RCC_CR)\<rparr>)"
    "?pll \<longrightarrow> 0 < k" by (rule poll_reads)
  let ?m3 = "?m2\<lparr>trace := trace ?m2 @ replicate k (Rd RCC_CR)\<rparr>"
  let ?m4 = "reg_or RCC_CFGR (clkm M RCC_CFGR_SW_PLL) (reg_or RCC_CFGR (clkm M RCC_CFGR_PPRE1_DIV2) ?m3)"
  let ?x = "regs m1 RCC_CR OR clkm M RCC_CR_PLLON"
  let ?es = "es1 @ [Wr FLASH_ACR (flash_setting M), Wr RCC_PLLCFGR (clock_pllcfgr M use_hse), Wr RCC_CR ?x] @ replicate k (Rd RCC_CR)"
  show thesis
  proof (cases "(use_hse \<longrightarrow> ?hse) \<and> ?pll")
    case False
    show thesis
    proof (cases "use_hse \<longrightarrow> ?hse")
      case True
      with False start pll have "r = Inl ?m3" unfolding def by simp
      with False start show thesis by (intro before[of ?es]) auto
    next
      case no: False
      with start have "r = Inl m1" unfolding def by simp
      with False start show thesis by (intro before[of es1]) auto
    qed
  next
    case True
    obtain n where sws: "poll RCC_CFGR (sws_ok M) sws_reads ?m4 = (if ?sws then Inr else Inl) (?m4\<lparr>trace := trace ?m4 @ replicate n (Rd RCC_CFGR)\<rparr>)"
      by (rule poll_reads)
    have "r = (if ?sws then Inr else Inl) (if ?sws then emit SystemCoreClockUpdate (?m4\<lparr>trace := trace ?m4 @ replicate n (Rd RCC_CFGR)\<rparr>)
        else ?m4\<lparr>trace := trace ?m4 @ replicate n (Rd RCC_CFGR)\<rparr>)"
      using True start(1) pll(1) sws unfolding def by simp
    moreover have "?x AND clkm M RCC_CR_PLLON = clkm M RCC_CR_PLLON" by (rule or_and_absorb)
    then have "pll_started M (clock_pllcfgr M use_hse) ?es" unfolding pll_started_def
      using start(4) True pll(2)
      by (intro exI[of _ "es1 @ [Wr FLASH_ACR (flash_setting M)]"] exI[of _ "[]"] exI[of _ ?x] exI[of _ "replicate k (Rd RCC_CR)"]) simp
    ultimately show thesis using True start
      by (intro switched[of ?es "replicate n (Rd RCC_CFGR) @ (if ?sws then [SystemCoreClockUpdate] else [])"]) (auto simp: or.assoc)
  qed
qed



end
