(* ===== verification/App.thy ===== *)
theory App
  imports Dispatcher Clock
begin

text \<open>
  \<^verbatim>\<open>app/src/app_init.c\<close>: start-up, the heartbeat task and the protocol task. The protocol task is
  woken by the receive interrupt and drains the receive ring byte by byte through the parser into
  the dispatcher.
\<close>

subsection \<open>Heartbeat\<close>

abbreviation (input) HEARTBEAT_LED_PIN :: u8 where "HEARTBEAT_LED_PIN \<equiv> 5"
abbreviation (input) HEARTBEAT_PERIOD_MS :: u32 where "HEARTBEAT_PERIOD_MS \<equiv> 500"
abbreviation (input) configMINIMAL_STACK_SIZE :: u32 where "configMINIMAL_STACK_SIZE \<equiv> 128"
abbreviation (input) TASK_HEARTBEAT_PRIORITY :: u32 where "TASK_HEARTBEAT_PRIORITY \<equiv> 1"
abbreviation (input) TASK_HEARTBEAT_STACK_WORDS :: u32 where "TASK_HEARTBEAT_STACK_WORDS \<equiv> configMINIMAL_STACK_SIZE"
abbreviation (input) TASK_PROTOCOL_PRIORITY :: u32 where "TASK_PROTOCOL_PRIORITY \<equiv> 3"
abbreviation (input) TASK_PROTOCOL_STACK_WORDS :: u32 where "TASK_PROTOCOL_STACK_WORDS \<equiv> configMINIMAL_STACK_SIZE * 3"

definition heartbeat_led_init :: "cmsis \<Rightarrow> mcu \<Rightarrow> mcu" where
  "heartbeat_led_init M m =
     GPIO_SET_MODER GPIOA HEARTBEAT_LED_PIN GPIO_MODER_OUTPUT (reg_or RCC_AHB1ENR (rccm M RCC_AHB1ENR_GPIOAEN) m)"

text \<open>The endless loop of the task, for the iterations whose reads of ODR are given.\<close>

fun task_heartbeat :: "rtos \<Rightarrow> u32 list \<Rightarrow> mcu \<Rightarrow> mcu" where
  "task_heartbeat K [] m = m"
| "task_heartbeat K (odr # odrs) m =
     task_heartbeat K odrs
       (emit (VTaskDelay (pdMS_TO_TICKS K HEARTBEAT_PERIOD_MS)) (GPIO_TOGGLE_PIN odr GPIOA HEARTBEAT_LED_PIN m))"

subsection \<open>Protocol task\<close>

record app =
  ap_fw :: firmware
  ap_parser :: protocol_parser

text \<open>What the task does before its loop; \<open>self\<close> is its own handle.\<close>

definition task_protocol_entry :: "nat \<Rightarrow> app \<Rightarrow> app" where
  "task_protocol_entry self a =
     a\<lparr>ap_fw := (ap_fw a)\<lparr>fw_uart := uart_set_rx_notify_task (Some self) (fw_uart (ap_fw a))\<rparr>,
       ap_parser := protocol_parser_reset (ap_parser a)\<rparr>"

text \<open>The body of the inner loop, for the byte that was popped.\<close>

definition protocol_byte :: "env \<Rightarrow> u8 \<Rightarrow> app \<Rightarrow> app option" where
  "protocol_byte E b a =
     (case protocol_parser_feed (ap_parser a) b of (complete, p) \<Rightarrow>
        let a = a\<lparr>ap_parser := p\<rparr>
        in if complete
           then do { w \<leftarrow> dispatcher_handle E (pframe p) (ap_fw a); Some (a\<lparr>ap_fw := w\<rparr>) }
           else Some a)"

text \<open>
  The inner loop \<^verbatim>\<open>while (uart_rx_pop(&b) == ERR_SUCCESS)\<close>. Each iteration uses one environment; the
  result is \<open>None\<close> when the environments run out with bytes left.
\<close>

fun protocol_drain :: "env list \<Rightarrow> app \<Rightarrow> app option" where
  "protocol_drain Es a =
     (case uart_rx_pop (fw_uart (ap_fw a)) of (err, b, u) \<Rightarrow>
        if err = ERR_SUCCESS
        then (case Es of
                [] \<Rightarrow> None
              | E # Es \<Rightarrow> do {
                  byte \<leftarrow> b;
                  a \<leftarrow> protocol_byte E byte (a\<lparr>ap_fw := (ap_fw a)\<lparr>fw_uart := u\<rparr>\<rparr>);
                  protocol_drain Es a
                })
        else Some a)"

text \<open>One iteration of the outer loop: the task takes its notification and drains the ring.\<close>

definition task_protocol_wakeup :: "env list \<Rightarrow> app \<Rightarrow> app option" where
  "task_protocol_wakeup Es a =
     protocol_drain Es (a\<lparr>ap_fw := (ap_fw a)\<lparr>fw_board := (fw_board (ap_fw a))
       \<lparr>bmcu := emit UlTaskNotifyTake (bmcu (fw_board (ap_fw a)))\<rparr>\<rparr>\<rparr>)"

declare protocol_drain.simps [simp del]

subsection \<open>Start-up\<close>

text \<open>
  The statics before \<^verbatim>\<open>main\<close>: zero, but for the initialisers of the sensor manager and of the I2C and
  SPI drivers. The timer table has no initial content that is read: \<open>dispatcher_init\<close> stores all of it.
\<close>

definition firmware_static :: "mcu \<Rightarrow> firmware" where
  "firmware_static m =
     \<lparr>fw_board = \<lparr>bmcu = m, btimers = [], bsm = \<lparr>slots = replicate SENSOR_MAX_SLOTS free_slot, next_id_hint = PROTO_SENSOR_ID_MIN\<rparr>\<rparr>,
      fw_uart = uart_init_state,
      fw_i2c = \<lparr>i2c_sensor_states = replicate I2C_SENSOR_MAX_COUNT i2c_state_zero, i2c_drv = i2c_slave_states, i2c_heap = Map.empty\<rparr>,
      fw_dout = \<lparr>do_states = replicate 8 do_state_zero, do_pin_owned = pin_table_init, do_timers = Map.empty\<rparr>,
      fw_pwm = \<lparr>pw_states = replicate 28 pwm_state_zero, pw_pin_owned = pin_table_init\<rparr>,
      fw_bus = spi_bus_start,
      fw_dac = \<lparr>dac_chips = replicate 2 dac_chip_zero, dac_states = replicate 16 dac_state_zero, dac_sems = Map.empty\<rparr>,
      fw_sps = replicate 2 sps_state_zero\<rparr>"

text \<open>\<open>app_init\<close>: \<open>Inl\<close> while the clock code waits for an oscillator.\<close>

definition app_init :: "cmsis \<Rightarrow> bool \<Rightarrow> u32 list \<Rightarrow> u32 list \<Rightarrow> u32 list \<Rightarrow> firmware \<Rightarrow> mcu + firmware" where
  "app_init M use_hse hse_reads pll_reads sws_reads w =
     (case clock_init M use_hse hse_reads pll_reads sws_reads (bmcu (fw_board w)) of
        Inl m \<Rightarrow> Inl m
      | Inr m \<Rightarrow>
          (let m = heartbeat_led_init M m;
               m = uart_init M m;
               w = dispatcher_init M (w\<lparr>fw_board := (fw_board w)\<lparr>bmcu := m\<rparr>\<rparr>);
               m = emit (XTaskCreate ''protocol'' TASK_PROTOCOL_STACK_WORDS TASK_PROTOCOL_PRIORITY) (bmcu (fw_board w));
               m = emit (XTaskCreate ''heartbeat'' TASK_HEARTBEAT_STACK_WORDS TASK_HEARTBEAT_PRIORITY) m
           in Inr (w\<lparr>fw_board := (fw_board w)\<lparr>bmcu := m\<rparr>\<rparr>)))"

subsection \<open>Entry point (main.c)\<close>

text \<open>
  Where \<^verbatim>\<open>main\<close> is: still in start-up, in the scheduler, or in the endless loop behind a scheduler
  that returned because the heap could not hold the kernel's own tasks (\<open>returns\<close>). The two hooks
  mask the interrupts and then loop for ever; the result is the machine in that loop.
\<close>

datatype main_outcome = Main_Waits mcu | Main_Scheduled firmware | Main_Halted firmware

definition firmware_main :: "cmsis \<Rightarrow> bool \<Rightarrow> u32 list \<Rightarrow> u32 list \<Rightarrow> u32 list \<Rightarrow> bool \<Rightarrow> firmware \<Rightarrow> main_outcome" where
  "firmware_main M use_hse hse_reads pll_reads sws_reads returns w =
     (case app_init M use_hse hse_reads pll_reads sws_reads w of
        Inl m \<Rightarrow> Main_Waits m
      | Inr w \<Rightarrow>
          (let w = w\<lparr>fw_board := (fw_board w)\<lparr>bmcu := emit VTaskStartScheduler (bmcu (fw_board w))\<rparr>\<rparr>
           in if returns then Main_Halted w else Main_Scheduled w))"

definition vApplicationMallocFailedHook :: "mcu \<Rightarrow> mcu" where
  "vApplicationMallocFailedHook m = emit Disable_irq m"

definition vApplicationStackOverflowHook :: "mcu \<Rightarrow> mcu" where
  "vApplicationStackOverflowHook m = emit Disable_irq m"

text \<open>The state after start-up satisfies the invariant, with an empty sensor table.\<close>

lemma sps_inv_start: "sps_inv spi_bus_start (replicate 2 sps_state_zero)" "sps_live (replicate 2 sps_state_zero) = {}"
proof -
  have "\<not> ss_initialized (spi_slave_states ! k)" if "k < 2" for k
    using that by (auto simp: spi_slave_states_def spi_slave_state_init_def less_2_cases_iff)
  then show "sps_inv spi_bus_start (replicate 2 sps_state_zero)" by (simp add: sps_inv_def spi_bus_start_def sps_state_zero_def)
  show "sps_live (replicate 2 sps_state_zero) = {}" by (auto simp: sps_live_def sps_state_zero_def)
qed

lemma sm_table_start: "sm_table sm_start = Map.empty"
  by (auto simp: sm_table_def sensor_manager_lookup_def sm_start_def sensor_manager_init_def find_index_None_iff fun_eq_iff)

lemma dispatcher_init_parts:
  "dispatcher_init M (firmware_static m) = \<lparr>fw_board = (board_start M)\<lparr>bmcu := m\<rparr>, fw_uart = uart_init_state, fw_i2c = i2c_dev_start,
     fw_dout = do_start, fw_pwm = pwm_start, fw_bus = spi_bus_start, fw_dac = dac_dev_start, fw_sps = replicate 2 sps_state_zero\<rparr>"
  by (simp add: dispatcher_init_def firmware_static_def board_start_def sm_start_def sensor_manager_init_def i2c_dev_start_def
      i2c_sensor_init_def do_start_def digital_out_sensor_init_def pwm_start_def pwm_sensor_init_def dac_dev_start_def
      dac_sensor_init_def spi_slave_sensor_init_def)

lemma dispatcher_init_inv:
  "fw_inv (dispatcher_init M (firmware_static m))" "fw_table (dispatcher_init M (firmware_static m)) = Map.empty"
proof -
  let ?b = "(board_start M)\<lparr>bmcu := m\<rparr>" and ?w = "dispatcher_init M (firmware_static m)"
  have b: "board_inv ?b" using board_mcu_inv[OF board_inv_start] .
  have core: "fw_core ?w"
    using uart_inv_init i2c_inv_start(1) do_inv_board[OF do_inv_start b] pwm_inv_board[OF pwm_inv_start b] spi_bus_inv_start
      dac_inv_start(1,2) sps_inv_start(1)
    by (simp add: fw_core_def dispatcher_init_parts)
  show tab: "fw_table ?w = Map.empty" by (simp add: dispatcher_init_parts board_start_def sm_table_start)
  have "fw_ids q ?w = {}" for q
    using dac_inv_start(3) sps_inv_start(2) i2c_inv_start(2)
    by (auto simp: fw_ids_def dispatcher_init_parts i2c_ids_def dout_ids_def pwm_ids_def do_start_def digital_out_sensor_init_def
        do_state_zero_def pwm_start_def pwm_sensor_init_def pwm_state_zero_def)
  then have "fw_live ?w = {}" by (simp add: fw_live_def)
  then show "fw_inv ?w" using core tab by (simp add: fw_inv_def table_sync_def)
qed

lemma fw_inv_mcu: "fw_inv w \<Longrightarrow> fw_inv (w\<lparr>fw_board := (fw_board w)\<lparr>bmcu := m\<rparr>\<rparr>)"
proof -
  assume inv: "fw_inv w"
  let ?w = "w\<lparr>fw_board := (fw_board w)\<lparr>bmcu := m\<rparr>\<rparr>"
  have core: "fw_core w" using inv by (simp add: fw_inv_def)
  note C = fw_coreD[OF core]
  have "fw_core ?w" using C fw_core_board[OF core, of "fw_board ?w"] board_mcu_inv[OF C(9)] by (simp add: fw_core_def)
  moreover have "fw_live ?w = fw_live w" by (rule fw_live_same) (simp add: fw_ids_def)
  ultimately show "fw_inv ?w" using inv by (simp add: fw_inv_def)
qed

lemma fw_inv_uart: "fw_inv w \<Longrightarrow> uart_inv u \<Longrightarrow> fw_inv (w\<lparr>fw_uart := u\<rparr>)"
proof -
  assume inv: "fw_inv w" and u: "uart_inv u"
  have "fw_live (w\<lparr>fw_uart := u\<rparr>) = fw_live w" by (rule fw_live_same) (simp add: fw_ids_def)
  then show "fw_inv (w\<lparr>fw_uart := u\<rparr>)" using inv u by (simp add: fw_inv_def fw_core_def)
qed

lemma app_init_inv:
  assumes "app_init M use_hse hse_reads pll_reads sws_reads (firmware_static m) = Inr w"
  shows "fw_inv w" "fw_table w = Map.empty" "fw_uart w = uart_init_state"
proof -
  obtain m1 m2 where w: "w = (let w1 = dispatcher_init M (firmware_static m1) in w1\<lparr>fw_board := (fw_board w1)\<lparr>bmcu := m2\<rparr>\<rparr>)"
    using assms by (auto simp: app_init_def Let_def firmware_static_def split: sum.splits)
  show "fw_inv w" "fw_table w = Map.empty" using w dispatcher_init_inv[of M m1] fw_inv_mcu by (simp_all add: Let_def)
  show "fw_uart w = uart_init_state" using w by (simp add: Let_def dispatcher_init_parts)
qed

lemma firmware_main_inv:
  assumes "firmware_main M use_hse hse_reads pll_reads sws_reads returns (firmware_static m) = Main_Scheduled w"
  shows "fw_inv w" "fw_table w = Map.empty" "fw_uart w = uart_init_state"
proof -
  obtain w1 m1 where "app_init M use_hse hse_reads pll_reads sws_reads (firmware_static m) = Inr w1" "w = w1\<lparr>fw_board := (fw_board w1)\<lparr>bmcu := m1\<rparr>\<rparr>"
    using assms by (auto simp: firmware_main_def Let_def split: sum.splits if_splits)
  then show "fw_inv w" "fw_table w = Map.empty" "fw_uart w = uart_init_state" using app_init_inv fw_inv_mcu by simp_all
qed

subsection \<open>Draining the ring\<close>

lemma rx_pop_empty: "uart_inv u \<Longrightarrow> rx_contents u = [] \<Longrightarrow> uart_rx_pop u = (ERR_EMPTY, None, u)"
  using uart_rx_get_None[of u] by (auto simp: uart_rx_get_def uart_rx_pop_def Let_def split: if_splits)

lemma rx_pop_next:
  assumes "uart_inv u" "rx_contents u = b # bs"
  obtains u' where "uart_rx_pop u = (ERR_SUCCESS, Some b, u')" "uart_inv u'" "rx_contents u' = bs" "tx_contents u' = tx_contents u"
proof -
  obtain c u' where g: "uart_rx_get u = Some (c, u')" using uart_rx_get_None[OF assms(1)] assms(2) by fastforce
  then have p: "uart_rx_pop u = (ERR_SUCCESS, Some c, u')"
    by (auto simp: uart_rx_get_def uart_rx_pop_def Let_def split: if_splits)
  show thesis using that[of u'] p uart_rx_get_Some[OF assms(1) g] assms(2) uart_rx_pop_tx[OF p] by auto
qed

text \<open>A frame the parser completes has a length the payload buffer holds.\<close>

lemma feed_frame_ok:
  assumes "parser_inv p" "protocol_parser_feed p b = (True, p')"
  shows "frame_ok (pframe p')"
  using assms by (cases "pstate p")
    (auto simp: parser_step_defs parser_inv_def frame_ok_def unat_le_256 split: if_splits)

text \<open>The commands of a list of frames, one after the other, with the acknowledgements sent.\<close>

fun host_run :: "(u8 \<Rightarrow> (u8 \<times> u8) option) \<Rightarrow> frame list \<Rightarrow> frame list \<Rightarrow> (u8 \<Rightarrow> (u8 \<times> u8) option) \<Rightarrow> bool" where
  "host_run T [] [] T' \<longleftrightarrow> T' = T"
| "host_run T (f # fs) (r # rs) T' \<longleftrightarrow>
     (\<exists>err sid T1. host_step T f err sid T1 \<and> r = ack_frame (fst f) err sid (fst (snd f)) \<and> host_run T1 fs rs T')"
| "host_run T _ _ T' \<longleftrightarrow> False"

lemma host_run_length: "host_run T fs rs T' \<Longrightarrow> length rs = length fs"
  by (induction T fs rs T' rule: host_run.induct) auto

lemma host_run_bytes: "host_run T fs rs T' \<Longrightarrow> length (concat (map encode_frame rs)) = 10 * length fs"
  by (induction T fs rs T' rule: host_run.induct) auto

lemma host_run_acks:
  "host_run T fs rs T' \<Longrightarrow> list_all2 (\<lambda>f r. \<exists>err sid. r = ack_frame (fst f) err sid (fst (snd f))) fs rs"
  by (induction T fs rs T' rule: host_run.induct) auto

text \<open>What one byte does: the parser steps, and a completed frame is handled.\<close>

lemma protocol_byte_ok:
  assumes inv: "fw_inv (ap_fw a)" "parser_inv (ap_parser a)" and E: "env_ok E"
    and feed: "protocol_parser_feed (ap_parser a) b = (complete, p)"
  shows "\<exists>w. protocol_byte E b a = Some \<lparr>ap_fw = w, ap_parser = p\<rparr> \<and> fw_inv w \<and> parser_inv p \<and>
    (if complete then \<exists>err sid. handled (pframe p) (ap_fw a) err sid w else w = ap_fw a)"
proof -
  have p: "parser_inv p" using parser_inv_feed[OF inv(2), of b] feed by simp
  show ?thesis
  proof (cases complete)
    case True
    then have "frame_ok (pframe p)" using feed_frame_ok[OF inv(2)] feed by simp
    then obtain err sid w where h: "dispatcher_handle E (pframe p) (ap_fw a) = Some w" "handled (pframe p) (ap_fw a) err sid w"
      using dispatcher_handle_ok[OF inv(1) E] by blast
    then have "protocol_byte E b a = Some \<lparr>ap_fw = w, ap_parser = p\<rparr>" using feed True by (cases a) (simp add: protocol_byte_def)
    moreover have "fw_inv w" using h(2) by (simp add: handled_def)
    ultimately show ?thesis using h(2) p True by auto
  next
    case False
    then show ?thesis using feed inv p by (cases a) (simp add: protocol_byte_def)
  qed
qed

lemma protocol_drain_ok:
  assumes "fw_inv (ap_fw a)" "parser_inv (ap_parser a)" "list_all env_ok Es" "length (rx_contents (fw_uart (ap_fw a))) \<le> length Es"
  shows "\<exists>w rs. let (fs, p) = parser_feed_all (ap_parser a) (rx_contents (fw_uart (ap_fw a))) in
    protocol_drain Es a = Some \<lparr>ap_fw = w, ap_parser = p\<rparr> \<and> fw_inv w \<and> parser_inv p \<and> rx_contents (fw_uart w) = [] \<and>
    host_run (fw_table (ap_fw a)) (map frame_of fs) rs (fw_table w) \<and>
    tx_contents (fw_uart w) = tx_contents (fw_uart (ap_fw a)) @
      take (511 - length (tx_contents (fw_uart (ap_fw a)))) (concat (map encode_frame rs))"
  using assms
proof (induction "rx_contents (fw_uart (ap_fw a))" arbitrary: Es a)
  case Nil
  have u: "uart_inv (fw_uart (ap_fw a))" using Nil.prems(1) by (simp add: fw_inv_def fw_core_def)
  have "protocol_drain Es a = Some a" using rx_pop_empty[OF u Nil(1)[symmetric]] by (simp add: protocol_drain.simps)
  then show ?case using Nil by (intro exI[of _ "ap_fw a"] exI[of _ "[]"]) (cases a, simp add: Nil(1)[symmetric])
next
  case (Cons b bs)
  have u: "uart_inv (fw_uart (ap_fw a))" using Cons.prems(1) by (simp add: fw_inv_def fw_core_def)
  obtain u' where pop: "uart_rx_pop (fw_uart (ap_fw a)) = (ERR_SUCCESS, Some b, u')" "uart_inv u'" "rx_contents u' = bs"
    "tx_contents u' = tx_contents (fw_uart (ap_fw a))" using rx_pop_next[OF u Cons(2)[symmetric]] .
  obtain E Es' where Es: "Es = E # Es'" using Cons.prems(4) Cons(2)[symmetric] by (cases Es) auto
  define a1 where "a1 = a\<lparr>ap_fw := (ap_fw a)\<lparr>fw_uart := u'\<rparr>\<rparr>"
  obtain complete p where feed: "protocol_parser_feed (ap_parser a) b = (complete, p)" by fastforce
  have a1: "fw_inv (ap_fw a1)" "parser_inv (ap_parser a1)" "protocol_parser_feed (ap_parser a1) b = (complete, p)"
    using fw_inv_uart[OF Cons.prems(1) pop(2)] Cons.prems(2) feed by (simp_all add: a1_def)
  have env: "env_ok E" "list_all env_ok Es'" using Cons.prems(3) Es by simp_all
  obtain w1 where byte: "protocol_byte E b a1 = Some \<lparr>ap_fw = w1, ap_parser = p\<rparr>" "fw_inv w1" "parser_inv p"
    "if complete then \<exists>err sid. handled (pframe p) (ap_fw a1) err sid w1 else w1 = ap_fw a1"
    using protocol_byte_ok[OF a1(1,2) env(1) a1(3)] by blast
  have rx1: "rx_contents (fw_uart w1) = bs"
    using byte(4) pop(3) by (auto simp: handled_def a1_def split: if_splits)
  let ?a2 = "\<lparr>ap_fw = w1, ap_parser = p\<rparr>"
  obtain fs p' where rest: "parser_feed_all p bs = (fs, p')" by fastforce
  have "length bs \<le> length Es'" using Cons.prems(4) Cons(2)[symmetric] Es by simp
  then obtain w rs where IH: "protocol_drain Es' ?a2 = Some \<lparr>ap_fw = w, ap_parser = p'\<rparr>" "fw_inv w" "parser_inv p'" "rx_contents (fw_uart w) = []"
    "host_run (fw_table w1) (map frame_of fs) rs (fw_table w)"
    "tx_contents (fw_uart w) = tx_contents (fw_uart w1) @ take (511 - length (tx_contents (fw_uart w1))) (concat (map encode_frame rs))"
    using Cons.hyps(1)[of ?a2 Es'] rx1 byte(2,3) env(2) rest by auto
  have run: "protocol_drain Es a = Some \<lparr>ap_fw = w, ap_parser = p'\<rparr>"
    using pop(1) Es byte(1) IH(1) by (subst protocol_drain.simps) (simp add: a1_def)
  have all: "parser_feed_all (ap_parser a) (b # bs) = (if complete then pframe p # fs else fs, p')" using feed rest by simp
  show ?case
  proof (cases complete)
    case False
    then have "w1 = ap_fw a1" using byte(4) by simp
    then show ?thesis
      unfolding Cons(2)[symmetric] all using run IH(2-6) False pop(4)
      by (intro exI[of _ w] exI[of _ rs]) (simp add: a1_def)
  next
    case True
    then obtain err sid where h: "handled (pframe p) (ap_fw a1) err sid w1" using byte(4) by auto
    let ?r = "ack_frame (frame_type (pframe p)) err sid (frame_seq (pframe p))"
    have step: "host_step (fw_table (ap_fw a)) (frame_of (pframe p)) err sid (fw_table w1)"
      and tx1: "tx_contents (fw_uart w1) = tx_contents (fw_uart (ap_fw a)) @ take (511 - length (tx_contents (fw_uart (ap_fw a)))) (encode_frame ?r)"
      using h pop(4) by (simp_all add: handled_def a1_def)
    have "host_run (fw_table (ap_fw a)) (map frame_of (pframe p # fs)) (?r # rs) (fw_table w)" using step IH(5) by (auto simp: frame_of_def)
    moreover have "511 - length (tx_contents (fw_uart w1)) = 511 - length (tx_contents (fw_uart (ap_fw a))) - length (encode_frame ?r)"
      unfolding tx1 by (simp add: min_def)
    then have "tx_contents (fw_uart w) = tx_contents (fw_uart (ap_fw a)) @
        take (511 - length (tx_contents (fw_uart (ap_fw a)))) (concat (map encode_frame (?r # rs)))"
      unfolding IH(6) by (simp add: tx1)
    ultimately show ?thesis
      unfolding Cons(2)[symmetric] all using run IH(2-4) True
      by (intro exI[of _ w] exI[of _ "?r # rs"]) simp
  qed
qed

end
