(* ===== verification/Uart_Conc.thy ===== *)
theory Uart_Conc
  imports Uart
begin

text \<open>
  The UART driver under preemption. \<^verbatim>\<open>uart_tx_push\<close> and \<^verbatim>\<open>uart_rx_pop\<close> run in the protocol
  task, \<^verbatim>\<open>USART1_IRQHandler\<close> may run between any two of their accesses to shared variables.
  The task is a program counter that stops before each such access; the handler is one step,
  because nothing in the firmware preempts it to touch the same variables. Head is read and
  compared in the step that reads the tail, as only the task itself writes it.

  Ghost fields record the bytes the rings accepted and the bytes the task took out. The
  invariant shows that both streams are delivered in order without loss or duplication, that
  no wake-up of the transmitter is lost (while the task is not inside \<open>uart_tx_push\<close>, queued
  bytes imply that the transmit interrupt is enabled), and that the non-atomic
  \<^verbatim>\<open>CR1 |= TXEIE\<close> never disturbs another bit of CR1.
\<close>

subsection \<open>The step relation\<close>

datatype task_pc =
    Idle
  | TxLoop "u8 list" nat
  | TxFill u8 "u8 list" nat
  | TxPublish u8 "u8 list" nat
  | TxKick nat
  | TxKickWrite u32
  | RxRead
  | RxAdvance u8

record uart_sys =
  pc :: task_pc
  hw :: mcu
  drv :: uart
  tx_accepted :: "u8 list"
  rx_accepted :: "u8 list"
  rx_popped :: "u8 list"

text \<open>One step of the task.\<close>

inductive task_step :: "cmsis \<Rightarrow> uart_sys \<Rightarrow> uart_sys \<Rightarrow> bool" for M where
  tx_call: "pc s = Idle \<Longrightarrow> task_step M s (s\<lparr>pc := TxLoop data 0\<rparr>)"
| tx_done: "pc s = TxLoop [] n \<Longrightarrow> task_step M s (s\<lparr>pc := TxKick n\<rparr>)"
| tx_full: "pc s = TxLoop (b # data) n \<Longrightarrow> ring_next (tx_head (drv s)) = tx_tail (drv s) \<Longrightarrow>
    task_step M s (s\<lparr>pc := TxKick n\<rparr>)"
| tx_room: "pc s = TxLoop (b # data) n \<Longrightarrow> ring_next (tx_head (drv s)) \<noteq> tx_tail (drv s) \<Longrightarrow>
    task_step M s (s\<lparr>pc := TxFill b data n\<rparr>)"
| tx_fill: "pc s = TxFill b data n \<Longrightarrow> u = drv s \<Longrightarrow>
    task_step M s (s\<lparr>pc := TxPublish b data n,
      drv := u\<lparr>tx_buf := (tx_buf u)[unat (tx_head u) := b]\<rparr>\<rparr>)"
| tx_publish: "pc s = TxPublish b data n \<Longrightarrow> u = drv s \<Longrightarrow>
    task_step M s (s\<lparr>pc := TxLoop data (Suc n), drv := u\<lparr>tx_head := ring_next (tx_head u)\<rparr>,
      tx_accepted := tx_accepted s @ [b]\<rparr>)"
| tx_kick_skip: "pc s = TxKick 0 \<Longrightarrow> task_step M s (s\<lparr>pc := Idle\<rparr>)"
| tx_kick_read: "pc s = TxKick n \<Longrightarrow> n > 0 \<Longrightarrow>
    task_step M s (s\<lparr>pc := TxKickWrite (regs (hw s) (USART1 USART_CR1))\<rparr>)"
| tx_kick_write: "pc s = TxKickWrite v \<Longrightarrow>
    task_step M s (s\<lparr>pc := Idle,
      hw := wr (USART1 USART_CR1) (v OR usartm M USART_CR1_TXEIE) (hw s)\<rparr>)"
| rx_call: "pc s = Idle \<Longrightarrow> rx_tail (drv s) \<noteq> rx_head (drv s) \<Longrightarrow> task_step M s (s\<lparr>pc := RxRead\<rparr>)"
| rx_read: "pc s = RxRead \<Longrightarrow> u = drv s \<Longrightarrow>
    task_step M s (s\<lparr>pc := RxAdvance (rx_buf u ! unat (rx_tail u))\<rparr>)"
| rx_advance: "pc s = RxAdvance b \<Longrightarrow> u = drv s \<Longrightarrow>
    task_step M s (s\<lparr>pc := Idle, drv := u\<lparr>rx_tail := ring_next (rx_tail u)\<rparr>,
      rx_popped := rx_popped s @ [b]\<rparr>)"

text \<open>One run of the interrupt handler, for any status and any received byte.\<close>

definition irq_step :: "cmsis \<Rightarrow> u32 \<Rightarrow> u32 \<Rightarrow> uart_sys \<Rightarrow> uart_sys" where
  "irq_step M sr dr s =
     (let (m', u') = USART1_IRQHandler M sr dr (hw s) (drv s)
      in s\<lparr>hw := m', drv := u',
           rx_accepted := rx_accepted s @
             (if sr AND usartm M USART_SR_RXNE \<noteq> 0 \<and> ring_next (rx_head (drv s)) \<noteq> rx_tail (drv s)
              then [ucast dr] else [])\<rparr>)"

inductive sys_step :: "cmsis \<Rightarrow> uart_sys \<Rightarrow> uart_sys \<Rightarrow> bool" for M where
  by_task: "task_step M s s' \<Longrightarrow> sys_step M s s'"
| by_irq: "sys_step M s (irq_step M sr dr s)"

definition sys_start :: "mcu \<Rightarrow> nat option \<Rightarrow> uart_sys" where
  "sys_start m t = \<lparr>pc = Idle, hw = m, drv = uart_set_rx_notify_task t uart_init_state,
     tx_accepted = [], rx_accepted = [], rx_popped = []\<rparr>"

inductive sys_reach :: "cmsis \<Rightarrow> uart_sys \<Rightarrow> uart_sys \<Rightarrow> bool" for M where
  reach_refl: "sys_reach M s s"
| reach_step: "sys_reach M s s' \<Longrightarrow> sys_step M s' s'' \<Longrightarrow> sys_reach M s s''"

subsection \<open>The invariant\<close>

text \<open>The program points at which the task still owes the write that enables the interrupt.\<close>

fun kick_pending :: "task_pc \<Rightarrow> bool" where
  "kick_pending (TxLoop _ n) = (n > 0)"
| "kick_pending (TxFill _ _ n) = (n > 0)"
| "kick_pending (TxPublish _ _ n) = (n > 0)"
| "kick_pending (TxKick n) = (n > 0)"
| "kick_pending (TxKickWrite _) = True"
| "kick_pending _ = False"

text \<open>What the task knows at each point about the shared variables.\<close>

fun pc_inv :: "cmsis \<Rightarrow> u32 \<Rightarrow> task_pc \<Rightarrow> uart \<Rightarrow> bool" where
  "pc_inv M cr1 (TxFill b _ _) u = (length (tx_contents u) < 511)"
| "pc_inv M cr1 (TxPublish b _ _) u =
     (length (tx_contents u) < 511 \<and> tx_buf u ! unat (tx_head u) = b)"
| "pc_inv M cr1 (TxKickWrite v) u =
     (v AND NOT (usartm M USART_CR1_TXEIE) = cr1 AND NOT (usartm M USART_CR1_TXEIE))"
| "pc_inv M cr1 RxRead u = (rx_contents u \<noteq> [])"
| "pc_inv M cr1 (RxAdvance b) u = (rx_contents u \<noteq> [] \<and> rx_buf u ! unat (rx_tail u) = b)"
| "pc_inv M cr1 _ u = True"

definition sys_inv :: "cmsis \<Rightarrow> u32 \<Rightarrow> uart_sys \<Rightarrow> bool" where
  "sys_inv M cr1 s \<longleftrightarrow>
     uart_inv (drv s) \<and>
     pc_inv M cr1 (pc s) (drv s) \<and>
     writes_to (USART1 USART_DR) (trace (hw s)) @ map ucast (tx_contents (drv s)) =
       map ucast (tx_accepted s) \<and>
     rx_popped s @ rx_contents (drv s) = rx_accepted s \<and>
     (tx_contents (drv s) \<noteq> [] \<longrightarrow>
        regs (hw s) (USART1 USART_CR1) AND usartm M USART_CR1_TXEIE \<noteq> 0 \<or> kick_pending (pc s)) \<and>
     regs (hw s) (USART1 USART_CR1) AND NOT (usartm M USART_CR1_TXEIE) =
       cr1 AND NOT (usartm M USART_CR1_TXEIE)"

lemma sys_invI:
  assumes "uart_inv (drv s)" "pc_inv M cr1 (pc s) (drv s)"
    "writes_to (USART1 USART_DR) (trace (hw s)) @ map ucast (tx_contents (drv s)) =
       map ucast (tx_accepted s)"
    "rx_popped s @ rx_contents (drv s) = rx_accepted s"
    "tx_contents (drv s) \<noteq> [] \<Longrightarrow> \<not> kick_pending (pc s) \<Longrightarrow>
       regs (hw s) (USART1 USART_CR1) AND usartm M USART_CR1_TXEIE \<noteq> 0"
    "regs (hw s) (USART1 USART_CR1) AND NOT (usartm M USART_CR1_TXEIE) =
       cr1 AND NOT (usartm M USART_CR1_TXEIE)"
  shows "sys_inv M cr1 s"
  using assms unfolding sys_inv_def by blast

lemma sys_inv_start:
  assumes "writes_to (USART1 USART_DR) (trace m) = []"
  shows "sys_inv M (regs m (USART1 USART_CR1)) (sys_start m t)"
  using assms uart_inv_init
  by (auto simp: sys_inv_def sys_start_def uart_set_rx_notify_task_def uart_inv_def
      tx_contents_def rx_contents_def uart_init_state_def ring_slice_def)

subsection \<open>The task keeps it\<close>

lemma slice_update_head:
  assumes "uart_inv u"
  shows "ring_slice ((tx_buf u)[unat (tx_head u) := b]) (unat (tx_head u)) (unat (tx_tail u)) =
         ring_slice (tx_buf u) (unat (tx_head u)) (unat (tx_tail u))"
proof -
  have "unat (tx_head u) < 512" "unat (tx_tail u) < 512"
    using assms by (auto simp: uart_inv_def)
  from ring_index_not_last[OF this] show ?thesis
    unfolding ring_slice_def
    by (intro map_cong[OF refl]) (metis atLeastLessThan_iff atLeast_upt lessThan_iff
      nth_list_update_neq)
qed

lemma tx_publish_contents:
  assumes "uart_inv u" "length (tx_contents u) < 511" "tx_buf u ! unat (tx_head u) = b"
  shows "tx_contents (u\<lparr>tx_head := ring_next (tx_head u)\<rparr>) = tx_contents u @ [b]"
proof -
  have "(unat (tx_head u) + 1) mod 512 \<noteq> unat (tx_tail u)"
    using tx_full_iff[OF assms(1)] assms(2) by (simp only: ring_next_eq_iff)
  then have "ring_slice ((tx_buf u)[unat (tx_head u) := b]) ((unat (tx_head u) + 1) mod 512)
      (unat (tx_tail u)) = tx_contents u @ [b]"
    using assms(1) unfolding tx_contents_def by (intro ring_slice_put) (auto simp: uart_inv_def)
  moreover have "(tx_buf u)[unat (tx_head u) := b] = tx_buf u"
    using assms(3) by auto
  ultimately show ?thesis by (simp add: tx_contents_def unat_ring_next)
qed

lemma rx_advance_contents:
  assumes "uart_inv u" "rx_contents u \<noteq> []"
  shows "rx_contents u = rx_buf u ! unat (rx_tail u) # rx_contents (u\<lparr>rx_tail := ring_next (rx_tail u)\<rparr>)"
proof -
  have b: "unat (rx_head u) < 512" "unat (rx_tail u) < 512"
    using assms by (auto simp: uart_inv_def)
  then have "unat (rx_head u) \<noteq> unat (rx_tail u)"
    using assms(2) ring_slice_empty[OF b] unfolding rx_contents_def by auto
  from ring_slice_get[OF b this] show ?thesis by (simp add: rx_contents_def unat_ring_next)
qed

lemma task_step_inv:
  assumes nz: "usartm M USART_CR1_TXEIE \<noteq> 0"
    and inv: "sys_inv M cr1 s" and step: "task_step M s s'"
  shows "sys_inv M cr1 s'"
  using step
proof cases
  case (tx_fill b data n u)
  then show ?thesis
    using inv slice_update_head[of u b]
    by (auto simp: sys_inv_def uart_inv_def tx_contents_def rx_contents_def)
next
  case (tx_publish b data n u)
  have "tx_contents (u\<lparr>tx_head := ring_next (tx_head u)\<rparr>) = tx_contents u @ [b]"
    using inv tx_publish by (intro tx_publish_contents) (auto simp: sys_inv_def)
  then show ?thesis
    using inv tx_publish by (auto simp: sys_inv_def uart_inv_def rx_contents_def unat_ring_next)
next
  case (rx_advance b u)
  have "rx_contents u = b # rx_contents (u\<lparr>rx_tail := ring_next (rx_tail u)\<rparr>)"
    using inv rx_advance rx_advance_contents[of u] by (auto simp: sys_inv_def)
  then show ?thesis
    using inv rx_advance by (auto simp: sys_inv_def uart_inv_def tx_contents_def unat_ring_next)
next
  case (tx_kick_write v)
  have "(v OR usartm M USART_CR1_TXEIE) AND usartm M USART_CR1_TXEIE \<noteq> 0"
    using nz by (simp add: bit.conj_disj_distrib2)
  moreover have "(v OR usartm M USART_CR1_TXEIE) AND NOT (usartm M USART_CR1_TXEIE) =
      v AND NOT (usartm M USART_CR1_TXEIE)"
    by (simp add: bit.conj_disj_distrib2)
  ultimately show ?thesis
    using inv tx_kick_write by (auto simp: sys_inv_def)
next
  case (tx_room b data n)
  then show ?thesis
    using inv tx_full_iff[of "drv s"] length_tx_contents_le[of "drv s"]
    by (auto simp: sys_inv_def)
next
  case rx_call
  then have "rx_contents (drv s) \<noteq> []"
    using inv ring_slice_empty[of "unat (rx_head (drv s))" "unat (rx_tail (drv s))"]
    by (auto simp: sys_inv_def rx_contents_def uart_inv_def word_unat_eq_iff)
  with rx_call show ?thesis using inv by (auto simp: sys_inv_def)
qed (use inv in \<open>auto simp: sys_inv_def\<close>)

subsection \<open>The handler keeps it\<close>

lemma usart1_irq_rx_frame:
  assumes "usart1_irq_rx M sr dr m u = (m1, u1)"
  shows "tx_contents u1 = tx_contents u" "tx_buf u1 = tx_buf u" "tx_head u1 = tx_head u"
    "rx_tail u1 = rx_tail u" "regs m1 = regs m"
    "writes_to r (trace m1) = writes_to r (trace m)"
  using assms
  by (auto simp: usart1_irq_rx_def uart_rx_isr_def Let_def tx_contents_def
      split: if_splits option.splits)

lemma rx_full_iff:
  assumes "uart_inv u"
  shows "ring_next (rx_head u) = rx_tail u \<longleftrightarrow> length (rx_contents u) = 511"
  using assms by (simp only: ring_next_eq_iff) (simp add: rx_contents_def uart_inv_def ring_full_iff[simplified])

lemma usart1_irq_rx_contents:
  assumes "uart_inv u" "usart1_irq_rx M sr dr m u = (m1, u1)"
  shows "uart_inv u1 \<and> rx_contents u1 = rx_contents u @
    (if sr AND usartm M USART_SR_RXNE \<noteq> 0 \<and> ring_next (rx_head u) \<noteq> rx_tail u then [ucast dr] else [])"
proof -
  have "ring_next (rx_head u) \<noteq> rx_tail u \<longleftrightarrow> length (rx_contents u) < 511"
    using assms(1) rx_full_iff[of u] length_rx_contents_le[of u] by auto
  then show ?thesis
    using assms uart_rx_isr_inv[of u "ucast dr"] uart_rx_isr_contents[of u "ucast dr"]
    by (auto simp: usart1_irq_rx_def Let_def split: if_splits option.splits)
qed

text \<open>The handler never moves the oldest received byte.\<close>

lemma usart1_irq_rx_first:
  assumes "uart_inv u" "rx_contents u \<noteq> []" "usart1_irq_rx M sr dr m u = (m1, u1)"
  shows "rx_buf u1 ! unat (rx_tail u1) = rx_buf u ! unat (rx_tail u)"
proof -
  have u1: "uart_inv u1" "rx_contents u1 = rx_contents u @ drop (length (rx_contents u)) (rx_contents u1)"
    using usart1_irq_rx_contents[OF assms(1,3)] by auto
  have "rx_buf u1 ! unat (rx_tail u1) = hd (rx_contents u1)"
    using rx_advance_contents[OF u1(1)] u1(2) assms(2) by (metis append_is_Nil_conv list.sel(1))
  also have "\<dots> = hd (rx_contents u)" using u1(2) assms(2) by (metis hd_append2)
  also have "\<dots> = rx_buf u ! unat (rx_tail u)"
    using rx_advance_contents[OF assms(1,2)] by (metis list.sel(1))
  finally show ?thesis .
qed

lemma usart1_irq_tx_frame:
  assumes "usart1_irq_tx M sr m u = (m1, u1)"
  shows "rx_contents u1 = rx_contents u" "rx_buf u1 = rx_buf u" "rx_tail u1 = rx_tail u"
    "tx_buf u1 = tx_buf u" "tx_head u1 = tx_head u"
    "regs m1 (USART1 USART_CR1) AND NOT (usartm M USART_CR1_TXEIE) =
       regs m (USART1 USART_CR1) AND NOT (usartm M USART_CR1_TXEIE)"
  using assms
  by (auto simp: usart1_irq_tx_def uart_tx_isr_def Let_def rx_contents_def and.assoc
      split: if_splits option.splits)

lemma usart1_irq_tx_contents:
  assumes "uart_inv u" "usart1_irq_tx M sr m u = (m1, u1)"
  shows "uart_inv u1" "length (tx_contents u1) \<le> length (tx_contents u)"
    "writes_to (USART1 USART_DR) (trace m1) @ map ucast (tx_contents u1) =
       writes_to (USART1 USART_DR) (trace m) @ map ucast (tx_contents u)"
    "tx_contents u1 \<noteq> [] \<Longrightarrow> regs m1 (USART1 USART_CR1) = regs m (USART1 USART_CR1) \<and> tx_contents u \<noteq> []"
  using assms uart_tx_isr_Some[OF assms(1)] uart_tx_isr_None[OF assms(1)]
  by (auto simp: usart1_irq_tx_def split: if_splits option.splits)

lemma irq_step_inv:
  assumes inv: "sys_inv M cr1 s"
  shows "sys_inv M cr1 (irq_step M sr dr s)"
proof -
  obtain m1 u1 where rx: "usart1_irq_rx M sr dr (hw s) (drv s) = (m1, u1)" by fastforce
  obtain m2 u2 where tx: "usart1_irq_tx M sr m1 u1 = (m2, u2)" by fastforce
  note frame = usart1_irq_rx_frame[OF rx] usart1_irq_tx_frame[OF tx]
  have i0: "uart_inv (drv s)" using inv by (simp add: sys_inv_def)
  note rxc = usart1_irq_rx_contents[OF i0 rx]
  have i1: "uart_inv u1" using rxc by simp
  note txc = usart1_irq_tx_contents[OF i1 tx]
  have s': "irq_step M sr dr s = s\<lparr>hw := m2, drv := u2, rx_accepted := rx_accepted s @
      (if sr AND usartm M USART_SR_RXNE \<noteq> 0 \<and> ring_next (rx_head (drv s)) \<noteq> rx_tail (drv s)
       then [ucast dr] else [])\<rparr>"
    by (simp add: irq_step_def USART1_IRQHandler_def rx tx)
  have pc: "pc_inv M cr1 (pc s) u2"
    using inv frame txc(2) rxc usart1_irq_rx_first[OF i0 _ rx]
    by (cases "pc s") (auto simp: sys_inv_def)
  show ?thesis
    unfolding s'
    by (rule sys_invI) (use inv pc frame txc rxc in \<open>auto simp: sys_inv_def\<close>)
qed

lemma sys_step_inv:
  assumes "usartm M USART_CR1_TXEIE \<noteq> 0" "sys_inv M cr1 s" "sys_step M s s'"
  shows "sys_inv M cr1 s'"
  using assms(3,1,2) by cases (auto intro: task_step_inv irq_step_inv)

lemma sys_reach_inv:
  assumes "usartm M USART_CR1_TXEIE \<noteq> 0" "sys_reach M s0 s" "sys_inv M cr1 s0"
  shows "sys_inv M cr1 s"
  using assms(2,1,3) by induction (auto intro: sys_step_inv)

subsection \<open>The task alone computes the functions of the driver\<close>

text \<open>
  Run without interrupts, the steps of the task are exactly \<open>uart_tx_push\<close> and \<open>uart_rx_pop\<close>,
  so the fine-grained system refines the same code as the sequential definitions.
\<close>

lemma tx_put_as_steps:
  assumes "pc s = TxLoop (b # data) n" "ring_next (tx_head (drv s)) \<noteq> tx_tail (drv s)"
  shows "(task_step M)\<^sup>*\<^sup>* s (s\<lparr>pc := TxLoop data (Suc n), drv := uart_tx_put b (drv s),
    tx_accepted := tx_accepted s @ [b]\<rparr>)"
proof -
  let ?u = "drv s" and ?h = "tx_head (drv s)"
  let ?s1 = "s\<lparr>pc := TxFill b data n\<rparr>"
  let ?s2 = "?s1\<lparr>pc := TxPublish b data n, drv := ?u\<lparr>tx_buf := (tx_buf ?u)[unat ?h := b]\<rparr>\<rparr>"
  have "task_step M s ?s1" using assms by (rule tx_room)
  moreover have "task_step M ?s1 ?s2" using tx_fill[of ?s1 b data n ?u M] by simp
  moreover have "task_step M ?s2 (s\<lparr>pc := TxLoop data (Suc n), drv := uart_tx_put b (drv s),
      tx_accepted := tx_accepted s @ [b]\<rparr>)"
    using tx_publish[of ?s2 b data n "drv ?s2" M] assms(2) by (simp add: uart_tx_put_def Let_def)
  ultimately show ?thesis by (meson converse_rtranclp_into_rtranclp r_into_rtranclp)
qed

lemma tx_loop_as_steps:
  assumes "pc s = TxLoop bs n" "uart_tx_push_loop bs n (drv s) = (k, u')"
  shows "n \<le> k \<and> (task_step M)\<^sup>*\<^sup>* s (s\<lparr>pc := TxKick k, drv := u',
    tx_accepted := tx_accepted s @ take (k - n) bs\<rparr>)"
  using assms
proof (induction bs arbitrary: n s)
  case Nil
  then show ?case using tx_done[of s n M] by auto
next
  case (Cons b bs)
  show ?case
  proof (cases "ring_next (tx_head (drv s)) = tx_tail (drv s)")
    case True
    have "k = n" "u' = drv s" using Cons.prems(2) True by (simp_all add: uart_tx_push_loop_full)
    then show ?thesis using tx_full[OF Cons.prems(1) True, of M] by (auto intro: r_into_rtranclp)
  next
    case False
    let ?s = "s\<lparr>pc := TxLoop bs (Suc n), drv := uart_tx_put b (drv s),
      tx_accepted := tx_accepted s @ [b]\<rparr>"
    have "uart_tx_push_loop bs (Suc n) (drv ?s) = (k, u')"
      using Cons.prems(2) by (simp only: uart_tx_push_loop_step[OF False]) simp
    from Cons.IH[OF _ this] have IH: "Suc n \<le> k" "(task_step M)\<^sup>*\<^sup>* ?s (?s\<lparr>pc := TxKick k, drv := u',
        tx_accepted := tx_accepted ?s @ take (k - Suc n) bs\<rparr>)" by auto
    have "take (k - n) (b # bs) = b # take (k - Suc n) bs"
      using IH(1) by (simp add: take_Cons')
    with IH tx_put_as_steps[OF Cons.prems(1) False, of M] show ?thesis
      by (auto elim: rtranclp_trans)
  qed
qed

lemma tx_push_as_steps:
  assumes "pc s = Idle" "uart_tx_push M bs (hw s) (drv s) = (e, n, m', u')"
  shows "(task_step M)\<^sup>*\<^sup>* s (s\<lparr>pc := Idle, hw := m', drv := u', tx_accepted := tx_accepted s @ take n bs\<rparr>)"
proof -
  have loop: "uart_tx_push_loop bs 0 (drv (s\<lparr>pc := TxLoop bs 0\<rparr>)) = (n, u')"
    and m': "m' = (if 0 < n then reg_or (USART1 USART_CR1) (usartm M USART_CR1_TXEIE) (hw s) else hw s)"
    using assms(2) by (auto simp: uart_tx_push_def Let_def split: prod.splits)
  let ?s2 = "s\<lparr>pc := TxKick n, drv := u', tx_accepted := tx_accepted s @ take n bs\<rparr>"
  have to_kick: "(task_step M)\<^sup>*\<^sup>* s ?s2"
    using tx_call[OF assms(1), of M bs] tx_loop_as_steps[OF _ loop, where M = M] by auto
  have kick: "(task_step M)\<^sup>*\<^sup>* ?s2 (s\<lparr>pc := Idle, hw := m', drv := u', tx_accepted := tx_accepted s @ take n bs\<rparr>)"
  proof (cases n)
    case 0
    then have "m' = hw s" using m' by simp
    then have "?s2\<lparr>pc := Idle\<rparr> = s\<lparr>pc := Idle, hw := m', drv := u',
        tx_accepted := tx_accepted s @ take n bs\<rparr>" by simp
    moreover have "task_step M ?s2 (?s2\<lparr>pc := Idle\<rparr>)" using tx_kick_skip[of ?s2 M] 0 by simp
    ultimately show ?thesis by (metis r_into_rtranclp)
  next
    case (Suc k)
    let ?s3 = "?s2\<lparr>pc := TxKickWrite (regs (hw s) (USART1 USART_CR1))\<rparr>"
    have s23: "task_step M ?s2 ?s3" using tx_kick_read[of ?s2 n M] Suc by simp
    have s34: "task_step M ?s3 (?s3\<lparr>pc := Idle, hw := m'\<rparr>)"
      using tx_kick_write[of ?s3 _ M] Suc m' by (simp add: reg_or_def)
    have eq: "?s3\<lparr>pc := Idle, hw := m'\<rparr> = s\<lparr>pc := Idle, hw := m', drv := u',
        tx_accepted := tx_accepted s @ take n bs\<rparr>" by simp
    show ?thesis
      using converse_rtranclp_into_rtranclp[of "task_step M", OF s23 r_into_rtranclp[of "task_step M", OF s34]]
      unfolding eq .
  qed
  from to_kick kick show ?thesis by (rule rtranclp_trans)
qed

lemma task_steps_reach:
  "(task_step M)\<^sup>*\<^sup>* s' s'' \<Longrightarrow> sys_reach M s s' \<Longrightarrow> sys_reach M s s''"
  by (induction rule: rtranclp_induct) (auto intro: sys_reach.intros sys_step.intros)

subsection \<open>Draining\<close>

text \<open>\<open>n\<close> transmit interrupts in a row.\<close>

primrec irqs :: "nat \<Rightarrow> cmsis \<Rightarrow> u32 \<Rightarrow> u32 \<Rightarrow> mcu \<times> uart \<Rightarrow> mcu \<times> uart" where
  "irqs 0 M sr dr mu = mu"
| "irqs (Suc n) M sr dr mu = irqs n M sr dr (USART1_IRQHandler M sr dr (fst mu) (snd mu))"

lemma irq_sends_one:
  assumes "uart_inv u" "tx_contents u = b # bs"
    and "regs m (USART1 USART_CR1) AND usartm M USART_CR1_TXEIE \<noteq> 0"
    and "sr AND usartm M USART_SR_TXE \<noteq> 0"
    and "sr AND usartm M USART_SR_RXNE = 0" "sr AND usartm M USART_SR_ORE = 0"
  shows "\<exists>u'. USART1_IRQHandler M sr dr m u = (wr (USART1 USART_DR) (ucast b) m, u') \<and>
    uart_inv u' \<and> tx_contents u' = bs"
proof -
  obtain c u' where "uart_tx_isr u = Some (c, u')"
    using uart_tx_isr_None[OF assms(1)] assms(2) by (cases "uart_tx_isr u") auto
  then show ?thesis
    using uart_tx_isr_Some[OF assms(1), of c u'] assms
    by (auto simp: USART1_IRQHandler_def usart1_irq_rx_def usart1_irq_tx_def)
qed

lemma irqs_drain:
  assumes "uart_inv u" "regs m (USART1 USART_CR1) AND usartm M USART_CR1_TXEIE \<noteq> 0"
    and "sr AND usartm M USART_SR_TXE \<noteq> 0"
    and "sr AND usartm M USART_SR_RXNE = 0" "sr AND usartm M USART_SR_ORE = 0"
    and "irqs (length (tx_contents u)) M sr dr (m, u) = (m', u')"
  shows "uart_inv u' \<and> tx_contents u' = [] \<and> trace m' = trace m @ map (\<lambda>b. Wr (USART1 USART_DR) (ucast b)) (tx_contents u) \<and>
    regs m' (USART1 USART_CR1) = regs m (USART1 USART_CR1)"
  using assms
proof (induction "tx_contents u" arbitrary: m u)
  case Nil
  then show ?case by simp
next
  case (Cons b bs)
  obtain u1 where u1: "USART1_IRQHandler M sr dr m u = (wr (USART1 USART_DR) (ucast b) m, u1)"
      "uart_inv u1" "tx_contents u1 = bs"
    using irq_sends_one[OF Cons.prems(1) Cons.hyps(2)[symmetric] Cons.prems(2-5)] by blast
  have cr1: "regs (wr (USART1 USART_DR) (ucast b) m) (USART1 USART_CR1) AND usartm M USART_CR1_TXEIE \<noteq> 0"
    using Cons.prems(2) by simp
  have "irqs (length (tx_contents u1)) M sr dr (wr (USART1 USART_DR) (ucast b) m, u1) = (m', u')"
    using Cons.prems(6) by (simp only: Cons.hyps(2)[symmetric] u1(3) list.size irqs.simps u1(1)
      fst_conv snd_conv add_Suc_right add_0_right)
  from Cons.hyps(1)[OF u1(3)[symmetric] u1(2) cr1 Cons.prems(3-5) this]
  show ?case unfolding Cons.hyps(2)[symmetric] u1(3) by simp
qed

subsection \<open>Properties\<close>

text \<open>C17: under any interleaving of the interrupt handler with the shared accesses of the task,
  both byte streams are FIFO without loss or duplication: what the handler wrote to the data
  register followed by what is still queued is exactly what \<open>uart_tx_push\<close> accepted, and what the
  task popped followed by what is still queued is exactly what the handler accepted.\<close>

theorem uart_streams_in_order:
  assumes "usartm M USART_CR1_TXEIE \<noteq> 0" "writes_to (USART1 USART_DR) (trace m) = []"
    and "sys_reach M (sys_start m t) s"
  shows "writes_to (USART1 USART_DR) (trace (hw s)) @ map ucast (tx_contents (drv s)) =
      map ucast (tx_accepted s)
    \<and> rx_popped s @ rx_contents (drv s) = rx_accepted s"
  using sys_reach_inv[OF assms(1,3) sys_inv_start[OF assms(2)]] by (simp add: sys_inv_def)

lemma example_push_reach:
  "sys_reach example_masks (sys_start mcu_reset None)
     ((sys_start mcu_reset None)\<lparr>pc := Idle,
        hw := reg_or (USART1 USART_CR1) 0x80 mcu_reset,
        drv := (drv (sys_start mcu_reset None))\<lparr>tx_buf := (replicate 512 0)[0 := 0x41], tx_head := 1\<rparr>,
        tx_accepted := [0x41]\<rparr>)"
proof -
  let ?s = "sys_start mcu_reset None"
  have "uart_tx_push example_masks [0x41] (hw ?s) (drv ?s) =
      (ERR_SUCCESS, 1, reg_or (USART1 USART_CR1) 0x80 mcu_reset,
       (drv ?s)\<lparr>tx_buf := (replicate 512 0)[0 := 0x41], tx_head := 1\<rparr>)"
    by (simp add: uart_tx_push_def sys_start_def uart_set_rx_notify_task_def uart_init_state_def
        ring_next_def example_masks_def Let_def)
  from tx_push_as_steps[OF _ this] have "(task_step example_masks)\<^sup>*\<^sup>* ?s (?s\<lparr>pc := Idle,
        hw := reg_or (USART1 USART_CR1) 0x80 mcu_reset,
        drv := (drv ?s)\<lparr>tx_buf := (replicate 512 0)[0 := 0x41], tx_head := 1\<rparr>,
        tx_accepted := tx_accepted ?s @ take 1 [0x41]\<rparr>)"
    by (simp add: sys_start_def)
  from task_steps_reach[OF this reach_refl] show ?thesis by (simp add: sys_start_def)
qed

lemma example_TXEIE: "usartm example_masks USART_CR1_TXEIE = 0x80"
  by (simp add: example_masks_def)

theorem uart_streams_in_order_witness:
  "\<exists>s. sys_reach example_masks (sys_start mcu_reset None) s \<and> tx_accepted s = [0x41] \<and>
     writes_to (USART1 USART_DR) (trace (hw s)) @ map ucast (tx_contents (drv s)) = [0x41]"
  using uart_streams_in_order[OF _ _ example_push_reach] example_push_reach
  by (fastforce simp: example_TXEIE mcu_reset_def sys_start_def)

text \<open>C18: no wake-up is lost: in every reachable state in which the task is not inside
  \<open>uart_tx_push\<close>, queued bytes imply that the transmit interrupt is enabled. The read-modify-write
  of CR1 in the task never changes a bit other than TXEIE, although the handler may clear TXEIE
  between its read and its write.\<close>

theorem uart_no_lost_wakeup:
  assumes "usartm M USART_CR1_TXEIE \<noteq> 0" "writes_to (USART1 USART_DR) (trace m) = []"
    and "sys_reach M (sys_start m t) s"
  shows "(pc s = Idle \<and> tx_contents (drv s) \<noteq> [] \<longrightarrow>
      regs (hw s) (USART1 USART_CR1) AND usartm M USART_CR1_TXEIE \<noteq> 0)
    \<and> regs (hw s) (USART1 USART_CR1) AND NOT (usartm M USART_CR1_TXEIE) =
      regs m (USART1 USART_CR1) AND NOT (usartm M USART_CR1_TXEIE)"
  using sys_reach_inv[OF assms(1,3) sys_inv_start[OF assms(2)]] by (auto simp: sys_inv_def)

theorem uart_no_lost_wakeup_witness:
  "\<exists>s. sys_reach example_masks (sys_start mcu_reset None) s \<and> pc s = Idle \<and>
     tx_contents (drv s) = [0x41] \<and> regs (hw s) (USART1 USART_CR1) AND 0x80 \<noteq> 0"
proof -
  let ?s0 = "sys_start mcu_reset None"
  let ?s = "?s0\<lparr>pc := Idle, hw := reg_or (USART1 USART_CR1) 0x80 mcu_reset,
        drv := (drv ?s0)\<lparr>tx_buf := (replicate 512 0)[0 := 0x41], tx_head := 1\<rparr>,
        tx_accepted := [0x41]\<rparr>"
  have tx: "tx_contents (drv ?s) = [0x41]"
    by (simp add: tx_contents_def sys_start_def uart_set_rx_notify_task_def uart_init_state_def ring_slice_def)
  moreover have "regs (hw ?s) (USART1 USART_CR1) AND 0x80 \<noteq> 0"
    using uart_no_lost_wakeup[OF _ _ example_push_reach] tx
    by (simp add: example_TXEIE mcu_reset_def)
  ultimately show ?thesis using example_push_reach by (intro exI[of _ ?s]) simp
qed

text \<open>C19: draining terminates: with the transmit interrupt enabled, as many interrupts with TXE
  set (and nothing received) as there are queued bytes write exactly those bytes, in order, to
  the data register and empty the queue.\<close>

theorem uart_drains:
  assumes "uart_inv u" "regs m (USART1 USART_CR1) AND usartm M USART_CR1_TXEIE \<noteq> 0"
    and "sr AND usartm M USART_SR_TXE \<noteq> 0"
    and "sr AND usartm M USART_SR_RXNE = 0" "sr AND usartm M USART_SR_ORE = 0"
  shows "tx_contents (snd (irqs (length (tx_contents u)) M sr dr (m, u))) = [] \<and>
    trace (fst (irqs (length (tx_contents u)) M sr dr (m, u))) =
      trace m @ map (\<lambda>b. Wr (USART1 USART_DR) (ucast b)) (tx_contents u)"
  using irqs_drain[OF assms, of dr "fst (irqs (length (tx_contents u)) M sr dr (m, u))"
      "snd (irqs (length (tx_contents u)) M sr dr (m, u))"] by simp

theorem uart_drains_witness:
  "\<exists>u m. tx_contents u = [0x41] \<and>
     trace (fst (irqs 1 example_masks 0x80 0 (m, u))) = [Wr (USART1 USART_DR) 0x41]"
proof -
  let ?u = "uart_init_state\<lparr>tx_buf := (replicate 512 0)[0 := 0x41], tx_head := 1\<rparr>"
  let ?m = "\<lparr>regs = (\<lambda>_. 0x80), trace = []\<rparr>"
  have tx: "tx_contents ?u = [0x41]"
    by (simp add: tx_contents_def uart_init_state_def ring_slice_def)
  have "trace (fst (irqs (length (tx_contents ?u)) example_masks 0x80 0 (?m, ?u))) =
      trace ?m @ map (\<lambda>b. Wr (USART1 USART_DR) (ucast b)) (tx_contents ?u)"
    by (rule conjunct2[OF uart_drains])
       (simp_all add: uart_inv_def uart_init_state_def example_masks_def)
  with tx show ?thesis by (intro exI[of _ ?u] exI[of _ ?m]) simp
qed

text \<open>\<open>uart_tx_push\<close> always reports success; it queues exactly the longest prefix that fits
  into the 511 usable bytes, reports its length, and leaves the receive side alone.\<close>

theorem uart_tx_push_queues_prefix:
  assumes "uart_inv u" "uart_tx_push M data m u = (e, n, m', u')"
  shows "e = ERR_SUCCESS \<and> n = min (length data) (511 - length (tx_contents u)) \<and>
    tx_contents u' = tx_contents u @ take n data \<and> rx_contents u' = rx_contents u \<and> uart_inv u'"
proof -
  have "u' = snd (uart_tx_push_loop data 0 u)"
    using assms(2) by (auto simp: uart_tx_push_def Let_def split: prod.splits)
  then show ?thesis using uart_tx_push_spec[OF assms] uart_tx_push_rx by simp
qed

theorem uart_tx_push_queues_prefix_witness:
  "\<exists>e n m' u'. uart_tx_push example_masks [1, 2, 3] mcu_reset uart_init_state = (e, n, m', u') \<and>
     n = 3 \<and> tx_contents u' = [1, 2, 3]"
proof -
  obtain e n m' u' where r: "uart_tx_push example_masks [1, 2, 3] mcu_reset uart_init_state = (e, n, m', u')"
    by (cases "uart_tx_push example_masks [1, 2, 3] mcu_reset uart_init_state") auto
  from uart_tx_push_queues_prefix[OF uart_inv_init r] r show ?thesis
    by (auto simp: tx_contents_init)
qed

end
