(* ===== verification/System.thy ===== *)
theory System
  imports App Uart_Conc
begin

text \<open>
  The firmware as a whole: after start-up its state changes by wake-ups of the protocol task and of
  the heartbeat, by FreeRTOS timer callbacks and by interrupts, in any order. \<open>fw_exec\<close> runs one of
  them and \<open>fw_reach\<close> collects the states that sequences of them lead to.
\<close>

subsection \<open>Events\<close>

datatype fw_event =
    Task_Protocol "env list"
  | Task_Heartbeat u32
  | Sw_Timer u32
  | Irq_USART1 u32 u32
  | Irq_SPI nat u32
  | Irq_I2C_EV nat u32 u32 u32
  | Irq_I2C_ER nat
  | Irq_TIM irq u32

definition on_mcu :: "(mcu \<Rightarrow> mcu) \<Rightarrow> firmware \<Rightarrow> firmware" where
  "on_mcu g w = w\<lparr>fw_board := (fw_board w)\<lparr>bmcu := g (bmcu (fw_board w))\<rparr>\<rparr>"

text \<open>A timer interrupt in full: the vector, and the callback when the handler calls it.\<close>

definition tim_irq :: "cmsis \<Rightarrow> irq \<Rightarrow> u32 \<Rightarrow> firmware \<Rightarrow> firmware option" where
  "tim_irq M q sr w =
     do {
       tid \<leftarrow> irq_timer q;
       let (cb, m) = handle_pulse_isr M sr tid (bmcu (fw_board w)) (btimers (fw_board w));
       case cb of
         None \<Rightarrow> Some (on_mcu (\<lambda>_. m) w)
       | Some (CB_hw_timer_callback, token) \<Rightarrow> do { m \<leftarrow> hw_timer_callback token (fw_dout w) m; Some (on_mcu (\<lambda>_. m) w) }
     }"

fun fw_exec :: "cmsis \<Rightarrow> rtos \<Rightarrow> fw_event \<Rightarrow> app \<Rightarrow> app option" where
  "fw_exec M K (Task_Protocol Es) a = task_protocol_wakeup Es a"
| "fw_exec M K (Task_Heartbeat odr) a = Some (a\<lparr>ap_fw := on_mcu (task_heartbeat K [odr]) (ap_fw a)\<rparr>)"
| "fw_exec M K (Sw_Timer timer_id) a =
     do {
       m \<leftarrow> sw_timer_callback timer_id (fw_dout (ap_fw a)) (bmcu (fw_board (ap_fw a)));
       Some (a\<lparr>ap_fw := on_mcu (\<lambda>_. m) (ap_fw a)\<rparr>)
     }"
| "fw_exec M K (Irq_USART1 sr dr) a =
     (case USART1_IRQHandler M sr dr (bmcu (fw_board (ap_fw a))) (fw_uart (ap_fw a)) of
        (m, u) \<Rightarrow> Some (a\<lparr>ap_fw := on_mcu (\<lambda>_. m) ((ap_fw a)\<lparr>fw_uart := u\<rparr>)\<rparr>))"
| "fw_exec M K (Irq_SPI i sr) a =
     do {
       (bus, d, m) \<leftarrow> dac_irq M (i, sr) (fw_bus (ap_fw a)) (fw_dac (ap_fw a)) (bmcu (fw_board (ap_fw a)));
       Some (a\<lparr>ap_fw := on_mcu (\<lambda>_. m) ((ap_fw a)\<lparr>fw_bus := bus, fw_dac := d\<rparr>)\<rparr>)
     }"
| "fw_exec M K (Irq_I2C_EV p sr1 sr2 dr) a =
     do {
       (ss, h, m) \<leftarrow> I2C_EV_IRQHandler M p sr1 sr2 dr (i2c_drv (fw_i2c (ap_fw a))) (i2c_heap (fw_i2c (ap_fw a))) (bmcu (fw_board (ap_fw a)));
       Some (a\<lparr>ap_fw := on_mcu (\<lambda>_. m) ((ap_fw a)\<lparr>fw_i2c := (fw_i2c (ap_fw a))\<lparr>i2c_drv := ss, i2c_heap := h\<rparr>\<rparr>)\<rparr>)
     }"
| "fw_exec M K (Irq_I2C_ER p) a =
     (case I2C_ER_IRQHandler p (i2c_drv (fw_i2c (ap_fw a))) (bmcu (fw_board (ap_fw a))) of
        (ss, m) \<Rightarrow> Some (a\<lparr>ap_fw := on_mcu (\<lambda>_. m) ((ap_fw a)\<lparr>fw_i2c := (fw_i2c (ap_fw a))\<lparr>i2c_drv := ss\<rparr>\<rparr>)\<rparr>))"
| "fw_exec M K (Irq_TIM q sr) a = do { w \<leftarrow> tim_irq M q sr (ap_fw a); Some (a\<lparr>ap_fw := w\<rparr>) }"

text \<open>
  Which events can occur: interrupt numbers are those of existing vectors, the I2C vectors are
  enabled only for an initialised driver, and the environment of a wake-up keeps the contracts of
  the code outside the repository and covers a full receive ring.
\<close>

fun event_possible :: "fw_event \<Rightarrow> app \<Rightarrow> bool" where
  "event_possible (Task_Protocol Es) a \<longleftrightarrow> list_all env_ok Es \<and> 511 \<le> length Es"
| "event_possible (Irq_SPI i sr) a \<longleftrightarrow> i < 2"
| "event_possible (Irq_I2C_EV p sr1 sr2 dr) a \<longleftrightarrow> p < 3 \<and> sl_initialized (i2c_drv (fw_i2c (ap_fw a)) ! p)"
| "event_possible (Irq_I2C_ER p) a \<longleftrightarrow> p < 3 \<and> sl_initialized (i2c_drv (fw_i2c (ap_fw a)) ! p)"
| "event_possible (Irq_TIM q sr) a \<longleftrightarrow> irq_timer q \<noteq> None"
| "event_possible _ a \<longleftrightarrow> True"

inductive fw_reach :: "cmsis \<Rightarrow> rtos \<Rightarrow> app \<Rightarrow> bool" for M :: cmsis and K :: rtos where
  reach_start: "firmware_main M use_hse hse_reads pll_reads sws_reads False (firmware_static m) = Main_Scheduled w \<Longrightarrow>
    fw_reach M K (task_protocol_entry self \<lparr>ap_fw = w, ap_parser = parser_static\<rparr>)"
| reach_event: "fw_reach M K a \<Longrightarrow> event_possible e a \<Longrightarrow> fw_exec M K e a = Some a' \<Longrightarrow> fw_reach M K a'"

subsection \<open>The invariant\<close>

definition app_inv :: "app \<Rightarrow> bool" where
  "app_inv a \<longleftrightarrow> fw_inv (ap_fw a) \<and> parser_inv (ap_parser a)"

lemma on_mcu_inv: "fw_inv w \<Longrightarrow> fw_inv (on_mcu g w)"
  by (simp add: on_mcu_def fw_inv_mcu)

lemma fw_inv_i2c:
  assumes "fw_inv w" "i2c_inv st" "i2c_sensor_states st = i2c_sensor_states (fw_i2c w)"
  shows "fw_inv (w\<lparr>fw_i2c := st\<rparr>)"
proof -
  have "fw_live (w\<lparr>fw_i2c := st\<rparr>) = fw_live w"
    using assms(3) by (intro fw_live_same) (simp add: fw_ids_def i2c_ids_def i2c_live_def)
  then show ?thesis using assms(1,2) by (simp add: fw_inv_def fw_core_def)
qed

lemma fw_inv_spi:
  assumes "fw_inv w" "spi_bus_inv bus" "dac_inv bus d" "bus_frame (fw_bus w) bus" "dac_frame (fw_dac w) d"
  shows "fw_inv (w\<lparr>fw_bus := bus, fw_dac := d\<rparr>)"
proof -
  have core: "fw_core w" and sync: "table_sync (fw_table w) (fw_live w)" using assms(1) by (simp_all add: fw_inv_def)
  note C = fw_coreD[OF core]
  have same: "dac_chips d = dac_chips (fw_dac w)" "dac_states d = dac_states (fw_dac w)" using assms(5) by (simp_all add: dac_frame_def)
  have live: "fw_live (w\<lparr>fw_bus := bus, fw_dac := d\<rparr>) = fw_live w"
    by (rule fw_live_same) (simp add: fw_ids_def dac_live_def same)
  have "\<forall>k<2. ss_initialized (sb_slaves bus ! k) = ss_initialized (sb_slaves (fw_bus w) ! k)"
    using assms(4) unfolding bus_frame_def by blast
  then have "sps_inv bus (fw_sps w)" by (rule sps_inv_frame[OF C(8)])
  moreover have "dac_settled d" using C(7) by (simp add: dac_settled_def same)
  ultimately have "fw_core (w\<lparr>fw_bus := bus, fw_dac := d\<rparr>)" using C(1-4) assms(2,3) by (simp add: fw_core_def)
  then show ?thesis using live sync by (simp add: fw_inv_def)
qed

lemma revert_total:
  assumes "do_inv st b"
  shows "\<exists>m'. revert_to_idle_level i st m = Some m'"
  using revert_live[OF assms, of i m] by (cases "unat i < 8 \<and> do_in_use (do_states st ! unat i)")
    (auto simp: revert_to_idle_level_def Let_def)

lemma tim_irq_ok:
  assumes "fw_inv w" "irq_timer q \<noteq> None"
  shows "\<exists>m. tim_irq M q sr w = Some (on_mcu (\<lambda>_. m) w)"
proof -
  obtain tid where tid: "irq_timer q = Some tid" using assms(2) by blast
  obtain cb m where h: "handle_pulse_isr M sr tid (bmcu (fw_board w)) (btimers (fw_board w)) = (cb, m)" by fastforce
  have "do_inv (fw_dout w) (fw_board w)" using assms(1) by (simp add: fw_inv_def fw_core_def)
  note R = revert_total[OF this]
  show ?thesis
  proof (cases cb)
    case None then show ?thesis using tid h by (auto simp: tim_irq_def)
  next
    case (Some x)
    obtain m' where "hw_timer_callback (snd x) (fw_dout w) m = Some m'" using R unfolding hw_timer_callback_def by blast
    then show ?thesis using tid h Some by (cases x; cases "fst x") (auto simp: tim_irq_def)
  qed
qed

lemma usart1_inv:
  assumes "fw_inv w" "USART1_IRQHandler M sr dr m (fw_uart w) = (m', u)"
  shows "uart_inv u"
proof -
  have u: "uart_inv (fw_uart w)" using assms(1) by (simp add: fw_inv_def fw_core_def)
  obtain m1 u1 where r: "usart1_irq_rx M sr dr m (fw_uart w) = (m1, u1)" by fastforce
  then show ?thesis using assms(2) usart1_irq_tx_contents(1)[of u1] usart1_irq_rx_contents[OF u r] by (simp add: USART1_IRQHandler_def)
qed

lemma wakeup_ok:
  assumes "app_inv a" "list_all env_ok Es" "511 \<le> length Es"
  shows "\<exists>w rs. let (fs, p) = parser_feed_all (ap_parser a) (rx_contents (fw_uart (ap_fw a))) in
    task_protocol_wakeup Es a = Some \<lparr>ap_fw = w, ap_parser = p\<rparr> \<and> fw_inv w \<and> parser_inv p \<and> rx_contents (fw_uart w) = [] \<and>
    host_run (fw_table (ap_fw a)) (map frame_of fs) rs (fw_table w) \<and>
    tx_contents (fw_uart w) = tx_contents (fw_uart (ap_fw a)) @
      take (511 - length (tx_contents (fw_uart (ap_fw a)))) (concat (map encode_frame rs))"
proof -
  let ?a = "a\<lparr>ap_fw := (ap_fw a)\<lparr>fw_board := (fw_board (ap_fw a))\<lparr>bmcu := emit UlTaskNotifyTake (bmcu (fw_board (ap_fw a)))\<rparr>\<rparr>\<rparr>"
  have len: "length (rx_contents (fw_uart (ap_fw ?a))) \<le> length Es"
    using length_rx_contents_le[of "fw_uart (ap_fw ?a)"] assms(3) by simp
  have "fw_inv (ap_fw ?a)" "parser_inv (ap_parser ?a)" using assms(1) fw_inv_mcu by (simp_all add: app_inv_def)
  from protocol_drain_ok[OF this assms(2) len] show ?thesis by (simp add: task_protocol_wakeup_def)
qed

text \<open>Every event that can occur is handled without a trap, and the invariant survives it.\<close>

lemma exec_ok:
  assumes inv: "app_inv a" and e: "event_possible e a"
  shows "\<exists>a'. fw_exec M K e a = Some a' \<and> app_inv a'"
proof -
  have fw: "fw_inv (ap_fw a)" and ps: "parser_inv (ap_parser a)" using inv by (simp_all add: app_inv_def)
  note C = fw_coreD[OF fw[unfolded fw_inv_def, THEN conjunct1]]
  show ?thesis
  proof (cases e)
    case (Task_Protocol Es)
    then show ?thesis using wakeup_ok[OF inv, of Es] e
      by (cases "parser_feed_all (ap_parser a) (rx_contents (fw_uart (ap_fw a)))") (auto simp: app_inv_def)
  next
    case (Task_Heartbeat odr)
    then show ?thesis using on_mcu_inv[OF fw] ps by (simp add: app_inv_def)
  next
    case (Sw_Timer t)
    obtain m where "sw_timer_callback t (fw_dout (ap_fw a)) (bmcu (fw_board (ap_fw a))) = Some m"
      using revert_total[OF C(3)] unfolding sw_timer_callback_def by blast
    then show ?thesis using Sw_Timer on_mcu_inv[OF fw] ps by (simp add: app_inv_def)
  next
    case (Irq_USART1 sr dr)
    obtain m u where r: "USART1_IRQHandler M sr dr (bmcu (fw_board (ap_fw a))) (fw_uart (ap_fw a)) = (m, u)" by fastforce
    then show ?thesis using Irq_USART1 on_mcu_inv[OF fw_inv_uart[OF fw usart1_inv[OF fw r]]] ps by (simp add: app_inv_def)
  next
    case (Irq_SPI i sr)
    obtain bus d m where r: "dac_irq M (i, sr) (fw_bus (ap_fw a)) (fw_dac (ap_fw a)) (bmcu (fw_board (ap_fw a))) = Some (bus, d, m)"
      "spi_bus_inv bus" "dac_inv bus d" "bus_frame (fw_bus (ap_fw a)) bus" "dac_frame (fw_dac (ap_fw a)) d"
      using dac_irq_total[OF C(5,6), of "(i, sr)" M "bmcu (fw_board (ap_fw a))"] e Irq_SPI by auto
    then show ?thesis using Irq_SPI on_mcu_inv[OF fw_inv_spi[OF fw r(2-5)]] ps by (simp add: app_inv_def)
  next
    case (Irq_I2C_EV p sr1 sr2 dr)
    then obtain ss h m where r: "I2C_EV_IRQHandler M p sr1 sr2 dr (i2c_drv (fw_i2c (ap_fw a))) (i2c_heap (fw_i2c (ap_fw a)))
        (bmcu (fw_board (ap_fw a))) = Some (ss, h, m)" "i2c_inv ((fw_i2c (ap_fw a))\<lparr>i2c_drv := ss, i2c_heap := h\<rparr>)"
      using i2c_irq_ok(1)[OF C(2), of p M sr1 sr2 dr "bmcu (fw_board (ap_fw a))"] e by auto
    then show ?thesis using Irq_I2C_EV on_mcu_inv[OF fw_inv_i2c[OF fw r(2)]] ps by (simp add: app_inv_def)
  next
    case (Irq_I2C_ER p)
    then obtain ss m where r: "I2C_ER_IRQHandler p (i2c_drv (fw_i2c (ap_fw a))) (bmcu (fw_board (ap_fw a))) = (ss, m)"
        "i2c_inv ((fw_i2c (ap_fw a))\<lparr>i2c_drv := ss\<rparr>)"
      using i2c_irq_ok(2)[OF C(2), of p "bmcu (fw_board (ap_fw a))"] e by auto
    then show ?thesis using Irq_I2C_ER on_mcu_inv[OF fw_inv_i2c[OF fw r(2)]] ps by (simp add: app_inv_def)
  next
    case (Irq_TIM q sr)
    then have "irq_timer q \<noteq> None" using e by simp
    from tim_irq_ok[OF fw this] obtain m where "tim_irq M q sr (ap_fw a) = Some (on_mcu (\<lambda>_. m) (ap_fw a))" by blast
    then show ?thesis using Irq_TIM on_mcu_inv[OF fw] ps by (simp add: app_inv_def)
  qed
qed

lemma fw_reach_inv: "fw_reach M K a \<Longrightarrow> app_inv a"
proof (induction rule: fw_reach.induct)
  case (reach_start use_hse hse_reads pll_reads sws_reads m w self)
  have "uart_inv (uart_set_rx_notify_task (Some self) (fw_uart w))"
    using firmware_main_inv(3)[OF reach_start] uart_inv_init by (simp add: uart_set_rx_notify_task_def uart_inv_def)
  then show ?case using firmware_main_inv(1)[OF reach_start] fw_inv_uart parser_inv_reset[OF parser_static_buffer] by (simp add: app_inv_def task_protocol_entry_def)
next
  case (reach_event a e a')
  then show ?case using exec_ok[of a e M K] by auto
qed

subsection \<open>A stream of commands\<close>

primrec fw_run :: "cmsis \<Rightarrow> rtos \<Rightarrow> fw_event list \<Rightarrow> app \<Rightarrow> app option" where
  "fw_run M K [] a = Some a"
| "fw_run M K (e # es) a = do { a \<leftarrow> fw_exec M K e a; fw_run M K es a }"

lemma fw_run_append: "fw_run M K (es @ fs) a = do { a \<leftarrow> fw_run M K es a; fw_run M K fs a }"
  by (induction es arbitrary: a) (auto split: bind_splits)

text \<open>The bytes the firmware has handed to the transmitter so far.\<close>

definition dr_stores :: "app \<Rightarrow> u32 list" where
  "dr_stores a = writes_to (USART1 USART_DR) (trace (bmcu (fw_board (ap_fw a))))"

text \<open>The transmit half of the handler passes on at most the oldest byte.\<close>

lemma usart1_irq_tx_passes:
  assumes "uart_inv u" "usart1_irq_tx M sr m u = (m', u')"
  shows "\<exists>k\<le>length (tx_contents u). tx_contents u' = drop k (tx_contents u) \<and> writes_to (USART1 USART_DR) (trace m') =
    writes_to (USART1 USART_DR) (trace m) @ map ucast (take k (tx_contents u))"
proof (cases "u' = u \<and> writes_to (USART1 USART_DR) (trace m') = writes_to (USART1 USART_DR) (trace m)")
  case True
  then show ?thesis by (intro exI[of _ 0]) simp
next
  case False
  then obtain b where "uart_tx_isr u = Some (b, u')" "m' = wr (USART1 USART_DR) (ucast b) m"
    using assms(2) by (auto simp: usart1_irq_tx_def split: if_splits option.splits)
  then show ?thesis using uart_tx_isr_Some[OF assms(1), of b u'] by (intro exI[of _ 1]) simp
qed

text \<open>
  The receive interrupt queues the byte. When the transmitter is empty as well, the same run of the
  handler passes a queued byte on; nothing else the task sees changes.
\<close>

lemma exec_rx_byte:
  assumes "app_inv a" "length (rx_contents (fw_uart (ap_fw a))) < 511" "sr AND usartm M USART_SR_RXNE \<noteq> 0"
  shows "\<exists>a' k. fw_exec M K (Irq_USART1 sr (ucast b)) a = Some a' \<and> ap_parser a' = ap_parser a \<and> fw_table (ap_fw a') = fw_table (ap_fw a) \<and>
    k \<le> length (tx_contents (fw_uart (ap_fw a))) \<and> tx_contents (fw_uart (ap_fw a')) = drop k (tx_contents (fw_uart (ap_fw a))) \<and>
    dr_stores a' = dr_stores a @ map ucast (take k (tx_contents (fw_uart (ap_fw a)))) \<and>
    rx_contents (fw_uart (ap_fw a')) = rx_contents (fw_uart (ap_fw a)) @ [b]"
proof -
  have u: "uart_inv (fw_uart (ap_fw a))" using assms(1) by (simp add: app_inv_def fw_inv_def fw_core_def)
  obtain m1 u1 where r: "usart1_irq_rx M sr (ucast b) (bmcu (fw_board (ap_fw a))) (fw_uart (ap_fw a)) = (m1, u1)" by fastforce
  obtain m2 u2 where t: "usart1_irq_tx M sr m1 u1 = (m2, u2)" by fastforce
  have c: "uart_inv u1" "rx_contents u1 = rx_contents (fw_uart (ap_fw a)) @ [b]"
    using usart1_irq_rx_contents[OF u r] rx_full_iff[OF u] assms(2,3) by simp_all
  show ?thesis
    using r t c(2) usart1_irq_rx_frame(1)[OF r] usart1_irq_rx_frame(6)[OF r] usart1_irq_tx_frame(1)[OF t] usart1_irq_tx_passes[OF c(1) t]
    by (auto simp: USART1_IRQHandler_def on_mcu_def dr_stores_def)
qed

text \<open>One interrupt per byte; each reads its own status.\<close>

definition rx_events :: "u32 list \<Rightarrow> u8 list \<Rightarrow> fw_event list" where
  "rx_events srs bs = map2 (\<lambda>sr b. Irq_USART1 sr (ucast b)) srs bs"

lemma run_rx_bytes:
  assumes "fw_reach M K a" "length (rx_contents (fw_uart (ap_fw a))) + length bs \<le> 511"
    and "length srs = length bs" "list_all (\<lambda>sr. sr AND usartm M USART_SR_RXNE \<noteq> 0) srs"
  shows "\<exists>a' k. fw_run M K (rx_events srs bs) a = Some a' \<and> fw_reach M K a' \<and> ap_parser a' = ap_parser a \<and> fw_table (ap_fw a') = fw_table (ap_fw a) \<and>
    k \<le> length (tx_contents (fw_uart (ap_fw a))) \<and> tx_contents (fw_uart (ap_fw a')) = drop k (tx_contents (fw_uart (ap_fw a))) \<and>
    dr_stores a' = dr_stores a @ map ucast (take k (tx_contents (fw_uart (ap_fw a)))) \<and>
    rx_contents (fw_uart (ap_fw a')) = rx_contents (fw_uart (ap_fw a)) @ bs"
  using assms(3,1,2,4)
proof (induction srs bs arbitrary: a rule: list_induct2)
  case Nil
  then show ?case by (intro exI[of _ a] exI[of _ 0]) (simp add: rx_events_def)
next
  case (Cons sr srs b bs)
  have room: "length (rx_contents (fw_uart (ap_fw a))) < 511" and sr: "sr AND usartm M USART_SR_RXNE \<noteq> 0" using Cons.prems(2,3) by simp_all
  obtain a1 k where s: "fw_exec M K (Irq_USART1 sr (ucast b)) a = Some a1" "ap_parser a1 = ap_parser a" "fw_table (ap_fw a1) = fw_table (ap_fw a)"
    "k \<le> length (tx_contents (fw_uart (ap_fw a)))" "tx_contents (fw_uart (ap_fw a1)) = drop k (tx_contents (fw_uart (ap_fw a)))"
    "dr_stores a1 = dr_stores a @ map ucast (take k (tx_contents (fw_uart (ap_fw a))))"
    "rx_contents (fw_uart (ap_fw a1)) = rx_contents (fw_uart (ap_fw a)) @ [b]"
    using exec_rx_byte[OF fw_reach_inv[OF Cons.prems(1)] room sr] by blast
  have "fw_reach M K a1" using reach_event[OF Cons.prems(1) _ s(1)] by simp
  moreover have "length (rx_contents (fw_uart (ap_fw a1))) + length bs \<le> 511" using Cons.prems(2) s(7) by simp
  ultimately obtain a2 j where r: "fw_run M K (rx_events srs bs) a1 = Some a2" "fw_reach M K a2" "ap_parser a2 = ap_parser a1"
    "fw_table (ap_fw a2) = fw_table (ap_fw a1)" "j \<le> length (tx_contents (fw_uart (ap_fw a1)))"
    "tx_contents (fw_uart (ap_fw a2)) = drop j (tx_contents (fw_uart (ap_fw a1)))"
    "dr_stores a2 = dr_stores a1 @ map ucast (take j (tx_contents (fw_uart (ap_fw a1))))"
    "rx_contents (fw_uart (ap_fw a2)) = rx_contents (fw_uart (ap_fw a1)) @ bs"
    using Cons.IH[of a1] Cons.prems(3) by auto
  have "fw_run M K (rx_events (sr # srs) (b # bs)) a = Some a2" using s(1) r(1) by (simp add: rx_events_def del: fw_exec.simps)
  moreover have "k + j \<le> length (tx_contents (fw_uart (ap_fw a)))" using s(4,5) r(5) by simp
  moreover have "dr_stores a2 = dr_stores a @ map ucast (take (k + j) (tx_contents (fw_uart (ap_fw a))))"
    using s(5,6) r(7) by (simp add: take_add)
  ultimately show ?case using r s by (intro exI[of _ a2] exI[of _ "k + j"]) (simp add: add.commute)
qed

lemma idle_parser_rel: "parser_inv p \<Longrightarrow> pstate p = PARSER_STATE_WAIT_START \<Longrightarrow> parser_rel p []"
  by (simp add: parser_inv_def parser_rel_def)

lemma parse_commands:
  assumes "parser_inv p" "pstate p = PARSER_STATE_WAIT_START" "list_all (\<lambda>(ty, sq, pl). length pl \<le> PROTO_MAX_PAYLOAD) cmds"
    and "parser_feed_all p (concat (map encode_frame cmds)) = (fs, p')"
  shows "map frame_of fs = cmds" "pstate p' = PARSER_STATE_WAIT_START"
proof -
  have "list_all (\<lambda>(ns, ty, sq, pl). PROTO_START_BYTE \<notin> set ns \<and> length pl \<le> PROTO_MAX_PAYLOAD) (map (Pair []) cmds)"
    using assms(3) by (auto simp: list_all_iff)
  from collect_encode_many[OF this] have c: "collect [] (concat (map encode_frame cmds)) = (cmds, [])" by (simp add: comp_def)
  show "map frame_of fs = cmds" "pstate p' = PARSER_STATE_WAIT_START"
    using parser_feed_all_collect[OF idle_parser_rel[OF assms(1,2)], of "concat (map encode_frame cmds)"] assms(4) c parser_rel_idle by simp_all
qed

lemma serve_commands:
  assumes reach: "fw_reach M K a" and idle: "rx_contents (fw_uart (ap_fw a)) = []" "pstate (ap_parser a) = PARSER_STATE_WAIT_START"
    and cmds: "list_all (\<lambda>(ty, sq, pl). length pl \<le> PROTO_MAX_PAYLOAD) cmds" "length (concat (map encode_frame cmds)) \<le> 511"
    and srs: "length srs = length (concat (map encode_frame cmds))" "list_all (\<lambda>sr. sr AND usartm M USART_SR_RXNE \<noteq> 0) srs"
    and Es: "list_all env_ok Es" "511 \<le> length Es"
  shows "\<exists>k a1 a' rs. fw_run M K (rx_events srs (concat (map encode_frame cmds))) a = Some a1 \<and>
    k \<le> length (tx_contents (fw_uart (ap_fw a))) \<and> dr_stores a1 = dr_stores a @ map ucast (take k (tx_contents (fw_uart (ap_fw a)))) \<and>
    fw_exec M K (Task_Protocol Es) a1 = Some a' \<and>
    fw_reach M K a' \<and> rx_contents (fw_uart (ap_fw a')) = [] \<and> pstate (ap_parser a') = PARSER_STATE_WAIT_START \<and>
    host_run (fw_table (ap_fw a)) cmds rs (fw_table (ap_fw a')) \<and>
    tx_contents (fw_uart (ap_fw a')) = drop k (tx_contents (fw_uart (ap_fw a))) @
      take (511 - length (drop k (tx_contents (fw_uart (ap_fw a))))) (concat (map encode_frame rs))"
proof -
  let ?bs = "concat (map encode_frame cmds)" and ?tx = "tx_contents (fw_uart (ap_fw a))"
  obtain a1 k where r: "fw_run M K (rx_events srs ?bs) a = Some a1" "fw_reach M K a1" "ap_parser a1 = ap_parser a"
    "fw_table (ap_fw a1) = fw_table (ap_fw a)" "k \<le> length ?tx" "tx_contents (fw_uart (ap_fw a1)) = drop k ?tx"
    "dr_stores a1 = dr_stores a @ map ucast (take k ?tx)" "rx_contents (fw_uart (ap_fw a1)) = ?bs"
    using run_rx_bytes[OF reach _ srs] cmds(2) idle(1) by auto
  obtain fs p where f: "parser_feed_all (ap_parser a) ?bs = (fs, p)" by fastforce
  have "parser_inv (ap_parser a)" using fw_reach_inv[OF reach] by (simp add: app_inv_def)
  note P = parse_commands[OF this idle(2) cmds(1) f]
  obtain w rs where d: "task_protocol_wakeup Es a1 = Some \<lparr>ap_fw = w, ap_parser = p\<rparr>" "rx_contents (fw_uart w) = []"
    "host_run (fw_table (ap_fw a)) cmds rs (fw_table w)"
    "tx_contents (fw_uart w) = drop k ?tx @ take (511 - length (drop k ?tx)) (concat (map encode_frame rs))"
    using wakeup_ok[OF fw_reach_inv[OF r(2)] Es] f r P(1) by auto
  have "fw_reach M K \<lparr>ap_fw = w, ap_parser = p\<rparr>" using reach_event[OF r(2), of "Task_Protocol Es"] Es d(1) by simp
  then show ?thesis using r(1,5,7) d P(2)
    by (intro exI[of _ k] exI[of _ a1] exI[of _ "\<lparr>ap_fw = w, ap_parser = p\<rparr>"] exI[of _ rs]) simp
qed

end
