(* ===== verification/Host_Setup.thy ===== *)
theory Host_Setup
  imports Host_Payload System
begin

text \<open>
  A set-up from the host's configuration object to the live sensor: packing and framing in the host
  library, the firmware's parser, dispatcher and PWM backend, and the acknowledgement.
\<close>

lemma feed_all_frames_ok:
  assumes "parser_inv p" "parser_feed_all p bs = (fs, p')"
  shows "list_all frame_ok fs"
  using assms
proof (induction bs arbitrary: p fs p')
  case (Cons b bs)
  obtain ok p1 where s: "protocol_parser_feed p b = (ok, p1)" by fastforce
  obtain gs p2 where g: "parser_feed_all p1 bs = (gs, p2)" by fastforce
  have "parser_inv p1" using parser_inv_feed[OF Cons.prems(1), of b] s by simp
  from Cons.IH[OF this g] feed_frame_ok[OF Cons.prems(1), of b p1] show ?case
    using Cons.prems(2) s g by (auto split: if_splits)
qed simp

text \<open>One frame of the host, parsed: the payload is at the start of the parser's buffer.\<close>

lemma parse_command:
  assumes "parser_inv p" "pstate p = PARSER_STATE_WAIT_START" "length pl \<le> PROTO_MAX_PAYLOAD"
  obtains f p' rest where "parser_feed_all p (encode_frame (ty, sq, pl)) = ([f], p')" "frame_ok f" "frame_type f = ty" "frame_seq f = sq"
    "frame_len f = word_of_nat (length pl)" "frame_payload f = pl @ rest"
proof -
  obtain fs p' where f: "parser_feed_all p (encode_frame (ty, sq, pl)) = (fs, p')" by fastforce
  then have "map frame_of fs = [(ty, sq, pl)]" using parse_commands(1)[OF assms(1,2), of "[(ty, sq, pl)]" fs p'] assms(3) by simp
  then obtain g where g: "fs = [g]" "frame_of g = (ty, sq, pl)" by auto
  have ok: "frame_ok g" using feed_all_frames_ok[OF assms(1) f] g(1) by simp
  then have parts: "frame_type g = ty" "frame_seq g = sq" "take (unat (frame_len g)) (frame_payload g) = pl" using g(2) by (simp_all add: frame_of_def)
  then have "length pl = unat (frame_len g)" using ok by (auto simp: frame_ok_def)
  then have "frame_len g = word_of_nat (length pl)" by simp
  then show thesis using that[OF f[unfolded g(1)] ok parts(1,2)] parts(3) append_take_drop_id[of "unat (frame_len g)" "frame_payload g"] by metis
qed

lemma read_u32_le_app: "read_u32_le xs = Some v \<Longrightarrow> read_u32_le (xs @ ys) = Some v"
  by (cases xs rule: read_u32_le.cases) auto

lemma pwm_read_cfg_app: "pwm_read_cfg bs = Some c \<Longrightarrow> length bs = 11 \<Longrightarrow> pwm_read_cfg (bs @ rest) = Some c"
  by (auto simp: pwm_read_cfg_def nth_append bind_eq_Some_conv intro: read_u16_le_app read_u32_le_app)

text \<open>The PWM handler on a configuration that can be opened: the sensor table gains exactly this channel.\<close>

lemma fw_pwm_setup_served:
  assumes "fw_inv w" "env_ok E" "unat n \<le> length cfg" "\<not> n < PWM_CFG_SIZE" "pwm_read_cfg cfg = Some c" "\<not> pwm_cfg_invalid c"
    and "pwm_can_open c (fw_pwm w) (fw_board w)"
  shows "\<exists>sid w1. fw_pwm_setup E cfg n w = Some (ERR_SUCCESS, sid, w1) \<and> fw_inv w1 \<and> fw_uart w1 = fw_uart w \<and> sid \<noteq> PROTO_SENSOR_ID_NONE \<and>
    fw_table w sid = None \<and> (PROTO_ID_PWM, slot_for (pc_timer_raw c) (pc_channel c)) \<notin> ran (fw_table w) \<and>
    fw_table w1 = (fw_table w)(sid \<mapsto> (PROTO_ID_PWM, slot_for (pc_timer_raw c) (pc_channel c)))"
proof -
  have core: "fw_core w" using assms(1) by (simp add: fw_inv_def)
  note inv = fw_coreD(4)[OF core]
  obtain sid st b where r: "pwm_sensor_setup (ev_masks E) cfg n (fw_pwm w) (fw_board w) = Some (ERR_SUCCESS, sid, st, b)"
    using pwm_setup_succeeds[OF inv assms(4-7)] by blast
  then obtain d pin arr where ok: "pwm_setup_ok (ev_masks E) cfg (fw_pwm w) (fw_board w) d pin arr sid st b"
    using pwm_setup_outcome[OF inv assms(3)] by blast
  then have "d = c" "sensor_manager_register PROTO_ID_PWM (slot_for (pc_timer_raw d) (pc_channel d)) (bsm (fw_board w)) = Some (sid, bsm b)" "sid \<noteq> 0"
    using assms(5) by (simp_all add: pwm_setup_ok_def)
  then have tab: "sm_table (bsm b) = (sm_table (bsm (fw_board w)))(sid \<mapsto> (PROTO_ID_PWM, slot_for (pc_timer_raw c) (pc_channel c)))"
    using register_accepted(3) fw_coreD(9)[OF core] by (simp add: board_inv_def)
  have f: "fw_pwm_setup E cfg n w = Some (ERR_SUCCESS, sid, w\<lparr>fw_pwm := st, fw_board := b\<rparr>)" using r by (simp add: fw_pwm_setup_def)
  show ?thesis using setup_of_synced[OF assms(1-3), of PROTO_ID_PWM fw_pwm_setup] f tab by (auto simp: setup_of_def dest: map_upd_eqD1)
qed

lemma dispatch_pwm_setup:
  assumes "fw_inv w" "env_ok E" "frame_ok f" "frame_type f = PROTO_TYPE_CMD_SETUP_SENSOR" "frame_len f = 12"
    and "frame_payload f = PROTO_ID_PWM # cfg @ rest" "length cfg = 11" "pwm_read_cfg cfg = Some c" "\<not> pwm_cfg_invalid c"
    and "pwm_can_open c (fw_pwm w) (fw_board w)"
  shows "\<exists>sid w'. dispatcher_handle E f w = Some w' \<and> handled f w ERR_SUCCESS sid w' \<and> sid \<noteq> PROTO_SENSOR_ID_NONE \<and> fw_table w sid = None \<and>
    fw_table w' = (fw_table w)(sid \<mapsto> (PROTO_ID_PWM, slot_for (pc_timer_raw c) (pc_channel c)))"
proof -
  obtain sid w1 where s: "fw_pwm_setup E (cfg @ rest) 11 w = Some (ERR_SUCCESS, sid, w1)" "fw_inv w1" "fw_uart w1 = fw_uart w" "sid \<noteq> 0"
    "fw_table w sid = None" "(PROTO_ID_PWM, slot_for (pc_timer_raw c) (pc_channel c)) \<notin> ran (fw_table w)"
    "fw_table w1 = (fw_table w)(sid \<mapsto> (PROTO_ID_PWM, slot_for (pc_timer_raw c) (pc_channel c)))"
    using fw_pwm_setup_served[OF assms(1,2) _ _ pwm_read_cfg_app[OF assms(8,7)] assms(9,10), of 11 rest] assms(7) by auto
  have junk: "length (ev_junk E) = 10" using assms(2) by (simp add: env_ok_def)
  have "host_step (fw_table w) (frame_of f) ERR_SUCCESS sid (fw_table w1)"
    using s(4-7) assms(4-6) by (auto simp: host_step_def frame_of_parts[OF assms(3)])
  then obtain w' where a: "send_ack E PROTO_TYPE_CMD_SETUP_SENSOR ERR_SUCCESS sid (frame_seq f) w1 = Some w'" "handled f w ERR_SUCCESS sid w'"
    using send_ack_handled[OF s(2) junk s(3) _ assms(4)] by blast
  have "fw_table w' = fw_table w1" using a(1) by (auto simp: send_ack_def bind_eq_Some_conv)
  moreover have "dispatcher_handle E f w = Some w'"
    using a(1) s(1) assms(4-6) by (simp add: dispatcher_handle_def handle_setup_def setup_of_def fetch_def)
  ultimately show ?thesis using a(2) s by auto
qed

subsection \<open>Commands and their acknowledgements on the wire\<close>

text \<open>The frames the firmware handles in one wake-up, and what the host's parser reads of its answers.\<close>

lemma commands_read_back:
  assumes "fw_reach M K a" "rx_contents (fw_uart (ap_fw a)) = []" "tx_contents (fw_uart (ap_fw a)) = []"
    and "pstate (ap_parser a) = PARSER_STATE_WAIT_START"
    and "list_all (\<lambda>(ty, sq, pl). length pl \<le> PROTO_MAX_PAYLOAD) fs" "length (concat (map encode_frame fs)) \<le> 511"
    and "length srs = length (concat (map encode_frame fs))" "list_all (\<lambda>sr. sr AND usartm M USART_SR_RXNE \<noteq> 0) srs"
    and "list_all env_ok Es" "511 \<le> length Es" "length fs \<le> 51"
  shows "\<exists>a' rs evs q. fw_run M K (rx_events srs (concat (map encode_frame fs)) @ [Task_Protocol Es]) a = Some a' \<and>
    host_run (fw_table (ap_fw a)) fs rs (fw_table (ap_fw a')) \<and> host_feed_bytes host_reset (tx_contents (fw_uart (ap_fw a'))) = Inr (evs, q) \<and>
    host_frames evs = map host_frame_of rs \<and> list_all2 (\<lambda>f r. \<exists>err sid. r = ack_frame (fst f) err sid (fst (snd f))) fs rs"
proof -
  obtain a1 a' rs where r1: "fw_run M K (rx_events srs (concat (map encode_frame fs))) a = Some a1" "fw_exec M K (Task_Protocol Es) a1 = Some a'"
    and h: "host_run (fw_table (ap_fw a)) fs rs (fw_table (ap_fw a'))" and tx: "tx_contents (fw_uart (ap_fw a')) = take 511 (concat (map encode_frame rs))"
    using serve_commands[OF assms(1,2,4-10)] assms(3) by auto
  have "length (concat (map encode_frame rs)) \<le> 511" using host_run_bytes[OF h] assms(11) by simp
  then have r: "fw_run M K (rx_events srs (concat (map encode_frame fs)) @ [Task_Protocol Es]) a = Some a'"
    "host_run (fw_table (ap_fw a)) fs rs (fw_table (ap_fw a'))" "tx_contents (fw_uart (ap_fw a')) = concat (map encode_frame rs)"
    using r1 h tx by (simp_all add: fw_run_append del: fw_exec.simps)
  note acks = host_run_acks[OF r(2)]
  have "list_all (\<lambda>(ty, sq, pl). length pl \<le> PROTO_MAX_PAYLOAD) rs"
    using acks by (auto simp: list_all2_conv_all_nth list_all_length ack_frame_def)
  from host_reads_frames[OF this] obtain evs q where "host_feed_bytes host_reset (tx_contents (fw_uart (ap_fw a'))) = Inr (evs, q)"
    "host_frames evs = map host_frame_of rs" using r(3) by auto
  with r(1,2) acks show ?thesis by (intro exI conjI)
qed

lemma host_ack_type: "hf_type (host_frame_of (ack_frame ty err sid sq)) = 0x10"
  by (simp add: host_frame_of_def ack_frame_def)

end
