(* ===== verification/Stm_Link.thy ===== *)
theory Stm_Link
  imports Host
begin

text \<open>
  \<^verbatim>\<open>src/bbb/comms/stm_link.py\<close>: the host's end of the link. Commands are coroutines of one event loop:
  \<^verbatim>\<open>send_command\<close> registers a future under its sequence number, writes the frame and waits; the
  reader task feeds the bytes of the port to the parser and resolves the future an acknowledgement
  belongs to. Between two \<^verbatim>\<open>await\<close>s nothing else runs, so the part before the wait and the part
  after it are one definition each, and they interleave with the reader in any order. Futures are
  numbered in the order of their creation. The hooks and the log are the lists of what was handed
  to them; the bytes written are those handed to the serial port.
\<close>

datatype future = Waiting | Resolved host_frame | Failed | Cancelled

record stm_link =
  lk_port :: bool
  lk_executor :: bool
  lk_parser :: host_parser
  lk_seq :: int
  lk_pending :: "int \<Rightarrow> nat option"
  lk_futures :: "future list"
  lk_unsolicited :: "host_frame list"
  lk_parse_errors :: "host_event list"
  lk_written :: "u8 list"

datatype link_error = Link_Error py_error | TimeoutError | CommandError | CancelledError | SyncError

subsection \<open>Life cycle\<close>

definition link_new :: stm_link where
  "link_new = \<lparr>lk_port = False, lk_executor = True, lk_parser = host_reset, lk_seq = 0, lk_pending = Map.empty, lk_futures = [],
     lk_unsolicited = [], lk_parse_errors = [], lk_written = []\<rparr>"

definition link_open :: "stm_link \<Rightarrow> stm_link" where
  "link_open lk = (if lk_port lk then lk else lk\<lparr>lk_port := True\<rparr>)"

text \<open>\<^verbatim>\<open>close\<close>: every future still awaited fails, the port and the executor are shut down.\<close>

definition link_close :: "stm_link \<Rightarrow> stm_link" where
  "link_close lk = lk\<lparr>lk_futures := map (\<lambda>i. if i \<in> ran (lk_pending lk) \<and> lk_futures lk ! i = Waiting then Failed else lk_futures lk ! i)
       [0..<length (lk_futures lk)],
     lk_pending := Map.empty, lk_port := False, lk_executor := False\<rparr>"

subsection \<open>Reader\<close>

definition link_dispatch :: "host_event \<Rightarrow> stm_link \<Rightarrow> stm_link" where
  "link_dispatch event lk =
     (case event of
        Host_Parse_Error reason ty sq \<Rightarrow> lk\<lparr>lk_parse_errors := lk_parse_errors lk @ [event]\<rparr>
      | Host_Frame f \<Rightarrow>
          (case (if hf_type f = 0x10 then lk_pending lk (hf_seq f) else None) of
             Some i \<Rightarrow> if lk_futures lk ! i = Waiting then lk\<lparr>lk_futures := (lk_futures lk)[i := Resolved f]\<rparr>
                       else lk\<lparr>lk_unsolicited := lk_unsolicited lk @ [f]\<rparr>
           | None \<Rightarrow> lk\<lparr>lk_unsolicited := lk_unsolicited lk @ [f]\<rparr>))"

text \<open>One turn of the loop with the chunk the read returned; a failed read is logged and changes nothing.\<close>

definition link_reader :: "u8 list \<Rightarrow> stm_link \<Rightarrow> py_error + stm_link" where
  "link_reader chunk lk =
     (if \<not> lk_port lk \<or> \<not> lk_executor lk then Inr lk
      else case host_feed_bytes (lk_parser lk) chunk of
        Inl e \<Rightarrow> Inl e
      | Inr (events, q) \<Rightarrow> Inr (fold link_dispatch events (lk\<lparr>lk_parser := q\<rparr>)))"

subsection \<open>Commands\<close>

text \<open>
  \<^verbatim>\<open>send_command\<close> up to the wait: the number of its future and its sequence number, or the error it
  raises; in the latter case the \<^verbatim>\<open>finally\<close> clause has removed the entry again.
\<close>

definition link_send :: "int \<Rightarrow> u8 list \<Rightarrow> stm_link \<Rightarrow> (link_error + nat \<times> int) \<times> stm_link" where
  "link_send ty payload lk =
     (let (sq, counter) = seq_counter_next (lk_seq lk);
          i = length (lk_futures lk);
          lk = lk\<lparr>lk_seq := counter, lk_futures := lk_futures lk @ [Waiting], lk_pending := (lk_pending lk)(sq \<mapsto> i)\<rparr>
      in case host_encode_frame ty sq payload of
           Inl e \<Rightarrow> (Inl (Link_Error e), lk\<lparr>lk_pending := (lk_pending lk)(sq := None)\<rparr>)
         | Inr frame \<Rightarrow>
             if \<not> lk_port lk then (Inl (Link_Error RuntimeError), lk\<lparr>lk_pending := (lk_pending lk)(sq := None)\<rparr>)
             else (Inr (i, sq), lk\<lparr>lk_written := lk_written lk @ frame\<rparr>))"

text \<open>After the wait: the future is done, or the time-out of \<^verbatim>\<open>wait_for\<close> has cancelled it.\<close>

definition link_receive :: "int \<Rightarrow> nat \<Rightarrow> int \<Rightarrow> stm_link \<Rightarrow> (link_error + (int \<times> int \<times> int) \<times> int) \<times> stm_link" where
  "link_receive ty i sq lk =
     (let lk' = lk\<lparr>lk_pending := (lk_pending lk)(sq := None)\<rparr>
      in case lk_futures lk ! i of
           Waiting \<Rightarrow> (Inl TimeoutError, lk'\<lparr>lk_futures := (lk_futures lk')[i := Cancelled]\<rparr>)
         | Failed \<Rightarrow> (Inl CommandError, lk')
         | Cancelled \<Rightarrow> (Inl CancelledError, lk')
         | Resolved f \<Rightarrow>
             (case parse_ack f of
                Inl e \<Rightarrow> (Inl (Link_Error e), lk')
              | Inr (cmd_type, err, sid) \<Rightarrow>
                  if cmd_type \<noteq> ty then (Inl CommandError, lk') else (Inr ((cmd_type, err, sid), sq), lk')))"

text \<open>
  \<^verbatim>\<open>sync\<close> from the results of its attempts (what \<^verbatim>\<open>send_command\<close> returned or raised), at most
  \<open>retries\<close> of them; \<open>None\<close> while an attempt is still awaited.
\<close>

fun link_sync :: "nat \<Rightarrow> (link_error + (int \<times> int \<times> int) \<times> int) list \<Rightarrow> (link_error + unit) option" where
  "link_sync 0 _ = Some (Inl SyncError)"
| "link_sync (Suc n) [] = None"
| "link_sync (Suc n) (Inl e # rs) =
     (if e = TimeoutError then link_sync n rs else if e = CommandError then Some (Inl SyncError) else Some (Inl e))"
| "link_sync (Suc n) (Inr ((cmd_type, err, sid), sq) # rs) = Some (if err \<noteq> 0 then Inl SyncError else Inr ())"

lemma link_sync_result: "length rs = n \<Longrightarrow> link_sync n rs \<noteq> None"
  by (induction n rs rule: link_sync.induct) auto

subsection \<open>Commands in flight\<close>

text \<open>Several commands sent before the first acknowledgement is read.\<close>

primrec link_send_all :: "(int \<times> u8 list) list \<Rightarrow> stm_link \<Rightarrow> (link_error + nat \<times> int) list \<times> stm_link" where
  "link_send_all [] lk = ([], lk)"
| "link_send_all (c # cs) lk =
     (let (r, lk) = link_send (fst c) (snd c) lk; (rs, lk) = link_send_all cs lk in (r # rs, lk))"

definition ticket_seq :: "stm_link \<Rightarrow> nat \<Rightarrow> int" where
  "ticket_seq lk k = (lk_seq lk + int k) mod 256"

definition link_ready :: "stm_link \<Rightarrow> bool" where
  "link_ready lk \<longleftrightarrow> lk_port lk \<and> lk_executor lk \<and> 0 \<le> lk_seq lk \<and> lk_seq lk < 256"

lemma ticket_seq_inj:
  assumes "i < 256" "j < 256" "ticket_seq lk i = ticket_seq lk j"
  shows "i = j"
proof (rule ccontr)
  assume "i \<noteq> j"
  moreover have "256 dvd (int i - int j)" using assms(3) by (simp add: ticket_seq_def mod_eq_dvd_iff)
  ultimately have "\<bar>256\<bar> \<le> \<bar>int i - int j\<bar>" by (intro dvd_imp_le_int) simp_all
  then show False using assms(1,2) by linarith
qed

lemma ticket_seq_range: "0 \<le> ticket_seq lk k" "ticket_seq lk k \<le> 0xFF"
  by (simp_all add: ticket_seq_def)

text \<open>One command: a fresh future under the next sequence number, and its frame on the wire.\<close>

lemma link_send_ok:
  assumes "link_ready lk" "ty \<in> set host_frame_types" "length pl \<le> PROTO_MAX_PAYLOAD"
  shows "link_send ty pl lk = (Inr (length (lk_futures lk), lk_seq lk),
    lk\<lparr>lk_seq := (lk_seq lk + 1) mod 256, lk_futures := lk_futures lk @ [Waiting], lk_pending := (lk_pending lk)(lk_seq lk \<mapsto> length (lk_futures lk)),
      lk_written := lk_written lk @ encode_frame (word_of_int ty, word_of_int (lk_seq lk), pl)\<rparr>)"
  using assms by (simp add: link_send_def seq_counter_next_def link_ready_def host_encode_frame_eq and_byte_mask Let_def)

lemma link_send_all_ok:
  assumes "link_ready lk" "list_all (\<lambda>(ty, pl). ty \<in> set host_frame_types \<and> length pl \<le> PROTO_MAX_PAYLOAD) cs" "length cs \<le> 256"
    and "link_send_all cs lk = (rs, lk')"
  shows "rs = map (\<lambda>k. Inr (length (lk_futures lk) + k, ticket_seq lk k)) [0..<length cs] \<and> link_ready lk' \<and>
    lk_futures lk' = lk_futures lk @ replicate (length cs) Waiting \<and> lk_parser lk' = lk_parser lk \<and> lk_unsolicited lk' = lk_unsolicited lk \<and>
    (\<forall>k<length cs. lk_pending lk' (ticket_seq lk k) = Some (length (lk_futures lk) + k)) \<and>
    (\<forall>x. (\<forall>k<length cs. x \<noteq> ticket_seq lk k) \<longrightarrow> lk_pending lk' x = lk_pending lk x) \<and>
    lk_written lk' = lk_written lk @ concat (map (\<lambda>(k, ty, pl). encode_frame (word_of_int ty, word_of_int (ticket_seq lk k), pl)) (enumerate 0 cs))"
  using assms
proof (induction cs arbitrary: lk rs lk')
  case Nil
  then show ?case by simp
next
  case (Cons c cs)
  obtain ty pl where c: "c = (ty, pl)" by fastforce
  define l1 where "l1 = lk\<lparr>lk_seq := (lk_seq lk + 1) mod 256, lk_futures := lk_futures lk @ [Waiting],
    lk_pending := (lk_pending lk)(lk_seq lk \<mapsto> length (lk_futures lk)),
    lk_written := lk_written lk @ encode_frame (word_of_int ty, word_of_int (lk_seq lk), pl)\<rparr>"
  have s: "link_send ty pl lk = (Inr (length (lk_futures lk), lk_seq lk), l1)"
    using link_send_ok[OF Cons.prems(1)] Cons.prems(2) c by (simp add: l1_def)
  obtain qs where r: "link_send_all cs l1 = (qs, lk')" "rs = Inr (length (lk_futures lk), lk_seq lk) # qs"
    using Cons.prems(4) c s by (auto split: prod.splits)
  have ready: "link_ready l1" using Cons.prems(1) by (simp add: link_ready_def l1_def)
  have z: "ticket_seq lk 0 = lk_seq lk" using Cons.prems(1) by (simp add: ticket_seq_def link_ready_def)
  have sh: "ticket_seq l1 k = ticket_seq lk (Suc k)" for k by (simp add: ticket_seq_def l1_def mod_simps add.assoc)
  note IH = Cons.IH[OF ready _ _ r(1), unfolded sh]
  have ne: "lk_seq lk \<noteq> ticket_seq lk (Suc k)" if "k < length cs" for k
    using ticket_seq_inj[of 0 "Suc k" lk] that Cons.prems(3) z by auto
  have en: "enumerate (Suc 0) cs = map (\<lambda>(k, v). (Suc k, v)) (enumerate 0 cs)"
    by (rule nth_equalityI) (auto simp: nth_enumerate_eq)
  show ?case
    using IH Cons.prems(2,3) c r(2) z ne
    by (auto simp: l1_def less_Suc_eq_0_disj upt_conv_Cons map_Suc_upt[symmetric] en comp_def case_prod_unfold simp del: upt_Suc)
qed

subsection \<open>Acknowledgements reach their commands\<close>

text \<open>
  Every acknowledgement whose sequence number is registered with a waiting future resolves that
  future and no other; nothing of it goes to the hook for unsolicited frames.
\<close>

lemma dispatch_acks:
  assumes "list_all2 (\<lambda>f i. hf_type f = 0x10 \<and> lk_pending lk (hf_seq f) = Some i) (host_frames evs) ids" "distinct ids"
    and "\<forall>i\<in>set ids. i < length (lk_futures lk) \<and> lk_futures lk ! i = Waiting" "lk' = fold link_dispatch evs lk"
  shows "list_all2 (\<lambda>f i. lk_futures lk' ! i = Resolved f) (host_frames evs) ids \<and> lk_unsolicited lk' = lk_unsolicited lk \<and>
    length (lk_futures lk') = length (lk_futures lk) \<and> (\<forall>i. i \<notin> set ids \<longrightarrow> lk_futures lk' ! i = lk_futures lk ! i)"
  using assms
proof (induction evs arbitrary: lk ids)
  case Nil
  then show ?case by simp
next
  case (Cons ev evs)
  show ?case
  proof (cases ev)
    case (Host_Parse_Error r t s)
    then have "link_dispatch ev lk = lk\<lparr>lk_parse_errors := lk_parse_errors lk @ [ev]\<rparr>" by (simp add: link_dispatch_def)
    then show ?thesis using Cons.IH[of "link_dispatch ev lk" ids] Cons.prems Host_Parse_Error by simp
  next
    case (Host_Frame f)
    obtain i js where ids: "ids = i # js" "hf_type f = 0x10" "lk_pending lk (hf_seq f) = Some i"
      and rest: "list_all2 (\<lambda>f i. hf_type f = 0x10 \<and> lk_pending lk (hf_seq f) = Some i) (host_frames evs) js"
      using Cons.prems(1) Host_Frame by (auto simp: list_all2_Cons1)
    have i: "i < length (lk_futures lk)" "lk_futures lk ! i = Waiting" "i \<notin> set js" using Cons.prems(2,3) ids(1) by auto
    obtain l1 where l1: "link_dispatch ev lk = l1" "lk_futures l1 = (lk_futures lk)[i := Resolved f]" "lk_pending l1 = lk_pending lk"
      "lk_unsolicited l1 = lk_unsolicited lk"
      using Host_Frame ids i by (simp add: link_dispatch_def)
    have "\<forall>j\<in>set js. j < length (lk_futures l1) \<and> lk_futures l1 ! j = Waiting"
      using Cons.prems(3) ids(1) i(3) by (auto simp: l1 nth_list_update)
    moreover have "distinct js" "lk' = fold link_dispatch evs l1" using Cons.prems(2,4) ids(1) l1(1) by simp_all
    ultimately have IH: "list_all2 (\<lambda>f i. lk_futures lk' ! i = Resolved f) (host_frames evs) js \<and> lk_unsolicited lk' = lk_unsolicited lk \<and>
      length (lk_futures lk') = length (lk_futures lk) \<and> (\<forall>j. j \<notin> set js \<longrightarrow> lk_futures lk' ! j = (lk_futures lk)[i := Resolved f] ! j)"
      using Cons.IH[of l1 js] rest by (simp add: l1)
    then have "lk_futures lk' ! i = Resolved f" using i by simp
    then show ?thesis using IH ids(1) Host_Frame i(1) by (simp add: nth_list_update)
  qed
qed

lemma link_reader_acks:
  assumes "link_ready lk" "host_feed_bytes (lk_parser lk) chunk = Inr (evs, q)"
    and "list_all2 (\<lambda>f i. hf_type f = 0x10 \<and> lk_pending lk (hf_seq f) = Some i) (host_frames evs) ids" "distinct ids"
    and "\<forall>i\<in>set ids. i < length (lk_futures lk) \<and> lk_futures lk ! i = Waiting"
  shows "\<exists>lk'. link_reader chunk lk = Inr lk' \<and> list_all2 (\<lambda>f i. lk_futures lk' ! i = Resolved f) (host_frames evs) ids \<and>
    lk_unsolicited lk' = lk_unsolicited lk"
  using assms(1,2) dispatch_acks[of "lk\<lparr>lk_parser := q\<rparr>" evs ids, OF _ assms(4) _ refl] assms(3,5)
  by (simp add: link_reader_def link_ready_def)

lemma link_receive_ack:
  "lk_futures lk ! i = Resolved f \<Longrightarrow> parse_ack f = Inr (ty, err, sid) \<Longrightarrow> fst (link_receive ty i sq lk) = Inr ((ty, err, sid), sq)"
  by (simp add: link_receive_def)

end
