(* ===== verification/Spec2Isabelle.thy ===== *)
theory Spec2Isabelle
  imports Dac_Wire Host_Setup Stm_Link
begin

text \<open>
  \<^bold>\<open>HILglebone: hardware-in-the-loop sensor emulation.\<close> A BeagleBone (host) sends commands over
  a UART to an STM32F401 (firmware, \<^verbatim>\<open>src/stm32/project\<close>). The firmware simulates sensors towards a
  device under test (DUT): I2C register maps, SPI response buffers, digital outputs with pulses, PWM
  outputs and the channels of external DAC chips. This development models the firmware and the
  protocol library of the host, and proves what makes them correct, alone and together.

  \<^bold>\<open>How the parts interact.\<close>
  Bytes enter by the USART1 interrupt into a ring; the protocol task drains the ring through the
  frame parser into the dispatcher; the dispatcher calls one of five backends (directory
  \<^verbatim>\<open>simulate/\<close>) for SETUP, SET\_OUTPUT and STOP and queues one acknowledgement per frame. A backend
  owns a static table of slots and the pins it uses; it claims timers, SPI or I2C peripherals from
  the drivers, and registers the slot under a wire id at the sensor manager. Interrupts of the I2C
  and SPI peripherals and of the timers, and FreeRTOS timer callbacks, serve the live sensors.

  \<^bold>\<open>Theories and sources.\<close> Each theory follows the order of its source file; a C struct is a record,
  an enum a datatype or the byte it is cast from, an integer a word of its width, and a static
  variable a field of the module's state record, which every operation takes and returns. A failed
  assertion, an access outside an array or to a freed block, and a call through a dangling handle are
  \<open>None\<close>; error codes are values of \<open>err_code\<close>.
    \<^item> \<open>Prelude\<close>, \<open>Shared\<close>: generic lemmas; \<^verbatim>\<open>shared/inc\<close> (error codes, byte order).
    \<^item> \<open>Crc16\<close>, \<open>Frame\<close>, \<open>Protocol_Parser\<close>, \<open>Protocol_Encoder\<close>: \<^verbatim>\<open>protocol/\<close>. The CRC is the
      remainder of polynomial division by the generator of CRC-16/CCITT and detects every burst of
      up to 16 bits; the parser is a
      simulation of a receiver whose state is the list of bytes since START, and so is sound,
      complete, rejects corrupted frames and finds the next frame again; the encoder writes the
      wire format.
    \<^item> \<open>Mcu\<close>, \<open>Heap\<close>: registers with the trace of volatile accesses and kernel calls; heap blocks.
    \<^item> \<open>Uart\<close>, \<open>Uart_Conc\<close>: \<^verbatim>\<open>drivers/uart\<close>. \<open>Uart\<close> has the functions and shows that each ring is a
      bounded FIFO; \<open>Uart_Conc\<close> splits the task at every access to a shared variable, lets the
      interrupt run in between, and shows order, absence of loss and that no wake-up is lost.
    \<^item> \<open>Gpio\<close>, \<open>Hw_Timer\<close>, \<open>I2c_Slave\<close>, \<open>Spi\<close>, \<open>Spi_Master\<close>, \<open>Spi_Slave\<close>, \<open>Spi_Bus\<close>: the other
      drivers. Field writes touch one pin only; prescaler and divider searches are optimal; the timer
      pool refines an ownership map; the I2C slave refines an abstract register device and never
      leaves its register map; SPI transfers send the buffer in order and end; the SPI slave
      keeps serving its buffer.
    \<^item> \<open>Sensor_Manager\<close>: \<^verbatim>\<open>command/src/sensor_manager.c\<close>, a finite map with round-robin ids.
    \<^item> \<open>Board\<close>, \<open>Pwm_Sensor\<close>, \<open>Digital_Out\<close>, \<open>I2c_Sensor\<close>, \<open>Dac_Sensor\<close>, \<open>Spi_Slave_Sensor\<close>: the
      backends. Each has an invariant that ties its slots to pins, peripherals, heap blocks and the
      sensor table; each operation preserves it, a refused set-up adds no sensor, and a stop
      frees what the set-up took. \<open>Dac_Wire\<close> shows which bytes a DAC write puts on the SPI wire.
    \<^item> \<open>Firmware\<close>, \<open>Dispatcher\<close>: the state of all modules in one record; the five backends as
      instances of one contract; \<^verbatim>\<open>command/src/dispatcher.c\<close> and the host's view \<open>host_step\<close>, the
      specification of what each command does to the table of sensors and what is acknowledged.
    \<^item> \<open>Clock\<close>, \<open>App\<close>: \<^verbatim>\<open>app/src/clock.c\<close>, \<^verbatim>\<open>app/src/app_init.c\<close> and \<^verbatim>\<open>app/src/main.c\<close>: start-up, the two
      tasks, the entry point and the FreeRTOS hooks.
    \<^item> \<open>System\<close>: events of the running firmware, reachable states and their invariant.
    \<^item> \<open>Host\<close>, \<open>Host_Payload\<close>: \<^verbatim>\<open>src/bbb/protocol\<close>, the Python library of the host: its encoder writes
      the same wire format and its parser delivers the same frames as the firmware's; the payloads
      of its PWM, DAC and digital-output configurations are read by the firmware's backends as they
      were meant, and those of its I2C configurations are not.
    \<^item> \<open>Stm_Link\<close>: \<^verbatim>\<open>src/bbb/comms/stm_link.py\<close>, the correlation of acknowledgements with commands.
    \<^item> \<open>Host_Setup\<close> and this theory: the properties of the whole: no event traps, the dispatcher
      refines the host's view, commands are served end to end, every call of the host returns the
      acknowledgement of its own command, and a PWM sensor the host configures comes alive.

  \<^bold>\<open>Interfaces.\<close> \<open>bounded_fifo\<close> (both UART rings), \<open>id_table\<close> (sensor manager), \<open>pin_pool\<close> (pin
  ownership of the backends that keep a slot per pin), \<open>sensor_backend\<close> (the contract of a backend
  towards the dispatcher, interpreted on all five). The clients' lemmas are proved in the locales.

  \<^bold>\<open>Parameters.\<close> What lies outside the repository is an argument: the bit masks of the CMSIS device
  header (\<open>cmsis\<close>), the answers of FreeRTOS calls (\<open>rtos\<close>), \<^verbatim>\<open>pvPortMalloc\<close> (\<open>malloc_spec\<close>: a fresh
  block of the requested size, or NULL), \<^verbatim>\<open>xSemaphoreCreateBinary\<close> and
  \<^verbatim>\<open>xTimerCreate\<close> (\<open>sem_spec\<close>, \<open>timer_spec\<close>: a handle not in use, or NULL), the content of an uninitialised stack buffer, and every value read from a status or data
  register, which the hardware determines.

  \<^bold>\<open>Bounds.\<close> A ring of 512 slots holds 511 bytes, so a wake-up of the protocol task handles at most
  511 frames; it takes a list of environments, one per frame, and 511 are shown to be enough. The
  busy waits of \<open>clock_init\<close> take the list of values they read; when it ends early the result is
  the machine still waiting. The wait for a DAC transfer takes the list of interrupts before the
  time-out. An SPI transfer of \<open>n\<close> bytes is over after at most \<open>2 n + 1\<close> interrupts. The id search
  is a recursion over at most 255 candidates.

  \<^bold>\<open>Granularity.\<close> In \<open>System\<close> an interrupt runs between task steps, not inside one, except for the
  SPI interrupts during a DAC write, which are part of the write, and except for the UART, whose
  interleaving with the task is the subject of \<open>Uart_Conc\<close>. A device register that is read back has
  the value last stored to it.

  \<^bold>\<open>Not modelled.\<close> \<^verbatim>\<open>FreeRTOSConfig.h\<close> (settings of a kernel that is not in the repository; a task
  stack size is taken from it); CMSIS and FreeRTOS themselves; the endless loops behind \<^verbatim>\<open>main\<close> and
  the hooks; the BeagleBone's orchestration (NATS and HTTP clients, heartbeat, updates), which is
  I/O over third-party services; the Go backend service; generated protobuf code; the Yocto layers
  and build files. FreeRTOS calls the malloc-failed hook before \<^verbatim>\<open>pvPortMalloc\<close> returns NULL; the
  model lets the call return, so the error paths behind it are covered although the configured
  hook halts the processor.
\<close>

subsection \<open>Examples\<close>

definition example_rtos :: rtos where
  "example_rtos = \<lparr>pdMS_TO_TICKS = (\<lambda>ms. ms), xTimerCreate_ret = (\<lambda>ts. if ts 7 = None then Some 7 else None), xTimerStart_pass = True, xSemaphoreCreateBinary_ret = (\<lambda>_. None)\<rparr>"

definition example_env :: env where
  "example_env = \<lparr>ev_masks = example_masks, ev_rtos = example_rtos, ev_malloc = example_malloc, ev_junk = replicate 10 0, ev_irqs1 = [], ev_irqs2 = []\<rparr>"

lemma example_env_ok: "env_ok example_env"
  by (simp add: env_ok_def example_env_def example_malloc_spec sem_spec_def timer_spec_def example_rtos_def)

text \<open>Start-up on the internal oscillator, with both flags read at the first attempt.\<close>

lemma example_start:
  obtains w where "firmware_main example_masks False [] [0x2000000] [8] False (firmware_static mcu_reset) = Main_Scheduled w"
proof -
  have "poll r ready [v] m = Inr (emit (Rd r) m)" if "ready v" for r ready v m using that by simp
  then show thesis using that by (auto simp: firmware_main_def app_init_def clock_init_def example_masks_def firmware_static_def Let_def)
qed

definition example_app :: app where
  "example_app = (case firmware_main example_masks False [] [0x2000000] [8] False (firmware_static mcu_reset) of
     Main_Waits m \<Rightarrow> \<lparr>ap_fw = firmware_static m, ap_parser = parser_static\<rparr> | Main_Halted w \<Rightarrow> \<lparr>ap_fw = w, ap_parser = parser_static\<rparr>
   | Main_Scheduled w \<Rightarrow> task_protocol_entry 1 \<lparr>ap_fw = w, ap_parser = parser_static\<rparr>)"

lemma example_app_facts:
  "fw_reach example_masks K example_app" "rx_contents (fw_uart (ap_fw example_app)) = []" "tx_contents (fw_uart (ap_fw example_app)) = []"
  "pstate (ap_parser example_app) = PARSER_STATE_WAIT_START" "fw_table (ap_fw example_app) = Map.empty"
proof -
  obtain w where w: "firmware_main example_masks False [] [0x2000000] [8] False (firmware_static mcu_reset) = Main_Scheduled w" by (rule example_start)
  then have a: "example_app = task_protocol_entry 1 \<lparr>ap_fw = w, ap_parser = parser_static\<rparr>" by (simp add: example_app_def)
  show "fw_reach example_masks K example_app" unfolding a by (rule reach_start[OF w])
  show "rx_contents (fw_uart (ap_fw example_app)) = []" "tx_contents (fw_uart (ap_fw example_app)) = []"
    using firmware_main_inv(3)[OF w] by (simp_all add: a task_protocol_entry_def uart_set_rx_notify_task_def uart_init_state_def rx_contents_def tx_contents_def ring_slice_def)
  show "pstate (ap_parser example_app) = PARSER_STATE_WAIT_START" by (simp add: a task_protocol_entry_def protocol_parser_reset_def)
  show "fw_table (ap_fw example_app) = Map.empty" using firmware_main_inv(2)[OF w] by (simp add: a task_protocol_entry_def)
qed

subsection \<open>Properties of the whole firmware\<close>

text \<open>C1: the firmware never traps. In every state reachable from start-up by wake-ups of its tasks,
  timer callbacks and interrupts in any order, every event that can occur is executed to its end
  (no failed assertion, no access outside a buffer, table or heap block, no call through a dangling
  handle), the sensor table names every live slot of the five backends exactly once and nothing
  else, and the rings and the parser's buffer are within their bounds.\<close>

theorem firmware_never_traps:
  assumes "fw_reach M K a"
  shows "(\<forall>e. event_possible e a \<longrightarrow> (\<exists>a'. fw_exec M K e a = Some a' \<and> fw_reach M K a')) \<and>
    inj_on (fw_table (ap_fw a)) (dom (fw_table (ap_fw a))) \<and> ran (fw_table (ap_fw a)) = fw_live (ap_fw a) \<and>
    fw_core (ap_fw a) \<and> length (frame_payload (pframe (ap_parser a))) = PROTO_MAX_PAYLOAD"
proof -
  have inv: "app_inv a" by (rule fw_reach_inv[OF assms])
  have "\<exists>a'. fw_exec M K e a = Some a' \<and> fw_reach M K a'" if "event_possible e a" for e
    using exec_ok[OF inv that] reach_event[OF assms that] by blast
  then show ?thesis using inv by (simp add: app_inv_def fw_inv_def table_sync_def parser_inv_def)
qed

theorem firmware_never_traps_witness:
  "\<exists>a'. fw_exec example_masks example_rtos (Irq_SPI 1 3) example_app = Some a' \<and> fw_reach example_masks example_rtos a'"
proof -
  have "event_possible (Irq_SPI 1 3) example_app" by simp
  then show ?thesis using firmware_never_traps[OF example_app_facts(1)[of example_rtos]] by blast
qed

text \<open>C2: the dispatcher implements the host's view of the protocol. In a state that satisfies the
  firmware's invariant, every parsed frame is handled to the end; the change of the sensor table and
  the acknowledged error code and sensor id are those of the specification, the invariant holds
  again, the received bytes are untouched, and exactly the encoded acknowledgement, with the
  command's type and sequence number, is appended to the transmit ring (as far as it has room).\<close>

theorem dispatcher_refines_host:
  assumes "fw_inv w" "env_ok E" "frame_ok f"
  shows "\<exists>err sid w'. dispatcher_handle E f w = Some w' \<and> fw_inv w' \<and>
    host_step (fw_table w) (frame_of f) err sid (fw_table w') \<and>
    rx_contents (fw_uart w') = rx_contents (fw_uart w) \<and>
    tx_contents (fw_uart w') = tx_contents (fw_uart w) @ take (511 - length (tx_contents (fw_uart w)))
      (encode_frame (ack_frame (frame_type f) err sid (frame_seq f)))"
  using dispatcher_handle_ok[OF assms] by (simp add: handled_def)

theorem dispatcher_refines_host_witness:
  "\<exists>err sid w'. dispatcher_handle example_env \<lparr>frame_type = PROTO_TYPE_CMD_STOP_SENSOR, frame_len = 1, frame_seq = 9,
       frame_payload = 4 # replicate 255 0\<rparr> (dispatcher_init example_masks (firmware_static mcu_reset)) = Some w' \<and>
     err = ERR_INVALID_SENSOR_ID \<and> sid = 4 \<and> fw_table w' = Map.empty \<and>
     tx_contents (fw_uart w') = encode_frame (ack_frame PROTO_TYPE_CMD_STOP_SENSOR err sid 9)"
proof -
  let ?f = "\<lparr>frame_type = PROTO_TYPE_CMD_STOP_SENSOR, frame_len = 1, frame_seq = 9, frame_payload = 4 # replicate 255 (0 :: u8)\<rparr>"
  have f: "frame_ok ?f" by (simp add: frame_ok_def)
  have tx: "tx_contents (fw_uart (dispatcher_init example_masks (firmware_static mcu_reset))) = []"
    by (simp add: dispatcher_init_parts uart_init_state_def tx_contents_def ring_slice_def)
  show ?thesis using dispatcher_refines_host[OF dispatcher_init_inv(1) example_env_ok f, of example_masks mcu_reset]
      dispatcher_init_inv(2)[of example_masks mcu_reset]
    by (auto simp: tx frame_of_def host_step_def)
qed

text \<open>C3: commands are served end to end. From a reachable state with an empty receive ring and an idle
  parser, let the host send any frames with payloads of at most 256 bytes that fit the receive ring
  (511 bytes), one receive interrupt per byte, and let the protocol task wake up. The run ends; the
  frames have been handled one after the other in the order sent, each as the specification says,
  and the firmware is idle again. The receive interrupts may find the transmitter empty, too, in
  any pattern: then they pass the oldest queued bytes on to the data register, in order. To what is
  left in the transmit ring, the acknowledgements are appended in the order of their commands, as
  far as the ring has room: 511 bytes in all, 10 for each acknowledgement.\<close>

theorem protocol_task_serves_commands:
  assumes "fw_reach M K a" "rx_contents (fw_uart (ap_fw a)) = []" "pstate (ap_parser a) = PARSER_STATE_WAIT_START"
    and "list_all (\<lambda>(ty, sq, pl). length pl \<le> PROTO_MAX_PAYLOAD) cmds" "length (concat (map encode_frame cmds)) \<le> 511"
    and "length srs = length (concat (map encode_frame cmds))" "list_all (\<lambda>sr. sr AND usartm M USART_SR_RXNE \<noteq> 0) srs"
    and "list_all env_ok Es" "511 \<le> length Es"
  shows "\<exists>k a1 a' rs. fw_run M K (rx_events srs (concat (map encode_frame cmds))) a = Some a1 \<and>
    k \<le> length (tx_contents (fw_uart (ap_fw a))) \<and> dr_stores a1 = dr_stores a @ map ucast (take k (tx_contents (fw_uart (ap_fw a)))) \<and>
    fw_exec M K (Task_Protocol Es) a1 = Some a' \<and>
    fw_reach M K a' \<and> rx_contents (fw_uart (ap_fw a')) = [] \<and> pstate (ap_parser a') = PARSER_STATE_WAIT_START \<and>
    host_run (fw_table (ap_fw a)) cmds rs (fw_table (ap_fw a')) \<and>
    tx_contents (fw_uart (ap_fw a')) = drop k (tx_contents (fw_uart (ap_fw a))) @
      take (511 - length (drop k (tx_contents (fw_uart (ap_fw a))))) (concat (map encode_frame rs))"
  by (rule serve_commands[OF assms])

theorem protocol_task_serves_commands_witness:
  "\<exists>a1 a'. fw_run example_masks example_rtos (rx_events (replicate 15 0xA0) (concat (map encode_frame
       [(PROTO_TYPE_CMD_SYNC, 1, []), (PROTO_TYPE_CMD_STOP_SENSOR, 2, [9])]))) example_app = Some a1 \<and>
     fw_exec example_masks example_rtos (Task_Protocol (replicate 511 example_env)) a1 = Some a' \<and>
     tx_contents (fw_uart (ap_fw a')) = encode_frame (ack_frame PROTO_TYPE_CMD_SYNC ERR_SUCCESS 0 1) @
       encode_frame (ack_frame PROTO_TYPE_CMD_STOP_SENSOR ERR_INVALID_SENSOR_ID 9 2)"
proof -
  let ?cmds = "[(PROTO_TYPE_CMD_SYNC, 1, []), (PROTO_TYPE_CMD_STOP_SENSOR, 2, [9])] :: frame list"
  have Es: "list_all env_ok (replicate 511 example_env)" "511 \<le> length (replicate 511 example_env)"
    by (simp_all add: list_all_iff example_env_ok)
  have cmds: "list_all (\<lambda>(ty, sq, pl). length pl \<le> PROTO_MAX_PAYLOAD) ?cmds" "length (concat (map encode_frame ?cmds)) \<le> 511"
    "length (replicate 15 0xA0) = length (concat (map encode_frame ?cmds))"
    by (simp_all add: length_encode_frame)
  have sr: "list_all (\<lambda>sr. sr AND usartm example_masks USART_SR_RXNE \<noteq> 0) (replicate 15 0xA0)"
    by (simp add: list_all_iff example_masks_def)
  have rs: "rs = [ack_frame PROTO_TYPE_CMD_SYNC ERR_SUCCESS 0 1, ack_frame PROTO_TYPE_CMD_STOP_SENSOR ERR_INVALID_SENSOR_ID 9 2]"
    if "host_run Map.empty ?cmds rs T" for rs T
    using that by (cases rs; cases "tl rs"; cases "tl (tl rs)") (auto simp: host_step_def)
  obtain k a1 a' rs where r: "fw_run example_masks example_rtos (rx_events (replicate 15 0xA0) (concat (map encode_frame ?cmds))) example_app = Some a1"
      "fw_exec example_masks example_rtos (Task_Protocol (replicate 511 example_env)) a1 = Some a'"
      "host_run (fw_table (ap_fw example_app)) ?cmds rs (fw_table (ap_fw a'))"
      "tx_contents (fw_uart (ap_fw a')) = drop k (tx_contents (fw_uart (ap_fw example_app))) @
        take (511 - length (drop k (tx_contents (fw_uart (ap_fw example_app))))) (concat (map encode_frame rs))"
    using protocol_task_serves_commands[OF example_app_facts(1,2,4) cmds sr Es, of example_rtos] by blast
  have "rs = [ack_frame PROTO_TYPE_CMD_SYNC ERR_SUCCESS 0 1, ack_frame PROTO_TYPE_CMD_STOP_SENSOR ERR_INVALID_SENSOR_ID 9 2]"
    by (rule rs) (use r(3) example_app_facts(5) in simp)
  then show ?thesis using r(1,2,4) by (intro exI[of _ a1] exI[of _ a']) (simp add: example_app_facts(3))
qed

text \<open>C4: the host's commands return, across the link and both implementations. Let the host's link
  be open, with its reader running and idle and nothing written so far, and let it send up to 51 commands of valid types whose frames fit
  the firmware's receive ring before it reads anything; let the firmware be in an idle reachable
  state with an empty transmit ring, the bytes arrive by one receive interrupt each, whatever else
  the status register shows then, and the protocol task wake up. When the reader is given what the firmware queued, every one of the calls returns the
  acknowledgement of its own command, with its type and sequence number; error codes and sensor ids
  are those of the specified steps from the sensor table before to the one after, in the order
  sent; and no frame is taken for unsolicited.\<close>

theorem link_commands_return:
  assumes "fw_reach M K a" "rx_contents (fw_uart (ap_fw a)) = []" "tx_contents (fw_uart (ap_fw a)) = []"
    and "pstate (ap_parser a) = PARSER_STATE_WAIT_START"
    and "link_ready lk" "lk_parser lk = host_reset" "lk_written lk = []"
    and "list_all (\<lambda>(ty, pl). ty \<in> set host_frame_types \<and> length pl \<le> PROTO_MAX_PAYLOAD) cmds" "length cmds \<le> 51"
    and "link_send_all cmds lk = (tickets, lk1)" "length (lk_written lk1) \<le> 511"
    and "length srs = length (lk_written lk1)" "list_all (\<lambda>sr. sr AND usartm M USART_SR_RXNE \<noteq> 0) srs" "list_all env_ok Es" "511 \<le> length Es"
  shows "\<exists>a' rs lk2. fw_run M K (rx_events srs (lk_written lk1) @ [Task_Protocol Es]) a = Some a' \<and>
    link_reader (tx_contents (fw_uart (ap_fw a'))) lk1 = Inr lk2 \<and> lk_unsolicited lk2 = lk_unsolicited lk \<and>
    host_run (fw_table (ap_fw a)) (map (\<lambda>(k, ty, pl). (word_of_int ty, word_of_int (ticket_seq lk k), pl)) (enumerate 0 cmds)) rs (fw_table (ap_fw a')) \<and>
    (\<forall>k<length cmds. \<exists>i err sid. tickets ! k = Inr (i, ticket_seq lk k) \<and>
       rs ! k = ack_frame (word_of_int (fst (cmds ! k))) err sid (word_of_int (ticket_seq lk k)) \<and>
       fst (link_receive (fst (cmds ! k)) i (ticket_seq lk k) lk2) = Inr ((fst (cmds ! k), uint (err_byte err), uint sid), ticket_seq lk k))"
proof -
  let ?n = "length cmds" and ?m = "length (lk_futures lk)"
  let ?fs = "map (\<lambda>(k, ty, pl). (word_of_int ty, word_of_int (ticket_seq lk k), pl) :: frame) (enumerate 0 cmds)"
  have n: "?n \<le> 256" using assms(9) by simp
  note S = link_send_all_ok[OF assms(5,8) n assms(10)]
  have wire: "lk_written lk1 = concat (map encode_frame ?fs)" using S assms(7) by (simp add: comp_def case_prod_unfold)
  have pls: "list_all (\<lambda>(ty, sq, pl). length pl \<le> PROTO_MAX_PAYLOAD) ?fs"
    using assms(8) by (auto simp: list_all_length nth_enumerate_eq case_prod_unfold)
  obtain a' rs evs q where r: "fw_run M K (rx_events srs (lk_written lk1) @ [Task_Protocol Es]) a = Some a'"
    "host_run (fw_table (ap_fw a)) ?fs rs (fw_table (ap_fw a'))" "host_feed_bytes host_reset (tx_contents (fw_uart (ap_fw a'))) = Inr (evs, q)"
    "host_frames evs = map host_frame_of rs" "list_all2 (\<lambda>f r. \<exists>err sid. r = ack_frame (fst f) err sid (fst (snd f))) ?fs rs"
    using commands_read_back[OF assms(1-4) pls assms(11)[unfolded wire] assms(12)[unfolded wire] assms(13-15)] assms(9) unfolding wire by auto
  have ack: "\<exists>err sid. rs ! k = ack_frame (word_of_int (fst (cmds ! k))) err sid (word_of_int (ticket_seq lk k))" if "k < ?n" for k
    using list_all2_nthD[OF r(5), of k] that by (simp add: nth_enumerate_eq case_prod_unfold)
  have len: "length rs = ?n" using list_all2_lengthD[OF r(5)] by simp
  have "hf_type (host_frame_of (rs ! k)) = 0x10 \<and> lk_pending lk1 (hf_seq (host_frame_of (rs ! k))) = Some (?m + k)" if k: "k < ?n" for k
  proof -
    have "uint (word_of_int (ticket_seq lk k) :: u8) = ticket_seq lk k" using ticket_seq_range[of lk k] by simp
    moreover have "lk_pending lk1 (ticket_seq lk k) = Some (?m + k)" using S k by blast
    ultimately show ?thesis using ack[OF k] by (auto simp: host_ack_seq host_ack_type)
  qed
  then have "list_all2 (\<lambda>f i. hf_type f = 0x10 \<and> lk_pending lk1 (hf_seq f) = Some i) (host_frames evs) [?m..<?m + ?n]"
    by (simp add: r(4) list_all2_conv_all_nth len)
  moreover have "\<forall>i\<in>set [?m..<?m + ?n]. i < length (lk_futures lk1) \<and> lk_futures lk1 ! i = Waiting"
    using S by (auto simp: nth_append)
  ultimately obtain lk2 where l2: "link_reader (tx_contents (fw_uart (ap_fw a'))) lk1 = Inr lk2" "lk_unsolicited lk2 = lk_unsolicited lk"
    "list_all2 (\<lambda>f i. lk_futures lk2 ! i = Resolved f) (host_frames evs) [?m..<?m + ?n]"
    using link_reader_acks[of lk1 "tx_contents (fw_uart (ap_fw a'))" evs q "[?m..<?m + ?n]"] S assms(6) r(3) by auto
  have "\<exists>i err sid. tickets ! k = Inr (i, ticket_seq lk k) \<and>
       rs ! k = ack_frame (word_of_int (fst (cmds ! k))) err sid (word_of_int (ticket_seq lk k)) \<and>
       fst (link_receive (fst (cmds ! k)) i (ticket_seq lk k) lk2) = Inr ((fst (cmds ! k), uint (err_byte err), uint sid), ticket_seq lk k)"
    if k: "k < ?n" for k
  proof -
    obtain err sid where e: "rs ! k = ack_frame (word_of_int (fst (cmds ! k))) err sid (word_of_int (ticket_seq lk k))" using ack[OF k] by blast
    have "fst (cmds ! k) \<in> set host_frame_types" using assms(8) k by (auto simp: list_all_length)
    then have "parse_ack (host_frame_of (rs ! k)) = Inr (fst (cmds ! k), uint (err_byte err), uint sid)"
      by (auto simp: e parse_ack_frame host_frame_types_def)
    moreover have "lk_futures lk2 ! (?m + k) = Resolved (host_frame_of (rs ! k))"
      using list_all2_nthD[OF l2(3), of k] k len r(4) by simp
    moreover have "tickets ! k = Inr (?m + k, ticket_seq lk k)" using S k by simp
    ultimately show ?thesis using e link_receive_ack by blast
  qed
  then show ?thesis using r(1,2) l2(1,2) by blast
qed

theorem link_commands_return_witness:
  "\<exists>a' lk2 e1 s1 e2 s2. fw_run example_masks example_rtos (rx_events (replicate 15 0xA0)
       (lk_written (snd (link_send_all [(5, []), (3, [9])] (link_open link_new)))) @ [Task_Protocol (replicate 511 example_env)]) example_app = Some a' \<and>
     link_reader (tx_contents (fw_uart (ap_fw a'))) (snd (link_send_all [(5, []), (3, [9])] (link_open link_new))) = Inr lk2 \<and>
     fst (link_receive 5 0 0 lk2) = Inr ((5, e1, s1), 0) \<and> fst (link_receive 3 1 1 lk2) = Inr ((3, e2, s2), 1)"
proof -
  let ?cmds = "[(5, []), (3, [9])] :: (int \<times> u8 list) list" and ?lk = "link_open link_new"
  obtain ts lk1 where t: "link_send_all ?cmds ?lk = (ts, lk1)" by fastforce
  have Es: "list_all env_ok (replicate 511 example_env)" "511 \<le> length (replicate 511 example_env)"
    by (simp_all add: list_all_iff example_env_ok)
  have ready: "link_ready ?lk" "lk_parser ?lk = host_reset" "lk_written ?lk = []" "lk_futures ?lk = []" "ticket_seq ?lk 0 = 0" "ticket_seq ?lk 1 = 1"
    by (simp_all add: link_ready_def link_open_def link_new_def ticket_seq_def)
  have ok: "list_all (\<lambda>(ty, pl). ty \<in> set host_frame_types \<and> length pl \<le> PROTO_MAX_PAYLOAD) ?cmds" "length ?cmds \<le> 51" "length ?cmds \<le> 256"
    by (simp_all add: host_frame_types_def)
  have ts: "ts = [Inr (0, 0), Inr (1, 1)]" "length (lk_written lk1) \<le> 511" "length (replicate 15 (0xA0 :: u32)) = length (lk_written lk1)"
    using link_send_all_ok[OF ready(1) ok(1,3) t] ready by (simp_all add: upt_rec length_encode_frame)
  have sr: "list_all (\<lambda>sr. sr AND usartm example_masks USART_SR_RXNE \<noteq> 0) (replicate 15 0xA0)"
    by (simp add: list_all_iff example_masks_def)
  obtain a' rs lk2 where r: "fw_run example_masks example_rtos (rx_events (replicate 15 0xA0) (lk_written lk1) @
      [Task_Protocol (replicate 511 example_env)]) example_app = Some a'" "link_reader (tx_contents (fw_uart (ap_fw a'))) lk1 = Inr lk2"
    "\<forall>k<length ?cmds. \<exists>i err sid. ts ! k = Inr (i, ticket_seq ?lk k) \<and>
       rs ! k = ack_frame (word_of_int (fst (?cmds ! k))) err sid (word_of_int (ticket_seq ?lk k)) \<and>
       fst (link_receive (fst (?cmds ! k)) i (ticket_seq ?lk k) lk2) = Inr ((fst (?cmds ! k), uint (err_byte err), uint sid), ticket_seq ?lk k)"
    using link_commands_return[OF example_app_facts(1)[of example_rtos] example_app_facts(2-4) ready(1-3) ok(1,2) t ts(2,3) sr Es] by blast
  have "\<exists>e s. fst (link_receive 5 0 0 lk2) = Inr ((5, e, s), 0)" using r(3)[rule_format, of 0] ready(5) by (auto simp: ts(1))
  moreover have "\<exists>e s. fst (link_receive 3 1 1 lk2) = Inr ((3, e, s), 1)" using r(3)[rule_format, of 1] ready(6) by (auto simp: ts(1))
  ultimately show ?thesis using r(1,2) t by auto
qed

text \<open>C5: a PWM sensor the host configures comes alive. Let the configuration pass the constructor's
  checks, the sequence number fit a byte, the firmware satisfy its invariant with an idle parser,
  and the channel be available: it exists on the timer, pin and channel are unused, the timer is
  free or runs at that frequency, and the sensor table has room. Then packing and framing raise
  nothing; the firmware's parser reads one frame from the bytes; the dispatcher handles it and the
  sensor table gains, under a fresh id, exactly the slot of that timer and channel; and of the
  acknowledgement of success with that id and sequence number, as much is queued behind what was
  queued as the transmit ring has room for: all of it when at most 501 bytes were queued.\<close>

theorem host_pwm_setup_served:
  assumes "fw_inv w" "env_ok E" "parser_inv p" "pstate p = PARSER_STATE_WAIT_START"
    and "pwm_config_post_init c = Inr ()" "0 \<le> sq" "sq \<le> 0xFF" "pwm_can_open (pwm_cfg_of c) (fw_pwm w) (fw_board w)"
  shows "\<exists>cfg wire f p' sid w'. pack_pwm_cfg c = Inr cfg \<and> build_cmd_setup_sensor sq 6 cfg = Inr wire \<and>
    parser_feed_all p wire = ([f], p') \<and> dispatcher_handle E f w = Some w' \<and> fw_inv w' \<and>
    sid \<noteq> PROTO_SENSOR_ID_NONE \<and> fw_table w sid = None \<and>
    fw_table w' = (fw_table w)(sid \<mapsto> (PROTO_ID_PWM, slot_for (word_of_int (py_int (wc_timer c))) (word_of_int (py_int (wc_channel c))))) \<and>
    tx_contents (fw_uart w') = tx_contents (fw_uart w) @ take (511 - length (tx_contents (fw_uart w)))
      (encode_frame (ack_frame PROTO_TYPE_CMD_SETUP_SENSOR ERR_SUCCESS sid (word_of_int sq))) \<and>
    (length (tx_contents (fw_uart w)) \<le> 501 \<longrightarrow> tx_contents (fw_uart w') = tx_contents (fw_uart w) @
      encode_frame (ack_frame PROTO_TYPE_CMD_SETUP_SENSOR ERR_SUCCESS sid (word_of_int sq)))"
proof -
  obtain cfg where cfg: "pack_pwm_cfg c = Inr cfg" "length cfg = 11" "pwm_read_cfg cfg = Some (pwm_cfg_of c)" "\<not> pwm_cfg_invalid (pwm_cfg_of c)"
    using pwm_payload[OF assms(5)] by blast
  have wire: "build_cmd_setup_sensor sq 6 cfg = Inr (encode_frame (PROTO_TYPE_CMD_SETUP_SENSOR, word_of_int sq, PROTO_ID_PWM # cfg))"
    using assms(6,7) cfg(2) by (simp add: build_cmd_frames)
  have len: "length (PROTO_ID_PWM # cfg) \<le> PROTO_MAX_PAYLOAD" using cfg(2) by simp
  obtain f p' rest where f: "parser_feed_all p (encode_frame (PROTO_TYPE_CMD_SETUP_SENSOR, word_of_int sq, PROTO_ID_PWM # cfg)) = ([f], p')"
    "frame_ok f" "frame_type f = PROTO_TYPE_CMD_SETUP_SENSOR" "frame_seq f = word_of_int sq" "frame_len f = word_of_nat (length (PROTO_ID_PWM # cfg))"
    "frame_payload f = (PROTO_ID_PWM # cfg) @ rest"
    by (rule parse_command[OF assms(3,4) len])
  have n: "frame_len f = 12" "frame_payload f = PROTO_ID_PWM # cfg @ rest" using f(5,6) cfg(2) by simp_all
  from dispatch_pwm_setup[OF assms(1,2) f(2,3) n cfg(2-4) assms(8)] show ?thesis
    using cfg(1) wire f(1,3,4) by (fastforce simp: handled_def pwm_cfg_of_def)
qed

theorem host_pwm_setup_served_witness:
  "\<exists>f p' sid w'. parser_feed_all (protocol_parser_reset parser_static)
       (encode_frame (PROTO_TYPE_CMD_SETUP_SENSOR, 9, [PROTO_ID_PWM, 1, 6, 2, 2, 1, 50, 0, 0, 0, 238, 2])) = ([f], p') \<and>
     dispatcher_handle example_env f (dispatcher_init example_masks (firmware_static mcu_reset)) = Some w' \<and>
     fw_table w' = [sid \<mapsto> (PROTO_ID_PWM, 8)] \<and>
     tx_contents (fw_uart w') = encode_frame (ack_frame PROTO_TYPE_CMD_SETUP_SENSOR ERR_SUCCESS sid 9)"
proof -
  let ?c = "\<lparr>wc_port = PyEnum DigitalPort 1, wc_pin = 6, wc_af = 2, wc_timer = PyEnum HwTimerId 2,
       wc_channel = PyEnum PwmChannel 1, wc_freq_hz = 50, wc_duty_pct_x100 = 750\<rparr>"
  let ?w = "dispatcher_init example_masks (firmware_static mcu_reset)"
  let ?bs = "[1, 6, 2, 2, 1, 50, 0, 0, 0, 238, 2] :: u8 list"
  have c: "pwm_config_post_init ?c = Inr ()" by (simp add: pwm_config_post_init_def)
  have pack: "pack_pwm_cfg ?c = Inr ?bs" by (simp add: pack_pwm_cfg_def u16_le_def u32_le_def)
  have wire: "build_cmd_setup_sensor 9 6 ?bs = Inr (encode_frame (PROTO_TYPE_CMD_SETUP_SENSOR, 9, PROTO_ID_PWM # ?bs))"
    by (simp add: build_cmd_frames)
  have room: "pwm_can_open (pwm_cfg_of ?c) (fw_pwm ?w) (fw_board ?w)"
    by (simp add: pwm_can_open_def pwm_cfg_of_def dispatcher_init_parts Let_def board_start_def hw_timer_init_def timer_entry_def hw_timer_max_channel_def
        pin_is_owned_def pwm_start_def pwm_sensor_init_def pwm_state_zero_def slot_for_def sm_room_def sm_start_def sensor_manager_init_def list_ex_iff)
  have tx: "tx_contents (fw_uart ?w) = []"
    by (simp add: dispatcher_init_parts uart_init_state_def tx_contents_def ring_slice_def)
  have p: "parser_inv (protocol_parser_reset parser_static)" "pstate (protocol_parser_reset parser_static) = PARSER_STATE_WAIT_START"
    by (simp_all add: parser_inv_reset parser_static_def protocol_parser_reset_def parser_inv_def)
  show ?thesis
    using host_pwm_setup_served[OF dispatcher_init_inv(1)[of example_masks mcu_reset] example_env_ok p c _ _ room, of 9]
    by (simp add: pack wire tx dispatcher_init_inv(2) slot_for_def) blast
qed

end
